(* ===== verification/Horus_Prelude.thy ===== *)
theory Horus_Prelude
  imports Main "HOL-Library.Word" "HOL-Library.AList" "HOL-Library.Multiset"
begin

text \<open>
  The prelude of the Horus controller model: Go's integer widths, the outcome of a Go call
  (a value, a run-time panic, or a call of \<open>logrus.Fatal\<close>, which ends the process), and the
  generic facts on lists and words that the component theories share.

  Every operation of the model is a HOL function. An operation of the source that cannot fail is
  a plain function; one that can dereference a nil pointer, slice out of range or call
  \<open>logrus.Fatal\<close> returns a value of type \<open>'a go\<close>; a Go \<open>error\<close> result is a value of
  \<open>go_error + 'a\<close> inside it.
\<close>

section \<open>Integer widths\<close>

type_synonym u8 = "8 word"
type_synonym u16 = "16 word"
type_synonym u32 = "32 word"
type_synonym u64 = "64 word"

section \<open>Outcomes of Go calls\<close>

datatype 'a go =
    Ret 'a    \<comment> \<open>the call returned\<close>
  | Panic     \<comment> \<open>nil dereference or slice bounds out of range: the process crashes\<close>
  | Fatal     \<comment> \<open>\<open>logrus.Fatal\<close>: the process exits\<close>

fun go_bind :: "'a go \<Rightarrow> ('a \<Rightarrow> 'b go) \<Rightarrow> 'b go" where
  "go_bind (Ret x) f = f x"
| "go_bind Panic f = Panic"
| "go_bind Fatal f = Fatal"

text \<open>Dereference of a pointer that may be nil.\<close>

definition deref :: "'p option \<Rightarrow> ('p \<Rightarrow> 'b go) \<Rightarrow> 'b go" where
  "deref p f = (case p of None \<Rightarrow> Panic | Some r \<Rightarrow> f r)"

lemma deref_simps [simp]: "deref None f = Panic" "deref (Some r) f = f r"
  by (simp_all add: deref_def)

lemma go_bind_eq_Ret [simp]: "go_bind m f = Ret y \<longleftrightarrow> (\<exists>x. m = Ret x \<and> f x = Ret y)"
  by (cases m) auto

lemma deref_eq_Ret [simp]: "deref p f = Ret y \<longleftrightarrow> (\<exists>r. p = Some r \<and> f r = Ret y)"
  by (cases p) auto

text \<open>
  How a call that returned got there: rewriting with these facts turns \<open>f x = Ret y\<close> into the
  branches that lead to \<open>y\<close>.
\<close>

lemma case_sum_eq_Ret:
  "(case x of Inl e \<Rightarrow> f e | Inr v \<Rightarrow> g v) = Ret y \<longleftrightarrow>
     (\<exists>e. x = Inl e \<and> f e = Ret y) \<or> (\<exists>v. x = Inr v \<and> g v = Ret y)"
  by (cases x) auto

lemma case_option_eq_Ret:
  "(case x of None \<Rightarrow> a | Some v \<Rightarrow> g v) = Ret y \<longleftrightarrow>
     x = None \<and> a = Ret y \<or> (\<exists>v. x = Some v \<and> g v = Ret y)"
  by (cases x) auto

lemma case_prod_eq_Ret:
  "(case x of (a, b) \<Rightarrow> f a b) = Ret y \<longleftrightarrow> (\<exists>a b. x = (a, b) \<and> f a b = Ret y)"
  by (cases x) auto

lemma if_eq_Ret:
  "(if b then m else m') = Ret y \<longleftrightarrow> b \<and> m = Ret y \<or> \<not> b \<and> m' = Ret y"
  by auto

lemmas returned = case_sum_eq_Ret case_option_eq_Ret case_prod_eq_Ret if_eq_Ret

lemma go_bind_cong [fundef_cong]:
  "m = m' \<Longrightarrow> (\<And>x. m' = Ret x \<Longrightarrow> f x = g x) \<Longrightarrow> go_bind m f = go_bind m' g"
  by (cases m') auto

lemma deref_cong [fundef_cong]:
  "p = p' \<Longrightarrow> (\<And>r. p' = Some r \<Longrightarrow> f r = g r) \<Longrightarrow> deref p f = deref p' g"
  by (cases p') auto

lemma go_bind_assoc: "go_bind (go_bind m f) g = go_bind m (\<lambda>x. go_bind (f x) g)"
  by (cases m) auto

text \<open>
  Lifting a loop body that may fail over a list: the loop stops at the first failure, as the
  process does.
\<close>

fun go_fold :: "('x \<Rightarrow> 's \<Rightarrow> 's go) \<Rightarrow> 'x list \<Rightarrow> 's \<Rightarrow> 's go" where
  "go_fold f [] s = Ret s"
| "go_fold f (x # xs) s = go_bind (f x s) (\<lambda>s'. go_fold f xs s')"

lemma go_fold_append:
  "go_fold f (xs @ ys) s = go_bind (go_fold f xs s) (go_fold f ys)"
  by (induction xs arbitrary: s) (auto simp: go_bind_assoc intro: go_bind_cong)

text \<open>The rule for such loops: an invariant that every iteration establishes again.\<close>

lemma go_fold_inv:
  assumes "go_fold f xs s = Ret s'" and "P s"
    and "\<And>x t t'. x \<in> set xs \<Longrightarrow> P t \<Longrightarrow> f x t = Ret t' \<Longrightarrow> P t'"
  shows "P s'"
  using assms by (induction xs arbitrary: s) auto

lemma fold_inv:
  assumes "P s" and "\<And>x t. x \<in> set xs \<Longrightarrow> P t \<Longrightarrow> P (f x t)"
  shows "P (fold f xs s)"
  using assms by (induction xs arbitrary: s) auto

text \<open>What one iteration establishes and the later ones keep holds at the end.\<close>

lemma fold_establishes:
  assumes "x \<in> set xs" and "\<And>t. P (f x t)" and "\<And>y t. P t \<Longrightarrow> P (f y t)"
  shows "P (fold f xs s)"
  using assms(1)
proof (induction xs arbitrary: s)
  case (Cons y ys)
  then show ?case using assms(2,3) by (cases "x = y") (auto intro: fold_inv)
qed simp

section \<open>Error values\<close>

text \<open>The errors the modelled functions build, one constructor per message of the source.\<close>

datatype go_error =
    ErrNoAsic string                 \<comment> \<open>ASIC ... doesn't exist\<close>
  | ErrNoPort string string          \<comment> \<open>ASIC ... has no port ...\<close>
  | ErrNoSpine u16                   \<comment> \<open>spine ... doesn't exist\<close>
  | ErrLeafExists u16
  | ErrLeafMismatch u16              \<comment> \<open>already exists with mismatched spine\<close>
  | ErrLeafAddress string string     \<comment> \<open>leaf address is already being used in the manager\<close>
  | ErrNoLeaf u16
  | ErrServerExists u32
  | ErrServerMismatch u32
  | ErrVCNoSpine u32
  | ErrVCNoServer u32
  | ErrVCNoLeaf
  | ErrVCExists u16
  | ErrVCNotExist u16
  | ErrNotSupported string
  | ErrTopoAtLeaf u32                \<comment> \<open>couldn't return TopoInfo for leaf\<close>
  | ErrVCsOfLeaf u32                 \<comment> \<open>virtual clusters for leaf ... don't exist\<close>
  | ErrLeafNil                       \<comment> \<open>leaf doesn't exist\<close>
  | ErrPortConfig string string string string
  | ErrPortSpec string               \<comment> \<open>spec ... is invalid\<close>
  | ErrPacketTooSmall
  | ErrNoPool u16                    \<comment> \<open>the pool for ... doesn't exist\<close>
  | ErrMsg string                    \<comment> \<open>an error with a constant text\<close>
  | ErrTable string go_error         \<comment> \<open>setting up table ... failed\<close>
  | ErrExternal string               \<comment> \<open>an error returned by a library\<close>

section \<open>Generic facts on lists\<close>

lemma filter_eq_remove_index:
  assumes "i < length xs" and "\<And>j. j < length xs \<Longrightarrow> P (xs ! j) \<longleftrightarrow> j \<noteq> i"
  shows "take i xs @ drop (Suc i) xs = filter P xs"
proof -
  have "filter P (take i xs) = take i xs"
    using assms by (auto simp: filter_id_conv in_set_conv_nth)
  moreover have "filter P (drop (Suc i) xs) = drop (Suc i) xs"
    using assms(2) by (force simp: filter_id_conv in_set_conv_nth)
  moreover have "filter P xs = filter P (take i xs @ xs ! i # drop (Suc i) xs)"
    using assms(1) by (simp add: id_take_nth_drop [symmetric])
  ultimately show ?thesis using assms by auto
qed

lemma set_remove_index:
  "distinct xs \<Longrightarrow> i < length xs \<Longrightarrow> set (take i xs @ drop (Suc i) xs) = set xs - {xs ! i}"
  by (subst filter_eq_remove_index [where P = "\<lambda>x. x \<noteq> xs ! i"])
    (auto simp: nth_eq_iff_index_eq)

lemma distinct_remove_index:
  assumes "distinct xs"
  shows "distinct (take i xs @ drop (Suc i) xs)"
proof (cases "i < length xs")
  case True
  with assms have "take i xs @ drop (Suc i) xs = filter (\<lambda>x. x \<noteq> xs ! i) xs"
    by (intro filter_eq_remove_index) (auto simp: nth_eq_iff_index_eq)
  with assms show ?thesis by simp
next
  case False
  with assms show ?thesis by simp
qed

lemma distinct_snoc: "distinct (xs @ [x]) \<longleftrightarrow> x \<notin> set xs \<and> distinct xs"
  by auto

lemma filter_neq_id [simp]: "v \<notin> set xs \<Longrightarrow> filter (\<lambda>x. x \<noteq> v) xs = xs"
  by (auto simp: filter_id_conv)

section \<open>Invariants\<close>

text \<open>
  Runs of labelled steps: what happens, in order. An abstract specification replays the labels, and refuses
  one that it does not allow in its state.
\<close>

inductive trace :: "('s \<Rightarrow> 'e \<Rightarrow> 's \<Rightarrow> bool) \<Rightarrow> 's \<Rightarrow> 'e list \<Rightarrow> 's \<Rightarrow> bool" for step where
  trace_Nil: "trace step s [] s"
| trace_Cons: "step s e t \<Longrightarrow> trace step t es u \<Longrightarrow> trace step s (e # es) u"

fun replay :: "('e \<Rightarrow> 'a \<Rightarrow> 'a option) \<Rightarrow> 'e list \<Rightarrow> 'a \<Rightarrow> 'a option" where
  "replay spec [] a = Some a"
| "replay spec (e # es) a = (case spec e a of None \<Rightarrow> None | Some b \<Rightarrow> replay spec es b)"

text \<open>What the properties over sequences of steps rely on; every step relation of the model interprets it.\<close>

locale invariant =
  fixes inv :: "'s \<Rightarrow> bool" and step :: "'s \<Rightarrow> 's \<Rightarrow> bool"
  assumes inv_step: "inv s \<Longrightarrow> step s t \<Longrightarrow> inv t"
begin

lemma reachable:
  assumes "step\<^sup>*\<^sup>* s t" and "inv s"
  shows "inv t"
  using assms by (induction rule: rtranclp_induct) (auto intro: inv_step)

end

section \<open>Words\<close>

lemma word_diff_Suc_cancel [simp]: "(a + b - 1) - a + 1 = (b :: 'a::len word)"
  by simp

end
