(* ===== verification/Go_Maps.thy ===== *)
theory Go_Maps
  imports Horus_Prelude
begin

text \<open>
  The map types of the controller. The source wraps every \<open>map[K]V\<close> in a struct with a lock
  and the same four methods (\<open>NodeMap\<close> in core/model/node.go, \<open>PortConfigMap\<close> and
  \<open>PortMap\<close> in core/model/port.go, \<open>AsicMap\<close> in core/model/asic.go, \<open>ByteChanMap\<close> in
  core/model/byte\_chan\_map.go, \<open>vcMap\<close> in core/vcManager.go, \<open>clientMap\<close> in
  ctrl\_central/cp.go). A map is an association list without duplicate keys. The locks make each
  method one atomic step; they carry no data.

  The order in which \<open>range\<close> visits a map is not defined by Go. \<open>go_range ord m\<close> is the list
  of visited entries when the run-time picks the order \<open>ord\<close> (a permutation of the positions
  for every length); the theorems hold for every such \<open>ord\<close>.

  The locale \<open>go_map\<close> states what the callers rely on; it is interpreted on the association
  lists that all these types share.
\<close>

section \<open>The map operations\<close>

type_synonym ('k, 'v) gomap = "('k \<times> 'v) list"

definition gm_empty :: "('k, 'v) gomap" where
  "gm_empty = []"

definition gm_load :: "('k, 'v) gomap \<Rightarrow> 'k \<Rightarrow> 'v option" where
  "gm_load m k = map_of m k"

definition gm_store :: "'k \<Rightarrow> 'v \<Rightarrow> ('k, 'v) gomap \<Rightarrow> ('k, 'v) gomap" where
  "gm_store k v m = AList.update k v m"

definition gm_delete :: "'k \<Rightarrow> ('k, 'v) gomap \<Rightarrow> ('k, 'v) gomap" where
  "gm_delete k m = AList.delete k m"

definition gm_wf :: "('k, 'v) gomap \<Rightarrow> bool" where
  "gm_wf m \<longleftrightarrow> distinct (map fst m)"

text \<open>The same methods under the names of the types that have them.\<close>

definition NodeMap_Load :: "(u16, 'v) gomap \<Rightarrow> u16 \<Rightarrow> 'v option" where
  [simp]: "NodeMap_Load rm key = gm_load rm key"

definition NodeMap_Store :: "u16 \<Rightarrow> 'v \<Rightarrow> (u16, 'v) gomap \<Rightarrow> (u16, 'v) gomap" where
  [simp]: "NodeMap_Store key v rm = gm_store key v rm"

definition NodeMap_Delete :: "u16 \<Rightarrow> (u16, 'v) gomap \<Rightarrow> (u16, 'v) gomap" where
  [simp]: "NodeMap_Delete key rm = gm_delete key rm"

definition PortConfigMap_Load :: "(string, 'v) gomap \<Rightarrow> string \<Rightarrow> 'v option" where
  [simp]: "PortConfigMap_Load rm key = gm_load rm key"

definition PortConfigMap_Store :: "string \<Rightarrow> 'v \<Rightarrow> (string, 'v) gomap \<Rightarrow> (string, 'v) gomap" where
  [simp]: "PortConfigMap_Store key v rm = gm_store key v rm"

definition PortMap_Load :: "(string, 'v) gomap \<Rightarrow> string \<Rightarrow> 'v option" where
  [simp]: "PortMap_Load rm key = gm_load rm key"

definition PortMap_Store :: "string \<Rightarrow> 'v \<Rightarrow> (string, 'v) gomap \<Rightarrow> (string, 'v) gomap" where
  [simp]: "PortMap_Store key v rm = gm_store key v rm"

definition AsicMap_Load :: "(string, 'v) gomap \<Rightarrow> string \<Rightarrow> 'v option" where
  [simp]: "AsicMap_Load rm key = gm_load rm key"

definition AsicMap_Store :: "string \<Rightarrow> 'v \<Rightarrow> (string, 'v) gomap \<Rightarrow> (string, 'v) gomap" where
  [simp]: "AsicMap_Store key v rm = gm_store key v rm"

definition vcMap_Load :: "(u16, 'v) gomap \<Rightarrow> u16 \<Rightarrow> 'v option" where
  [simp]: "vcMap_Load rm key = gm_load rm key"

definition vcMap_Store :: "u16 \<Rightarrow> 'v \<Rightarrow> (u16, 'v) gomap \<Rightarrow> (u16, 'v) gomap" where
  [simp]: "vcMap_Store key v rm = gm_store key v rm"

definition vcMap_Delete :: "u16 \<Rightarrow> (u16, 'v) gomap \<Rightarrow> (u16, 'v) gomap" where
  [simp]: "vcMap_Delete key rm = gm_delete key rm"

section \<open>What a caller relies on\<close>

locale go_map =
  fixes empty :: "'m"
    and load :: "'m \<Rightarrow> 'k \<Rightarrow> 'v option"
    and store :: "'k \<Rightarrow> 'v \<Rightarrow> 'm \<Rightarrow> 'm"
    and delete :: "'k \<Rightarrow> 'm \<Rightarrow> 'm"
    and wf :: "'m \<Rightarrow> bool"
  assumes load_empty: "load empty k = None"
    and load_store: "load (store k v m) = (load m)(k \<mapsto> v)"
    and load_delete: "load (delete k m) = (load m)(k := None)"
    and wf_empty: "wf empty"
    and wf_store: "wf m \<Longrightarrow> wf (store k v m)"
    and wf_delete: "wf m \<Longrightarrow> wf (delete k m)"
begin

lemma load_store_same: "load (store k v m) k = Some v"
  by (simp add: load_store)

lemma load_delete_same: "load (delete k m) k = None"
  by (simp add: load_delete)

lemma dom_store: "dom (load (store k v m)) = insert k (dom (load m))"
  by (simp add: load_store)

lemma dom_delete: "dom (load (delete k m)) = dom (load m) - {k}"
  by (simp add: load_delete)

lemma delete_store: "load m k = None \<Longrightarrow> load (delete k (store k v m)) = load m"
  by (auto simp: load_store load_delete fun_eq_iff)

text \<open>Storing a list of entries one after the other, and deleting a list of keys.\<close>

lemma load_store_all:
  "load (fold (\<lambda>(k, v). store k v) kvs m) = load m ++ map_of (rev kvs)"
  by (induction kvs arbitrary: m) (auto simp: load_store map_add_def fun_eq_iff split: option.splits)

lemma load_delete_all:
  "load (fold delete ks m) k = (if k \<in> set ks then None else load m k)"
  by (induction ks arbitrary: m) (auto simp: load_delete)

lemma wf_store_all: "wf m \<Longrightarrow> wf (fold (\<lambda>(k, v). store k v) kvs m)"
  by (induction kvs arbitrary: m) (auto intro: wf_store)

end

interpretation gm: go_map gm_empty gm_load gm_store gm_delete gm_wf
  by unfold_locales
    (auto simp: gm_empty_def gm_load_def gm_store_def gm_delete_def gm_wf_def
       AList.update_conv' AList.delete_conv' fun_eq_iff
       intro: AList.distinct_update AList.distinct_delete)

declare gm.load_empty [simp] gm.load_store [simp] gm.load_delete [simp]
  gm.wf_empty [simp] gm.wf_store [simp] gm.wf_delete [simp]

text \<open>The functions that evaluate closed maps in the witnesses.\<close>

lemmas gm_eval = gm_empty_def gm_load_def gm_store_def gm_delete_def gm_wf_def

section \<open>Iteration\<close>

type_synonym order = "nat \<Rightarrow> nat list"

definition is_order :: "order \<Rightarrow> bool" where
  "is_order ord \<longleftrightarrow> (\<forall>n. mset (ord n) = mset [0..<n])"

definition go_range :: "order \<Rightarrow> ('k, 'v) gomap \<Rightarrow> ('k \<times> 'v) list" where
  "go_range ord m = map ((!) m) (ord (length m))"

text \<open>The order in which the entries are stored, used by the witnesses.\<close>

definition stored_order :: order where
  "stored_order n = [0..<n]"

lemma is_order_stored [simp]: "is_order stored_order"
  by (simp add: is_order_def stored_order_def)

lemma go_range_stored [simp]: "go_range stored_order m = m"
  by (simp add: go_range_def stored_order_def map_nth)

lemma mset_go_range: "is_order ord \<Longrightarrow> mset (go_range ord m) = mset m"
proof -
  assume "is_order ord"
  then have "mset (go_range ord m) = image_mset ((!) m) (mset [0..<length m])"
    by (simp add: go_range_def is_order_def)
  also have "\<dots> = mset (map ((!) m) [0..<length m])" by simp
  finally show ?thesis by (simp add: map_nth)
qed

lemma set_go_range [simp]: "is_order ord \<Longrightarrow> set (go_range ord m) = set m"
  by (metis mset_go_range set_mset_mset)

lemma length_go_range [simp]: "is_order ord \<Longrightarrow> length (go_range ord m) = length m"
  by (metis mset_go_range size_mset)

lemma distinct_go_range [simp]:
  "is_order ord \<Longrightarrow> gm_wf m \<Longrightarrow> distinct (map fst (go_range ord m))"
  by (metis gm_wf_def mset_eq_imp_distinct_iff mset_go_range mset_map)

lemma go_range_Nil [simp]: "is_order ord \<Longrightarrow> go_range ord [] = []"
  by (metis length_0_conv length_go_range list.size(3))

lemma gm_load_iff: "gm_wf m \<Longrightarrow> gm_load m k = Some v \<longleftrightarrow> (k, v) \<in> set m"
  by (simp add: gm_load_def gm_wf_def)

lemma gm_load_dom: "k \<in> fst ` set m \<longleftrightarrow> gm_load m k \<noteq> None"
  by (simp add: gm_load_def map_of_eq_None_iff)

lemma gm_empty_iff: "m = [] \<longleftrightarrow> (\<forall>k. gm_load m k = None)"
  by (cases m) (auto simp: gm_load_def split: if_splits)

lemma gm_range_load:
  "is_order ord \<Longrightarrow> gm_wf m \<Longrightarrow> (k, v) \<in> set (go_range ord m) \<longleftrightarrow> gm_load m k = Some v"
  by (simp add: gm_load_iff)

end
