(* ===== verification/Config_Messages.thy ===== *)
theory Config_Messages
  imports Go_Maps
begin

text \<open>
  The data that enters the controllers: the messages of protobuf/message.proto and the
  configuration structs of core/model/config.go. A message-typed field may be absent, which the
  generated Go code represents by a nil pointer: such a field has type \<open>option\<close>. The elements of
  a repeated field are never nil. Reading the files (viper) is outside the model.
\<close>

section \<open>protobuf/message.proto\<close>

record PortConfigInfo =
  pciID :: string
  pciSpeed :: string
  pciFec :: string
  pciAn :: string

record PortInfo =
  piID :: string
  piCage :: u32
  piLane :: u32
  piDevPort :: u64
  piPortConfig :: "PortConfigInfo option"

record AsicInfo =
  aiID :: string
  aiProgram :: string
  aiDeviceID :: u32
  aiPipeID :: u32
  aiCtrlAddress :: string
  aiCtrlAPI :: string
  aiPortsInfo :: "PortInfo list"

record ServerInfo =
  siId :: u32
  siAddress :: string
  siWorkersCount :: u32
  siLeafID :: u32
  siPort :: "PortInfo option"

record LeafInfo =
  liId :: u32
  liIndex :: u32
  liAddress :: string
  liMgmtAddress :: string
  liServers :: "ServerInfo list"
  liSpineID :: u32
  liAsic :: "AsicInfo option"
  liDsPort :: "PortInfo option"
  liUsPort :: "PortInfo option"

record SpineInfo =
  spId :: u32
  spAddress :: string
  spLeaves :: "LeafInfo list"
  spAsic :: "AsicInfo option"

record ClientInfo =
  ciId :: u32
  ciAddress :: string
  ciAsic :: "AsicInfo option"
  ciPort :: "PortInfo option"

record TopoInfo =
  tiSpines :: "SpineInfo list"
  tiClients :: "ClientInfo list"
  tiAsics :: "AsicInfo list"
  tiPortConfig :: "PortConfigInfo list"

record VCServerInfo =
  vsId :: u32
  vsWorkersIDs :: "u32 list"

record VCInfo =
  viId :: u32
  viSpines :: "u32 list"
  viServers :: "VCServerInfo list"

text \<open>\<open>HorusResponse\<close> has one field, the status string.\<close>

datatype HorusResponse = HorusResponse (Status: string)

datatype VCsResponse = VCsResponse (Vcs: "VCInfo list")

section \<open>core/model/config.go\<close>

record portConfig =
  cpID :: string
  cpSpeed :: string
  cpFec :: string
  cpAn :: string

record asicConfig =
  caID :: string
  caProgram :: string
  caDeviceID :: u64
  caPipeID :: u64
  caCtrlAddress :: string
  caCtrlAPI :: string

record portGroup =
  cgSpecs :: "string list"
  cgConfig :: string
  cgAsic :: string

record clientConfig =
  ccID :: u16
  ccPort :: string
  ccAsic :: string

record spineConfig =
  csID :: u16
  csAddress :: string
  csLeafIDs :: "u16 list"
  csAsic :: string

record leafConfig =
  clID :: u16
  clIndex :: u16
  clAddress :: string
  clMgmtAddress :: string
  clServerIDs :: "u16 list"
  clAsic :: string
  clUsPort :: string
  clDsPort :: string

record serverConfig =
  cvID :: u16
  cvPort :: string
  cvAddress :: string
  cvWorkersCount :: u16

record topoConfig =
  tcClients :: "clientConfig list"
  tcSpines :: "spineConfig list"
  tcLeaves :: "leafConfig list"
  tcServers :: "serverConfig list"

record topoRootConfig =
  trTopo :: topoConfig
  trAsics :: "asicConfig list"
  trPortConfig :: "portConfig list"
  trPortGroup :: "portGroup list"

end
