(* ===== verification/Ports.thy ===== *)
theory Ports
  imports Go_Strings Config_Messages
begin

text \<open>
  Port configurations, port specifications and the port registry of one ASIC
  (core/model/port.go). Ports are objects with identity: the nodes of the topology hold pointers
  to them and \<open>SetDevPort\<close> writes through such a pointer. They live in the list \<open>hPorts\<close> of the
  hardware store; a pointer is a position in it. A \<open>PortConfig\<close> is never written after its
  creation, so it is a value.
\<close>

section \<open>Port configurations\<close>

definition BfSpeedSet :: "(string, string) gomap" where
  "BfSpeedSet = map (\<lambda>s. (s, s))
     [''BF_SPEED_1G'', ''BF_SPEED_10G'', ''BF_SPEED_25G'', ''BF_SPEED_40G'',
      ''BF_SPEED_50G'', ''BF_SPEED_100G'', ''BF_SPEED_200G'', ''BF_SPEED_400G'']"

definition BfFecSet :: "(string, string) gomap" where
  "BfFecSet = map (\<lambda>s. (s, s))
     [''BF_FEC_TYP_NONE'', ''BF_FEC_TYP_FIRECODE'', ''BF_FEC_TYP_REED_SOLOMON'']"

definition BfAnSet :: "(string, string) gomap" where
  "BfAnSet = map (\<lambda>s. (s, s))
     [''PM_AN_DEFAULT'', ''PM_AN_FORCE_ENABLE'', ''PM_AN_FORCE_DISABLE'']"

definition BfSpeedMap :: "(string, string) gomap" where
  "BfSpeedMap =
     [(''1G'', ''BF_SPEED_1G''), (''10G'', ''BF_SPEED_10G''), (''25G'', ''BF_SPEED_25G''),
      (''40G'', ''BF_SPEED_40G''), (''50G'', ''BF_SPEED_50G''), (''100G'', ''BF_SPEED_100G''),
      (''200G'', ''BF_SPEED_200G''), (''400G'', ''BF_SPEED_400G'')]"

definition BfFecMap :: "(string, string) gomap" where
  "BfFecMap =
     [(''NONE'', ''BF_FEC_TYP_NONE''), (''FC'', ''BF_FEC_TYP_FIRECODE''),
      (''RS'', ''BF_FEC_TYP_REED_SOLOMON'')]"

definition BfAnMap :: "(string, string) gomap" where
  "BfAnMap =
     [(''AUTO'', ''PM_AN_DEFAULT''), (''ENABLED'', ''PM_AN_FORCE_ENABLE''),
      (''DISABLED'', ''PM_AN_FORCE_DISABLE'')]"

record PortConfig =
  pcID :: string
  pcSpeed :: string
  pcFec :: string
  pcAn :: string

text \<open>The three lookups of one round succeed together or the round fails.\<close>

fun all_found :: "'a option \<Rightarrow> 'b option \<Rightarrow> 'c option \<Rightarrow> ('a \<times> 'b \<times> 'c) option" where
  "all_found (Some a) (Some b) (Some c) = Some (a, b, c)"
| "all_found _ _ _ = None"

lemma all_found_Some [simp]:
  "all_found x y z = Some (a, b, c) \<longleftrightarrow> x = Some a \<and> y = Some b \<and> z = Some c"
  by (cases "(x, y, z)" rule: all_found.cases) auto

definition NewPortConfig :: "portConfig \<Rightarrow> go_error + PortConfig" where
  "NewPortConfig cfg =
     (let bfSpeedKey = ToUpper (cpSpeed cfg);
          bfFecKey = ToUpper (cpFec cfg);
          bfAnKey = ToUpper (cpAn cfg);
          direct = all_found (gm_load BfSpeedSet bfSpeedKey) (gm_load BfFecSet bfFecKey)
                     (gm_load BfAnSet bfAnKey);
          found = (case direct of
                     Some r \<Rightarrow> Some r
                   | None \<Rightarrow> all_found (gm_load BfSpeedMap bfSpeedKey) (gm_load BfFecMap bfFecKey)
                               (gm_load BfAnMap bfAnKey))
      in case found of
           Some (bfSpeed, bfFec, bfAn) \<Rightarrow>
             if cpID cfg \<noteq> []
             then Inr \<lparr>pcID = cpID cfg, pcSpeed = bfSpeed, pcFec = bfFec, pcAn = bfAn\<rparr>
             else Inl (ErrPortConfig (cpID cfg) bfSpeedKey bfFecKey bfAnKey)
         | None \<Rightarrow> Inl (ErrPortConfig (cpID cfg) bfSpeedKey bfFecKey bfAnKey))"

text \<open>A resolved configuration read back as a configuration entry.\<close>

definition to_portConfig :: "PortConfig \<Rightarrow> portConfig" where
  "to_portConfig c = \<lparr>cpID = pcID c, cpSpeed = pcSpeed c, cpFec = pcFec c, cpAn = pcAn c\<rparr>"

definition resolved :: "(string, string) gomap \<Rightarrow> string \<Rightarrow> bool" where
  "resolved m v \<longleftrightarrow> ToUpper v = v \<and> gm_load m v = Some v"

lemma upper_eval:
  "ToUpper (c # cs) = upper_char c # ToUpper cs" "ToUpper [] = []"
  by (simp_all add: ToUpper_def)

lemma resolved_speed:
  "gm_load BfSpeedSet k = Some v \<Longrightarrow> resolved BfSpeedSet v"
  "gm_load BfSpeedMap k = Some v \<Longrightarrow> resolved BfSpeedSet v"
  by (auto simp: gm_load_def BfSpeedSet_def BfSpeedMap_def resolved_def upper_eval
      upper_char_def Let_def split: if_splits)

lemma resolved_fec:
  "gm_load BfFecSet k = Some v \<Longrightarrow> resolved BfFecSet v"
  "gm_load BfFecMap k = Some v \<Longrightarrow> resolved BfFecSet v"
  by (auto simp: gm_load_def BfFecSet_def BfFecMap_def resolved_def upper_eval
      upper_char_def Let_def split: if_splits)

lemma resolved_an:
  "gm_load BfAnSet k = Some v \<Longrightarrow> resolved BfAnSet v"
  "gm_load BfAnMap k = Some v \<Longrightarrow> resolved BfAnSet v"
  by (auto simp: gm_load_def BfAnSet_def BfAnMap_def resolved_def upper_eval
      upper_char_def Let_def split: if_splits)

definition config_ok :: "PortConfig \<Rightarrow> bool" where
  "config_ok c \<longleftrightarrow> pcID c \<noteq> [] \<and> resolved BfSpeedSet (pcSpeed c) \<and>
     resolved BfFecSet (pcFec c) \<and> resolved BfAnSet (pcAn c)"

lemma NewPortConfig_ok: "NewPortConfig cfg = Inr c \<Longrightarrow> config_ok c \<and> pcID c = cpID cfg"
  by (auto simp: NewPortConfig_def Let_def config_ok_def resolved_speed resolved_fec resolved_an
      split: option.splits if_splits)

lemma NewPortConfig_resolved: "config_ok c \<Longrightarrow> NewPortConfig (to_portConfig c) = Inr c"
  by (simp add: NewPortConfig_def config_ok_def resolved_def to_portConfig_def)

section \<open>Port specifications\<close>

record PortSpec =
  psID :: string
  psCage :: u64
  psLane :: u64

definition NewPortSpec :: "u64 \<Rightarrow> u64 \<Rightarrow> PortSpec" where
  "NewPortSpec cage lane =
     \<lparr>psID = fmt_d (unat cage) @ [slash] @ fmt_d (unat lane), psCage = cage, psLane = lane\<rparr>"

definition expandPortSpec :: "string \<Rightarrow> go_error + PortSpec list" where
  "expandPortSpec spec =
     (let trimmedSpec = TrimSpace spec in
      if slash \<notin> set trimmedSpec then Inl (ErrPortSpec spec)
      else case Split slash trimmedSpec of
        [cageStr, laneStr] \<Rightarrow>
          (case Atoi cageStr of
             None \<Rightarrow> Inl (ErrPortSpec spec)
           | Some cage \<Rightarrow>
               if laneStr = ''-'' then
                 Inr [NewPortSpec (word_of_int cage) 0, NewPortSpec (word_of_int cage) 1,
                      NewPortSpec (word_of_int cage) 2, NewPortSpec (word_of_int cage) 3]
               else (case Atoi laneStr of
                       None \<Rightarrow> Inl (ErrPortSpec spec)
                     | Some lane \<Rightarrow>
                         if lane < 0 \<or> lane > 3 then Inl (ErrPortSpec spec)
                         else Inr [NewPortSpec (word_of_int cage) (word_of_int lane)]))
      | _ \<Rightarrow> Inl (ErrPortSpec spec))"

lemma slash_not_digit: "slash \<notin> set (fmt_d n)"
  by (metis digit_not fmt_d_set)

lemma end_fmt_d: "\<not> is_space (last (fmt_d n))" "\<not> is_space (hd (fmt_d n))"
  using fmt_d_set [of "last (fmt_d n)" n] fmt_d_set [of "hd (fmt_d n)" n] digit_not
  by auto

lemma TrimSpace_spec: "TrimSpace (fmt_d m @ slash # fmt_d n) = fmt_d m @ slash # fmt_d n"
  by (rule TrimSpace_id) (auto simp: end_fmt_d)

lemma Split_spec: "Split slash (fmt_d m @ slash # fmt_d n) = [fmt_d m, fmt_d n]"
  by (simp add: Split_append Split_free slash_not_digit)

lemma psID_inj:
  assumes "psID (NewPortSpec c l) = psID (NewPortSpec c' l')"
  shows "c = c' \<and> l = l'"
proof -
  have "Split slash (psID (NewPortSpec c l)) = Split slash (psID (NewPortSpec c' l'))"
    using assms by simp
  then have "fmt_d (unat c) = fmt_d (unat c')" "fmt_d (unat l) = fmt_d (unat l')"
    by (simp_all add: NewPortSpec_def Split_spec)
  then show ?thesis by (metis fmt_d_inj unsigned_word_eqI)
qed

lemma expandPortSpec_spec:
  assumes "expandPortSpec s = Inr specs"
  shows "\<exists>cage lanes. specs = map (NewPortSpec cage) lanes \<and> distinct lanes \<and>
           (lanes = [0, 1, 2, 3] \<or> (\<exists>l. lanes = [l] \<and> l \<le> 3))"
proof -
  from assms consider (all) cage where "specs = map (NewPortSpec cage) [0, 1, 2, 3]"
    | (one) cage and lane :: int where "specs = [NewPortSpec cage (word_of_int lane)]"
        "0 \<le> lane" "lane \<le> 3"
    by (auto simp: expandPortSpec_def Let_def split: if_splits list.splits option.splits)
  then show ?thesis
  proof cases
    case all
    then show ?thesis by (intro exI [of _ cage] exI [of _ "[0, 1, 2, 3]"]) simp
  next
    case one
    from one(2,3) consider "lane = 0" | "lane = 1" | "lane = 2" | "lane = 3" by arith
    then have "(word_of_int lane :: u64) \<le> 3" by cases simp_all
    with one(1) show ?thesis
      by (intro exI [of _ cage] exI [of _ "[word_of_int lane]"]) simp
  qed
qed

section \<open>Ports and port registries\<close>

type_synonym aref = nat
type_synonym pref = nat

record Port =
  poSpec :: PortSpec
  poDevPort :: u64
  poConfig :: PortConfig
  poAsic :: aref

definition SetDevPort :: "u64 \<Rightarrow> Port \<Rightarrow> Port" where
  "SetDevPort devPort p = (if poDevPort p = 0 then p\<lparr>poDevPort := devPort\<rparr> else p)"

definition GetDevPort :: "Port \<Rightarrow> u64" where
  "GetDevPort p = poDevPort p"

definition NewPort :: "aref \<Rightarrow> PortSpec \<Rightarrow> PortConfig \<Rightarrow> Port" where
  "NewPort asic spec config = \<lparr>poSpec = spec, poDevPort = 0, poConfig = config, poAsic = asic\<rparr>"

definition Port_ToInfo :: "Port \<Rightarrow> PortInfo" where
  "Port_ToInfo p =
     \<lparr>piID = psID (poSpec p), piCage = ucast (psCage (poSpec p)), piLane = ucast (psLane (poSpec p)),
      piDevPort = GetDevPort p,
      piPortConfig = Some \<lparr>pciID = pcID (poConfig p), pciSpeed = pcSpeed (poConfig p),
                          pciFec = pcFec (poConfig p), pciAn = pcAn (poConfig p)\<rparr>\<rparr>"

record PortRegistry =
  prConfigMap :: "(string, PortConfig) gomap"
  prPortMap :: "(string, pref) gomap"

definition add_port_config ::
  "portConfig \<Rightarrow> (string, PortConfig) gomap \<Rightarrow> (string, PortConfig) gomap" where
  "add_port_config cfg m =
     (case NewPortConfig cfg of
        Inl _ \<Rightarrow> m
      | Inr c \<Rightarrow> (case PortConfigMap_Load m (pcID c) of
                   None \<Rightarrow> PortConfigMap_Store (pcID c) c m
                 | Some _ \<Rightarrow> m))"

text \<open>One port of a group: the first definition of a \<open>cage/lane\<close> wins.\<close>

definition add_port ::
  "aref \<Rightarrow> PortConfig \<Rightarrow> u64 \<Rightarrow> PortSpec \<Rightarrow> (string, pref) gomap \<times> Port list
    \<Rightarrow> (string, pref) gomap \<times> Port list" where
  "add_port asic c devPort spec st =
     (case st of (m, ports) \<Rightarrow>
        (case PortMap_Load m (psID spec) of
           None \<Rightarrow> (PortMap_Store (psID spec) (length ports) m,
                    ports @ [SetDevPort devPort (NewPort asic spec c)])
         | Some _ \<Rightarrow> (m, ports)))"

text \<open>The specifications of a group: an invalid one is skipped with a warning.\<close>

definition group_specs :: "portGroup \<Rightarrow> PortSpec list" where
  "group_specs g =
     concat (map (\<lambda>s. case expandPortSpec s of Inl _ \<Rightarrow> [] | Inr specs \<Rightarrow> specs) (cgSpecs g))"

definition add_group ::
  "aref \<Rightarrow> (string, PortConfig) gomap \<Rightarrow> portGroup \<Rightarrow> (string, pref) gomap \<times> Port list
    \<Rightarrow> (string, pref) gomap \<times> Port list" where
  "add_group asic cm g st =
     (case PortConfigMap_Load cm (cgConfig g) of
        None \<Rightarrow> st
      | Some c \<Rightarrow> fold (add_port asic c 0) (group_specs g) st)"

definition NewPortRegistry ::
  "aref \<Rightarrow> portConfig list \<Rightarrow> portGroup list \<Rightarrow> Port list \<Rightarrow> PortRegistry \<times> Port list" where
  "NewPortRegistry asic portConfigs portGroups ports =
     (let cm = fold add_port_config portConfigs gm_empty;
          (pm, ports') = fold (add_group asic cm) portGroups (gm_empty, ports)
      in (\<lparr>prConfigMap = cm, prPortMap = pm\<rparr>, ports'))"

definition add_port_info ::
  "aref \<Rightarrow> (string, PortConfig) gomap \<Rightarrow> PortInfo \<Rightarrow> (string, pref) gomap \<times> Port list
    \<Rightarrow> ((string, pref) gomap \<times> Port list) go" where
  "add_port_info asic cm pi st =
     deref (piPortConfig pi) (\<lambda>pc.
       Ret (case PortConfigMap_Load cm (pciID pc) of
              None \<Rightarrow> st
            | Some c \<Rightarrow> add_port asic c (piDevPort pi)
                          (NewPortSpec (ucast (piCage pi)) (ucast (piLane pi))) st))"

definition info_portConfig :: "PortConfigInfo \<Rightarrow> portConfig" where
  "info_portConfig cfg =
     \<lparr>cpID = pciID cfg, cpSpeed = pciSpeed cfg, cpFec = pciFec cfg, cpAn = pciAn cfg\<rparr>"

definition NewPortRegistryFromInfo ::
  "aref \<Rightarrow> AsicInfo \<Rightarrow> PortConfigInfo list \<Rightarrow> Port list \<Rightarrow> (PortRegistry \<times> Port list) go" where
  "NewPortRegistryFromInfo asic ai portConfigs ports =
     (let cm = fold (\<lambda>cfg. add_port_config (info_portConfig cfg)) portConfigs gm_empty
      in go_bind (go_fold (add_port_info asic cm) (aiPortsInfo ai) (gm_empty, ports))
           (\<lambda>(pm, ports'). Ret (\<lparr>prConfigMap = cm, prPortMap = pm\<rparr>, ports')))"

section \<open>Invariants of a registry\<close>

text \<open>Configurations are filed under their own ID and use the names the switch driver knows.\<close>

definition configs_ok :: "(string, PortConfig) gomap \<Rightarrow> bool" where
  "configs_ok cm \<longleftrightarrow> gm_wf cm \<and> (\<forall>k c. gm_load cm k = Some c \<longrightarrow> pcID c = k \<and> config_ok c)"

lemma configs_ok_empty [simp]: "configs_ok gm_empty"
  by (simp add: configs_ok_def)

lemma add_port_config_ok: "configs_ok cm \<Longrightarrow> configs_ok (add_port_config cfg cm)"
  by (auto simp: configs_ok_def add_port_config_def dest: NewPortConfig_ok
      split: sum.splits option.splits)

lemma fold_configs_ok: "configs_ok cm \<Longrightarrow> configs_ok (fold (\<lambda>x. add_port_config (f x)) cfgs cm)"
  by (rule fold_inv [where P = configs_ok]) (auto intro: add_port_config_ok)

text \<open>
  The ports of a registry are filed under the ID of their specification, belong to the ASIC of the
  registry, use one of its configurations, and were all allocated after position \<open>base\<close>.
\<close>

definition port_entry_ok ::
  "aref \<Rightarrow> (string, PortConfig) gomap \<Rightarrow> nat \<Rightarrow> Port list \<Rightarrow> string \<Rightarrow> pref \<Rightarrow> bool" where
  "port_entry_ok asic cm base ports pid r \<longleftrightarrow>
     base \<le> r \<and> r < length ports \<and> psID (poSpec (ports ! r)) = pid \<and> poAsic (ports ! r) = asic \<and>
     poSpec (ports ! r) = NewPortSpec (psCage (poSpec (ports ! r))) (psLane (poSpec (ports ! r))) \<and>
     gm_load cm (pcID (poConfig (ports ! r))) = Some (poConfig (ports ! r))"

definition ports_ok ::
  "aref \<Rightarrow> (string, PortConfig) gomap \<Rightarrow> nat \<Rightarrow> (string, pref) gomap \<times> Port list \<Rightarrow> bool" where
  "ports_ok asic cm base st \<longleftrightarrow>
     gm_wf (fst st) \<and> base \<le> length (snd st) \<and>
     (\<forall>pid r. gm_load (fst st) pid = Some r \<longrightarrow> port_entry_ok asic cm base (snd st) pid r)"

lemma port_entry_ok_mono:
  "port_entry_ok asic cm base ports pid r \<Longrightarrow> port_entry_ok asic cm base (ports @ ps) pid r"
  by (auto simp: port_entry_ok_def nth_append)

definition is_spec :: "PortSpec \<Rightarrow> bool" where
  "is_spec sp \<longleftrightarrow> sp = NewPortSpec (psCage sp) (psLane sp)"

lemma is_spec_NewPortSpec [simp]: "is_spec (NewPortSpec c l)"
  by (simp add: is_spec_def NewPortSpec_def)

lemma add_port_ok:
  assumes "ports_ok asic cm base st" and "gm_load cm (pcID c) = Some c" and "is_spec sp"
  shows "ports_ok asic cm base (add_port asic c d sp st)"
  using assms
  by (cases st)
    (auto simp: ports_ok_def add_port_def SetDevPort_def NewPort_def is_spec_def
        split: option.splits intro: port_entry_ok_mono, auto simp: port_entry_ok_def)

lemma add_port_grows: "\<exists>ps. snd (add_port asic c d sp st) = snd st @ ps"
  by (cases st) (auto simp: add_port_def split: option.splits)

lemma add_port_keeps:
  "gm_load (fst st) pid = Some r \<Longrightarrow> gm_load (fst (add_port asic c d sp st)) pid = Some r"
  by (cases st) (auto simp: add_port_def split: option.splits)

lemma add_port_adds: "\<exists>r. gm_load (fst (add_port asic c d sp st)) (psID sp) = Some r"
  by (cases st) (auto simp: add_port_def split: option.splits)

lemma fold_add_port_ok:
  assumes "ports_ok asic cm base st" and "gm_load cm (pcID c) = Some c"
    and "\<And>sp. sp \<in> set sps \<Longrightarrow> is_spec sp"
  shows "ports_ok asic cm base (fold (add_port asic c d) sps st)"
  using assms by (intro fold_inv [where P = "ports_ok asic cm base"]) (auto intro: add_port_ok)

lemma fold_add_port_keeps:
  "gm_load (fst st) pid = Some r \<Longrightarrow> gm_load (fst (fold (add_port asic c d) sps st)) pid = Some r"
  by (rule fold_inv [where P = "\<lambda>st. gm_load (fst st) pid = Some r"]) (auto intro: add_port_keeps)

lemma fold_add_port_adds:
  "sp \<in> set sps \<Longrightarrow> \<exists>r. gm_load (fst (fold (add_port asic c d) sps st)) (psID sp) = Some r"
  by (rule fold_establishes [where P = "\<lambda>st. \<exists>r. gm_load (fst st) (psID sp) = Some r"])
    (auto intro: add_port_adds dest: add_port_keeps)

lemma fold_add_port_grows: "\<exists>ps. snd (fold (add_port asic c d) sps st) = snd st @ ps"
  by (rule fold_inv [where P = "\<lambda>t. \<exists>ps. snd t = snd st @ ps"])
    (simp, metis add_port_grows append.assoc)

lemma group_specs_is_spec: "sp \<in> set (group_specs g) \<Longrightarrow> is_spec sp"
  by (auto simp: group_specs_def dest!: expandPortSpec_spec [OF sym] split: sum.splits)

lemma add_group_ok:
  "configs_ok cm \<Longrightarrow> ports_ok asic cm base st \<Longrightarrow> ports_ok asic cm base (add_group asic cm g st)"
  by (auto simp: add_group_def configs_ok_def split: option.splits
      intro!: fold_add_port_ok group_specs_is_spec)

lemma add_group_keeps:
  "gm_load (fst st) pid = Some r \<Longrightarrow> gm_load (fst (add_group asic cm g st)) pid = Some r"
  by (auto simp: add_group_def split: option.splits intro: fold_add_port_keeps)

lemma add_group_grows: "\<exists>ps. snd (add_group asic cm g st) = snd st @ ps"
  by (auto simp: add_group_def split: option.splits intro: fold_add_port_grows)

lemma fold_add_group_ok:
  "configs_ok cm \<Longrightarrow> ports_ok asic cm base st \<Longrightarrow> ports_ok asic cm base (fold (add_group asic cm) gs st)"
  by (rule fold_inv [where P = "ports_ok asic cm base"]) (auto intro: add_group_ok)

lemma fold_add_group_grows: "\<exists>ps. snd (fold (add_group asic cm) gs st) = snd st @ ps"
  by (rule fold_inv [where P = "\<lambda>t. \<exists>ps. snd t = snd st @ ps"])
    (simp, metis add_group_grows append.assoc)

lemma fold_add_group_adds:
  assumes "g \<in> set gs" and "gm_load cm (cgConfig g) = Some c" and "sp \<in> set (group_specs g)"
  shows "\<exists>r. gm_load (fst (fold (add_group asic cm) gs st)) (psID sp) = Some r"
proof (rule fold_establishes [where P = "\<lambda>st. \<exists>r. gm_load (fst st) (psID sp) = Some r", OF assms(1)])
  show "\<exists>r. gm_load (fst (add_group asic cm g t)) (psID sp) = Some r" for t
    using fold_add_port_adds [OF assms(3)] by (simp add: add_group_def assms(2))
qed (blast intro: add_group_keeps)

lemma ports_ok_empty [simp]: "ports_ok asic cm (length ports) (gm_empty, ports)"
  by (simp add: ports_ok_def)

lemma NewPortRegistry_ok:
  assumes "NewPortRegistry asic pcs pgs ports = (pr, ports')"
  shows "configs_ok (prConfigMap pr)"
    and "ports_ok asic (prConfigMap pr) (length ports) (prPortMap pr, ports')"
    and "\<exists>ps. ports' = ports @ ps"
proof -
  let ?cm = "fold add_port_config pcs gm_empty"
  let ?st = "fold (add_group asic ?cm) pgs (gm_empty, ports)"
  have pr: "prConfigMap pr = ?cm" "(prPortMap pr, ports') = ?st"
    using assms by (auto simp: NewPortRegistry_def Let_def split: prod.splits)
  show cm: "configs_ok (prConfigMap pr)"
    using fold_configs_ok [of gm_empty id] by (simp add: pr)
  show "ports_ok asic (prConfigMap pr) (length ports) (prPortMap pr, ports')"
    unfolding pr(2) using cm by (auto simp: pr(1) intro: fold_add_group_ok)
  show "\<exists>ps. ports' = ports @ ps"
    using fold_add_group_grows [of asic ?cm pgs "(gm_empty, ports)"] by (simp flip: pr(2))
qed

end
