(* ===== verification/Asics.thy ===== *)
theory Asics
  imports Ports
begin

text \<open>
  Switch ASICs and their registry (core/model/asic.go). ASICs and ports are objects of the hardware
  store \<open>hw\<close>; a pointer is a position in the store's lists. An \<open>AsicRegistry\<close> is the map from
  ASIC IDs to pointers.
\<close>

section \<open>State\<close>

record Asic =
  asID :: string
  asProgram :: string
  asDeviceID :: u64
  asPipeID :: u64
  asCtrlAddress :: string
  asCtrlAPI :: string
  asPortRegistry :: PortRegistry

record hw =
  hPorts :: "Port list"
  hAsics :: "Asic list"

type_synonym AsicRegistry = "(string, aref) gomap"

definition port :: "hw \<Rightarrow> pref \<Rightarrow> Port" where
  "port h r = hPorts h ! r"

definition asic :: "hw \<Rightarrow> aref \<Rightarrow> Asic" where
  "asic h r = hAsics h ! r"

section \<open>Building a registry from the configuration\<close>

definition NewAsic :: "asicConfig \<Rightarrow> portConfig list \<Rightarrow> portGroup list \<Rightarrow> hw \<Rightarrow> aref \<times> hw" where
  "NewAsic cfg portConfigs portGroups h =
     (let a = length (hAsics h);
          (pr, ports') = NewPortRegistry a portConfigs portGroups (hPorts h)
      in (a, \<lparr>hPorts = ports',
              hAsics = hAsics h @
                [\<lparr>asID = caID cfg, asProgram = caProgram cfg, asDeviceID = caDeviceID cfg,
                  asPipeID = caPipeID cfg, asCtrlAddress = caCtrlAddress cfg,
                  asCtrlAPI = caCtrlAPI cfg, asPortRegistry = pr\<rparr>]\<rparr>))"

definition filterPortGroup :: "asicConfig \<Rightarrow> portGroup list \<Rightarrow> portGroup list" where
  "filterPortGroup cfg portGroups = filter (\<lambda>g. cgAsic g = caID cfg) portGroups"

definition add_asic ::
  "portConfig list \<Rightarrow> portGroup list \<Rightarrow> asicConfig \<Rightarrow> AsicRegistry \<times> hw \<Rightarrow> AsicRegistry \<times> hw" where
  "add_asic portConfigs portGroups cfg st =
     (case st of (ar, h) \<Rightarrow>
        let (a, h') = NewAsic cfg portConfigs (filterPortGroup cfg portGroups) h
        in (case AsicMap_Load ar (caID cfg) of
              None \<Rightarrow> (AsicMap_Store (caID cfg) a ar, h')
            | Some _ \<Rightarrow> (ar, h')))"

definition NewAsicRegistry ::
  "asicConfig list \<Rightarrow> portConfig list \<Rightarrow> portGroup list \<Rightarrow> hw \<Rightarrow> AsicRegistry \<times> hw" where
  "NewAsicRegistry asicConfigs portConfigs portGroups h =
     fold (add_asic portConfigs portGroups) asicConfigs (gm_empty, h)"

section \<open>Building a registry from a received message\<close>

definition NewAsicFromInfo :: "AsicInfo \<Rightarrow> PortConfigInfo list \<Rightarrow> hw \<Rightarrow> (aref \<times> hw) go" where
  "NewAsicFromInfo ai portConfigs h =
     (let a = length (hAsics h) in
      go_bind (NewPortRegistryFromInfo a ai portConfigs (hPorts h)) (\<lambda>(pr, ports').
        Ret (a, \<lparr>hPorts = ports',
                 hAsics = hAsics h @
                   [\<lparr>asID = aiID ai, asProgram = aiProgram ai, asDeviceID = ucast (aiDeviceID ai),
                     asPipeID = ucast (aiPipeID ai), asCtrlAddress = aiCtrlAddress ai,
                     asCtrlAPI = aiCtrlAPI ai, asPortRegistry = pr\<rparr>]\<rparr>)))"

definition add_asic_info ::
  "PortConfigInfo list \<Rightarrow> AsicInfo \<Rightarrow> AsicRegistry \<times> hw \<Rightarrow> (AsicRegistry \<times> hw) go" where
  "add_asic_info portConfigs ai st =
     (case st of (ar, h) \<Rightarrow>
        go_bind (NewAsicFromInfo ai portConfigs h) (\<lambda>(a, h').
          Ret (case AsicMap_Load ar (aiID ai) of
                 None \<Rightarrow> (AsicMap_Store (aiID ai) a ar, h')
               | Some _ \<Rightarrow> (ar, h'))))"

definition NewAsicRegistryFromInfo ::
  "AsicInfo list \<Rightarrow> PortConfigInfo list \<Rightarrow> hw \<Rightarrow> (AsicRegistry \<times> hw) go" where
  "NewAsicRegistryFromInfo asicInfo portConfigs h =
     go_fold (add_asic_info portConfigs) asicInfo (gm_empty, h)"

section \<open>Encoding a registry\<close>

definition Asic_ToInfo :: "order \<Rightarrow> hw \<Rightarrow> aref \<Rightarrow> AsicInfo" where
  "Asic_ToInfo ord h a =
     \<lparr>aiID = asID (asic h a), aiProgram = asProgram (asic h a),
      aiDeviceID = ucast (asDeviceID (asic h a)), aiPipeID = ucast (asPipeID (asic h a)),
      aiCtrlAddress = asCtrlAddress (asic h a), aiCtrlAPI = asCtrlAPI (asic h a),
      aiPortsInfo = map (\<lambda>(_, p). Port_ToInfo (port h p))
                      (go_range ord (prPortMap (asPortRegistry (asic h a))))\<rparr>"

definition EncodeToAsicInfo :: "order \<Rightarrow> AsicRegistry \<Rightarrow> hw \<Rightarrow> AsicInfo list" where
  "EncodeToAsicInfo ord ar h = map (\<lambda>(_, a). Asic_ToInfo ord h a) (go_range ord ar)"

text \<open>Only the configurations of the first ASIC visited are sent: the loop ends with \<open>break\<close>.\<close>

definition EncodeToPortConfigInfo :: "order \<Rightarrow> AsicRegistry \<Rightarrow> hw \<Rightarrow> PortConfigInfo list" where
  "EncodeToPortConfigInfo ord ar h =
     (case go_range ord ar of
        [] \<Rightarrow> []
      | (_, a) # _ \<Rightarrow>
          map (\<lambda>(_, c). \<lparr>pciID = pcID c, pciSpeed = pcSpeed c, pciFec = pcFec c, pciAn = pcAn c\<rparr>)
            (go_range ord (prConfigMap (asPortRegistry (asic h a)))))"

section \<open>Invariant of the hardware store\<close>

text \<open>
  Every ASIC on file is filed under its own ID, and its registry holds its own ports only, each
  under the ID of its specification.
\<close>

definition asic_ok :: "hw \<Rightarrow> aref \<Rightarrow> bool" where
  "asic_ok h a \<longleftrightarrow> a < length (hAsics h) \<and>
     configs_ok (prConfigMap (asPortRegistry (asic h a))) \<and>
     gm_wf (prPortMap (asPortRegistry (asic h a))) \<and>
     (\<forall>pid r. gm_load (prPortMap (asPortRegistry (asic h a))) pid = Some r \<longrightarrow>
        port_entry_ok a (prConfigMap (asPortRegistry (asic h a))) 0 (hPorts h) pid r)"

definition registry_ok :: "AsicRegistry \<Rightarrow> hw \<Rightarrow> bool" where
  "registry_ok ar h \<longleftrightarrow> gm_wf ar \<and>
     (\<forall>k a. gm_load ar k = Some a \<longrightarrow> asID (asic h a) = k \<and> asic_ok h a)"

lemma registry_ok_empty [simp]: "registry_ok gm_empty h"
  by (simp add: registry_ok_def)

lemma asic_append: "a < length as \<Longrightarrow> asic \<lparr>hPorts = ps, hAsics = as @ bs\<rparr> a = as ! a"
  by (simp add: asic_def nth_append)

text \<open>Adding an ASIC and its ports at the end of the store leaves the older ASICs as they were.\<close>

lemma asic_ok_extend:
  assumes "asic_ok h a" and "hPorts h' = hPorts h @ ps" and "hAsics h' = hAsics h @ as"
  shows "asic_ok h' a" and "asic h' a = asic h a"
proof -
  have "asic h' a = asic h a"
    using assms by (simp add: asic_ok_def asic_def nth_append)
  then show "asic h' a = asic h a" .
  with assms show "asic_ok h' a"
    by (auto simp: asic_ok_def intro: port_entry_ok_mono)
qed

lemma registry_ok_store:
  assumes "registry_ok ar h" and "hPorts h' = hPorts h @ ps" and "hAsics h' = hAsics h @ as"
    and "asID (asic h' a) = k" and "asic_ok h' a"
  shows "registry_ok (gm_store k a ar) h'"
  using assms asic_ok_extend [OF _ assms(2,3)] by (auto simp: registry_ok_def)

lemma registry_ok_extend:
  assumes "registry_ok ar h" and "hPorts h' = hPorts h @ ps" and "hAsics h' = hAsics h @ as"
  shows "registry_ok ar h'"
  using assms asic_ok_extend [OF _ assms(2,3)] by (auto simp: registry_ok_def)

lemma port_entry_ok_base: "port_entry_ok a cm b ports pid r \<Longrightarrow> port_entry_ok a cm 0 ports pid r"
  by (simp add: port_entry_ok_def)

lemma NewAsic_ok:
  assumes "NewAsic cfg pcs pgs h = (a, h')"
  shows "asic_ok h' a" and "asID (asic h' a) = caID cfg"
    and "\<exists>ps as. hPorts h' = hPorts h @ ps \<and> hAsics h' = hAsics h @ as"
proof -
  obtain pr ports' where pr: "NewPortRegistry (length (hAsics h)) pcs pgs (hPorts h) = (pr, ports')"
    by fastforce
  note reg = NewPortRegistry_ok [OF pr]
  have a: "a = length (hAsics h)" and h': "asPortRegistry (asic h' a) = pr" "hPorts h' = ports'"
    using assms by (auto simp: NewAsic_def pr Let_def asic_def)
  have "a < length (hAsics h')"
    using assms by (auto simp: NewAsic_def pr Let_def)
  with reg(1,2) show "asic_ok h' a"
    unfolding asic_ok_def h' by (auto simp: a ports_ok_def intro: port_entry_ok_base)
  show "asID (asic h' a) = caID cfg"
    using assms by (auto simp: NewAsic_def pr Let_def asic_def)
  show "\<exists>ps as. hPorts h' = hPorts h @ ps \<and> hAsics h' = hAsics h @ as"
    using assms reg(3) by (auto simp: NewAsic_def pr Let_def)
qed

lemma add_asic_ok:
  assumes "registry_ok (fst st) (snd st)"
  shows "registry_ok (fst (add_asic pcs pgs cfg st)) (snd (add_asic pcs pgs cfg st))"
proof -
  obtain a h' where new: "NewAsic cfg pcs (filterPortGroup cfg pgs) (snd st) = (a, h')"
    by fastforce
  note ok = NewAsic_ok [OF new]
  from ok(3) obtain ps as where ext: "hPorts h' = hPorts (snd st) @ ps" "hAsics h' = hAsics (snd st) @ as"
    by blast
  from registry_ok_store [OF assms ext ok(2,1)] registry_ok_extend [OF assms ext] show ?thesis
    by (cases st) (use new in \<open>auto simp: add_asic_def Let_def split: option.splits\<close>)
qed

lemma NewAsicRegistry_ok:
  assumes "NewAsicRegistry cfgs pcs pgs h = (ar, h')"
  shows "registry_ok ar h'"
proof -
  have "registry_ok (fst st) (snd st)" if "st = fold (add_asic pcs pgs) cfgs (gm_empty, h)" for st
    unfolding that
    by (rule fold_inv [where P = "\<lambda>st. registry_ok (fst st) (snd st)"]) (auto intro: add_asic_ok)
  with assms show ?thesis by (simp add: NewAsicRegistry_def)
qed

end
