(* ===== verification/Nodes.thy ===== *)
theory Nodes
  imports Asics
begin

text \<open>
  The nodes of the data-centre tree and the topology object (core/model/node.go and the state of
  core/model/topology.go). Nodes are shared objects: the topology's maps, the parent and children
  pointers and the virtual clusters all point to the same node. They live in the list
  \<open>tNodes\<close>; a pointer is a position in it. Pointers that may be nil are options.

  The locale \<open>ref_store\<close> is the interface of such a store of objects: what a read returns after a
  write or an allocation. It is interpreted on the node store here and on the store of virtual
  clusters in \<open>VC_Manager\<close>.
\<close>

section \<open>Stores of objects\<close>

locale ref_store =
  fixes get :: "'s \<Rightarrow> nat \<Rightarrow> 'o"
    and upd :: "nat \<Rightarrow> ('o \<Rightarrow> 'o) \<Rightarrow> 's \<Rightarrow> 's"
    and alloc :: "'o \<Rightarrow> 's \<Rightarrow> nat \<times> 's"
    and valid :: "'s \<Rightarrow> nat \<Rightarrow> bool"
  assumes get_upd: "valid s r \<Longrightarrow> get (upd r f s) q = (if q = r then f (get s r) else get s q)"
    and valid_upd: "valid (upd r f s) q = valid s q"
    and alloc_fresh: "\<not> valid s (fst (alloc x s))"
    and alloc_valid: "valid (snd (alloc x s)) q \<longleftrightarrow> q = fst (alloc x s) \<or> valid s q"
    and alloc_get: "get (snd (alloc x s)) (fst (alloc x s)) = x"
    and alloc_frame: "valid s q \<Longrightarrow> get (snd (alloc x s)) q = get s q"
begin

lemma get_upd_same: "valid s r \<Longrightarrow> get (upd r f s) r = f (get s r)"
  by (simp add: get_upd)

lemma get_upd_other: "valid s r \<Longrightarrow> q \<noteq> r \<Longrightarrow> get (upd r f s) q = get s q"
  by (simp add: get_upd)

lemma upd_keeps_other: "valid s r \<Longrightarrow> valid s q \<Longrightarrow> P (get s q) \<Longrightarrow>
    (q = r \<Longrightarrow> P (get s r) \<Longrightarrow> P (f (get s r))) \<Longrightarrow> P (get (upd r f s) q)"
  by (auto simp: get_upd)

text \<open>An object allocated before is not the one allocated now.\<close>

lemma alloc_other: "valid s q \<Longrightarrow> q \<noteq> fst (alloc x s)"
  using alloc_fresh by auto

lemma valid_alloc_old: "valid s q \<Longrightarrow> valid (snd (alloc x s)) q"
  by (simp add: alloc_valid)

lemma valid_alloc_new: "valid (snd (alloc x s)) (fst (alloc x s))"
  by (simp add: alloc_valid)

end

section \<open>Nodes\<close>

datatype NodeType =
    NodeType_Server
  | NodeType_Leaf
  | NodeType_Spine
  | NodeType_Core
  | NodeType_Client

text \<open>The values \<open>iota\<close> gives the constants; node types are ordered by them.\<close>

fun NodeType_iota :: "NodeType \<Rightarrow> nat" where
  "NodeType_iota NodeType_Server = 0"
| "NodeType_iota NodeType_Leaf = 1"
| "NodeType_iota NodeType_Spine = 2"
| "NodeType_iota NodeType_Core = 3"
| "NodeType_iota NodeType_Client = 4"

lemma NodeType_iota_inj: "NodeType_iota a = NodeType_iota b \<Longrightarrow> a = b"
  by (cases a; cases b) auto

instantiation NodeType :: linorder
begin

definition less_eq_NodeType :: "NodeType \<Rightarrow> NodeType \<Rightarrow> bool" where
  "less_eq_NodeType a b \<longleftrightarrow> NodeType_iota a \<le> NodeType_iota b"

definition less_NodeType :: "NodeType \<Rightarrow> NodeType \<Rightarrow> bool" where
  "less_NodeType a b \<longleftrightarrow> NodeType_iota a < NodeType_iota b"

instance
  by intro_classes (auto simp: less_eq_NodeType_def less_NodeType_def NodeType_iota_inj)

end

type_synonym nref = nat

record Node =
  nAddress :: string
  nMgmtAddress :: string
  nID :: u16
  nPortId :: u16
  nType :: NodeType
  nParent :: "nref option"
  nChildren :: "nref list"
  nAsic :: "aref option"
  nPort :: "pref option"
  nDsPort :: "pref option"
  nUsPort :: "pref option"
  nFirstWorkerID :: u16
  nLastWorkerID :: u16
  nIndex :: u16
  nLastPingTime :: int
  nHealthy :: bool
  nReady :: bool

text \<open>The zero value of the struct: a Go composite literal leaves the fields it omits at it.\<close>

definition zero_Node :: Node where
  "zero_Node = \<lparr>nAddress = [], nMgmtAddress = [], nID = 0, nPortId = 0, nType = NodeType_Server,
     nParent = None, nChildren = [], nAsic = None, nPort = None, nDsPort = None, nUsPort = None,
     nFirstWorkerID = 0, nLastWorkerID = 0, nIndex = 0, nLastPingTime = 0,
     nHealthy = False, nReady = False\<rparr>"

definition NewClient :: "hw \<Rightarrow> u16 \<Rightarrow> pref \<Rightarrow> Node" where
  "NewClient h nid p = zero_Node\<lparr>nID := nid, nAsic := Some (poAsic (port h p)), nPort := Some p,
     nType := NodeType_Client\<rparr>"

definition NewLeaf :: "hw \<Rightarrow> string \<Rightarrow> string \<Rightarrow> u16 \<Rightarrow> pref \<Rightarrow> pref \<Rightarrow> Node" where
  "NewLeaf h address mgmtAddress nid dsPort usPort =
     zero_Node\<lparr>nAddress := address, nMgmtAddress := mgmtAddress, nID := nid,
       nAsic := Some (poAsic (port h dsPort)), nDsPort := Some dsPort, nUsPort := Some usPort,
       nType := NodeType_Leaf\<rparr>"

definition NewServer :: "hw \<Rightarrow> string \<Rightarrow> u16 \<Rightarrow> pref \<Rightarrow> Node" where
  "NewServer h address nid p =
     zero_Node\<lparr>nAddress := address, nID := nid, nAsic := Some (poAsic (port h p)), nPort := Some p,
       nType := NodeType_Server\<rparr>"

definition NewSpine :: "string \<Rightarrow> u16 \<Rightarrow> aref \<Rightarrow> Node" where
  "NewSpine address nid a =
     zero_Node\<lparr>nAddress := address, nID := nid, nAsic := Some a, nType := NodeType_Spine\<rparr>"

definition NewNode :: "string \<Rightarrow> string \<Rightarrow> u16 \<Rightarrow> u16 \<Rightarrow> NodeType \<Rightarrow> Node" where
  "NewNode address mgmtAddress nid portId nodeType =
     zero_Node\<lparr>nAddress := address, nMgmtAddress := mgmtAddress, nID := nid, nPortId := portId,
       nType := nodeType\<rparr>"

section \<open>The topology object\<close>

type_synonym NodeMap = "(u16, nref) gomap"

record Topology =
  tHw :: hw
  tNodes :: "Node list"
  tRoot :: "nref option"
  tClients :: NodeMap
  tServers :: NodeMap
  tLeaves :: NodeMap
  tSpines :: NodeMap
  tCores :: NodeMap
  tAsicRegistry :: AsicRegistry

definition node :: "Topology \<Rightarrow> nref \<Rightarrow> Node" where
  "node s r = tNodes s ! r"

definition upd_node :: "nref \<Rightarrow> (Node \<Rightarrow> Node) \<Rightarrow> Topology \<Rightarrow> Topology" where
  "upd_node r f s = s\<lparr>tNodes := (tNodes s)[r := f (node s r)]\<rparr>"

definition new_node :: "Node \<Rightarrow> Topology \<Rightarrow> nref \<times> Topology" where
  "new_node n s = (length (tNodes s), s\<lparr>tNodes := tNodes s @ [n]\<rparr>)"

definition valid_node :: "Topology \<Rightarrow> nref \<Rightarrow> bool" where
  "valid_node s r \<longleftrightarrow> r < length (tNodes s)"

interpretation ns: ref_store node upd_node new_node valid_node
  by unfold_locales
    (auto simp: node_def upd_node_def new_node_def valid_node_def nth_list_update nth_append)

lemmas node_store = ns.get_upd ns.valid_upd ns.alloc_valid ns.alloc_get ns.alloc_frame

declare ns.valid_upd [simp] ns.get_upd_same [simp] ns.alloc_get [simp]

lemma upd_node_frame [simp]:
  "tHw (upd_node r f s) = tHw s" "tRoot (upd_node r f s) = tRoot s"
  "tClients (upd_node r f s) = tClients s" "tServers (upd_node r f s) = tServers s"
  "tLeaves (upd_node r f s) = tLeaves s" "tSpines (upd_node r f s) = tSpines s"
  "tCores (upd_node r f s) = tCores s" "tAsicRegistry (upd_node r f s) = tAsicRegistry s"
  by (simp_all add: upd_node_def)

lemma node_map_update [simp]:
  "node (s\<lparr>tServers := m\<rparr>) = node s" "node (s\<lparr>tLeaves := m\<rparr>) = node s"
  "node (s\<lparr>tSpines := m\<rparr>) = node s" "node (s\<lparr>tClients := m\<rparr>) = node s"
  "node (s\<lparr>tCores := m\<rparr>) = node s"
  "valid_node (s\<lparr>tServers := m\<rparr>) = valid_node s"
  "valid_node (s\<lparr>tLeaves := m\<rparr>) = valid_node s"
  "valid_node (s\<lparr>tSpines := m\<rparr>) = valid_node s"
  "valid_node (s\<lparr>tClients := m\<rparr>) = valid_node s"
  "valid_node (s\<lparr>tCores := m\<rparr>) = valid_node s"
  by (simp_all add: node_def valid_node_def fun_eq_iff)

lemma upd_node_record [simp]: "(upd_node r f s)\<lparr>tNodes := ns\<rparr> = s\<lparr>tNodes := ns\<rparr>"
  by (simp add: upd_node_def)

lemma upd_node_twice:
  "valid_node s r \<Longrightarrow> upd_node r g (upd_node r f s) = upd_node r (\<lambda>n. g (f n)) s"
  by (simp add: upd_node_def node_def valid_node_def)

lemma new_node_frame [simp]:
  "tHw (snd (new_node n s)) = tHw s" "tRoot (snd (new_node n s)) = tRoot s"
  "tClients (snd (new_node n s)) = tClients s" "tServers (snd (new_node n s)) = tServers s"
  "tLeaves (snd (new_node n s)) = tLeaves s" "tSpines (snd (new_node n s)) = tSpines s"
  "tCores (snd (new_node n s)) = tCores s"
  "tAsicRegistry (snd (new_node n s)) = tAsicRegistry s"
  by (simp_all add: new_node_def)

text \<open>The functions that evaluate a closed topology in the witnesses.\<close>

lemmas topo_eval = node_def upd_node_def new_node_def valid_node_def

end
