(* ===== verification/Topology_Ops.thy ===== *)
theory Topology_Ops
  imports Nodes
begin

text \<open>
  The operations of the topology (core/model/topology.go): lookups, adding a leaf or a server,
  removing a server (with the renumbering of the worker IDs of its siblings) and removing a leaf
  (with the removal of its servers and the renumbering of the indices of its siblings).

  Each operation is one function on the topology object. The locks it takes make it atomic; the
  Go slices are lists (\<open>append(xs[:i], xs[i+1:]...)\<close> is \<open>remove_at\<close>, which panics where the slice
  expression does).
\<close>

section \<open>Lookups\<close>

definition FindAsic :: "Topology \<Rightarrow> string \<Rightarrow> go_error + aref" where
  "FindAsic s asicStr =
     (case AsicMap_Load (tAsicRegistry s) asicStr of
        Some a \<Rightarrow> Inr a
      | None \<Rightarrow> Inl (ErrNoAsic asicStr))"

definition FindPort :: "Topology \<Rightarrow> string \<Rightarrow> string \<Rightarrow> go_error + pref" where
  "FindPort s asicStr portSpecStr =
     (case FindAsic s asicStr of
        Inl e \<Rightarrow> Inl e
      | Inr a \<Rightarrow>
          (case PortMap_Load (prPortMap (asPortRegistry (asic (tHw s) a))) portSpecStr of
             Some p \<Rightarrow> Inr p
           | None \<Rightarrow> Inl (ErrNoPort asicStr portSpecStr)))"

text \<open>For a core node the local variable \<open>nodes\<close> stays nil, and loading from it panics.\<close>

definition GetNode :: "Topology \<Rightarrow> u16 \<Rightarrow> NodeType \<Rightarrow> nref option go" where
  "GetNode s nodeId nodeType =
     (if nodeType = NodeType_Server then Ret (NodeMap_Load (tServers s) nodeId)
      else if nodeType = NodeType_Leaf then Ret (NodeMap_Load (tLeaves s) nodeId)
      else if nodeType = NodeType_Spine then Ret (NodeMap_Load (tSpines s) nodeId)
      else if nodeType = NodeType_Client then Ret (NodeMap_Load (tClients s) nodeId)
      else Panic)"

lemma GetNode_simps [simp]:
  "GetNode s k NodeType_Server = Ret (gm_load (tServers s) k)"
  "GetNode s k NodeType_Leaf = Ret (gm_load (tLeaves s) k)"
  "GetNode s k NodeType_Spine = Ret (gm_load (tSpines s) k)"
  "GetNode s k NodeType_Client = Ret (gm_load (tClients s) k)"
  "GetNode s k NodeType_Core = Panic"
  by (simp_all add: GetNode_def)

section \<open>Adding\<close>

definition AddLeafToSpine :: "LeafInfo \<Rightarrow> Topology \<Rightarrow> (Topology \<times> (go_error + nref)) go" where
  "AddLeafToSpine leafInfo s =
     (let spineID = ucast (liSpineID leafInfo) :: u16;
          leafID = ucast (liId leafInfo) :: u16
      in go_bind (GetNode s spineID NodeType_Spine) (\<lambda>spine.
         go_bind (GetNode s leafID NodeType_Leaf) (\<lambda>leaf.
           case spine of
             None \<Rightarrow> Ret (s, Inl (ErrNoSpine spineID))
           | Some sp \<Rightarrow>
               (case leaf of
                  Some l \<Rightarrow>
                    (if nParent (node s l) = Some sp then Ret (s, Inl (ErrLeafExists leafID))
                     else Ret (s, Inl (ErrLeafMismatch leafID)))
                | None \<Rightarrow>
                    if list_ex (\<lambda>other. nMgmtAddress (node s other) = liMgmtAddress leafInfo \<and>
                                        nAddress (node s other) = liAddress leafInfo)
                         (nChildren (node s sp))
                    then Ret (s, Inl (ErrLeafAddress (liAddress leafInfo) (liMgmtAddress leafInfo)))
                    else
                      deref (liAsic leafInfo) (\<lambda>ai.
                      deref (liDsPort leafInfo) (\<lambda>dp.
                      deref (liUsPort leafInfo) (\<lambda>up.
                        case (FindPort s (aiID ai) (piID dp), FindPort s (aiID ai) (piID up)) of
                          (Inr dsPort, Inr usPort) \<Rightarrow>
                            (let (l, s1) = new_node (NewLeaf (tHw s) (liAddress leafInfo)
                                             (liMgmtAddress leafInfo) leafID dsPort usPort) s;
                                 s2 = upd_node l (\<lambda>n. n\<lparr>nParent := Some sp\<rparr>) s1;
                                 s3 = upd_node sp (\<lambda>n. n\<lparr>nChildren := nChildren n @ [l]\<rparr>) s2;
                                 s4 = upd_node l (\<lambda>n. n\<lparr>nIndex :=
                                        of_nat (length (nChildren (node s3 sp)) - 1)\<rparr>) s3;
                                 s5 = upd_node l (\<lambda>n. n\<lparr>nFirstWorkerID := 0,
                                        nLastWorkerID := 0\<rparr>) s4
                             in Ret (s5\<lparr>tLeaves := NodeMap_Store leafID l (tLeaves s5)\<rparr>, Inr l))
                        | _ \<Rightarrow> Fatal)))))))"

definition AddServerToLeaf ::
  "ServerInfo \<Rightarrow> u16 \<Rightarrow> Topology \<Rightarrow> (Topology \<times> (go_error + nref)) go" where
  "AddServerToLeaf serverInfo leafID s =
     (let serverID = ucast (siId serverInfo) :: u16 in
      go_bind (GetNode s leafID NodeType_Leaf) (\<lambda>leaf.
      go_bind (GetNode s serverID NodeType_Server) (\<lambda>existingServer.
        case leaf of
          None \<Rightarrow> Ret (s, Inl (ErrNoLeaf leafID))
        | Some l \<Rightarrow>
            (case existingServer of
               Some r \<Rightarrow>
                 (if nParent (node s r) = Some l then Ret (s, Inl (ErrServerExists (siId serverInfo)))
                  else Ret (s, Inl (ErrServerMismatch (siId serverInfo))))
             | None \<Rightarrow>
                 deref (nAsic (node s l)) (\<lambda>a.
                 deref (siPort serverInfo) (\<lambda>pi.
                   case FindPort s (asID (asic (tHw s) a)) (piID pi) of
                     Inl e \<Rightarrow> Fatal
                   | Inr p \<Rightarrow>
                       (let (r, s1) = new_node (NewServer (tHw s) (siAddress serverInfo) serverID p) s;
                            s2 = upd_node r (\<lambda>n. n\<lparr>nParent := Some l\<rparr>) s1;
                            s3 = upd_node l (\<lambda>n. n\<lparr>nChildren := nChildren n @ [r],
                                                 nFirstWorkerID := 0\<rparr>) s2;
                            workerID = (if nLastWorkerID (node s3 l) > 0
                                        then nLastWorkerID (node s3 l) + 1 else 0);
                            last = workerID + ucast (siWorkersCount serverInfo) - 1;
                            s4 = upd_node r (\<lambda>n. n\<lparr>nFirstWorkerID := workerID,
                                                 nLastWorkerID := last\<rparr>) s3;
                            s5 = upd_node l (\<lambda>n. n\<lparr>nLastWorkerID := last\<rparr>) s4
                        in Ret (s5\<lparr>tServers := NodeMap_Store serverID r (tServers s5)\<rparr>, Inr r))))))))"

section \<open>Removing a server\<close>

definition remove_at :: "nat option \<Rightarrow> 'a list \<Rightarrow> 'a list go" where
  "remove_at i xs =
     (case i of
        None \<Rightarrow> Panic
      | Some k \<Rightarrow> if k < length xs then Ret (take k xs @ drop (Suc k) xs) else Panic)"

text \<open>The number of workers of a server, as the code computes it.\<close>

definition worker_count :: "Node \<Rightarrow> u16" where
  "worker_count n = nLastWorkerID n - nFirstWorkerID n + 1"

text \<open>
  One iteration of the renumbering loop. The loop state is the topology, the next free worker ID,
  the position of the removed server (\<open>None\<close> for -1) and the list of updated servers.
\<close>

definition rs_visit ::
  "u16 \<Rightarrow> nat \<times> nref \<Rightarrow> Topology \<times> u16 \<times> nat option \<times> nref list
    \<Rightarrow> Topology \<times> u16 \<times> nat option \<times> nref list" where
  "rs_visit serverID child st =
     (case (child, st) of
        ((sIdx, srv), (s, workerID, removedIdx, updated)) \<Rightarrow>
          if nID (node s srv) \<noteq> serverID then
            (let workersCount = worker_count (node s srv);
                 next = workerID + workersCount;
                 s' = upd_node srv (\<lambda>n. n\<lparr>nFirstWorkerID := workerID,
                                          nLastWorkerID := next - 1\<rparr>) s
             in (s', next, removedIdx, if removedIdx \<noteq> None then updated @ [srv] else updated))
          else (s, workerID, Some sIdx, updated))"

definition RemoveServer :: "u16 \<Rightarrow> Topology \<Rightarrow> (Topology \<times> bool \<times> nref list) go" where
  "RemoveServer serverID s =
     go_bind (GetNode s serverID NodeType_Server) (\<lambda>server.
       case server of
         None \<Rightarrow> Ret (s, False, [])
       | Some r \<Rightarrow>
           deref (nParent (node s r)) (\<lambda>leaf.
             case fold (rs_visit serverID) (enumerate 0 (nChildren (node s leaf))) (s, 0, None, []) of
               (s1, workerID, removedIdx, updated) \<Rightarrow>
                 (let s2 = upd_node leaf (\<lambda>n. n\<lparr>nFirstWorkerID := 0,
                             nLastWorkerID := (if workerID = 0 then 0 else workerID - 1)\<rparr>) s1
                  in go_bind (remove_at removedIdx (nChildren (node s2 leaf))) (\<lambda>children.
                       let s3 = upd_node leaf (\<lambda>n. n\<lparr>nChildren := children\<rparr>) s2
                       in Ret (s3\<lparr>tServers := NodeMap_Delete serverID (tServers s3)\<rparr>,
                               True, updated)))))"

section \<open>Removing a leaf\<close>

text \<open>
  The loop that removes the first child of the leaf until none is left. It has no bound of its own:
  when the first child is not registered as a server, \<open>RemoveServer\<close> changes nothing and the loop
  runs forever, which is the result \<open>None\<close>.
\<close>

partial_function (option) remove_children :: "nref \<Rightarrow> Topology \<Rightarrow> Topology go option" where
  "remove_children leaf s =
     (case nChildren (node s leaf) of
        [] \<Rightarrow> Some (Ret s)
      | c # _ \<Rightarrow>
          (case RemoveServer (nID (node s c)) s of
             Ret (s', _) \<Rightarrow> remove_children leaf s'
           | Panic \<Rightarrow> Some Panic
           | Fatal \<Rightarrow> Some Fatal))"

definition rl_visit ::
  "u16 \<Rightarrow> nat \<times> nref \<Rightarrow> Topology \<times> nat \<times> bool \<times> nref list \<Rightarrow> Topology \<times> nat \<times> bool \<times> nref list" where
  "rl_visit leafID child st =
     (case (child, st) of
        ((lIdx, l), (s, removedIdx, include, updated)) \<Rightarrow>
          if nID (node s l) = leafID then (s, lIdx, True, updated)
          else if include then
            (upd_node l (\<lambda>n. n\<lparr>nIndex := nIndex n - 1\<rparr>) s, removedIdx, include, updated @ [l])
          else (s, removedIdx, include, updated))"

definition unlink_leaf :: "u16 \<Rightarrow> nref \<Rightarrow> Topology \<Rightarrow> (Topology \<times> int \<times> nref list) go" where
  "unlink_leaf leafID leaf s =
     deref (nParent (node s leaf)) (\<lambda>spine.
       case fold (rl_visit leafID) (enumerate 0 (nChildren (node s spine))) (s, 0, False, []) of
         (s1, removedIdx, include, updated) \<Rightarrow>
           go_bind (remove_at (Some removedIdx) (nChildren (node s1 spine))) (\<lambda>children.
             let s2 = upd_node spine (\<lambda>n. n\<lparr>nChildren := children\<rparr>) s1
             in Ret (s2\<lparr>tLeaves := NodeMap_Delete leafID (tLeaves s2)\<rparr>,
                     int removedIdx, updated)))"

definition RemoveLeaf :: "u16 \<Rightarrow> Topology \<Rightarrow> (Topology \<times> int \<times> nref list) go option" where
  "RemoveLeaf leafID s =
     (case GetNode s leafID NodeType_Leaf of
        Ret None \<Rightarrow> Some (Ret (s, -1, []))
      | Ret (Some leaf) \<Rightarrow>
          map_option (\<lambda>res. go_bind res (unlink_leaf leafID leaf)) (remove_children leaf s)
      | Panic \<Rightarrow> Some Panic
      | Fatal \<Rightarrow> Some Fatal)"

definition ClearLeaves :: "Topology \<Rightarrow> Topology" where
  "ClearLeaves s =
     (fold (\<lambda>(_, sp). upd_node sp (\<lambda>n. n\<lparr>nChildren := []\<rparr>)) (tSpines s) s)
       \<lparr>tLeaves := gm_empty, tServers := gm_empty\<rparr>"

end
