(* ===== verification/Topology_Inv.thy ===== *)
theory Topology_Inv
  imports Topology_Ops
begin

text \<open>
  The tree invariant \<open>wf_topo\<close> of a topology object, and the four changes of the tree that its
  operations make: a server or a leaf is attached to its parent or detached from it. Each change
  is stated on the tree fields of the nodes only (\<open>tree\<close>), so that the operations may write the
  other fields (worker IDs, indices, health) as they like.
\<close>

section \<open>The invariant\<close>

definition tree :: "Node \<Rightarrow> u16 \<times> NodeType \<times> nref option \<times> nref list \<times> aref option \<times> pref option \<times>
    pref option \<times> pref option" where
  "tree n = (nID n, nType n, nParent n, nChildren n, nAsic n, nPort n, nDsPort n, nUsPort n)"

lemma tree_eq_iff:
  "tree m = tree n \<longleftrightarrow> nID m = nID n \<and> nType m = nType n \<and> nParent m = nParent n \<and>
     nChildren m = nChildren n \<and> nAsic m = nAsic n \<and> nPort m = nPort n \<and>
     nDsPort m = nDsPort n \<and> nUsPort m = nUsPort n"
  by (auto simp: tree_def)

definition server_ok :: "Topology \<Rightarrow> u16 \<Rightarrow> nref \<Rightarrow> bool" where
  "server_ok s k r \<longleftrightarrow>
     valid_node s r \<and> nID (node s r) = k \<and> nType (node s r) = NodeType_Server \<and>
     nPort (node s r) \<noteq> None \<and>
     (\<exists>l. nParent (node s r) = Some l \<and> gm_load (tLeaves s) (nID (node s l)) = Some l \<and>
          r \<in> set (nChildren (node s l)))"

definition leaf_ok :: "Topology \<Rightarrow> u16 \<Rightarrow> nref \<Rightarrow> bool" where
  "leaf_ok s k l \<longleftrightarrow>
     valid_node s l \<and> nID (node s l) = k \<and> nType (node s l) = NodeType_Leaf \<and>
     nAsic (node s l) \<noteq> None \<and> nDsPort (node s l) \<noteq> None \<and> nUsPort (node s l) \<noteq> None \<and>
     distinct (nChildren (node s l)) \<and>
     (\<forall>c \<in> set (nChildren (node s l)).
        gm_load (tServers s) (nID (node s c)) = Some c \<and> nParent (node s c) = Some l) \<and>
     (\<exists>p. nParent (node s l) = Some p \<and> gm_load (tSpines s) (nID (node s p)) = Some p \<and>
          l \<in> set (nChildren (node s p)))"

definition spine_ok :: "Topology \<Rightarrow> u16 \<Rightarrow> nref \<Rightarrow> bool" where
  "spine_ok s k p \<longleftrightarrow>
     valid_node s p \<and> nID (node s p) = k \<and> nType (node s p) = NodeType_Spine \<and>
     distinct (nChildren (node s p)) \<and>
     (\<forall>c \<in> set (nChildren (node s p)).
        gm_load (tLeaves s) (nID (node s c)) = Some c \<and> nParent (node s c) = Some p)"

definition wf_topo :: "Topology \<Rightarrow> bool" where
  "wf_topo s \<longleftrightarrow>
     gm_wf (tServers s) \<and> gm_wf (tLeaves s) \<and> gm_wf (tSpines s) \<and>
     (\<forall>k r. gm_load (tServers s) k = Some r \<longrightarrow> server_ok s k r) \<and>
     (\<forall>k l. gm_load (tLeaves s) k = Some l \<longrightarrow> leaf_ok s k l) \<and>
     (\<forall>k p. gm_load (tSpines s) k = Some p \<longrightarrow> spine_ok s k p)"

lemma wf_server: "wf_topo s \<Longrightarrow> gm_load (tServers s) k = Some r \<Longrightarrow> server_ok s k r"
  and wf_leaf: "wf_topo s \<Longrightarrow> gm_load (tLeaves s) k = Some l \<Longrightarrow> leaf_ok s k l"
  and wf_spine: "wf_topo s \<Longrightarrow> gm_load (tSpines s) k = Some p \<Longrightarrow> spine_ok s k p"
  and wf_maps: "wf_topo s \<Longrightarrow> gm_wf (tServers s)" "wf_topo s \<Longrightarrow> gm_wf (tLeaves s)"
    "wf_topo s \<Longrightarrow> gm_wf (tSpines s)"
  by (simp_all add: wf_topo_def)

lemma wf_topoI:
  assumes "gm_wf (tServers s)" "gm_wf (tLeaves s)" "gm_wf (tSpines s)"
    and "\<And>k r. gm_load (tServers s) k = Some r \<Longrightarrow> server_ok s k r"
    and "\<And>k l. gm_load (tLeaves s) k = Some l \<Longrightarrow> leaf_ok s k l"
    and "\<And>k p. gm_load (tSpines s) k = Some p \<Longrightarrow> spine_ok s k p"
  shows "wf_topo s"
  using assms by (simp add: wf_topo_def)

text \<open>A registered node is found under its own ID; nodes of different kinds are different.\<close>

lemma wf_parent:
  assumes "wf_topo s" and "gm_load (tServers s) k = Some r"
  obtains l where "nParent (node s r) = Some l" "gm_load (tLeaves s) (nID (node s l)) = Some l"
    "r \<in> set (nChildren (node s l))" "leaf_ok s (nID (node s l)) l"
  using wf_server [OF assms] wf_leaf [OF assms(1)] by (auto simp: server_ok_def)

lemma wf_leaf_parent:
  assumes "wf_topo s" and "gm_load (tLeaves s) k = Some l"
  obtains p where "nParent (node s l) = Some p" "gm_load (tSpines s) (nID (node s p)) = Some p"
    "l \<in> set (nChildren (node s p))" "spine_ok s (nID (node s p)) p"
  using wf_leaf [OF assms] wf_spine [OF assms(1)] by (auto simp: leaf_ok_def)

lemma wf_child:
  assumes "wf_topo s" and "gm_load (tLeaves s) k = Some l" and "c \<in> set (nChildren (node s l))"
  shows "gm_load (tServers s) (nID (node s c)) = Some c" "nParent (node s c) = Some l"
    "valid_node s c" "nType (node s c) = NodeType_Server"
  using wf_leaf [OF assms(1,2)] assms(3) wf_server [OF assms(1)]
  by (auto simp: leaf_ok_def server_ok_def)

lemma wf_leaf_child:
  assumes "wf_topo s" and "gm_load (tSpines s) k = Some p" and "c \<in> set (nChildren (node s p))"
  shows "gm_load (tLeaves s) (nID (node s c)) = Some c" "nParent (node s c) = Some p"
    "valid_node s c" "nType (node s c) = NodeType_Leaf"
  using wf_spine [OF assms(1,2)] assms(3) wf_leaf [OF assms(1)]
  by (auto simp: leaf_ok_def spine_ok_def)

text \<open>Among the children of a leaf (or spine) the ID determines the node.\<close>

lemma wf_child_inj:
  assumes "wf_topo s" and "gm_load (tLeaves s) k = Some l"
    and "c \<in> set (nChildren (node s l))" "d \<in> set (nChildren (node s l))"
    and "nID (node s c) = nID (node s d)"
  shows "c = d"
  using wf_child(1) [OF assms(1,2)] assms(3-5) by (metis option.inject)

lemma wf_leaf_child_inj:
  assumes "wf_topo s" and "gm_load (tSpines s) k = Some p"
    and "c \<in> set (nChildren (node s p))" "d \<in> set (nChildren (node s p))"
    and "nID (node s c) = nID (node s d)"
  shows "c = d"
  using wf_leaf_child(1) [OF assms(1,2)] assms(3-5) by (metis option.inject)

section \<open>The changes of the tree\<close>

text \<open>Nothing but fields outside the tree was written.\<close>

lemma wf_same_tree:
  assumes wf: "wf_topo s"
    and frame: "\<And>q. valid_node s q \<Longrightarrow> tree (node s' q) = tree (node s q)"
    and valid: "\<And>q. valid_node s' q \<longleftrightarrow> valid_node s q"
    and maps: "tServers s' = tServers s" "tLeaves s' = tLeaves s" "tSpines s' = tSpines s"
  shows "wf_topo s'"
proof (rule wf_topoI)
  note fr = frame [unfolded tree_eq_iff]
  show "server_ok s' k r" if "gm_load (tServers s') k = Some r" for k r
  proof -
    from that maps have r: "gm_load (tServers s) k = Some r" by simp
    from wf_parent [OF wf r] obtain l where "nParent (node s r) = Some l"
      "gm_load (tLeaves s) (nID (node s l)) = Some l" "r \<in> set (nChildren (node s l))"
      "valid_node s l" by (auto simp: leaf_ok_def)
    with wf_server [OF wf r] fr [of l] fr [of r] maps valid show ?thesis
      by (auto simp: server_ok_def)
  qed
  show "leaf_ok s' k l" if "gm_load (tLeaves s') k = Some l" for k l
  proof -
    from that maps have l: "gm_load (tLeaves s) k = Some l" by simp
    from wf_leaf_parent [OF wf l] obtain p where "nParent (node s l) = Some p"
      "gm_load (tSpines s) (nID (node s p)) = Some p" "l \<in> set (nChildren (node s p))"
      "valid_node s p" by (auto simp: spine_ok_def)
    moreover have "nID (node s' c) = nID (node s c) \<and> nParent (node s' c) = nParent (node s c)"
      if "c \<in> set (nChildren (node s l))" for c
      using fr [of c] wf_child(3) [OF wf l that] by auto
    ultimately show ?thesis
      using wf_leaf [OF wf l] fr [of l] fr [of p] maps valid by (auto simp: leaf_ok_def)
  qed
  show "spine_ok s' k p" if "gm_load (tSpines s') k = Some p" for k p
  proof -
    from that maps have p: "gm_load (tSpines s) k = Some p" by simp
    have "nID (node s' c) = nID (node s c) \<and> nParent (node s' c) = nParent (node s c)"
      if "c \<in> set (nChildren (node s p))" for c
      using fr [of c] wf_leaf_child(3) [OF wf p that] by auto
    with wf_spine [OF wf p] fr [of p] maps valid show ?thesis by (auto simp: spine_ok_def)
  qed
qed (simp_all add: maps wf_maps [OF wf])

lemma wf_attach_server:
  assumes wf: "wf_topo s" and l: "gm_load (tLeaves s) k = Some l"
    and new: "gm_load (tServers s) sid = None" "\<not> valid_node s r"
    and node_r: "nID (node s' r) = sid" "nType (node s' r) = NodeType_Server"
      "nParent (node s' r) = Some l" "nPort (node s' r) \<noteq> None"
    and node_l: "tree (node s' l) = tree ((node s l)\<lparr>nChildren := nChildren (node s l) @ [r]\<rparr>)"
    and frame: "\<And>q. valid_node s q \<Longrightarrow> q \<noteq> l \<Longrightarrow> tree (node s' q) = tree (node s q)"
    and valid: "\<And>q. valid_node s' q \<longleftrightarrow> q = r \<or> valid_node s q"
    and maps: "tServers s' = gm_store sid r (tServers s)" "tLeaves s' = tLeaves s"
      "tSpines s' = tSpines s"
  shows "wf_topo s'"
proof (rule wf_topoI)
  note fr = frame [unfolded tree_eq_iff] and nl = node_l [unfolded tree_eq_iff, simplified]
  note ok = server_ok_def leaf_ok_def spine_ok_def
  have lok: "leaf_ok s k l" by (rule wf_leaf [OF wf l])
  then have vl: "valid_node s l" "nID (node s l) = k" by (simp_all add: leaf_ok_def)
  have id: "nID (node s' q) = nID (node s q)" "nType (node s' q) = nType (node s q)"
    "nParent (node s' q) = nParent (node s q)" if "valid_node s q" for q
    using fr [OF that] nl by (cases "q = l", auto)+
  show "server_ok s' k' q" if "gm_load (tServers s') k' = Some q" for k' q
  proof (cases "k' = sid")
    case True
    with that maps node_r valid nl l vl show ?thesis by (simp add: server_ok_def)
  next
    case False
    with that maps have q: "gm_load (tServers s) k' = Some q" by simp
    from wf_parent [OF wf q] obtain m where m: "nParent (node s q) = Some m"
      "gm_load (tLeaves s) (nID (node s m)) = Some m" "q \<in> set (nChildren (node s m))"
      "valid_node s m" by (auto simp: leaf_ok_def)
    have sq: "server_ok s k' q" by (rule wf_server [OF wf q])
    then have "q \<noteq> l" using lok by (auto simp: ok)
    with sq fr [of q] m id [of m] fr [of m] nl maps valid show ?thesis
      by (cases "m = l") (auto simp: server_ok_def)
  qed
  show "leaf_ok s' k' q" if "gm_load (tLeaves s') k' = Some q" for k' q
  proof -
    from that maps have q: "gm_load (tLeaves s) k' = Some q" by simp
    have qok: "leaf_ok s k' q" by (rule wf_leaf [OF wf q])
    from wf_leaf_parent [OF wf q] obtain p where p: "nParent (node s q) = Some p"
      "gm_load (tSpines s) (nID (node s p)) = Some p" "q \<in> set (nChildren (node s p))"
      "spine_ok s (nID (node s p)) p" by blast
    then have "p \<noteq> l" "valid_node s p" using lok by (auto simp: ok)
    then have up: "nID (node s' p) = nID (node s p)" "nChildren (node s' p) = nChildren (node s p)"
      using fr by auto
    have ch: "gm_load (tServers s') (nID (node s' c)) = Some c \<and> nParent (node s' c) = Some q"
      if "c \<in> set (nChildren (node s q))" for c
      using wf_child [OF wf q that] id new(1) by (auto simp: maps)
    have rl: "r \<notin> set (nChildren (node s l))" using wf_child [OF wf l] new(2) by blast
    show ?thesis
    proof (cases "q = l")
      case True
      with qok nl p up ch rl valid maps node_r show ?thesis by (auto simp: leaf_ok_def)
    next
      case False
      with qok fr [of q] p up ch valid maps show ?thesis by (auto simp: leaf_ok_def)
    qed
  qed
  show "spine_ok s' k' p" if "gm_load (tSpines s') k' = Some p" for k' p
  proof -
    from that maps have p: "gm_load (tSpines s) k' = Some p" by simp
    have pok: "spine_ok s k' p" by (rule wf_spine [OF wf p])
    then have "p \<noteq> l" using lok by (auto simp: ok)
    with pok fr [of p] id wf_leaf_child [OF wf p] valid maps show ?thesis
      by (auto simp: spine_ok_def)
  qed
qed (simp_all add: maps wf_maps [OF wf])

lemma wf_detach_server:
  assumes wf: "wf_topo s" and r: "gm_load (tServers s) sid = Some r" "nParent (node s r) = Some l"
    and node_l: "tree (node s' l) = tree ((node s l)\<lparr>nChildren := filter (\<lambda>c. c \<noteq> r) (nChildren (node s l))\<rparr>)"
    and frame: "\<And>q. valid_node s q \<Longrightarrow> q \<noteq> l \<Longrightarrow> tree (node s' q) = tree (node s q)"
    and valid: "\<And>q. valid_node s' q \<longleftrightarrow> valid_node s q"
    and maps: "tServers s' = gm_delete sid (tServers s)" "tLeaves s' = tLeaves s"
      "tSpines s' = tSpines s"
  shows "wf_topo s'"
proof (rule wf_topoI)
  note fr = frame [unfolded tree_eq_iff] and nl = node_l [unfolded tree_eq_iff, simplified]
  note ok = server_ok_def leaf_ok_def spine_ok_def
  from wf_parent [OF wf r(1)] r(2) have l: "gm_load (tLeaves s) (nID (node s l)) = Some l"
    and lok: "leaf_ok s (nID (node s l)) l" by auto
  then have vl: "valid_node s l" by (simp add: leaf_ok_def)
  have rid: "nID (node s r) = sid" using wf_server [OF wf r(1)] by (simp add: server_ok_def)
  have id: "nID (node s' q) = nID (node s q)" "nType (node s' q) = nType (node s q)"
    "nParent (node s' q) = nParent (node s q)" if "valid_node s q" for q
    using fr [OF that] nl by (cases "q = l", auto)+
  show "server_ok s' k' q" if "gm_load (tServers s') k' = Some q" for k' q
  proof -
    from that maps have q: "gm_load (tServers s) k' = Some q" and "k' \<noteq> sid"
      by (auto split: if_splits)
    then have qr: "q \<noteq> r" using rid wf_server [OF wf q] by (auto simp: server_ok_def)
    from wf_parent [OF wf q] obtain m where m: "nParent (node s q) = Some m"
      "gm_load (tLeaves s) (nID (node s m)) = Some m" "q \<in> set (nChildren (node s m))"
      "valid_node s m" by (auto simp: leaf_ok_def)
    have sq: "server_ok s k' q" by (rule wf_server [OF wf q])
    then have "q \<noteq> l" using lok by (auto simp: ok)
    with sq qr fr [of q] m id [of m] fr [of m] nl maps valid show ?thesis
      by (cases "m = l") (auto simp: server_ok_def)
  qed
  show "leaf_ok s' k' q" if "gm_load (tLeaves s') k' = Some q" for k' q
  proof -
    from that maps have q: "gm_load (tLeaves s) k' = Some q" by simp
    have qok: "leaf_ok s k' q" by (rule wf_leaf [OF wf q])
    from wf_leaf_parent [OF wf q] obtain p where p: "nParent (node s q) = Some p"
      "gm_load (tSpines s) (nID (node s p)) = Some p" "q \<in> set (nChildren (node s p))"
      "spine_ok s (nID (node s p)) p" by blast
    then have "p \<noteq> l" "valid_node s p" using lok by (auto simp: ok)
    then have up: "nID (node s' p) = nID (node s p)" "nChildren (node s' p) = nChildren (node s p)"
      using fr by auto
    have ch: "gm_load (tServers s') (nID (node s' c)) = Some c \<and> nParent (node s' c) = Some q"
      if "c \<in> set (nChildren (node s q))" "c \<noteq> r" for c
    proof -
      note c = wf_child [OF wf q that(1)]
      have "nID (node s c) \<noteq> sid" using c(1) r(1) that(2) by auto
      with c id show ?thesis by (auto simp: maps)
    qed
    show ?thesis
    proof (cases "q = l")
      case True
      with qok nl p up ch valid maps show ?thesis by (auto simp: leaf_ok_def)
    next
      case False
      then have "r \<notin> set (nChildren (node s q))" using wf_child(2) [OF wf q, of r] r(2) by auto
      with ch have "\<forall>c \<in> set (nChildren (node s q)).
        gm_load (tServers s') (nID (node s' c)) = Some c \<and> nParent (node s' c) = Some q" by metis
      with False qok fr [of q] p up valid maps show ?thesis
        by (auto simp: leaf_ok_def simp del: gm.load_delete)
    qed
  qed
  show "spine_ok s' k' p" if "gm_load (tSpines s') k' = Some p" for k' p
  proof -
    from that maps have p: "gm_load (tSpines s) k' = Some p" by simp
    have pok: "spine_ok s k' p" by (rule wf_spine [OF wf p])
    then have "p \<noteq> l" using lok by (auto simp: ok)
    with pok fr [of p] id wf_leaf_child [OF wf p] valid maps show ?thesis
      by (auto simp: spine_ok_def)
  qed
qed (simp_all add: maps wf_maps [OF wf])

lemma wf_attach_leaf:
  assumes wf: "wf_topo s" and p: "gm_load (tSpines s) k = Some p"
    and new: "gm_load (tLeaves s) lid = None" "\<not> valid_node s l"
    and node_l: "nID (node s' l) = lid" "nType (node s' l) = NodeType_Leaf"
      "nParent (node s' l) = Some p" "nChildren (node s' l) = []" "nAsic (node s' l) \<noteq> None"
      "nDsPort (node s' l) \<noteq> None" "nUsPort (node s' l) \<noteq> None"
    and node_p: "tree (node s' p) = tree ((node s p)\<lparr>nChildren := nChildren (node s p) @ [l]\<rparr>)"
    and frame: "\<And>q. valid_node s q \<Longrightarrow> q \<noteq> p \<Longrightarrow> tree (node s' q) = tree (node s q)"
    and valid: "\<And>q. valid_node s' q \<longleftrightarrow> q = l \<or> valid_node s q"
    and maps: "tLeaves s' = gm_store lid l (tLeaves s)" "tServers s' = tServers s"
      "tSpines s' = tSpines s"
  shows "wf_topo s'"
proof (rule wf_topoI)
  note fr = frame [unfolded tree_eq_iff] and np = node_p [unfolded tree_eq_iff, simplified]
  note ok = server_ok_def leaf_ok_def spine_ok_def
  have pok: "spine_ok s k p" by (rule wf_spine [OF wf p])
  then have vp: "valid_node s p" "nID (node s p) = k" by (simp_all add: spine_ok_def)
  have id: "nID (node s' q) = nID (node s q)" "nType (node s' q) = nType (node s q)"
    "nParent (node s' q) = nParent (node s q)" if "valid_node s q" for q
    using fr [OF that] np by (cases "q = p", auto)+
  show "server_ok s' k' q" if "gm_load (tServers s') k' = Some q" for k' q
  proof -
    from that maps have q: "gm_load (tServers s) k' = Some q" by simp
    have qok: "server_ok s k' q" by (rule wf_server [OF wf q])
    from wf_parent [OF wf q] obtain m where m: "nParent (node s q) = Some m"
      "gm_load (tLeaves s) (nID (node s m)) = Some m" "q \<in> set (nChildren (node s m))"
      "leaf_ok s (nID (node s m)) m" by blast
    then have "m \<noteq> p" "q \<noteq> p" "valid_node s m" using pok qok by (auto simp: ok)
    moreover from m(2) new(1) have "nID (node s m) \<noteq> lid" by auto
    ultimately show ?thesis using qok m fr [of q] fr [of m] valid maps
      by (auto simp: server_ok_def)
  qed
  show "leaf_ok s' k' q" if "gm_load (tLeaves s') k' = Some q" for k' q
  proof (cases "k' = lid")
    case True
    with that maps node_l valid np p vp show ?thesis by (simp add: leaf_ok_def)
  next
    case False
    with that maps have q: "gm_load (tLeaves s) k' = Some q" by simp
    have qok: "leaf_ok s k' q" by (rule wf_leaf [OF wf q])
    then have "q \<noteq> p" "valid_node s q" using pok by (auto simp: ok)
    moreover from wf_leaf_parent [OF wf q] obtain m where m: "nParent (node s q) = Some m"
      "gm_load (tSpines s) (nID (node s m)) = Some m" "q \<in> set (nChildren (node s m))"
      "valid_node s m" by (auto simp: spine_ok_def)
    moreover have "nID (node s' c) = nID (node s c) \<and> nParent (node s' c) = nParent (node s c)"
      if "c \<in> set (nChildren (node s q))" for c
      using id wf_child(3) [OF wf q that] by auto
    ultimately show ?thesis using qok fr [of q] id [of m] fr [of m] np maps valid
      by (cases "m = p") (auto simp: leaf_ok_def)
  qed
  show "spine_ok s' k' q" if "gm_load (tSpines s') k' = Some q" for k' q
  proof -
    from that maps have q: "gm_load (tSpines s) k' = Some q" by simp
    have qok: "spine_ok s k' q" by (rule wf_spine [OF wf q])
    have ch: "gm_load (tLeaves s') (nID (node s' c)) = Some c \<and> nParent (node s' c) = Some q"
      if "c \<in> set (nChildren (node s q))" for c
      using wf_leaf_child [OF wf q that] id new(1) by (auto simp: maps)
    have lp: "l \<notin> set (nChildren (node s p))" using wf_leaf_child [OF wf p] new(2) by blast
    show ?thesis
    proof (cases "q = p")
      case True
      with qok np ch lp valid maps node_l show ?thesis by (auto simp: spine_ok_def)
    next
      case False
      with qok fr [of q] ch valid maps show ?thesis
        by (auto simp: spine_ok_def simp del: gm.load_store)
    qed
  qed
qed (simp_all add: maps wf_maps [OF wf])

lemma wf_detach_leaf:
  assumes wf: "wf_topo s" and l: "gm_load (tLeaves s) lid = Some l" "nParent (node s l) = Some p"
    and childless: "nChildren (node s l) = []"
    and node_p: "tree (node s' p) = tree ((node s p)\<lparr>nChildren := filter (\<lambda>c. c \<noteq> l) (nChildren (node s p))\<rparr>)"
    and frame: "\<And>q. valid_node s q \<Longrightarrow> q \<noteq> p \<Longrightarrow> tree (node s' q) = tree (node s q)"
    and valid: "\<And>q. valid_node s' q \<longleftrightarrow> valid_node s q"
    and maps: "tLeaves s' = gm_delete lid (tLeaves s)" "tServers s' = tServers s"
      "tSpines s' = tSpines s"
  shows "wf_topo s'"
proof (rule wf_topoI)
  note fr = frame [unfolded tree_eq_iff] and np = node_p [unfolded tree_eq_iff, simplified]
  note ok = server_ok_def leaf_ok_def spine_ok_def
  from wf_leaf_parent [OF wf l(1)] l(2) have p: "gm_load (tSpines s) (nID (node s p)) = Some p"
    and pok: "spine_ok s (nID (node s p)) p" by auto
  then have vp: "valid_node s p" by (simp add: spine_ok_def)
  have lid: "nID (node s l) = lid" using wf_leaf [OF wf l(1)] by (simp add: leaf_ok_def)
  have id: "nID (node s' q) = nID (node s q)" "nType (node s' q) = nType (node s q)"
    "nParent (node s' q) = nParent (node s q)" if "valid_node s q" for q
    using fr [OF that] np by (cases "q = p", auto)+
  show "server_ok s' k' q" if "gm_load (tServers s') k' = Some q" for k' q
  proof -
    from that maps have q: "gm_load (tServers s) k' = Some q" by simp
    have qok: "server_ok s k' q" by (rule wf_server [OF wf q])
    from wf_parent [OF wf q] obtain m where m: "nParent (node s q) = Some m"
      "gm_load (tLeaves s) (nID (node s m)) = Some m" "q \<in> set (nChildren (node s m))"
      "leaf_ok s (nID (node s m)) m" by blast
    then have "m \<noteq> p" "q \<noteq> p" "m \<noteq> l" "valid_node s m"
      using pok qok childless by (auto simp: ok)
    moreover have "nID (node s m) \<noteq> lid" using m(2) l(1) \<open>m \<noteq> l\<close> by auto
    ultimately show ?thesis using qok m fr [of q] fr [of m] valid maps
      by (auto simp: server_ok_def)
  qed
  show "leaf_ok s' k' q" if "gm_load (tLeaves s') k' = Some q" for k' q
  proof -
    from that maps have q: "gm_load (tLeaves s) k' = Some q" and "k' \<noteq> lid"
      by (auto split: if_splits)
    have qok: "leaf_ok s k' q" by (rule wf_leaf [OF wf q])
    then have "q \<noteq> p" "valid_node s q" "q \<noteq> l" using pok lid \<open>k' \<noteq> lid\<close> by (auto simp: ok)
    moreover from wf_leaf_parent [OF wf q] obtain m where m: "nParent (node s q) = Some m"
      "gm_load (tSpines s) (nID (node s m)) = Some m" "q \<in> set (nChildren (node s m))"
      "valid_node s m" by (auto simp: spine_ok_def)
    moreover have "nID (node s' c) = nID (node s c) \<and> nParent (node s' c) = nParent (node s c)"
      if "c \<in> set (nChildren (node s q))" for c
      using id wf_child(3) [OF wf q that] by auto
    ultimately show ?thesis using qok fr [of q] id [of m] fr [of m] np maps valid
      by (cases "m = p") (auto simp: leaf_ok_def)
  qed
  show "spine_ok s' k' q" if "gm_load (tSpines s') k' = Some q" for k' q
  proof -
    from that maps have q: "gm_load (tSpines s) k' = Some q" by simp
    have qok: "spine_ok s k' q" by (rule wf_spine [OF wf q])
    have ch: "gm_load (tLeaves s') (nID (node s' c)) = Some c \<and> nParent (node s' c) = Some q"
      if "c \<in> set (nChildren (node s q))" "c \<noteq> l" for c
    proof -
      note c = wf_leaf_child [OF wf q that(1)]
      have "nID (node s c) \<noteq> lid" using c(1) l(1) that(2) by auto
      with c id show ?thesis by (auto simp: maps)
    qed
    show ?thesis
    proof (cases "q = p")
      case True
      with qok np ch valid maps show ?thesis by (auto simp: spine_ok_def)
    next
      case False
      then have "l \<notin> set (nChildren (node s q))" using wf_leaf_child(2) [OF wf q, of l] l(2) by auto
      with ch have "\<forall>c \<in> set (nChildren (node s q)).
        gm_load (tLeaves s') (nID (node s' c)) = Some c \<and> nParent (node s' c) = Some q" by metis
      with False qok fr [of q] valid maps show ?thesis
        by (auto simp: spine_ok_def simp del: gm.load_delete)
    qed
  qed
qed (simp_all add: maps wf_maps [OF wf])

end
