(* ===== verification/Topology_Props.thy ===== *)
theory Topology_Props
  imports Topology_Inv
begin

text \<open>
  The properties of the topology operations: what each of them does to the nodes, that all of them
  keep the tree invariant \<open>wf_topo\<close>, how worker IDs and leaf indices are laid out and renumbered,
  and that removing a leaf terminates.
\<close>

section \<open>What adding does\<close>

text \<open>
  \<open>server_added s s' si lid l p w r\<close>: the call attached the new server \<open>r\<close> at port \<open>p\<close> to the leaf
  \<open>l\<close>, with worker IDs from \<open>w\<close> on, and left every other node alone; \<open>leaf_added\<close> likewise.
\<close>

definition server_added ::
  "Topology \<Rightarrow> Topology \<Rightarrow> ServerInfo \<Rightarrow> u16 \<Rightarrow> nref \<Rightarrow> pref \<Rightarrow> u16 \<Rightarrow> nref \<Rightarrow> bool" where
  "server_added s s' si lid l p w r \<longleftrightarrow>
     gm_load (tLeaves s) lid = Some l \<and> gm_load (tServers s) (ucast (siId si)) = None \<and>
     \<not> valid_node s r \<and>
     w = (if nLastWorkerID (node s l) > 0 then nLastWorkerID (node s l) + 1 else 0) \<and>
     node s' r = (NewServer (tHw s) (siAddress si) (ucast (siId si)) p)\<lparr>nParent := Some l,
       nFirstWorkerID := w, nLastWorkerID := w + ucast (siWorkersCount si) - 1\<rparr> \<and>
     node s' l = (node s l)\<lparr>nChildren := nChildren (node s l) @ [r], nFirstWorkerID := 0,
       nLastWorkerID := w + ucast (siWorkersCount si) - 1\<rparr> \<and>
     (\<forall>q. valid_node s q \<longrightarrow> q \<noteq> l \<longrightarrow> node s' q = node s q) \<and>
     (\<forall>q. valid_node s' q \<longleftrightarrow> q = r \<or> valid_node s q) \<and>
     s'\<lparr>tNodes := [], tServers := []\<rparr> = s\<lparr>tNodes := [], tServers := []\<rparr> \<and>
     tServers s' = gm_store (ucast (siId si)) r (tServers s) \<and>
     (\<exists>a pi. nAsic (node s l) = Some a \<and> siPort si = Some pi \<and>
        FindPort s (asID (asic (tHw s) a)) (piID pi) = Inr p)"

definition leaf_added ::
  "Topology \<Rightarrow> Topology \<Rightarrow> LeafInfo \<Rightarrow> nref \<Rightarrow> pref \<Rightarrow> pref \<Rightarrow> nref \<Rightarrow> bool" where
  "leaf_added s s' li sp ds us l \<longleftrightarrow>
     gm_load (tSpines s) (ucast (liSpineID li)) = Some sp \<and>
     gm_load (tLeaves s) (ucast (liId li)) = None \<and> \<not> valid_node s l \<and>
     node s' l = (NewLeaf (tHw s) (liAddress li) (liMgmtAddress li) (ucast (liId li)) ds us)
       \<lparr>nParent := Some sp, nIndex := of_nat (length (nChildren (node s sp))),
        nFirstWorkerID := 0, nLastWorkerID := 0\<rparr> \<and>
     node s' sp = (node s sp)\<lparr>nChildren := nChildren (node s sp) @ [l]\<rparr> \<and>
     (\<forall>q. valid_node s q \<longrightarrow> q \<noteq> sp \<longrightarrow> node s' q = node s q) \<and>
     (\<forall>q. valid_node s' q \<longleftrightarrow> q = l \<or> valid_node s q) \<and>
     s'\<lparr>tNodes := [], tLeaves := []\<rparr> = s\<lparr>tNodes := [], tLeaves := []\<rparr> \<and>
     tLeaves s' = gm_store (ucast (liId li)) l (tLeaves s) \<and>
     (\<forall>c \<in> set (nChildren (node s sp)). nMgmtAddress (node s c) \<noteq> liMgmtAddress li \<or>
        nAddress (node s c) \<noteq> liAddress li)"

lemma server_added_maps:
  "server_added s s' si lid l p w r \<Longrightarrow> tLeaves s' = tLeaves s \<and> tSpines s' = tSpines s \<and>
     tHw s' = tHw s \<and> tAsicRegistry s' = tAsicRegistry s \<and> tClients s' = tClients s"
  by (cases s; cases s') (simp add: server_added_def)

lemma leaf_added_maps:
  "leaf_added s s' li sp ds us l \<Longrightarrow> tServers s' = tServers s \<and> tSpines s' = tSpines s \<and>
     tHw s' = tHw s \<and> tAsicRegistry s' = tAsicRegistry s \<and> tClients s' = tClients s"
  by (cases s; cases s') (simp add: leaf_added_def)

lemma AddServerToLeaf_effect:
  assumes wf: "wf_topo s" and add: "AddServerToLeaf si lid s = Ret (s', Inr r)"
  shows "\<exists>l p w. server_added s s' si lid l p w r"
proof -
  from add obtain l where l: "gm_load (tLeaves s) lid = Some l"
    by (auto simp: AddServerToLeaf_def Let_def returned)
  from add l have new: "gm_load (tServers s) (ucast (siId si)) = None"
    by (auto simp: AddServerToLeaf_def Let_def returned)
  from add l new obtain a pi p where ap: "nAsic (node s l) = Some a" "siPort si = Some pi"
      "FindPort s (asID (asic (tHw s) a)) (piID pi) = Inr p"
    by (auto simp: AddServerToLeaf_def Let_def returned)
  have "valid_node s l" using wf_leaf [OF wf l] by (simp add: leaf_ok_def)
  then have lt: "l < length (tNodes s)" by (simp add: valid_node_def)
  define w where "w = (if nLastWorkerID (node s l) > 0 then nLastWorkerID (node s l) + 1 else 0)"
  define nr where "nr = (NewServer (tHw s) (siAddress si) (ucast (siId si)) p)\<lparr>nParent := Some l,
    nFirstWorkerID := w, nLastWorkerID := w + ucast (siWorkersCount si) - 1\<rparr>"
  define nl where "nl = (node s l)\<lparr>nChildren := nChildren (node s l) @ [length (tNodes s)],
    nFirstWorkerID := 0, nLastWorkerID := w + ucast (siWorkersCount si) - 1\<rparr>"
  have "AddServerToLeaf si lid s = Ret (s\<lparr>tNodes := (tNodes s)[l := nl] @ [nr],
      tServers := gm_store (ucast (siId si)) (length (tNodes s)) (tServers s)\<rparr>,
      Inr (length (tNodes s)))"
    using lt by (simp add: AddServerToLeaf_def Let_def l new ap ap [unfolded node_def] w_def nr_def nl_def topo_eval
        list_update_append nth_append)
  with add have s': "s' = s\<lparr>tNodes := (tNodes s)[l := nl] @ [nr],
      tServers := gm_store (ucast (siId si)) (length (tNodes s)) (tServers s)\<rparr>"
    and r: "r = length (tNodes s)" by auto
  have nodes: "node s' r = nr" "node s' l = nl"
    using lt by (simp_all add: s' r node_def nth_append)
  have others: "node s' q = node s q" if "valid_node s q" "q \<noteq> l" for q
    using that by (simp add: s' node_def valid_node_def nth_append)
  have valid: "valid_node s' q \<longleftrightarrow> q = r \<or> valid_node s q" for q
    by (auto simp: s' r valid_node_def)
  have "server_added s s' si lid l p w r"
    using nodes others valid l new ap r
    by (simp add: server_added_def w_def [symmetric] nr_def nl_def) (simp add: s' valid_node_def)
  then show ?thesis by blast
qed

lemma AddLeafToSpine_effect:
  assumes wf: "wf_topo s" and add: "AddLeafToSpine li s = Ret (s', Inr l)"
  shows "\<exists>sp ds us. leaf_added s s' li sp ds us l"
proof -
  from add obtain sp where sp: "gm_load (tSpines s) (ucast (liSpineID li)) = Some sp"
    by (auto simp: AddLeafToSpine_def Let_def returned)
  from add sp have new: "gm_load (tLeaves s) (ucast (liId li)) = None"
    by (auto simp: AddLeafToSpine_def Let_def returned)
  from add sp new have addr: "\<not> list_ex (\<lambda>other. nMgmtAddress (node s other) = liMgmtAddress li \<and>
        nAddress (node s other) = liAddress li) (nChildren (node s sp))"
    by (auto simp: AddLeafToSpine_def Let_def returned)
  from add sp new addr obtain ai dp up ds us where p: "liAsic li = Some ai" "liDsPort li = Some dp"
      "liUsPort li = Some up" "FindPort s (aiID ai) (piID dp) = Inr ds"
      "FindPort s (aiID ai) (piID up) = Inr us"
    by (auto simp: AddLeafToSpine_def Let_def returned)
  have "valid_node s sp" using wf_spine [OF wf sp] by (simp add: spine_ok_def)
  then have lt: "sp < length (tNodes s)" by (simp add: valid_node_def)
  define nl where "nl = (NewLeaf (tHw s) (liAddress li) (liMgmtAddress li) (ucast (liId li)) ds us)
    \<lparr>nParent := Some sp, nIndex := of_nat (length (nChildren (node s sp))),
     nFirstWorkerID := 0, nLastWorkerID := 0\<rparr>"
  define np where "np = (node s sp)\<lparr>nChildren := nChildren (node s sp) @ [length (tNodes s)]\<rparr>"
  have "AddLeafToSpine li s = Ret (s\<lparr>tNodes := (tNodes s)[sp := np] @ [nl],
      tLeaves := gm_store (ucast (liId li)) (length (tNodes s)) (tLeaves s)\<rparr>,
      Inr (length (tNodes s)))"
    using lt addr addr [unfolded node_def]
    by (simp add: AddLeafToSpine_def Let_def sp new p nl_def np_def topo_eval
        list_update_append nth_append)
  with add have s': "s' = s\<lparr>tNodes := (tNodes s)[sp := np] @ [nl],
      tLeaves := gm_store (ucast (liId li)) (length (tNodes s)) (tLeaves s)\<rparr>"
    and l: "l = length (tNodes s)" by auto
  have nodes: "node s' l = nl" "node s' sp = np"
    using lt by (simp_all add: s' l node_def nth_append)
  have others: "node s' q = node s q" if "valid_node s q" "q \<noteq> sp" for q
    using that by (simp add: s' node_def valid_node_def nth_append)
  have valid: "valid_node s' q \<longleftrightarrow> q = l \<or> valid_node s q" for q
    by (auto simp: s' l valid_node_def)
  have "leaf_added s s' li sp ds us l"
    using nodes others valid sp new p l addr
    by (simp add: leaf_added_def nl_def np_def list_ex_iff) (simp add: s' valid_node_def)
  then show ?thesis by blast
qed

text \<open>A call that returns an error has changed nothing.\<close>

lemma AddServerToLeaf_error:
  "AddServerToLeaf si lid s = Ret (s', Inl e) \<Longrightarrow> s' = s"
  by (auto simp: AddServerToLeaf_def Let_def returned)

lemma AddLeafToSpine_error:
  "AddLeafToSpine li s = Ret (s', Inl e) \<Longrightarrow> s' = s"
  by (auto simp: AddLeafToSpine_def Let_def returned)

lemma server_added_wf:
  assumes "wf_topo s" and eff: "server_added s s' si lid l p w r"
  shows "wf_topo s'"
proof (rule wf_attach_server [OF assms(1)])
  show "gm_load (tLeaves s) lid = Some l" "gm_load (tServers s) (ucast (siId si)) = None"
    using eff by (simp_all add: server_added_def)
qed (use eff server_added_maps [OF eff] in
    \<open>simp_all add: server_added_def NewServer_def tree_eq_iff\<close>)

lemma leaf_added_wf:
  assumes "wf_topo s" and eff: "leaf_added s s' li sp ds us l"
  shows "wf_topo s'"
proof (rule wf_attach_leaf [OF assms(1)])
  show "gm_load (tSpines s) (ucast (liSpineID li)) = Some sp"
    "gm_load (tLeaves s) (ucast (liId li)) = None"
    using eff by (simp_all add: leaf_added_def)
qed (use eff leaf_added_maps [OF eff] in
    \<open>simp_all add: leaf_added_def NewLeaf_def zero_Node_def tree_eq_iff\<close>)

lemma AddServerToLeaf_wf:
  assumes "wf_topo s" and add: "AddServerToLeaf si lid s = Ret (s', res)"
  shows "wf_topo s'"
proof (cases res)
  case (Inl e)
  with assms AddServerToLeaf_error show ?thesis by blast
next
  case (Inr r)
  with assms AddServerToLeaf_effect server_added_wf show ?thesis by metis
qed

lemma AddLeafToSpine_wf:
  assumes "wf_topo s" and add: "AddLeafToSpine li s = Ret (s', res)"
  shows "wf_topo s'"
proof (cases res)
  case (Inl e)
  with assms AddLeafToSpine_error show ?thesis by blast
next
  case (Inr l)
  with assms AddLeafToSpine_effect leaf_added_wf show ?thesis by metis
qed

section \<open>What removing a server does\<close>

text \<open>
  The effect of the renumbering loop in one function: the listed servers get consecutive blocks of
  worker IDs, from \<open>w\<close> on, each as long as before.
\<close>

fun renumber :: "u16 \<Rightarrow> nref list \<Rightarrow> Topology \<Rightarrow> Topology" where
  "renumber w [] s = s"
| "renumber w (c # cs) s =
     renumber (w + worker_count (node s c)) cs
       (upd_node c (\<lambda>n. n\<lparr>nFirstWorkerID := w,
                          nLastWorkerID := w + worker_count (node s c) - 1\<rparr>) s)"

definition total_workers :: "Topology \<Rightarrow> nref list \<Rightarrow> u16" where
  "total_workers s cs = (\<Sum>c\<leftarrow>cs. worker_count (node s c))"

text \<open>\<open>layout w ns\<close>: the blocks of worker IDs of \<open>ns\<close> follow one another from \<open>w\<close> on.\<close>

fun layout :: "u16 \<Rightarrow> Node list \<Rightarrow> bool" where
  "layout w [] \<longleftrightarrow> True"
| "layout w (n # ns) \<longleftrightarrow> nFirstWorkerID n = w \<and> layout (nLastWorkerID n + 1) ns"

lemma renumber_frame [simp]:
  "tHw (renumber w cs s) = tHw s" "tRoot (renumber w cs s) = tRoot s"
  "tClients (renumber w cs s) = tClients s" "tServers (renumber w cs s) = tServers s"
  "tLeaves (renumber w cs s) = tLeaves s" "tSpines (renumber w cs s) = tSpines s"
  "tCores (renumber w cs s) = tCores s" "tAsicRegistry (renumber w cs s) = tAsicRegistry s"
  "valid_node (renumber w cs s) q = valid_node s q"
  by (induction w cs s rule: renumber.induct) simp_all

lemma renumber_only_nodes: "(renumber w cs s)\<lparr>tNodes := ns\<rparr> = s\<lparr>tNodes := ns\<rparr>"
  by (induction w cs s rule: renumber.induct) (simp_all add: upd_node_def)

lemma renumber_other:
  "q \<notin> set cs \<Longrightarrow> \<forall>c \<in> set cs. valid_node s c \<Longrightarrow> node (renumber w cs s) q = node s q"
  by (induction w cs s rule: renumber.induct) (simp_all add: ns.get_upd_other)

lemma worker_count_block [simp]:
  "worker_count (n\<lparr>nFirstWorkerID := w, nLastWorkerID := w + c - 1\<rparr>) = c"
  by (simp add: worker_count_def)

text \<open>Only the two worker ID fields of a listed server change, and its number of workers does not.\<close>

lemma renumber_node:
  assumes "\<forall>c \<in> set cs. valid_node s c" and "valid_node s q"
  shows "\<exists>a b. node (renumber w cs s) q = (node s q)\<lparr>nFirstWorkerID := a, nLastWorkerID := b\<rparr> \<and>
    b - a = nLastWorkerID (node s q) - nFirstWorkerID (node s q)"
  using assms
proof (induction w cs s rule: renumber.induct)
  case (1 w s)
  then show ?case by (intro exI [of _ "nFirstWorkerID (node s q)"] exI [of _ "nLastWorkerID (node s q)"]) simp
next
  case (2 w c cs s)
  let ?s = "upd_node c (\<lambda>n. n\<lparr>nFirstWorkerID := w,
    nLastWorkerID := w + worker_count (node s c) - 1\<rparr>) s"
  from 2 obtain a b where ab: "node (renumber w (c # cs) s) q =
      (node ?s q)\<lparr>nFirstWorkerID := a, nLastWorkerID := b\<rparr>"
    "b - a = nLastWorkerID (node ?s q) - nFirstWorkerID (node ?s q)" by auto
  have "nLastWorkerID (node ?s q) - nFirstWorkerID (node ?s q) =
      nLastWorkerID (node s q) - nFirstWorkerID (node s q)"
    and "(node ?s q)\<lparr>nFirstWorkerID := a, nLastWorkerID := b\<rparr> =
      (node s q)\<lparr>nFirstWorkerID := a, nLastWorkerID := b\<rparr>"
    using 2 by (auto simp: ns.get_upd worker_count_def)
  with ab show ?case by metis
qed

lemma renumber_count:
  assumes "\<forall>c \<in> set cs. valid_node s c" and "valid_node s q"
  shows "worker_count (node (renumber w cs s) q) = worker_count (node s q)"
  using renumber_node [OF assms, of w] by (auto simp: worker_count_def)

lemma renumber_tree:
  assumes "\<forall>c \<in> set cs. valid_node s c" and "valid_node s q"
  shows "tree (node (renumber w cs s) q) = tree (node s q)"
  using renumber_node [OF assms, of w] by (auto simp: tree_def)

lemma total_workers_renumber:
  "\<forall>c \<in> set cs \<union> set ds. valid_node s c \<Longrightarrow>
    total_workers (renumber w cs s) ds = total_workers s ds"
  by (auto simp: total_workers_def renumber_count intro!: arg_cong [where f = sum_list])

lemma renumber_append:
  "distinct (cs @ ds) \<Longrightarrow> \<forall>c \<in> set cs \<union> set ds. valid_node s c \<Longrightarrow>
    renumber w (cs @ ds) s = renumber (w + total_workers s cs) ds (renumber w cs s)"
proof (induction w cs s rule: renumber.induct)
  case (1 w s)
  then show ?case by (simp add: total_workers_def)
next
  case (2 w c cs s)
  let ?s = "upd_node c (\<lambda>n. n\<lparr>nFirstWorkerID := w,
    nLastWorkerID := w + worker_count (node s c) - 1\<rparr>) s"
  have "total_workers ?s cs = total_workers s cs"
    using 2(2,3) by (auto simp: total_workers_def ns.get_upd intro!: arg_cong [where f = sum_list])
  with 2 show ?case by (simp add: total_workers_def add.assoc)
qed

lemma renumber_layout:
  "distinct cs \<Longrightarrow> \<forall>c \<in> set cs. valid_node s c \<Longrightarrow> layout w (map (node (renumber w cs s)) cs)"
proof (induction w cs s rule: renumber.induct)
  case (2 w c cs s)
  let ?s = "upd_node c (\<lambda>n. n\<lparr>nFirstWorkerID := w,
    nLastWorkerID := w + worker_count (node s c) - 1\<rparr>) s"
  have "node (renumber w (c # cs) s) c = node ?s c" using 2(2,3) by (simp add: renumber_other)
  with 2 show ?case by simp
qed simp

text \<open>The loop, over servers that are not the removed one.\<close>

lemma rs_visit_renumbers:
  assumes "distinct cs" and "\<forall>c \<in> set cs. valid_node s c \<and> nID (node s c) \<noteq> k"
  shows "fold (rs_visit k) (enumerate i cs) (s, w, ri, upd) =
    (renumber w cs s, w + total_workers s cs, ri, if ri \<noteq> None then upd @ cs else upd)"
  using assms
proof (induction cs arbitrary: i s w upd)
  case Nil
  then show ?case by (simp add: total_workers_def)
next
  case (Cons c cs)
  let ?s = "upd_node c (\<lambda>n. n\<lparr>nFirstWorkerID := w,
    nLastWorkerID := w + worker_count (node s c) - 1\<rparr>) s"
  have "total_workers ?s cs = total_workers s cs"
    using Cons.prems by (auto simp: total_workers_def ns.get_upd intro!: arg_cong [where f = sum_list])
  moreover have "\<forall>c \<in> set cs. valid_node ?s c \<and> nID (node ?s c) \<noteq> k"
    using Cons.prems by (auto simp: ns.get_upd)
  ultimately show ?case
    using Cons.IH [of ?s] Cons.prems by (auto simp: rs_visit_def Let_def total_workers_def add.assoc)
qed

lemma RemoveServer_run:
  assumes wf: "wf_topo s" and r: "gm_load (tServers s) k = Some r" "nParent (node s r) = Some l"
    and split: "nChildren (node s l) = ys @ r # zs"
  shows "RemoveServer k s =
    Ret ((upd_node l (\<lambda>n. n\<lparr>nFirstWorkerID := 0,
            nLastWorkerID := (if total_workers s (ys @ zs) = 0 then 0
                              else total_workers s (ys @ zs) - 1), nChildren := ys @ zs\<rparr>)
           (renumber 0 (ys @ zs) s))\<lparr>tServers := gm_delete k (tServers s)\<rparr>, True, zs)"
proof -
  from wf_parent [OF wf r(1)] r(2) have l: "gm_load (tLeaves s) (nID (node s l)) = Some l"
    and lok: "leaf_ok s (nID (node s l)) l" by auto
  note child = wf_child [OF wf l, unfolded split]
  have rid: "nID (node s r) = k" using wf_server [OF wf r(1)] by (simp add: server_ok_def)
  have dist: "distinct (ys @ r # zs)" using lok by (simp add: leaf_ok_def split)
  have lv: "valid_node s l" using lok by (simp add: leaf_ok_def)
  have other: "valid_node s c \<and> nID (node s c) \<noteq> k \<and> c \<noteq> r \<and> c \<noteq> l" if "c \<in> set (ys @ zs)" for c
  proof -
    from that child [of c] have c: "gm_load (tServers s) (nID (node s c)) = Some c"
      "valid_node s c" "nType (node s c) = NodeType_Server" by auto
    from that dist have "c \<noteq> r" by auto
    with c(1) r(1) have "nID (node s c) \<noteq> k" by auto
    moreover from c(3) lok have "c \<noteq> l" by (auto simp: leaf_ok_def)
    ultimately show ?thesis using c(2) \<open>c \<noteq> r\<close> by simp
  qed
  then have o: "\<forall>c \<in> set ys \<union> set zs. valid_node s c" "l \<notin> set (ys @ zs)" "r \<notin> set (ys @ zs)" by auto
  have id: "nID (node (renumber w ys s) c) = nID (node s c)" if "valid_node s c" for w c
    using renumber_tree [of ys s c w] o that by (simp add: tree_eq_iff)
  have rv: "valid_node s r" using child [of r] by simp
  have "fold (rs_visit k) (enumerate 0 (ys @ r # zs)) (s, 0, None, []) =
     (renumber 0 (ys @ zs) s, total_workers s (ys @ zs), Some (length ys), zs)"
    using dist o other id rv rid
    by (simp add: enumerate_append_eq rs_visit_renumbers rs_visit_def [of k "(length ys, r)"]
        renumber_append total_workers_renumber) (simp add: total_workers_def)
  moreover have "node (renumber 0 (ys @ zs) s) l = node s l"
    using renumber_other [of l "ys @ zs" s] o by auto
  ultimately show ?thesis
    using r lv by (simp add: RemoveServer_def split remove_at_def upd_node_twice)
qed

text \<open>
  \<open>server_removed s s' k r l ys zs\<close>: the server \<open>r\<close> of the leaf \<open>l\<close>, between the servers \<open>ys\<close> and
  \<open>zs\<close>, is gone; those servers are renumbered from 0 on, and nothing else has changed.
\<close>

definition last_worker :: "u16 \<Rightarrow> u16" where
  "last_worker n = (if n = 0 then 0 else n - 1)"

definition server_removed ::
  "Topology \<Rightarrow> Topology \<Rightarrow> u16 \<Rightarrow> nref \<Rightarrow> nref \<Rightarrow> nref list \<Rightarrow> nref list \<Rightarrow> bool" where
  "server_removed s s' k r l ys zs \<longleftrightarrow>
     gm_load (tServers s) k = Some r \<and> nParent (node s r) = Some l \<and>
     nChildren (node s l) = ys @ r # zs \<and>
     node s' l = (node s l)\<lparr>nFirstWorkerID := 0, nLastWorkerID := last_worker (total_workers s (ys @ zs)),
       nChildren := ys @ zs\<rparr> \<and>
     (\<forall>c \<in> set (ys @ zs). \<exists>a b. node s' c = (node s c)\<lparr>nFirstWorkerID := a, nLastWorkerID := b\<rparr> \<and>
        b - a = nLastWorkerID (node s c) - nFirstWorkerID (node s c)) \<and>
     layout 0 (map (node s') (ys @ zs)) \<and>
     (\<forall>q. q \<notin> set (l # ys @ zs) \<longrightarrow> node s' q = node s q) \<and>
     (\<forall>q. valid_node s' q \<longleftrightarrow> valid_node s q) \<and>
     s'\<lparr>tNodes := [], tServers := []\<rparr> = s\<lparr>tNodes := [], tServers := []\<rparr> \<and>
     tServers s' = gm_delete k (tServers s)"

lemma server_removed_maps:
  "server_removed s s' k r l ys zs \<Longrightarrow> tLeaves s' = tLeaves s \<and> tSpines s' = tSpines s \<and>
     tHw s' = tHw s \<and> tAsicRegistry s' = tAsicRegistry s \<and> tClients s' = tClients s"
  by (cases s; cases s') (simp add: server_removed_def)

lemma RemoveServer_cases:
  assumes wf: "wf_topo s"
  obtains (unknown) "gm_load (tServers s) k = None" "RemoveServer k s = Ret (s, False, [])"
  | (removed) r l ys zs s' where "server_removed s s' k r l ys zs" "RemoveServer k s = Ret (s', True, zs)"
proof (cases "gm_load (tServers s) k")
  case None
  then show ?thesis by (intro unknown) (simp_all add: RemoveServer_def)
next
  case (Some r)
  from wf_parent [OF wf Some] obtain l where l: "nParent (node s r) = Some l"
    "gm_load (tLeaves s) (nID (node s l)) = Some l" "r \<in> set (nChildren (node s l))"
    and lok: "leaf_ok s (nID (node s l)) l" by blast
  from l(3) obtain ys zs where split: "nChildren (node s l) = ys @ r # zs" by (metis split_list)
  note run = RemoveServer_run [OF wf Some l(1) split]
  let ?t = "renumber 0 (ys @ zs) s"
  let ?u = "upd_node l (\<lambda>n. n\<lparr>nFirstWorkerID := 0,
      nLastWorkerID := last_worker (total_workers s (ys @ zs)), nChildren := ys @ zs\<rparr>) ?t"
  have kids: "valid_node s c \<and> c \<noteq> l" if "c \<in> set (ys @ zs)" for c
    using wf_child(3,4) [OF wf l(2), of c] that split lok by (auto simp: leaf_ok_def)
  then have o: "\<forall>c \<in> set (ys @ zs). valid_node s c" "l \<notin> set (ys @ zs)" by auto
  have dist: "distinct (ys @ zs)" and lv: "valid_node s l"
    using lok by (auto simp: leaf_ok_def split)
  have node_u: "node ?u q = (if q = l then (node s l)\<lparr>nFirstWorkerID := 0,
      nLastWorkerID := last_worker (total_workers s (ys @ zs)), nChildren := ys @ zs\<rparr>
      else node ?t q)" for q
    using lv renumber_other [OF o(2,1)] by (simp add: ns.get_upd)
  have "map (node ?u) (ys @ zs) = map (node ?t) (ys @ zs)" using o(2) by (auto simp: node_u)
  then have lay: "layout 0 (map (node ?u) (ys @ zs))"
    by (simp only: renumber_layout [OF dist o(1)])
  have blocks: "\<exists>a b. node ?u c = (node s c)\<lparr>nFirstWorkerID := a, nLastWorkerID := b\<rparr> \<and>
      b - a = nLastWorkerID (node s c) - nFirstWorkerID (node s c)" if "c \<in> set (ys @ zs)" for c
    using renumber_node [OF o(1), of c 0] kids [OF that] by (simp add: node_u)
  have rest: "node ?u q = node s q" if "q \<notin> set (l # ys @ zs)" for q
    using renumber_other [OF _ o(1), of q] that by (simp add: node_u)
  have "?u\<lparr>tNodes := [], tServers := []\<rparr> = s\<lparr>tNodes := [], tServers := []\<rparr>"
    using renumber_only_nodes [where w = 0 and cs = "ys @ zs" and s = s and ns = "[]"] by (simp add: upd_node_def)
  then have "server_removed s (?u\<lparr>tServers := gm_delete k (tServers s)\<rparr>) k r l ys zs"
    using Some l(1) split lay blocks rest node_u by (simp add: server_removed_def)
  moreover have "RemoveServer k s = Ret (?u\<lparr>tServers := gm_delete k (tServers s)\<rparr>, True, zs)"
    using run by (simp add: last_worker_def)
  ultimately show ?thesis by (rule removed)
qed

lemma server_removed_wf:
  assumes wf: "wf_topo s" and eff: "server_removed s s' k r l ys zs"
  shows "wf_topo s'"
proof (rule wf_detach_server [OF wf])
  note e = eff [unfolded server_removed_def]
  show "gm_load (tServers s) k = Some r" "nParent (node s r) = Some l" using e by blast+
  then obtain k' where "leaf_ok s k' l" using wf_parent [OF wf] by (metis option.inject)
  then have "distinct (ys @ r # zs)" using e by (simp add: leaf_ok_def)
  then have "filter (\<lambda>c. c \<noteq> r) ys = ys" "filter (\<lambda>c. c \<noteq> r) zs = zs"
    by (auto intro!: filter_True)
  moreover have "nChildren (node s l) = ys @ r # zs" using e by blast
  ultimately have "ys @ zs = filter (\<lambda>c. c \<noteq> r) (nChildren (node s l))" by simp
  then show "tree (node s' l) = tree ((node s l)\<lparr>nChildren := filter (\<lambda>c. c \<noteq> r) (nChildren (node s l))\<rparr>)"
    using e by (simp add: tree_eq_iff)
  show "tree (node s' q) = tree (node s q)" if "q \<noteq> l" for q
  proof (cases "q \<in> set (ys @ zs)")
    case True
    with e obtain a b where "node s' q = (node s q)\<lparr>nFirstWorkerID := a, nLastWorkerID := b\<rparr>" by blast
    then show ?thesis by (simp add: tree_def)
  next
    case False
    with e that show ?thesis by simp
  qed
  show "valid_node s' q \<longleftrightarrow> valid_node s q" "tServers s' = gm_delete k (tServers s)" for q
    using e by blast+
qed (use server_removed_maps [OF eff] in simp_all)

lemma RemoveServer_wf:
  assumes "wf_topo s" and "RemoveServer k s = Ret (s', b, us)"
  shows "wf_topo s'"
  using assms(1)
proof (cases rule: RemoveServer_cases [where k = k])
  case unknown
  with assms show ?thesis by simp
next
  case (removed r l ys zs t)
  with assms(2) have "t = s'" by simp
  with removed(1) show ?thesis using server_removed_wf [OF assms(1)] by blast
qed

section \<open>Worker IDs\<close>

text \<open>
  The worker IDs of the servers of a leaf are laid out when their blocks follow one another from 0
  on and the leaf's own range ends with the last of them (or is 0, 0 when there is none).
\<close>

definition workers_ok :: "Topology \<Rightarrow> nref \<Rightarrow> bool" where
  "workers_ok s l \<longleftrightarrow>
     layout 0 (map (node s) (nChildren (node s l))) \<and> nFirstWorkerID (node s l) = 0 \<and>
     nLastWorkerID (node s l) = last_worker (total_workers s (nChildren (node s l)))"

definition all_workers_ok :: "Topology \<Rightarrow> bool" where
  "all_workers_ok s \<longleftrightarrow> (\<forall>k l. gm_load (tLeaves s) k = Some l \<longrightarrow> workers_ok s l)"

text \<open>It depends on the leaf, on its children, and on nothing else.\<close>

lemma workers_ok_cong:
  assumes "nChildren (node s' l) = nChildren (node s l)"
    and "nFirstWorkerID (node s' l) = nFirstWorkerID (node s l)"
    and "nLastWorkerID (node s' l) = nLastWorkerID (node s l)"
    and "\<forall>c \<in> set (nChildren (node s l)). node s' c = node s c"
  shows "workers_ok s' l \<longleftrightarrow> workers_ok s l"
proof -
  have "map (node s') (nChildren (node s l)) = map (node s) (nChildren (node s l))"
    by (rule map_cong) (use assms(4) in auto)
  moreover have "total_workers s' (nChildren (node s l)) = total_workers s (nChildren (node s l))"
    using assms(4) by (auto simp: total_workers_def intro!: arg_cong [where f = sum_list])
  ultimately show ?thesis by (simp only: workers_ok_def assms(1-3))
qed

lemma server_removed_workers:
  assumes wf: "wf_topo s" and eff: "server_removed s s' k r l ys zs"
  shows "workers_ok s' l"
    and "\<And>m q. gm_load (tLeaves s) m = Some q \<Longrightarrow> q \<noteq> l \<Longrightarrow> workers_ok s' q \<longleftrightarrow> workers_ok s q"
proof -
  note e = eff [unfolded server_removed_def]
  have "worker_count (node s' c) = worker_count (node s c)" if "c \<in> set (ys @ zs)" for c
  proof -
    from e that obtain a b where "node s' c = (node s c)\<lparr>nFirstWorkerID := a, nLastWorkerID := b\<rparr>"
      "b - a = nLastWorkerID (node s c) - nFirstWorkerID (node s c)" by blast
    then show ?thesis by (simp add: worker_count_def)
  qed
  then have "total_workers s' (ys @ zs) = total_workers s (ys @ zs)"
    by (auto simp: total_workers_def intro!: arg_cong [where f = sum_list] arg_cong2 [where f = plus])
  with e show "workers_ok s' l" by (simp add: workers_ok_def)
next
  fix m q assume q: "gm_load (tLeaves s) m = Some q" "q \<noteq> l"
  note e = eff [unfolded server_removed_def]
  then obtain k' where l: "gm_load (tLeaves s) k' = Some l" using wf_parent [OF wf] by (metis option.inject)
  have up: "nParent (node s c) = Some l \<and> nType (node s c) = NodeType_Server"
    if "c \<in> set (ys @ zs)" for c
    using wf_child [OF wf l, of c] e that by auto
  have lf: "nType (node s q) = NodeType_Leaf" "nType (node s l) = NodeType_Leaf"
    using wf_leaf [OF wf q(1)] wf_leaf [OF wf l] by (simp_all add: leaf_ok_def)
  have "node s' q = node s q" using e up [of q] lf q(2) by (metis NodeType.distinct(1) set_ConsD)
  moreover have "node s' c = node s c" if "c \<in> set (nChildren (node s q))" for c
  proof -
    note c = wf_child [OF wf q(1) that]
    have "c \<notin> set (l # ys @ zs)" using up [of c] c lf q(2) by auto
    with e show ?thesis by blast
  qed
  ultimately show "workers_ok s' q \<longleftrightarrow> workers_ok s q" by (intro workers_ok_cong) auto
qed

lemma RemoveServer_workers:
  assumes wf: "wf_topo s" and all: "all_workers_ok s" and run: "RemoveServer k s = Ret (s', b, us)"
  shows "all_workers_ok s'"
  using wf
proof (cases rule: RemoveServer_cases [where k = k])
  case unknown
  with all run show ?thesis by simp
next
  case (removed r l ys zs t)
  with run have eff: "server_removed s s' k r l ys zs" by simp
  have "workers_ok s' q" if "gm_load (tLeaves s) m = Some q" for m q
    using server_removed_workers [OF wf eff] all that by (cases "q = l") (auto simp: all_workers_ok_def)
  with server_removed_maps [OF eff] show ?thesis by (simp add: all_workers_ok_def)
qed

text \<open>
  A server appended to a laid out leaf continues the layout when the leaf has no workers or more
  than one. With exactly one worker the leaf's range is 0, 0, which the code takes for an empty leaf.
\<close>

lemma layout_snoc:
  "layout w (ns @ [n]) \<longleftrightarrow> layout w ns \<and> nFirstWorkerID n = w + (\<Sum>m\<leftarrow>ns. worker_count m)"
  by (induction ns arbitrary: w) (auto simp: worker_count_def algebra_simps)

lemma server_added_total:
  assumes wf: "wf_topo s" and eff: "server_added s s' si lid l p w r"
  shows "total_workers s' (nChildren (node s' l)) =
      total_workers s (nChildren (node s l)) + ucast (siWorkersCount si)"
    and "map (node s') (nChildren (node s l)) = map (node s) (nChildren (node s l))"
    and "nChildren (node s' l) = nChildren (node s l) @ [r]"
proof -
  note e = eff [unfolded server_added_def]
  have l: "gm_load (tLeaves s) lid = Some l" using e by blast
  have ty: "nType (node s l) = NodeType_Leaf" using wf_leaf [OF wf l] by (simp add: leaf_ok_def)
  have same: "node s' c = node s c" if "c \<in> set (nChildren (node s l))" for c
    using wf_child(3,4) [OF wf l that] ty e by auto
  then show m: "map (node s') (nChildren (node s l)) = map (node s) (nChildren (node s l))"
    by simp
  show ch: "nChildren (node s' l) = nChildren (node s l) @ [r]" using e by simp
  have "worker_count (node s' r) = ucast (siWorkersCount si)"
    using e by (simp add: worker_count_def)
  moreover have "total_workers s' (nChildren (node s l)) = total_workers s (nChildren (node s l))"
    using same by (auto simp: total_workers_def intro!: arg_cong [where f = sum_list])
  ultimately show "total_workers s' (nChildren (node s' l)) =
      total_workers s (nChildren (node s l)) + ucast (siWorkersCount si)"
    by (simp add: total_workers_def ch)
qed

lemma server_added_workers:
  assumes wf: "wf_topo s" and eff: "server_added s s' si lid l p w r" and ok: "workers_ok s l"
    and "total_workers s (nChildren (node s l)) \<noteq> 1"
    and "total_workers s (nChildren (node s l)) + ucast (siWorkersCount si) \<noteq> 0"
  shows "workers_ok s' l"
proof -
  note e = eff [unfolded server_added_def] and t = server_added_total [OF wf eff]
  let ?n = "total_workers s (nChildren (node s l))"
  have sum: "sum_list (map (worker_count \<circ> node s) (nChildren (node s l))) = ?n"
    by (simp add: total_workers_def o_def)
  have last: "nLastWorkerID (node s l) = last_worker ?n" using ok by (simp add: workers_ok_def)
  have "last_worker ?n > 0 \<longleftrightarrow> ?n \<noteq> 0"
    using assms(4) by (auto simp: last_worker_def word_greater_zero_iff)
  then have w: "w = ?n" using e last by (auto simp: last_worker_def split: if_splits)
  have "layout 0 (map (node s') (nChildren (node s' l)))"
    using ok e w by (simp add: t layout_snoc workers_ok_def sum)
  moreover have "nLastWorkerID (node s' l) = last_worker (total_workers s' (nChildren (node s' l)))"
  proof -
    have "nLastWorkerID (node s' l) = w + ucast (siWorkersCount si) - 1" using e by simp
    with assms(5) show ?thesis by (simp only: t(1) w last_worker_def if_False)
  qed
  moreover have "nFirstWorkerID (node s' l) = 0" using e by simp
  ultimately show ?thesis by (simp add: workers_ok_def)
qed

text \<open>Laid out blocks without wrap-around are disjoint.\<close>

definition worker_ids :: "Node \<Rightarrow> nat set" where
  "worker_ids n = {unat (nFirstWorkerID n) ..< unat (nFirstWorkerID n) + unat (worker_count n)}"

lemma layout_ids:
  assumes "layout w ns" and "unat w + (\<Sum>n\<leftarrow>ns. unat (worker_count n)) < 2 ^ 16"
  shows "pairwise (\<lambda>i j. worker_ids (ns ! i) \<inter> worker_ids (ns ! j) = {}) {..<length ns}"
    and "\<Union> (worker_ids ` set ns) = {unat w ..< unat w + (\<Sum>n\<leftarrow>ns. unat (worker_count n))}"
proof -
  have "pairwise (\<lambda>i j. worker_ids (ns ! i) \<inter> worker_ids (ns ! j) = {}) {..<length ns} \<and>
    \<Union> (worker_ids ` set ns) = {unat w ..< unat w + (\<Sum>n\<leftarrow>ns. unat (worker_count n))}"
    using assms
  proof (induction w ns rule: layout.induct)
    case (2 w n ns)
    then have w: "nFirstWorkerID n = w" and lay: "layout (nLastWorkerID n + 1) ns" by simp_all
    have nxt: "nLastWorkerID n + 1 = w + worker_count n" by (simp add: worker_count_def w)
    have "unat (nLastWorkerID n + 1) = unat w + unat (worker_count n)"
      unfolding nxt using 2(3) by (subst unat_plus_simple [THEN iffD1])
        (auto simp: no_olen_add_nat)
    with 2 lay have IH: "pairwise (\<lambda>i j. worker_ids (ns ! i) \<inter> worker_ids (ns ! j) = {}) {..<length ns}"
      "\<Union> (worker_ids ` set ns) = {unat w + unat (worker_count n) ..<
        unat w + unat (worker_count n) + (\<Sum>n\<leftarrow>ns. unat (worker_count n))}"
      by (simp_all add: add.assoc)
    have disj: "worker_ids n \<inter> worker_ids (ns ! i) = {}" if "i < length ns" for i
    proof -
      have "worker_ids (ns ! i) \<subseteq> \<Union> (worker_ids ` set ns)" using nth_mem [OF that] by blast
      with IH(2) show ?thesis by (auto simp: worker_ids_def w)
    qed
    have "\<Union> (worker_ids ` set (n # ns)) = {unat w ..< unat w + (\<Sum>n\<leftarrow>n # ns. unat (worker_count n))}"
      using IH(2) by (auto simp: worker_ids_def w)
    moreover have "pairwise (\<lambda>i j. worker_ids ((n # ns) ! i) \<inter> worker_ids ((n # ns) ! j) = {})
        {..<length (n # ns)}"
      using IH(1) disj by (auto simp: pairwise_def nth_Cons less_Suc_eq_0_disj split: nat.splits)
    ultimately show ?case by simp
  qed simp
  then show "pairwise (\<lambda>i j. worker_ids (ns ! i) \<inter> worker_ids (ns ! j) = {}) {..<length ns}"
    "\<Union> (worker_ids ` set ns) = {unat w ..< unat w + (\<Sum>n\<leftarrow>ns. unat (worker_count n))}" by auto
qed

section \<open>What removing a leaf does\<close>

text \<open>
  The loop that removes the servers of a leaf ends, because every round takes the first child away;
  it leaves the leaf without children and drops exactly its servers from the map.
\<close>

definition children_removed :: "Topology \<Rightarrow> Topology \<Rightarrow> nref \<Rightarrow> bool" where
  "children_removed s s' l \<longleftrightarrow>
     (\<forall>q. q \<noteq> l \<longrightarrow> tree (node s' q) = tree (node s q) \<and> nIndex (node s' q) = nIndex (node s q)) \<and>
     (\<forall>q. q \<noteq> l \<longrightarrow> q \<notin> set (nChildren (node s l)) \<longrightarrow> node s' q = node s q) \<and>
     tree (node s' l) = tree ((node s l)\<lparr>nChildren := []\<rparr>) \<and>
     nIndex (node s' l) = nIndex (node s l) \<and>
     (\<forall>q. valid_node s' q \<longleftrightarrow> valid_node s q) \<and>
     s'\<lparr>tNodes := [], tServers := []\<rparr> = s\<lparr>tNodes := [], tServers := []\<rparr> \<and>
     (\<forall>k. gm_load (tServers s') k =
        (if k \<in> (\<lambda>c. nID (node s c)) ` set (nChildren (node s l)) then None
         else gm_load (tServers s) k))"

lemma server_removed_first:
  assumes wf: "wf_topo s" and l: "gm_load (tLeaves s) k = Some l"
    and split: "nChildren (node s l) = c # cs"
  obtains s' where "server_removed s s' (nID (node s c)) c l [] cs"
    and "RemoveServer (nID (node s c)) s = Ret (s', True, cs)"
  using wf
proof (cases rule: RemoveServer_cases [where k = "nID (node s c)"])
  case unknown
  with wf_child [OF wf l] split show ?thesis by simp
next
  case (removed r m ys zs s')
  note child = wf_child [OF wf l, unfolded split]
  note e = removed(1) [unfolded server_removed_def]
  from e child [of c] have rc: "r = c" by simp
  with e child [of c] have m: "m = l" by simp
  have "distinct (c # cs)" using wf_leaf [OF wf l] by (simp add: leaf_ok_def split)
  moreover have "c # cs = ys @ c # zs" using e rc m split by simp
  ultimately have "ys = [] \<and> zs = cs" by (cases ys) auto
  with removed rc m show ?thesis using that by simp
qed

lemma remove_children_step:
  assumes wf: "wf_topo s" and l: "gm_load (tLeaves s) k = Some l"
    and eff: "server_removed s t (nID (node s c)) c l [] cs" and rest: "children_removed t s' l"
  shows "children_removed s s' l"
proof -
  note e = eff [unfolded server_removed_def] and r = rest [unfolded children_removed_def]
  have split: "nChildren (node s l) = c # cs" using e by simp
  note child = wf_child [OF wf l, unfolded split]
  have ty: "nType (node s l) = NodeType_Leaf" using wf_leaf [OF wf l] by (simp add: leaf_ok_def)
  have same: "tree (node t q) = tree (node s q) \<and> nIndex (node t q) = nIndex (node s q)"
    if "q \<noteq> l" for q
  proof (cases "q \<in> set cs")
    case True
    with e obtain a b where "node t q = (node s q)\<lparr>nFirstWorkerID := a, nLastWorkerID := b\<rparr>"
      by auto
    then show ?thesis by (simp add: tree_def)
  next
    case False
    with e that show ?thesis by simp
  qed
  have nl: "nChildren (node t l) = cs" "tree (node s' l) = tree ((node s l)\<lparr>nChildren := []\<rparr>)"
    "nIndex (node s' l) = nIndex (node s l)"
    using e r by (simp_all add: tree_eq_iff)
  have ids: "nID (node t d) = nID (node s d)" if "d \<in> set cs" for d
  proof -
    have "d \<noteq> l" using child [of d] that ty by auto
    with same show ?thesis by (simp add: tree_eq_iff)
  qed
  have keep: "node s' q = node s q" if "q \<noteq> l" "q \<notin> set (nChildren (node s l))" for q
    using that e r nl(1) by (simp add: split)
  have servers: "gm_load (tServers s') j =
      (if j \<in> (\<lambda>d. nID (node s d)) ` set (nChildren (node s l)) then None
       else gm_load (tServers s) j)" for j
  proof -
    have "(\<lambda>d. nID (node t d)) ` set (nChildren (node t l)) = (\<lambda>d. nID (node s d)) ` set cs"
      using ids by (auto simp: nl(1))
    moreover have "tServers t = gm_delete (nID (node s c)) (tServers s)" using e by blast
    ultimately show ?thesis using r by (auto simp: split)
  qed
  have rec: "s'\<lparr>tNodes := [], tServers := []\<rparr> = s\<lparr>tNodes := [], tServers := []\<rparr>"
    using e r by metis
  show ?thesis
    unfolding children_removed_def
    using same keep nl servers rec e r by simp
qed

lemma remove_children_run:
  assumes "wf_topo s" and "gm_load (tLeaves s) k = Some l"
  shows "\<exists>s'. remove_children l s = Some (Ret s') \<and> wf_topo s' \<and> children_removed s s' l"
  using assms
proof (induction "length (nChildren (node s l))" arbitrary: s)
  case 0
  then have "nChildren (node s l) = []" by simp
  moreover from this have "children_removed s s l" by (simp add: children_removed_def tree_eq_iff)
  ultimately show ?case using 0 by (auto simp: remove_children.simps)
next
  case (Suc n)
  then obtain c cs where split: "nChildren (node s l) = c # cs" by (cases "nChildren (node s l)") auto
  from server_removed_first [OF Suc.prems split] obtain t
    where t: "server_removed s t (nID (node s c)) c l [] cs"
      "RemoveServer (nID (node s c)) s = Ret (t, True, cs)" by blast
  have "nChildren (node t l) = cs" using t(1) by (simp add: server_removed_def)
  with Suc(2) split have "n = length (nChildren (node t l))" by simp
  moreover have "wf_topo t" using server_removed_wf [OF Suc.prems(1) t(1)] .
  moreover have "gm_load (tLeaves t) k = Some l"
    using server_removed_maps [OF t(1)] Suc.prems(2) by simp
  ultimately obtain s' where s': "remove_children l t = Some (Ret s')" "wf_topo s'"
    "children_removed t s' l" using Suc(1) by blast
  have "remove_children l s = Some (Ret s')"
    using s'(1) t(2) split by (subst remove_children.simps) simp
  with s'(2) remove_children_step [OF Suc.prems t(1) s'(3)] show ?case by blast
qed

text \<open>The leaves after the removed one in its spine's list move one place down.\<close>

definition shift_down :: "nref list \<Rightarrow> Topology \<Rightarrow> Topology" where
  "shift_down cs s = fold (\<lambda>l. upd_node l (\<lambda>n. n\<lparr>nIndex := nIndex n - 1\<rparr>)) cs s"

lemma shift_down_simps [simp]:
  "shift_down [] s = s"
  "shift_down (c # cs) s = shift_down cs (upd_node c (\<lambda>n. n\<lparr>nIndex := nIndex n - 1\<rparr>) s)"
  by (simp_all add: shift_down_def)

lemma shift_down_frame [simp]:
  "tServers (shift_down cs s) = tServers s" "tLeaves (shift_down cs s) = tLeaves s"
  "tSpines (shift_down cs s) = tSpines s" "valid_node (shift_down cs s) q = valid_node s q"
  "(shift_down cs s)\<lparr>tNodes := ns\<rparr> = s\<lparr>tNodes := ns\<rparr>"
  by (induction cs arbitrary: s) simp_all

lemma shift_down_node:
  "distinct cs \<Longrightarrow> \<forall>c \<in> set cs. valid_node s c \<Longrightarrow>
    node (shift_down cs s) q =
      (if q \<in> set cs then (node s q)\<lparr>nIndex := nIndex (node s q) - 1\<rparr> else node s q)"
  by (induction cs arbitrary: s) (auto simp: ns.get_upd)

lemma rl_visit_before:
  "\<forall>c \<in> set cs. nID (node s c) \<noteq> k \<Longrightarrow>
    fold (rl_visit k) (enumerate i cs) (s, j, False, upd) = (s, j, False, upd)"
  by (induction cs arbitrary: i) (auto simp: rl_visit_def)

lemma rl_visit_after:
  "distinct cs \<Longrightarrow> \<forall>c \<in> set cs. valid_node s c \<and> nID (node s c) \<noteq> k \<Longrightarrow>
    fold (rl_visit k) (enumerate i cs) (s, j, True, upd) = (shift_down cs s, j, True, upd @ cs)"
proof (induction cs arbitrary: i s upd)
  case (Cons c cs)
  let ?s = "upd_node c (\<lambda>n. n\<lparr>nIndex := nIndex n - 1\<rparr>) s"
  have "\<forall>d \<in> set cs. valid_node ?s d \<and> nID (node ?s d) \<noteq> k"
    using Cons.prems by (auto simp: ns.get_upd)
  with Cons show ?case by (simp add: rl_visit_def)
qed simp

lemma unlink_leaf_run:
  assumes wf: "wf_topo s" and l: "gm_load (tLeaves s) k = Some l" "nParent (node s l) = Some p"
    and split: "nChildren (node s p) = ys @ l # zs"
  shows "unlink_leaf k l s =
    Ret ((upd_node p (\<lambda>n. n\<lparr>nChildren := ys @ zs\<rparr>) (shift_down zs s))
           \<lparr>tLeaves := gm_delete k (tLeaves s)\<rparr>, int (length ys), zs)"
proof -
  from wf_leaf_parent [OF wf l(1)] l(2) have p: "gm_load (tSpines s) (nID (node s p)) = Some p"
    and pok: "spine_ok s (nID (node s p)) p" by auto
  note child = wf_leaf_child [OF wf p, unfolded split]
  have lid: "nID (node s l) = k" using wf_leaf [OF wf l(1)] by (simp add: leaf_ok_def)
  have dist: "distinct (ys @ l # zs)" using pok by (simp add: spine_ok_def split)
  have other: "valid_node s c \<and> nID (node s c) \<noteq> k \<and> c \<noteq> p" if "c \<in> set (ys @ zs)" for c
  proof -
    from that child [of c] have c: "gm_load (tLeaves s) (nID (node s c)) = Some c"
      "valid_node s c" "nType (node s c) = NodeType_Leaf" by auto
    from that dist have "c \<noteq> l" by auto
    with c(1) l(1) have "nID (node s c) \<noteq> k" by auto
    moreover from c(3) pok have "c \<noteq> p" by (auto simp: spine_ok_def)
    ultimately show ?thesis using c(2) by simp
  qed
  have "fold (rl_visit k) (enumerate 0 (ys @ l # zs)) (s, 0, False, []) =
      (shift_down zs s, length ys, True, zs)"
    using other dist lid
    by (simp add: enumerate_append_eq rl_visit_before rl_visit_after rl_visit_def [of k "(length ys, l)"])
  moreover have "node (shift_down zs s) p = node s p"
    using other [of p] dist other by (subst shift_down_node) auto
  ultimately show ?thesis using l(2) by (simp add: unlink_leaf_def split remove_at_def)
qed

definition leaf_removed ::
  "Topology \<Rightarrow> Topology \<Rightarrow> u16 \<Rightarrow> nref \<Rightarrow> nref \<Rightarrow> nref list \<Rightarrow> nref list \<Rightarrow> bool" where
  "leaf_removed s s' k l p ys zs \<longleftrightarrow>
     gm_load (tLeaves s) k = Some l \<and> nParent (node s l) = Some p \<and>
     nChildren (node s p) = ys @ l # zs \<and>
     node s' p = (node s p)\<lparr>nChildren := ys @ zs\<rparr> \<and>
     (\<forall>c \<in> set zs. node s' c = (node s c)\<lparr>nIndex := nIndex (node s c) - 1\<rparr>) \<and>
     (\<forall>q. q \<notin> set (p # l # zs) \<longrightarrow> q \<notin> set (nChildren (node s l)) \<longrightarrow> node s' q = node s q) \<and>
     (\<forall>q. valid_node s' q \<longleftrightarrow> valid_node s q) \<and>
     s'\<lparr>tNodes := [], tServers := [], tLeaves := []\<rparr> = s\<lparr>tNodes := [], tServers := [], tLeaves := []\<rparr> \<and>
     tLeaves s' = gm_delete k (tLeaves s) \<and>
     (\<forall>j. gm_load (tServers s') j =
        (if j \<in> (\<lambda>c. nID (node s c)) ` set (nChildren (node s l)) then None
         else gm_load (tServers s) j))"

lemma leaf_removed_maps:
  "leaf_removed s s' k l p ys zs \<Longrightarrow> tSpines s' = tSpines s \<and>
     tHw s' = tHw s \<and> tAsicRegistry s' = tAsicRegistry s \<and> tClients s' = tClients s"
  by (cases s; cases s') (simp add: leaf_removed_def)

lemma spine_children_distinct:
  assumes "wf_topo s" and "gm_load (tLeaves s) k = Some l" and "nParent (node s l) = Some p"
    and "nChildren (node s p) = ys @ l # zs"
  shows "distinct (ys @ l # zs)" and "p \<noteq> l" and "p \<notin> set (ys @ l # zs)" and "valid_node s p"
    and "\<And>c. c \<in> set (ys @ l # zs) \<Longrightarrow> valid_node s c \<and> nType (node s c) = NodeType_Leaf"
proof -
  from wf_leaf_parent [OF assms(1,2)] assms(3) have p: "gm_load (tSpines s) (nID (node s p)) = Some p"
    and pok: "spine_ok s (nID (node s p)) p" by auto
  from pok show d: "distinct (ys @ l # zs)" and "valid_node s p" using assms(4) by (simp_all add: spine_ok_def)
  show ch: "valid_node s c \<and> nType (node s c) = NodeType_Leaf" if "c \<in> set (ys @ l # zs)" for c
    using wf_leaf_child(3,4) [OF assms(1) p, of c] that by (simp add: assms(4))
  have "nType (node s p) = NodeType_Spine" using pok by (simp add: spine_ok_def)
  with ch [of p] show "p \<notin> set (ys @ l # zs)" by auto
  then show "p \<noteq> l" by auto
qed

lemma RemoveLeaf_cases:
  assumes wf: "wf_topo s"
  obtains (unknown) "gm_load (tLeaves s) k = None" "RemoveLeaf k s = Some (Ret (s, -1, []))"
  | (removed) l p ys zs s' where "leaf_removed s s' k l p ys zs" "wf_topo s'"
      "RemoveLeaf k s = Some (Ret (s', int (length ys), zs))"
proof (cases "gm_load (tLeaves s) k")
  case None
  then show ?thesis by (intro unknown) (simp_all add: RemoveLeaf_def)
next
  case (Some l)
  from wf_leaf_parent [OF wf Some] obtain p where p: "nParent (node s l) = Some p"
    "l \<in> set (nChildren (node s p))" by blast
  from p(2) obtain ys zs where split: "nChildren (node s p) = ys @ l # zs" by (metis split_list)
  note k = spine_children_distinct [OF wf Some p(1) split]
  from remove_children_run [OF wf Some] obtain t where t: "remove_children l s = Some (Ret t)"
    "wf_topo t" "children_removed s t l" by blast
  note ct = t(3) [unfolded children_removed_def]
  have mt: "tLeaves t = tLeaves s" "tSpines t = tSpines s"
    using ct by (cases s; cases t; simp)+
  have lt: "gm_load (tLeaves t) k = Some l" "nParent (node t l) = Some p" "nChildren (node t l) = []"
    and splitt: "nChildren (node t p) = ys @ l # zs"
    using ct Some p split k(2) by (auto simp: mt tree_eq_iff)
  note run = unlink_leaf_run [OF t(2) lt(1,2) splitt] and kt = spine_children_distinct [OF t(2) lt(1,2) splitt]
  define s' where "s' = (upd_node p (\<lambda>n. n\<lparr>nChildren := ys @ zs\<rparr>) (shift_down zs t))
           \<lparr>tLeaves := gm_delete k (tLeaves t)\<rparr>"
  have zs: "distinct zs" "\<forall>c \<in> set zs. valid_node t c" using kt by auto
  have node': "node s' q = (if q = p then (node t p)\<lparr>nChildren := ys @ zs\<rparr>
      else if q \<in> set zs then (node t q)\<lparr>nIndex := nIndex (node t q) - 1\<rparr> else node t q)" for q
    using kt by (auto simp: s'_def ns.get_upd shift_down_node [OF zs])
  have kids: "nType (node s c) = NodeType_Server" if "c \<in> set (nChildren (node s l))" for c
    using wf_child(4) [OF wf Some that] .
  have pty: "nType (node s p) = NodeType_Spine"
    using wf_leaf_parent [OF wf Some] p(1) by (auto simp: spine_ok_def)
  have keep: "node t q = node s q" if "q \<in> set (p # ys @ zs)" for q
  proof -
    from that k pty have "q \<noteq> l" "nType (node s q) \<noteq> NodeType_Server" by auto
    with kids ct show ?thesis by metis
  qed
  have "leaf_removed s s' k l p ys zs"
    unfolding leaf_removed_def
  proof (intro conjI allI ballI impI)
    show "node s' p = (node s p)\<lparr>nChildren := ys @ zs\<rparr>" using keep by (simp add: node')
    show "node s' c = (node s c)\<lparr>nIndex := nIndex (node s c) - 1\<rparr>" if "c \<in> set zs" for c
      using that k keep by (auto simp: node')
    show "node s' q = node s q" if "q \<notin> set (p # l # zs)" "q \<notin> set (nChildren (node s l))" for q
      using that ct by (simp add: node')
    show "s'\<lparr>tNodes := [], tServers := [], tLeaves := []\<rparr> = s\<lparr>tNodes := [], tServers := [], tLeaves := []\<rparr>"
      using ct by (cases s; cases t) (simp add: s'_def upd_node_def shift_down_frame)
  qed (use Some p split ct in \<open>simp_all add: s'_def mt\<close>)
  moreover have "wf_topo s'"
  proof (rule wf_detach_leaf [OF t(2) lt])
    have "filter (\<lambda>c. c \<noteq> l) ys = ys" "filter (\<lambda>c. c \<noteq> l) zs = zs"
      using kt(1) by (auto intro!: filter_True)
    then show "tree (node s' p) = tree ((node t p)\<lparr>nChildren := filter (\<lambda>c. c \<noteq> l) (nChildren (node t p))\<rparr>)"
      by (simp add: node' splitt)
    show "tree (node s' q) = tree (node t q)" if "q \<noteq> p" for q
      using that by (simp add: node' tree_eq_iff)
  qed (simp_all add: s'_def)
  moreover have "RemoveLeaf k s = Some (Ret (s', int (length ys), zs))"
    using Some t(1) run by (simp add: RemoveLeaf_def s'_def)
  ultimately show ?thesis by (rule removed)
qed

end
