(* ===== verification/Topo_Codec.thy ===== *)
theory Topo_Codec
  imports Topology_Props
begin

text \<open>
  The construction of a topology object from the configuration files (\<open>NewDCNFromConf\<close>) and from a
  received message (\<open>NewDCNFromTopoInfo\<close>), and its encoding into a message (\<open>EncodeToTopoInfo\<close>,
  \<open>EncodeToTopoInfoAtLeaf\<close>), all in core/model/topology.go.

  The two constructors have the same body over different inputs. The common part is stated once,
  over what it reads of a server, a leaf or a spine (\<open>serverSpec\<close>, \<open>leafSpec\<close>, \<open>spineSpec\<close>); the
  reading itself (indexing the configuration's slices, dereferencing the message's pointers) is
  done where the loops do it, so that failures come in the order of the code.
\<close>

section \<open>Building the tree\<close>

record serverSpec =
  ssAddress :: string
  ssID :: u16
  ssPort :: string
  ssWorkers :: u16

record leafSpec =
  lsAddress :: string
  lsMgmtAddress :: string
  lsID :: u16
  lsIndex :: u16
  lsAsic :: string
  lsDsPort :: string
  lsUsPort :: string

record spineSpec =
  sSAddress :: string
  sSID :: u16
  sSAsic :: string

text \<open>The body of the server loop; \<open>workerID\<close> is its running counter.\<close>

definition build_server ::
  "string \<Rightarrow> nref \<Rightarrow> serverSpec \<Rightarrow> Topology \<times> u16 \<Rightarrow> (Topology \<times> u16) go" where
  "build_server asicStr leaf c st =
     (case st of (s, workerID) \<Rightarrow>
       (case FindPort s asicStr (ssPort c) of
          Inl e \<Rightarrow> Fatal
        | Inr p \<Rightarrow>
            (let (r, s1) = new_node (NewServer (tHw s) (ssAddress c) (ssID c) p) s;
                 s2 = upd_node r (\<lambda>n. n\<lparr>nParent := Some leaf\<rparr>) s1;
                 s3 = upd_node leaf (\<lambda>n. n\<lparr>nChildren := nChildren n @ [r]\<rparr>) s2;
                 workerID' = workerID + ssWorkers c;
                 s4 = upd_node r (\<lambda>n. n\<lparr>nFirstWorkerID := workerID,
                                      nLastWorkerID := workerID' - 1\<rparr>) s3
             in Ret (s4\<lparr>tServers := NodeMap_Store (ssID c) r (tServers s4)\<rparr>, workerID'))))"

definition build_leaf ::
  "nref \<Rightarrow> ('x \<Rightarrow> serverSpec go) \<Rightarrow> leafSpec \<times> 'x list \<Rightarrow> Topology \<Rightarrow> Topology go" where
  "build_leaf spine serverOf lc s =
     (case lc of (c, servers) \<Rightarrow>
       (case (FindPort s (lsAsic c) (lsDsPort c), FindPort s (lsAsic c) (lsUsPort c)) of
          (Inr dsPort, Inr usPort) \<Rightarrow>
            (let (l, s1) = new_node (NewLeaf (tHw s) (lsAddress c) (lsMgmtAddress c) (lsID c)
                             dsPort usPort) s;
                 s2 = upd_node l (\<lambda>n. n\<lparr>nIndex := lsIndex c, nParent := Some spine\<rparr>) s1;
                 s3 = upd_node spine (\<lambda>n. n\<lparr>nChildren := nChildren n @ [l]\<rparr>) s2;
                 s4 = upd_node l (\<lambda>n. n\<lparr>nFirstWorkerID := 0\<rparr>) s3
             in go_bind (go_fold (\<lambda>x st. go_bind (serverOf x)
                                   (\<lambda>sc. build_server (lsAsic c) l sc st)) servers (s4, 0))
                  (\<lambda>(s5, workerID).
                     let s6 = upd_node l (\<lambda>n. n\<lparr>nLastWorkerID := workerID - 1\<rparr>) s5
                     in Ret (s6\<lparr>tLeaves := NodeMap_Store (lsID c) l (tLeaves s6)\<rparr>)))
        | _ \<Rightarrow> Fatal))"

definition build_spine ::
  "('y \<Rightarrow> (leafSpec \<times> 'x list) go) \<Rightarrow> ('x \<Rightarrow> serverSpec go) \<Rightarrow> spineSpec \<times> 'y list
     \<Rightarrow> Topology \<Rightarrow> Topology go" where
  "build_spine leafOf serverOf sc s =
     (case sc of (c, leaves) \<Rightarrow>
       (case FindAsic s (sSAsic c) of
          Inl e \<Rightarrow> Fatal
        | Inr a \<Rightarrow>
            deref (tRoot s) (\<lambda>root.
              let (p, s1) = new_node (NewSpine (sSAddress c) (sSID c) a) s;
                  s2 = upd_node p (\<lambda>n. n\<lparr>nParent := Some root\<rparr>) s1;
                  s3 = upd_node root (\<lambda>n. n\<lparr>nChildren := nChildren n @ [p]\<rparr>) s2;
                  s4 = s3\<lparr>tSpines := NodeMap_Store (sSID c) p (tSpines s3)\<rparr>
              in go_fold (\<lambda>y t. go_bind (leafOf y) (\<lambda>lc. build_leaf p serverOf lc t)) leaves s4)))"

definition build_client :: "u16 \<Rightarrow> string \<Rightarrow> string \<Rightarrow> Topology \<Rightarrow> Topology go" where
  "build_client cid asicStr portStr s =
     (case FindPort s asicStr portStr of
        Inl e \<Rightarrow> Fatal
      | Inr p \<Rightarrow>
          (let (c, s1) = new_node (NewClient (tHw s) cid p) s
           in Ret (s1\<lparr>tClients := NodeMap_Store cid c (tClients s1)\<rparr>)))"

definition empty_topology :: "hw \<Rightarrow> AsicRegistry \<Rightarrow> Topology" where
  "empty_topology h ar = \<lparr>tHw = h, tNodes = [], tRoot = None, tClients = gm_empty,
     tServers = gm_empty, tLeaves = gm_empty, tSpines = gm_empty, tCores = gm_empty,
     tAsicRegistry = ar\<rparr>"

definition build_root :: "Topology \<Rightarrow> Topology" where
  "build_root s =
     (let (r, s1) = new_node (NewNode [] [] 0 0 NodeType_Core) s
      in s1\<lparr>tRoot := Some r, tCores := NodeMap_Store 0 r (tCores s1)\<rparr>)"

section \<open>From the configuration\<close>

text \<open>Indexing a slice.\<close>

definition go_nth :: "'a list \<Rightarrow> u16 \<Rightarrow> 'a go" where
  "go_nth xs i = (if unat i < length xs then Ret (xs ! unat i) else Panic)"

text \<open>The IDs in \<open>LeafIDs\<close> and \<open>ServerIDs\<close> are used as positions in the lists of the file.\<close>

definition conf_server :: "topoConfig \<Rightarrow> u16 \<Rightarrow> serverSpec go" where
  "conf_server cfg serverID =
     go_bind (go_nth (tcServers cfg) serverID) (\<lambda>c.
       Ret \<lparr>ssAddress = cvAddress c, ssID = cvID c, ssPort = cvPort c, ssWorkers = cvWorkersCount c\<rparr>)"

definition conf_leaf :: "topoConfig \<Rightarrow> u16 \<Rightarrow> (leafSpec \<times> u16 list) go" where
  "conf_leaf cfg leafID =
     go_bind (go_nth (tcLeaves cfg) leafID) (\<lambda>c.
       Ret (\<lparr>lsAddress = clAddress c, lsMgmtAddress = clMgmtAddress c, lsID = clID c,
             lsIndex = clIndex c, lsAsic = clAsic c, lsDsPort = clDsPort c,
             lsUsPort = clUsPort c\<rparr>, clServerIDs c))"

definition conf_spine :: "spineConfig \<Rightarrow> spineSpec \<times> u16 list" where
  "conf_spine c = (\<lparr>sSAddress = csAddress c, sSID = csID c, sSAsic = csAsic c\<rparr>, csLeafIDs c)"

definition NewDCNFromConf :: "topoRootConfig \<Rightarrow> Topology go" where
  "NewDCNFromConf cfg =
     (let topoCfg = trTopo cfg;
          (ar, h) = NewAsicRegistry (trAsics cfg) (trPortConfig cfg) (trPortGroup cfg)
                      \<lparr>hPorts = [], hAsics = []\<rparr>
      in go_bind (go_fold (\<lambda>c. build_client (ccID c) (ccAsic c) (ccPort c)) (tcClients topoCfg)
                    (empty_topology h ar)) (\<lambda>s1.
         go_fold (\<lambda>sc. build_spine (conf_leaf topoCfg) (conf_server topoCfg) (conf_spine sc))
           (tcSpines topoCfg) (build_root s1)))"

section \<open>From a message\<close>

definition info_server :: "ServerInfo \<Rightarrow> serverSpec go" where
  "info_server si =
     deref (siPort si) (\<lambda>p.
       Ret \<lparr>ssAddress = siAddress si, ssID = ucast (siId si), ssPort = piID p,
            ssWorkers = ucast (siWorkersCount si)\<rparr>)"

definition info_leaf :: "LeafInfo \<Rightarrow> (leafSpec \<times> ServerInfo list) go" where
  "info_leaf li =
     deref (liAsic li) (\<lambda>a. deref (liDsPort li) (\<lambda>ds. deref (liUsPort li) (\<lambda>us.
       Ret (\<lparr>lsAddress = liAddress li, lsMgmtAddress = liMgmtAddress li, lsID = ucast (liId li),
             lsIndex = ucast (liIndex li), lsAsic = aiID a, lsDsPort = piID ds,
             lsUsPort = piID us\<rparr>, liServers li))))"

definition info_spine :: "SpineInfo \<Rightarrow> (spineSpec \<times> LeafInfo list) go" where
  "info_spine spi =
     deref (spAsic spi) (\<lambda>a.
       Ret (\<lparr>sSAddress = spAddress spi, sSID = ucast (spId spi), sSAsic = aiID a\<rparr>, spLeaves spi))"

definition info_client :: "ClientInfo \<Rightarrow> Topology \<Rightarrow> Topology go" where
  "info_client ci s =
     deref (ciPort ci) (\<lambda>p. deref (ciAsic ci) (\<lambda>a.
       build_client (ucast (ciId ci)) (aiID a) (piID p) s))"

definition NewDCNFromTopoInfo :: "TopoInfo \<Rightarrow> Topology go" where
  "NewDCNFromTopoInfo info =
     go_bind (NewAsicRegistryFromInfo (tiAsics info) (tiPortConfig info) \<lparr>hPorts = [], hAsics = []\<rparr>)
       (\<lambda>(ar, h).
       go_bind (go_fold info_client (tiClients info) (empty_topology h ar)) (\<lambda>s1.
         go_fold (\<lambda>si s. go_bind (info_spine si) (\<lambda>sc. build_spine info_leaf info_server sc s))
           (tiSpines info) (build_root s1)))"

section \<open>Encoding\<close>

fun getAsicInfo :: "string \<Rightarrow> AsicInfo list \<Rightarrow> AsicInfo option" where
  "getAsicInfo asicID [] = None"
| "getAsicInfo asicID (a # as) = (if aiID a = asicID then Some a else getAsicInfo asicID as)"

text \<open>An ASIC with the right name but without the port does not end the search.\<close>

fun find_port_info :: "string \<Rightarrow> PortInfo list \<Rightarrow> PortInfo option" where
  "find_port_info portID [] = None"
| "find_port_info portID (p # ps) = (if piID p = portID then Some p else find_port_info portID ps)"

fun getPortInfo :: "string \<Rightarrow> string \<Rightarrow> AsicInfo list \<Rightarrow> PortInfo option" where
  "getPortInfo asicID portID [] = None"
| "getPortInfo asicID portID (a # as) =
     (if aiID a = asicID then
        (case find_port_info portID (aiPortsInfo a) of
           Some p \<Rightarrow> Some p
         | None \<Rightarrow> getPortInfo asicID portID as)
      else getPortInfo asicID portID as)"

definition port_asic_id :: "Topology \<Rightarrow> pref \<Rightarrow> string" where
  "port_asic_id s p = asID (asic (tHw s) (poAsic (port (tHw s) p)))"

definition port_spec_id :: "Topology \<Rightarrow> pref \<Rightarrow> string" where
  "port_spec_id s p = psID (poSpec (port (tHw s) p))"

text \<open>A loop that appends one element per iteration.\<close>

fun go_map :: "('x \<Rightarrow> 'y go) \<Rightarrow> 'x list \<Rightarrow> 'y list go" where
  "go_map f [] = Ret []"
| "go_map f (x # xs) = go_bind (f x) (\<lambda>y. go_bind (go_map f xs) (\<lambda>ys. Ret (y # ys)))"

definition getClientInfo :: "order \<Rightarrow> Topology \<Rightarrow> AsicInfo list \<Rightarrow> ClientInfo list go" where
  "getClientInfo ord s asics =
     go_map (\<lambda>(_, c). deref (nPort (node s c)) (\<lambda>p.
         Ret \<lparr>ciId = ucast (nID (node s c)), ciAddress = nAddress (node s c),
              ciAsic = getAsicInfo (port_asic_id s p) asics,
              ciPort = getPortInfo (port_asic_id s p) (port_spec_id s p) asics\<rparr>))
       (go_range ord (tClients s))"

definition encoded_workers :: "Node \<Rightarrow> u16" where
  "encoded_workers n =
     (if nLastWorkerID n > nFirstWorkerID n then nLastWorkerID n - nFirstWorkerID n + 1 else 0)"

definition encode_server :: "Topology \<Rightarrow> string \<Rightarrow> AsicInfo list \<Rightarrow> nref \<Rightarrow> ServerInfo go" where
  "encode_server s asicID asics r =
     deref (nPort (node s r)) (\<lambda>p.
       Ret \<lparr>siId = ucast (nID (node s r)), siAddress = nAddress (node s r),
            siWorkersCount = ucast (encoded_workers (node s r)), siLeafID = 0,
            siPort = getPortInfo asicID (port_spec_id s p) asics\<rparr>)"

definition encode_leaf :: "Topology \<Rightarrow> u16 \<Rightarrow> AsicInfo list \<Rightarrow> nref \<Rightarrow> LeafInfo go" where
  "encode_leaf s spineID asics l =
     deref (nDsPort (node s l)) (\<lambda>ds. deref (nUsPort (node s l)) (\<lambda>us.
       let asicID = port_asic_id s ds
       in go_bind (go_map (encode_server s asicID asics) (nChildren (node s l))) (\<lambda>servers.
            Ret \<lparr>liId = ucast (nID (node s l)), liIndex = ucast (nIndex (node s l)),
                 liAddress = nAddress (node s l), liMgmtAddress = nMgmtAddress (node s l),
                 liServers = servers, liSpineID = ucast spineID,
                 liAsic = getAsicInfo asicID asics,
                 liDsPort = getPortInfo asicID (port_spec_id s ds) asics,
                 liUsPort = getPortInfo asicID (port_spec_id s us) asics\<rparr>)))"

definition encode_spine :: "Topology \<Rightarrow> AsicInfo list \<Rightarrow> nref \<Rightarrow> SpineInfo go" where
  "encode_spine s asics sp =
     deref (nAsic (node s sp)) (\<lambda>a.
       go_bind (go_map (encode_leaf s (nID (node s sp)) asics) (nChildren (node s sp))) (\<lambda>leaves.
         Ret \<lparr>spId = ucast (nID (node s sp)), spAddress = nAddress (node s sp),
              spLeaves = leaves, spAsic = getAsicInfo (asID (asic (tHw s) a)) asics\<rparr>))"

definition EncodeToTopoInfo :: "order \<Rightarrow> Topology \<Rightarrow> TopoInfo go" where
  "EncodeToTopoInfo ord s =
     (let asics = EncodeToAsicInfo ord (tAsicRegistry s) (tHw s)
      in go_bind (getClientInfo ord s asics) (\<lambda>clients.
         go_bind (go_map (\<lambda>(_, sp). encode_spine s asics sp) (go_range ord (tSpines s))) (\<lambda>spines.
           Ret \<lparr>tiSpines = spines, tiClients = clients, tiAsics = asics,
                tiPortConfig = EncodeToPortConfigInfo ord (tAsicRegistry s) (tHw s)\<rparr>)))"

text \<open>
  The topology as one leaf sees it; \<open>None\<close> is the nil that the function returns for an unknown
  leaf. The spine is looked up again by the ID of the leaf's parent.
\<close>

definition EncodeToTopoInfoAtLeaf :: "order \<Rightarrow> LeafInfo \<Rightarrow> Topology \<Rightarrow> TopoInfo option go" where
  "EncodeToTopoInfoAtLeaf ord leafInfo s =
     (let asics = EncodeToAsicInfo ord (tAsicRegistry s) (tHw s)
      in go_bind (getClientInfo ord s asics) (\<lambda>clients.
         go_bind (GetNode s (ucast (liId leafInfo)) NodeType_Leaf) (\<lambda>leaf.
           case leaf of
             None \<Rightarrow> Ret None
           | Some l \<Rightarrow>
               (case nParent (node s l) of
                  None \<Rightarrow> Ret None
                | Some p \<Rightarrow>
                    go_bind (GetNode s (nID (node s p)) NodeType_Spine) (\<lambda>spine.
                      deref spine (\<lambda>sp. deref (nAsic (node s sp)) (\<lambda>a.
                        go_bind (encode_leaf s (nID (node s sp)) asics l) (\<lambda>info.
                          Ret (Some \<lparr>
                            tiSpines = [\<lparr>spId = ucast (nID (node s sp)),
                              spAddress = nAddress (node s sp), spLeaves = [info],
                              spAsic = getAsicInfo (asID (asic (tHw s) a)) asics\<rparr>],
                            tiClients = clients, tiAsics = asics,
                            tiPortConfig =
                              EncodeToPortConfigInfo ord (tAsicRegistry s) (tHw s)\<rparr>)))))))))"

end
