(* ===== verification/Topology_Correct.thy ===== *)
theory Topology_Correct
  imports Topo_Codec
begin

text \<open>
  The properties of the topology operations (core/model/topology.go), each with a witness on a
  small concrete data centre: one spine, the leaves 0 and 1, the servers 0 and 1 at leaf 0 and the
  server 2 at leaf 1.
\<close>

section \<open>Leaf indices\<close>

text \<open>The index of a leaf is its position among the leaves of its spine.\<close>

definition indices_ok :: "Topology \<Rightarrow> bool" where
  "indices_ok s \<longleftrightarrow> (\<forall>k p. gm_load (tSpines s) k = Some p \<longrightarrow>
     (\<forall>i < length (nChildren (node s p)). nIndex (node s (nChildren (node s p) ! i)) = of_nat i))"

lemma leaf_added_indices:
  assumes wf: "wf_topo s" and ok: "indices_ok s" and eff: "leaf_added s s' li sp ds us l"
  shows "indices_ok s'"
  unfolding indices_ok_def
proof (intro allI impI)
  fix k p i
  assume "gm_load (tSpines s') k = Some p" and i: "i < length (nChildren (node s' p))"
  then have p: "gm_load (tSpines s) k = Some p" using leaf_added_maps [OF eff] by simp
  note e = eff [unfolded leaf_added_def]
  have sp: "gm_load (tSpines s) (ucast (liSpineID li)) = Some sp" using e by blast
  have ty: "nType (node s q) = NodeType_Spine \<and> valid_node s q" if "gm_load (tSpines s) j = Some q" for j q
    using wf_spine [OF wf that] by (simp add: spine_ok_def)
  have same: "node s' c = node s c" if "c \<in> set (nChildren (node s p))" for c
    using e ty [OF sp] wf_leaf_child(3,4) [OF wf p that] by auto
  have old: "nIndex (node s' (nChildren (node s p) ! i)) = of_nat i" if "i < length (nChildren (node s p))" for i
    using ok p that same by (auto simp: indices_ok_def)
  show "nIndex (node s' (nChildren (node s' p) ! i)) = of_nat i"
  proof (cases "p = sp")
    case True
    with e have "nChildren (node s' p) = nChildren (node s p) @ [l]" by simp
    with i old e True show ?thesis by (cases "i < length (nChildren (node s p))") (auto simp: nth_append less_Suc_eq)
  next
    case False
    with e ty [OF p] i old show ?thesis by simp
  qed
qed

lemma leaf_removed_indices:
  assumes wf: "wf_topo s" and ok: "indices_ok s" and eff: "leaf_removed s s' k l p ys zs"
  shows "indices_ok s'"
  unfolding indices_ok_def
proof (intro allI impI)
  fix j q i
  assume "gm_load (tSpines s') j = Some q" and i: "i < length (nChildren (node s' q))"
  then have q: "gm_load (tSpines s) j = Some q" using leaf_removed_maps [OF eff] by simp
  note e = eff [unfolded leaf_removed_def]
  have l: "gm_load (tLeaves s) k = Some l" "nParent (node s l) = Some p"
    and split: "nChildren (node s p) = ys @ l # zs" using e by blast+
  note sp = spine_children_distinct [OF wf l split]
  have psp: "gm_load (tSpines s) (nID (node s p)) = Some p" "nType (node s p) = NodeType_Spine"
    using wf_leaf_parent [OF wf l(1)] wf_spine [OF wf] l(2) by (metis option.inject spine_ok_def)+
  have kid: "nType (node s c) = NodeType_Server" if "c \<in> set (nChildren (node s l))" for c
    using wf_child(4) [OF wf l(1) that] .
  have leaf: "nType (node s c) = NodeType_Leaf \<and> nParent (node s c) = Some q"
    if "c \<in> set (nChildren (node s q))" for c using wf_leaf_child [OF wf q that] by simp
  have qs: "nType (node s q) = NodeType_Spine" using wf_spine [OF wf q] by (simp add: spine_ok_def)
  have idx: "nIndex (node s (nChildren (node s q) ! i)) = of_nat i" if "i < length (nChildren (node s q))" for i
    using ok q that by (simp add: indices_ok_def)
  show "nIndex (node s' (nChildren (node s' q) ! i)) = of_nat i"
  proof (cases "q = p")
    case True
    then have ch: "nChildren (node s' q) = ys @ zs" using e by simp
    show ?thesis
    proof (cases "i < length ys")
      case True
      then have c: "nChildren (node s' q) ! i = ys ! i" "ys ! i \<in> set ys" by (simp_all add: ch nth_append)
      have "ys ! i \<notin> set (p # l # zs)" using sp c(2) by auto
      moreover have "ys ! i \<notin> set (nChildren (node s l))"
        using kid [of "ys ! i"] sp(5) [of "ys ! i"] c(2) by auto
      ultimately have "node s' (ys ! i) = node s (ys ! i)" using e by blast
      with idx [of i] True c \<open>q = p\<close> show ?thesis by (simp add: split nth_append)
    next
      case False
      define m where "m = i - length ys"
      with False i ch have m: "i = length ys + m" "m < length zs" by auto
      then have "node s' (zs ! m) = (node s (zs ! m))\<lparr>nIndex := nIndex (node s (zs ! m)) - 1\<rparr>"
        using e by simp
      moreover have "nIndex (node s (zs ! m)) = of_nat (Suc i)"
        using idx [of "Suc i"] m \<open>q = p\<close> by (simp add: split nth_append)
      ultimately show ?thesis using m by (simp add: ch nth_append)
    qed
  next
    case False
    have same: "node s' c = node s c" if "c \<in> set (nChildren (node s q))" for c
    proof -
      have "c \<noteq> p" using leaf [OF that] psp(2) by auto
      moreover have "c \<notin> set (l # zs)"
      proof
        assume "c \<in> set (l # zs)"
        then have "c \<in> set (nChildren (node s p))" by (auto simp: split)
        with psp(1) have "nParent (node s c) = Some p" using wf_leaf_child(2) [OF wf] by blast
        with leaf [OF that] False show False by simp
      qed
      moreover have "c \<notin> set (nChildren (node s l))" using kid [of c] leaf [OF that] by auto
      ultimately show ?thesis using e by auto
    qed
    have "q \<notin> set (p # l # zs)" using False sp(5) [of q] qs by auto
    moreover have "q \<notin> set (nChildren (node s l))" using kid [of q] qs by auto
    ultimately have "node s' q = node s q" using e by blast
    with i idx same show ?thesis by simp
  qed
qed

text \<open>Adding and removing a server moves no leaf.\<close>

lemma indices_ok_cong:
  assumes wf: "wf_topo s" and ok: "indices_ok s" and maps: "tSpines s' = tSpines s"
    and leaves: "\<And>q. nType (node s q) = NodeType_Leaf \<Longrightarrow> valid_node s q \<Longrightarrow>
      nIndex (node s' q) = nIndex (node s q)"
    and spines: "\<And>q. nType (node s q) = NodeType_Spine \<Longrightarrow> valid_node s q \<Longrightarrow>
      nChildren (node s' q) = nChildren (node s q)"
  shows "indices_ok s'"
  unfolding indices_ok_def
proof (intro allI impI)
  fix k p i
  assume "gm_load (tSpines s') k = Some p" and i: "i < length (nChildren (node s' p))"
  then have p: "gm_load (tSpines s) k = Some p" by (simp add: maps)
  then have "nChildren (node s' p) = nChildren (node s p)"
    using spines wf_spine [OF wf p] by (simp add: spine_ok_def)
  moreover from this i have "nChildren (node s p) ! i \<in> set (nChildren (node s p))" by simp
  ultimately show "nIndex (node s' (nChildren (node s' p) ! i)) = of_nat i"
    using ok p i leaves wf_leaf_child(3,4) [OF wf p] by (simp add: indices_ok_def)
qed

lemma server_added_indices:
  assumes wf: "wf_topo s" and ok: "indices_ok s" and eff: "server_added s s' si lid l p w r"
  shows "indices_ok s'"
proof (rule indices_ok_cong [OF wf ok])
  note e = eff [unfolded server_added_def]
  then have "nType (node s l) = NodeType_Leaf" using wf_leaf [OF wf] by (auto simp: leaf_ok_def)
  with e show "nChildren (node s' q) = nChildren (node s q)"
    if "nType (node s q) = NodeType_Spine" "valid_node s q" for q using that by fastforce
  show "nIndex (node s' q) = nIndex (node s q)" if "valid_node s q" for q
    using e that by (cases "q = l") auto
qed (use server_added_maps [OF eff] in simp)

lemma server_removed_indices:
  assumes wf: "wf_topo s" and ok: "indices_ok s" and eff: "server_removed s s' k r l ys zs"
  shows "indices_ok s'"
proof (rule indices_ok_cong [OF wf ok])
  note e = eff [unfolded server_removed_def]
  from e have "gm_load (tLeaves s) (nID (node s l)) = Some l" using wf_parent [OF wf] by (metis option.inject)
  then have l: "nType (node s l) = NodeType_Leaf" using wf_leaf [OF wf] by (auto simp: leaf_ok_def)
  have fields: "nIndex (node s' q) = nIndex (node s q) \<and> (q \<noteq> l \<longrightarrow> nChildren (node s' q) = nChildren (node s q))"
    for q
  proof (cases "q \<in> set (ys @ zs) \<and> q \<noteq> l")
    case True
    with e obtain a b where "node s' q = (node s q)\<lparr>nFirstWorkerID := a, nLastWorkerID := b\<rparr>" by blast
    then show ?thesis by simp
  next
    case False
    with e show ?thesis by (cases "q = l") auto
  qed
  then show "nIndex (node s' q) = nIndex (node s q)" for q by blast
  show "nChildren (node s' q) = nChildren (node s q)" if "nType (node s q) = NodeType_Spine" for q
    using fields [of q] l that by auto
qed (use server_removed_maps [OF eff] in simp)

section \<open>Worker IDs under the other operations\<close>

lemma leaf_removed_workers:
  assumes wf: "wf_topo s" and all: "all_workers_ok s" and eff: "leaf_removed s s' k l p ys zs"
  shows "all_workers_ok s'"
  unfolding all_workers_ok_def
proof (intro allI impI)
  fix j q assume "gm_load (tLeaves s') j = Some q"
  note e = eff [unfolded leaf_removed_def]
  with \<open>gm_load (tLeaves s') j = Some q\<close> have q: "gm_load (tLeaves s) j = Some q" "j \<noteq> k"
    by (auto split: if_splits)
  have l: "gm_load (tLeaves s) k = Some l" "nParent (node s l) = Some p"
    and split: "nChildren (node s p) = ys @ l # zs" using e by blast+
  note sp = spine_children_distinct [OF wf l split]
  have lk: "nID (node s l) = k" "nID (node s q) = j" "nType (node s q) = NodeType_Leaf"
    using wf_leaf [OF wf l(1)] wf_leaf [OF wf q(1)] by (simp_all add: leaf_ok_def)
  then have ql: "q \<noteq> l" using q by auto
  have "nType (node s p) = NodeType_Spine"
    using wf_leaf_parent [OF wf l(1)] wf_spine [OF wf] l(2) by (metis option.inject spine_ok_def)
  then have qp: "q \<noteq> p" using lk by auto
  have "nType (node s c) = NodeType_Server" if "c \<in> set (nChildren (node s l))" for c
    using wf_child(4) [OF wf l(1) that] .
  then have qc: "q \<notin> set (nChildren (node s l))" using lk by auto
  have kid: "node s' c = node s c" if "c \<in> set (nChildren (node s q))" for c
  proof -
    note c = wf_child [OF wf q(1) that]
    have "c \<notin> set (nChildren (node s l))" using wf_child(2) [OF wf l(1), of c] c(2) ql by auto
    moreover have "c \<notin> set (p # l # zs)"
      using c(4) \<open>nType (node s p) = NodeType_Spine\<close> sp(5) [of c] by auto
    ultimately show ?thesis using e by blast
  qed
  have "\<exists>i. node s' q = (node s q)\<lparr>nIndex := i\<rparr>"
  proof (cases "q \<in> set zs")
    case True
    with e show ?thesis by blast
  next
    case False
    with e ql qp qc have "node s' q = node s q" by simp
    then show ?thesis by (intro exI [of _ "nIndex (node s q)"]) simp
  qed
  then obtain i where "node s' q = (node s q)\<lparr>nIndex := i\<rparr>" by blast
  then have "workers_ok s' q \<longleftrightarrow> workers_ok s q" using kid by (intro workers_ok_cong) auto
  with all q show "workers_ok s' q" by (simp add: all_workers_ok_def)
qed

lemma leaf_added_workers:
  assumes wf: "wf_topo s" and all: "all_workers_ok s" and eff: "leaf_added s s' li sp ds us l"
  shows "all_workers_ok s'"
  unfolding all_workers_ok_def
proof (intro allI impI)
  fix j q assume q': "gm_load (tLeaves s') j = Some q"
  note e = eff [unfolded leaf_added_def]
  have sp: "nType (node s sp) = NodeType_Spine" using wf_spine [OF wf] e by (auto simp: spine_ok_def)
  show "workers_ok s' q"
  proof (cases "j = ucast (liId li)")
    case True
    with q' e have "q = l" by simp
    then show ?thesis using e
      by (simp add: workers_ok_def NewLeaf_def zero_Node_def total_workers_def last_worker_def)
  next
    case False
    with q' e have q: "gm_load (tLeaves s) j = Some q" by simp
    have "node s' q = node s q" using e sp wf_leaf [OF wf q] by (auto simp: leaf_ok_def)
    moreover have "node s' c = node s c" if "c \<in> set (nChildren (node s q))" for c
      using e sp wf_child(3,4) [OF wf q that] by auto
    ultimately have "workers_ok s' q \<longleftrightarrow> workers_ok s q" by (intro workers_ok_cong) auto
    with all q show ?thesis by (simp add: all_workers_ok_def)
  qed
qed

lemma server_added_other_workers:
  assumes wf: "wf_topo s" and eff: "server_added s s' si lid l p w r"
    and q: "gm_load (tLeaves s) j = Some q" "q \<noteq> l"
  shows "workers_ok s' q \<longleftrightarrow> workers_ok s q"
proof (intro workers_ok_cong ballI)
  note e = eff [unfolded server_added_def]
  have v: "valid_node s q" "nType (node s q) = NodeType_Leaf" using wf_leaf [OF wf q(1)] by (simp_all add: leaf_ok_def)
  have l: "nType (node s l) = NodeType_Leaf" using wf_leaf [OF wf] e by (auto simp: leaf_ok_def)
  show "nChildren (node s' q) = nChildren (node s q)" "nFirstWorkerID (node s' q) = nFirstWorkerID (node s q)"
    "nLastWorkerID (node s' q) = nLastWorkerID (node s q)" using e v q(2) by auto
  show "node s' c = node s c" if "c \<in> set (nChildren (node s q))" for c
    using e l wf_child(3,4) [OF wf q(1) that] by auto
qed

section \<open>The topology as a state machine\<close>

definition clear_children :: "nref list \<Rightarrow> Topology \<Rightarrow> Topology" where
  "clear_children ps s = fold (\<lambda>sp. upd_node sp (\<lambda>n. n\<lparr>nChildren := []\<rparr>)) ps s"

lemma clear_children_Cons [simp]:
  "clear_children [] s = s"
  "clear_children (p # ps) s = clear_children ps (upd_node p (\<lambda>n. n\<lparr>nChildren := []\<rparr>) s)"
  by (simp_all add: clear_children_def)

lemma clear_children_frame [simp]:
  "(clear_children ps s)\<lparr>tNodes := ns\<rparr> = s\<lparr>tNodes := ns\<rparr>"
  "tSpines (clear_children ps s) = tSpines s" "valid_node (clear_children ps s) q = valid_node s q"
  by (induction ps arbitrary: s) simp_all

lemma clear_children_node:
  "\<forall>p \<in> set ps. valid_node s p \<Longrightarrow> node (clear_children ps s) q =
      (if q \<in> set ps then (node s q)\<lparr>nChildren := []\<rparr> else node s q)"
  by (induction ps arbitrary: s) (simp_all add: ns.get_upd)

lemma ClearLeaves_eq:
  "ClearLeaves s =
     (clear_children (map snd (tSpines s)) s)\<lparr>tLeaves := gm_empty, tServers := gm_empty\<rparr>"
  by (simp add: ClearLeaves_def clear_children_def fold_map o_def case_prod_unfold)

lemma ClearLeaves_spine:
  assumes wf: "wf_topo s" and p: "gm_load (tSpines s) k = Some p"
  shows "node (ClearLeaves s) p = (node s p)\<lparr>nChildren := []\<rparr>"
    and "spine_ok (ClearLeaves s) k p"
proof -
  have iff: "gm_load (tSpines s) j = Some q \<longleftrightarrow> (j, q) \<in> set (tSpines s)" for j q
    using wf_maps(3) [OF wf] by (rule gm_load_iff)
  have "\<forall>p \<in> set (map snd (tSpines s)). valid_node s p"
    using wf_spine [OF wf] by (auto simp: spine_ok_def iff)
  moreover have "p \<in> set (map snd (tSpines s))" using p by (force simp: iff)
  ultimately show "node (ClearLeaves s) p = (node s p)\<lparr>nChildren := []\<rparr>"
    by (simp add: ClearLeaves_eq clear_children_node)
  then show "spine_ok (ClearLeaves s) k p"
    using wf_spine [OF wf p] by (simp add: spine_ok_def) (simp add: ClearLeaves_eq)
qed

lemma ClearLeaves_wf:
  assumes wf: "wf_topo s"
  shows "wf_topo (ClearLeaves s)" and "indices_ok (ClearLeaves s)"
proof -
  have maps: "tSpines (ClearLeaves s) = tSpines s" "tLeaves (ClearLeaves s) = gm_empty"
    "tServers (ClearLeaves s) = gm_empty" by (simp_all add: ClearLeaves_eq)
  show "wf_topo (ClearLeaves s)"
    by (rule wf_topoI) (use ClearLeaves_spine [OF wf] wf_maps(3) [OF wf] in \<open>simp_all add: maps\<close>)
  show "indices_ok (ClearLeaves s)"
    using ClearLeaves_spine(1) [OF wf] by (simp add: indices_ok_def maps)
qed

text \<open>One call of an operation that changes the tree.\<close>

inductive topo_step :: "Topology \<Rightarrow> Topology \<Rightarrow> bool" where
  add_leaf: "AddLeafToSpine li s = Ret (s', res) \<Longrightarrow> topo_step s s'"
| add_server: "AddServerToLeaf si lid s = Ret (s', res) \<Longrightarrow> topo_step s s'"
| remove_server: "RemoveServer k s = Ret (s', b, us) \<Longrightarrow> topo_step s s'"
| remove_leaf: "RemoveLeaf k s = Some (Ret (s', i, us)) \<Longrightarrow> topo_step s s'"
| clear_leaves: "topo_step s (ClearLeaves s)"

lemma topo_step_inv:
  assumes "topo_step s s'" and wf: "wf_topo s" and ok: "indices_ok s"
  shows "wf_topo s' \<and> indices_ok s'"
  using assms(1)
proof cases
  case (add_leaf li res)
  with AddLeafToSpine_wf [OF wf] have "wf_topo s'" by blast
  moreover have "indices_ok s'"
  proof (cases res)
    case (Inl e)
    with add_leaf AddLeafToSpine_error ok show ?thesis by blast
  next
    case (Inr l)
    with add_leaf AddLeafToSpine_effect [OF wf] leaf_added_indices [OF wf ok] show ?thesis by metis
  qed
  ultimately show ?thesis ..
next
  case (add_server si lid res)
  with AddServerToLeaf_wf [OF wf] have "wf_topo s'" by blast
  moreover have "indices_ok s'"
  proof (cases res)
    case (Inl e)
    with add_server AddServerToLeaf_error ok show ?thesis by blast
  next
    case (Inr r)
    with add_server AddServerToLeaf_effect [OF wf] server_added_indices [OF wf ok] show ?thesis by metis
  qed
  ultimately show ?thesis ..
next
  case (remove_server k b us)
  from wf show ?thesis
  proof (cases rule: RemoveServer_cases [where k = k])
    case unknown
    with remove_server wf ok show ?thesis by simp
  next
    case (removed r l ys zs t)
    with remove_server server_removed_wf [OF wf] server_removed_indices [OF wf ok] show ?thesis by auto
  qed
next
  case (remove_leaf k i us)
  from wf show ?thesis
  proof (cases rule: RemoveLeaf_cases [where k = k])
    case unknown
    with remove_leaf wf ok show ?thesis by simp
  next
    case (removed l p ys zs t)
    with remove_leaf leaf_removed_indices [OF wf ok] show ?thesis by auto
  qed
next
  case clear_leaves
  with ClearLeaves_wf [OF wf] show ?thesis by simp
qed

section \<open>A small data centre for the witnesses\<close>

definition sample_port :: "u64 \<Rightarrow> u64 \<Rightarrow> Port" where
  "sample_port cage lane = \<lparr>poSpec = NewPortSpec cage lane, poDevPort = 0,
     poConfig = \<lparr>pcID = ''c'', pcSpeed = ''BF_SPEED_10G'', pcFec = ''BF_FEC_TYP_NONE'',
                 pcAn = ''PM_AN_DEFAULT''\<rparr>, poAsic = 0\<rparr>"

definition sample_hw :: hw where
  "sample_hw = \<lparr>hPorts = [sample_port 1 0, sample_port 1 1, sample_port 2 0],
     hAsics = [\<lparr>asID = ''a'', asProgram = ''p'', asDeviceID = 0, asPipeID = 0,
       asCtrlAddress = [], asCtrlAPI = ''v1'',
       asPortRegistry = \<lparr>prConfigMap = [],
         prPortMap = [(''1/0'', 0), (''1/1'', 1), (''2/0'', 2)]\<rparr>\<rparr>]\<rparr>"

definition sample_leaf :: "u16 \<Rightarrow> u16 \<Rightarrow> nref list \<Rightarrow> u16 \<Rightarrow> Node" where
  "sample_leaf k i cs lst = zero_Node\<lparr>nAddress := ''l'', nID := k, nType := NodeType_Leaf,
     nParent := Some 1, nChildren := cs, nAsic := Some 0, nDsPort := Some 0, nUsPort := Some 1,
     nLastWorkerID := lst, nIndex := i\<rparr>"

definition sample_server :: "u16 \<Rightarrow> nref \<Rightarrow> u16 \<Rightarrow> u16 \<Rightarrow> Node" where
  "sample_server k l fst_id lst = zero_Node\<lparr>nAddress := ''v'', nID := k, nParent := Some l,
     nAsic := Some 0, nPort := Some 2, nFirstWorkerID := fst_id, nLastWorkerID := lst\<rparr>"

text \<open>
  Node 0 is the root, node 1 the spine 0, node 2 the leaf 0 with the servers 0 (four workers) and 1
  (two workers), node 5 the leaf 1 with the server 2 (three workers).
\<close>

definition sample :: Topology where
  "sample = \<lparr>tHw = sample_hw,
     tNodes = [NewNode [] [] 0 0 NodeType_Core,
       (NewSpine ''s'' 0 0)\<lparr>nParent := Some 0, nChildren := [2, 5]\<rparr>,
       sample_leaf 0 0 [3, 4] 5, sample_server 0 2 0 3, sample_server 1 2 4 5,
       sample_leaf 1 1 [6] 2, sample_server 2 5 0 2],
     tRoot = Some 0, tClients = [], tServers = [(0, 3), (1, 4), (2, 6)],
     tLeaves = [(0, 2), (1, 5)], tSpines = [(0, 1)], tCores = [(0, 0)],
     tAsicRegistry = [(''a'', 0)]\<rparr>"

lemmas sample_eval = sample_def sample_leaf_def sample_server_def NewNode_def NewSpine_def
  zero_Node_def topo_eval gm_eval

lemma wf_topo_code:
  "wf_topo s \<longleftrightarrow>
     gm_wf (tServers s) \<and> gm_wf (tLeaves s) \<and> gm_wf (tSpines s) \<and>
     (\<forall>(k, r) \<in> set (tServers s). server_ok s k r) \<and>
     (\<forall>(k, l) \<in> set (tLeaves s). leaf_ok s k l) \<and>
     (\<forall>(k, p) \<in> set (tSpines s). spine_ok s k p)"
  by (auto simp: wf_topo_def gm_load_iff)

lemma sample_wf: "wf_topo sample"
  by (simp add: wf_topo_code server_ok_def leaf_ok_def spine_ok_def sample_eval)

lemma sample_indices: "indices_ok sample"
  by (auto simp: indices_ok_def sample_eval less_Suc_eq split: if_splits)

lemma sample_workers: "all_workers_ok sample"
  by (auto simp: all_workers_ok_def workers_ok_def total_workers_def worker_count_def
      last_worker_def sample_eval split: if_splits)

lemma sample_nodes:
  "gm_load (tServers sample) 0 = Some 3" "gm_load (tServers sample) 1 = Some 4"
  "gm_load (tServers sample) 2 = Some 6" "gm_load (tServers sample) 9 = None"
  "gm_load (tLeaves sample) 0 = Some 2" "gm_load (tLeaves sample) 1 = Some 5"
  "gm_load (tSpines sample) 0 = Some 1"
  "nParent (node sample 3) = Some 2" "nParent (node sample 2) = Some 1"
  "nChildren (node sample 2) = [3, 4]" "nChildren (node sample 1) = [2, 5]"
  by (simp_all add: sample_eval)

section \<open>Facts the properties share\<close>

interpretation ti: invariant "\<lambda>s. wf_topo s \<and> indices_ok s" topo_step
  by unfold_locales (use topo_step_inv in blast)

lemma layout_append:
  "layout w (ms @ ns) \<longleftrightarrow> layout w ms \<and> layout (w + (\<Sum>m\<leftarrow>ms. worker_count m)) ns"
  by (induction ms arbitrary: w) (auto simp: worker_count_def algebra_simps)

text \<open>A layout and the sizes of the blocks determine the worker IDs.\<close>

lemma layout_determines:
  assumes "layout w ms" and "layout w ns" and "map worker_count ms = map worker_count ns"
  shows "map (\<lambda>n. (nFirstWorkerID n, nLastWorkerID n)) ms = map (\<lambda>n. (nFirstWorkerID n, nLastWorkerID n)) ns"
  using assms
proof (induction ms arbitrary: w ns)
  case (Cons m ms)
  then obtain n ns' where ns: "ns = n # ns'" by (cases ns) auto
  with Cons.prems have "nLastWorkerID m = nLastWorkerID n" by (simp add: worker_count_def)
  with Cons ns show ?case by auto
qed simp

lemma server_removed_count:
  assumes "server_removed s s' k r l ys zs" and "c \<in> set (ys @ zs)"
  shows "worker_count (node s' c) = worker_count (node s c)"
proof -
  from assms obtain a b where "node s' c = (node s c)\<lparr>nFirstWorkerID := a, nLastWorkerID := b\<rparr>"
    "b - a = nLastWorkerID (node s c) - nFirstWorkerID (node s c)" unfolding server_removed_def by blast
  then show ?thesis by (simp add: worker_count_def)
qed

text \<open>Under the layout invariant the servers before the removed one keep their worker IDs.\<close>

lemma server_removed_prefix:
  assumes wk: "workers_ok s l" and eff: "server_removed s s' k r l ys zs" and c: "c \<in> set ys"
  shows "node s' c = node s c"
proof -
  note e = eff [unfolded server_removed_def]
  have split: "nChildren (node s l) = ys @ r # zs" using e by blast
  have before: "layout 0 (map (node s) ys)" using wk by (simp add: workers_ok_def split layout_append)
  have after: "layout 0 (map (node s') ys)" using e by (simp add: layout_append)
  have "map worker_count (map (node s') ys) = map worker_count (map (node s) ys)"
    using server_removed_count [OF eff] by simp
  from layout_determines [OF after before this] c
  have eq: "nFirstWorkerID (node s' c) = nFirstWorkerID (node s c)"
    "nLastWorkerID (node s' c) = nLastWorkerID (node s c)" by simp_all
  from c have "c \<in> set (ys @ zs)" by simp
  with e obtain a b where "node s' c = (node s c)\<lparr>nFirstWorkerID := a, nLastWorkerID := b\<rparr>" by blast
  with eq show ?thesis by simp
qed

lemma RemoveServer_removed:
  assumes wf: "wf_topo s" and r: "gm_load (tServers s) k = Some r" "nParent (node s r) = Some l"
    and split: "nChildren (node s l) = ys @ r # zs"
  shows "\<exists>s'. RemoveServer k s = Ret (s', True, zs) \<and> server_removed s s' k r l ys zs"
  using wf
proof (cases rule: RemoveServer_cases [where k = k])
  case (removed r' l' ys' zs' s')
  note e = removed(1) [unfolded server_removed_def]
  from e r have eq: "r' = r" "l' = l" by auto
  from wf_parent [OF wf r(1)] r(2) have "distinct (ys @ r # zs)"
    using split by (metis leaf_ok_def option.inject)
  moreover have "ys @ r # zs = ys' @ r # zs'" using e eq split by simp
  ultimately have "ys' = ys \<and> zs' = zs"
    by (metis append_Cons_eq_iff distinct_append not_distinct_conv_prefix disjoint_insert(1) distinct.simps(2) list.simps(15))
  with removed eq show ?thesis by auto
qed (use r in simp)

lemma RemoveLeaf_removed:
  assumes wf: "wf_topo s" and l: "gm_load (tLeaves s) k = Some l" "nParent (node s l) = Some p"
    and split: "nChildren (node s p) = ys @ l # zs"
  shows "\<exists>s'. RemoveLeaf k s = Some (Ret (s', int (length ys), zs)) \<and> wf_topo s' \<and>
    leaf_removed s s' k l p ys zs"
  using wf
proof (cases rule: RemoveLeaf_cases [where k = k])
  case (removed l' p' ys' zs' s')
  note e = removed(1) [unfolded leaf_removed_def]
  from e l have eq: "l' = l" "p' = p" by auto
  have "distinct (ys @ l # zs)" by (rule spine_children_distinct [OF wf l split])
  moreover have "ys @ l # zs = ys' @ l # zs'" using e eq split by simp
  ultimately have "ys' = ys \<and> zs' = zs"
    by (metis append_Cons_eq_iff distinct_append not_distinct_conv_prefix disjoint_insert(1) distinct.simps(2) list.simps(15))
  with removed eq show ?thesis by auto
qed (use l in simp)

text \<open>A leaf whose first child is not found under its ID keeps the loop running.\<close>

lemma remove_children_stuck:
  assumes "nChildren (node s l) = c # cs" and "gm_load (tServers s) (nID (node s c)) = None"
  shows "remove_children l s = None"
proof (rule ccontr)
  assume "remove_children l s \<noteq> None"
  then obtain r where "remove_children l s = Some r" by blast
  then have "\<forall>c cs. nChildren (node s l) = c # cs \<longrightarrow> gm_load (tServers s) (nID (node s c)) \<noteq> None"
  proof (rule remove_children.raw_induct [where P = "\<lambda>l s _. \<forall>c cs. nChildren (node s l) = c # cs \<longrightarrow>
      gm_load (tServers s) (nID (node s c)) \<noteq> None", rotated])
    fix f leaf t y
    assume IH: "\<And>l s y. f l s = Some y \<Longrightarrow> \<forall>c cs. nChildren (node s l) = c # cs \<longrightarrow>
        gm_load (tServers s) (nID (node s c)) \<noteq> None"
      and run: "(case nChildren (node t leaf) of [] \<Rightarrow> Some (Ret t)
        | c # _ \<Rightarrow> (case RemoveServer (nID (node t c)) t of
             Ret (s', _) \<Rightarrow> f leaf s' | Panic \<Rightarrow> Some Panic | Fatal \<Rightarrow> Some Fatal)) = Some y"
    show "\<forall>c cs. nChildren (node t leaf) = c # cs \<longrightarrow> gm_load (tServers t) (nID (node t c)) \<noteq> None"
    proof (intro allI impI notI)
      fix c cs assume c: "nChildren (node t leaf) = c # cs"
        and none: "gm_load (tServers t) (nID (node t c)) = None"
      then have "RemoveServer (nID (node t c)) t = Ret (t, False, [])" by (simp add: RemoveServer_def)
      with run c have "f leaf t = Some y" by simp
      with IH c none show False by blast
    qed
  qed
  with assms show False by blast
qed

section \<open>The properties\<close>

text \<open>
  C1: From a well-formed topology, any sequence of additions and removals of leaves and servers, in
  any order and with any outcome, leads to a well-formed topology in which the index of every leaf
  is its position among the leaves of its spine.
\<close>

theorem topo_steps_keep_tree:
  assumes "topo_step\<^sup>*\<^sup>* s s'" and "wf_topo s" and "indices_ok s"
  shows "wf_topo s' \<and> indices_ok s'"
  using ti.reachable assms by blast

theorem topo_steps_keep_tree_witness:
  "\<exists>s'. topo_step\<^sup>*\<^sup>* sample s' \<and> gm_load (tServers s') 0 = None \<and> wf_topo s' \<and> indices_ok s'"
proof -
  obtain s' where run: "RemoveServer 0 sample = Ret (s', True, [4])"
    and eff: "server_removed sample s' 0 3 2 [] [4]"
    using RemoveServer_removed [OF sample_wf sample_nodes(1,8), of "[]" "[4]"] by (auto simp: sample_nodes)
  then have st: "topo_step\<^sup>*\<^sup>* sample s'" by (auto intro: topo_step.intros)
  have "gm_load (tServers s') 0 = None" using eff by (simp add: server_removed_def)
  with topo_steps_keep_tree [OF st sample_wf sample_indices] st show ?thesis by blast
qed

text \<open>
  C2: Removing a registered server succeeds: the server leaves the map and its leaf's list of
  children, the order of the others is kept, they get consecutive worker IDs from 0 on with as many
  workers as before, the leaf's range becomes exactly theirs, the list of updated servers is that of
  the servers after the removed one, and no other node changes.
\<close>

theorem RemoveServer_correct:
  assumes "wf_topo s" and "gm_load (tServers s) k = Some r" and "nParent (node s r) = Some l"
    and "nChildren (node s l) = ys @ r # zs"
  shows "\<exists>s'. RemoveServer k s = Ret (s', True, zs) \<and> wf_topo s' \<and>
    gm_load (tServers s') = (gm_load (tServers s))(k := None) \<and>
    nChildren (node s' l) = ys @ zs \<and> layout 0 (map (node s') (ys @ zs)) \<and>
    (\<forall>c \<in> set (ys @ zs). worker_count (node s' c) = worker_count (node s c)) \<and>
    nFirstWorkerID (node s' l) = 0 \<and>
    nLastWorkerID (node s' l) = last_worker (total_workers s (ys @ zs)) \<and>
    (\<forall>q. q \<notin> set (l # ys @ zs) \<longrightarrow> node s' q = node s q)"
proof -
  from RemoveServer_removed [OF assms] obtain s' where run: "RemoveServer k s = Ret (s', True, zs)"
    and eff: "server_removed s s' k r l ys zs" by blast
  note e = eff [unfolded server_removed_def] and count = server_removed_count [OF eff]
  have "nChildren (node s' l) = ys @ zs" "nFirstWorkerID (node s' l) = 0"
    "nLastWorkerID (node s' l) = last_worker (total_workers s (ys @ zs))" using e by simp_all
  moreover have "gm_load (tServers s') = (gm_load (tServers s))(k := None)" using e by simp
  ultimately show ?thesis
    using run count e server_removed_wf [OF assms(1) eff] by blast
qed

theorem RemoveServer_correct_witness:
  "\<exists>s'. RemoveServer 0 sample = Ret (s', True, [4]) \<and> layout 0 (map (node s') [4])"
  using RemoveServer_correct [OF sample_wf sample_nodes(1,8), of "[]" "[4]"]
  by (auto simp: sample_nodes)

text \<open>
  When the worker IDs of the leaf were laid out before, the updated servers that
  \<open>RemoveServer\<close> returns are all that changed: the servers before the removed one keep their worker
  IDs, so the message to the servers after it tells everything.
\<close>

theorem RemoveServer_updated_complete:
  assumes "wf_topo s" and "gm_load (tServers s) k = Some r" and "nParent (node s r) = Some l"
    and "workers_ok s l" and "RemoveServer k s = Ret (s', b, updated)"
    and "c \<noteq> l" and "c \<notin> set updated"
  shows "node s' c = node s c"
  using assms(1)
proof (cases rule: RemoveServer_cases [where k = k])
  case (removed r' l' ys zs t)
  then have eff: "server_removed s s' k r' l ys zs" and zs: "updated = zs"
    using assms(2,3,5) by (auto simp: server_removed_def)
  then show ?thesis
    using assms(6,7) server_removed_prefix [OF assms(4) eff, of c]
    by (cases "c \<in> set ys") (simp_all add: server_removed_def)
qed (use assms(2) in simp)

theorem RemoveServer_updated_complete_witness:
  "\<exists>s'. RemoveServer 1 sample = Ret (s', True, []) \<and> node s' 3 = node sample 3"
proof -
  have "nParent (node sample 4) = Some 2" by (simp add: sample_eval)
  then obtain s' where run: "RemoveServer 1 sample = Ret (s', True, [])"
    using RemoveServer_removed [OF sample_wf sample_nodes(2), of 2 "[3]" "[]"] by (auto simp: sample_nodes)
  have wk: "workers_ok sample 2" using sample_workers sample_nodes(5) by (simp add: all_workers_ok_def)
  from run show ?thesis
    using RemoveServer_updated_complete [OF sample_wf sample_nodes(2) \<open>nParent (node sample 4) = Some 2\<close> wk run]
    by simp
qed

text \<open>
  C3: Removing a registered leaf terminates and succeeds: the leaf and exactly its servers leave the
  maps, the leaf leaves its spine's list, the leaves after it get an index one smaller, the call
  returns its former position and those leaves, and no node outside this subtree changes.
\<close>

theorem RemoveLeaf_correct:
  assumes "wf_topo s" and "gm_load (tLeaves s) k = Some l" and "nParent (node s l) = Some p"
    and "nChildren (node s p) = ys @ l # zs"
  shows "\<exists>s'. RemoveLeaf k s = Some (Ret (s', int (length ys), zs)) \<and> wf_topo s' \<and>
    gm_load (tLeaves s') = (gm_load (tLeaves s))(k := None) \<and>
    (\<forall>j. gm_load (tServers s') j =
       (if j \<in> (\<lambda>c. nID (node s c)) ` set (nChildren (node s l)) then None
        else gm_load (tServers s) j)) \<and>
    nChildren (node s' p) = ys @ zs \<and>
    (\<forall>c \<in> set zs. node s' c = (node s c)\<lparr>nIndex := nIndex (node s c) - 1\<rparr>) \<and>
    (\<forall>q. q \<notin> set (p # l # zs) \<longrightarrow> q \<notin> set (nChildren (node s l)) \<longrightarrow> node s' q = node s q)"
proof -
  from RemoveLeaf_removed [OF assms] obtain s' where
    run: "RemoveLeaf k s = Some (Ret (s', int (length ys), zs))" "wf_topo s'"
    and eff: "leaf_removed s s' k l p ys zs" by blast
  note e = eff [unfolded leaf_removed_def]
  have "nChildren (node s' p) = ys @ zs" "gm_load (tLeaves s') = (gm_load (tLeaves s))(k := None)"
    using e by simp_all
  with run e show ?thesis by blast
qed

theorem RemoveLeaf_correct_witness:
  "\<exists>s'. RemoveLeaf 0 sample = Some (Ret (s', 0, [5])) \<and> nChildren (node s' 1) = [5]"
  using RemoveLeaf_correct [OF sample_wf sample_nodes(5,9), of "[]" "[5]"]
  by (auto simp: sample_nodes simp del: One_nat_def)

lemma RemoveLeaf_workers:
  assumes wf: "wf_topo s" and all: "all_workers_ok s" and run: "RemoveLeaf k s = Some (Ret (s', i, us))"
  shows "all_workers_ok s'"
  using wf
proof (cases rule: RemoveLeaf_cases [where k = k])
  case unknown
  with run all show ?thesis by simp
next
  case (removed l p ys zs t)
  with run leaf_removed_workers [OF wf all] show ?thesis by auto
qed

lemma AddLeaf_workers:
  assumes wf: "wf_topo s" and all: "all_workers_ok s" and run: "AddLeafToSpine li s = Ret (s', res)"
  shows "all_workers_ok s'"
proof (cases res)
  case (Inl e)
  with run AddLeafToSpine_error all show ?thesis by blast
next
  case (Inr l)
  with run AddLeafToSpine_effect [OF wf] leaf_added_workers [OF wf all] show ?thesis by metis
qed

lemma server_added_layout:
  assumes wf: "wf_topo s" and all: "all_workers_ok s" and eff: "server_added s s' si lid l p w r"
    and "total_workers s (nChildren (node s l)) \<noteq> 1"
    and "total_workers s (nChildren (node s l)) + ucast (siWorkersCount si) \<noteq> 0"
  shows "all_workers_ok s'"
proof -
  have "workers_ok s l" using all eff by (auto simp: all_workers_ok_def server_added_def)
  from server_added_workers [OF wf eff this assms(4,5)] show ?thesis
    using server_added_other_workers [OF wf eff] all server_added_maps [OF eff] unfolding all_workers_ok_def by metis
qed

text \<open>
  C28: The layout of the worker IDs of all leaves (consecutive blocks from 0 on, the leaf's range
  ending with the last block) survives the removal of servers and leaves and the addition of leaves.
\<close>

theorem workers_stay_laid_out:
  assumes "wf_topo s" and "all_workers_ok s"
    and "RemoveServer k s = Ret (s', b, us) \<or> RemoveLeaf k s = Some (Ret (s', i, ls)) \<or>
      AddLeafToSpine li s = Ret (s', res)"
  shows "all_workers_ok s'"
  using assms(3)
proof (elim disjE)
  assume "RemoveServer k s = Ret (s', b, us)"
  then show ?thesis by (rule RemoveServer_workers [OF assms(1,2)])
next
  assume "RemoveLeaf k s = Some (Ret (s', i, ls))"
  then show ?thesis by (rule RemoveLeaf_workers [OF assms(1,2)])
next
  assume "AddLeafToSpine li s = Ret (s', res)"
  then show ?thesis by (rule AddLeaf_workers [OF assms(1,2)])
qed

theorem workers_stay_laid_out_witness:
  "\<exists>s'. RemoveServer 0 sample = Ret (s', True, [4]) \<and> all_workers_ok s'"
proof -
  obtain s' where run: "RemoveServer 0 sample = Ret (s', True, [4])"
    using RemoveServer_removed [OF sample_wf sample_nodes(1,8), of "[]" "[4]"] by (auto simp: sample_nodes)
  with workers_stay_laid_out [OF sample_wf sample_workers, of 0 s' True "[4]"] show ?thesis by blast
qed

text \<open>
  C29: Adding a server to a leaf that has no worker or more than one continues the layout: the new
  server gets the IDs after those of the others, and every leaf stays laid out. (The new total must
  not wrap around to 0.)
\<close>

theorem AddServer_continues_layout:
  assumes "wf_topo s" and "all_workers_ok s" and "AddServerToLeaf si lid s = Ret (s', Inr r)"
    and "gm_load (tLeaves s) lid = Some l" and "total_workers s (nChildren (node s l)) \<noteq> 1"
    and "total_workers s (nChildren (node s l)) + ucast (siWorkersCount si) \<noteq> 0"
  shows "all_workers_ok s' \<and> nFirstWorkerID (node s' r) = total_workers s (nChildren (node s l)) \<and>
    worker_count (node s' r) = ucast (siWorkersCount si)"
proof -
  from AddServerToLeaf_effect [OF assms(1,3)] assms(4) obtain p w
    where eff: "server_added s s' si lid l p w r" by (auto simp: server_added_def)
  note e = eff [unfolded server_added_def]
  have all: "all_workers_ok s'" by (rule server_added_layout [OF assms(1,2) eff assms(5,6)])
  have "gm_load (tLeaves s') lid = Some l" using assms(4) server_added_maps [OF eff] by simp
  with all have new: "workers_ok s' l" by (simp add: all_workers_ok_def)
  have "layout 0 (map (node s') (nChildren (node s l)) @ [node s' r])"
    using new by (simp add: workers_ok_def server_added_total(3) [OF assms(1) eff])
  then have "nFirstWorkerID (node s' r) = total_workers s (nChildren (node s l))"
    by (simp add: layout_snoc server_added_total(2) [OF assms(1) eff] total_workers_def o_def)
  with all e show ?thesis by (simp add: worker_count_def)
qed

definition sample_add :: ServerInfo where
  "sample_add = \<lparr>siId = 9, siAddress = ''v9'', siWorkersCount = 2, siLeafID = 0,
     siPort = Some \<lparr>piID = ''2/0'', piCage = 2, piLane = 0, piDevPort = 0, piPortConfig = None\<rparr>\<rparr>"

lemma sample_add_run: "\<exists>s'. AddServerToLeaf sample_add 0 sample = Ret (s', Inr 7)"
  by (simp add: AddServerToLeaf_def sample_add_def sample_eval sample_hw_def Let_def FindPort_def
      FindAsic_def asic_def)

theorem AddServer_continues_layout_witness:
  "\<exists>s'. AddServerToLeaf sample_add 0 sample = Ret (s', Inr 7) \<and> all_workers_ok s' \<and>
    nFirstWorkerID (node s' 7) = 6"
proof -
  obtain s' where run: "AddServerToLeaf sample_add 0 sample = Ret (s', Inr 7)"
    using sample_add_run by blast
  have total: "total_workers sample (nChildren (node sample 2)) = 6"
    by (simp add: total_workers_def worker_count_def sample_eval)
  have "total_workers sample (nChildren (node sample 2)) \<noteq> 1"
    "total_workers sample (nChildren (node sample 2)) + ucast (siWorkersCount sample_add) \<noteq> 0"
    by (simp_all add: total sample_add_def)
  from AddServer_continues_layout [OF sample_wf sample_workers run sample_nodes(5) this] run
  show ?thesis by (auto simp: total)
qed

text \<open>
  A leaf with exactly one worker is taken for an empty one: the server added next gets the worker
  ID 0 as well, which the first server already has. The worker IDs of the leaf then overlap.
\<close>

theorem AddServer_overlap:
  assumes "wf_topo s" and "workers_ok s l" and "AddServerToLeaf si lid s = Ret (s', Inr r)"
    and "gm_load (tLeaves s) lid = Some l" and "nChildren (node s l) = [c]"
    and "worker_count (node s c) = 1" and "ucast (siWorkersCount si) \<noteq> (0 :: u16)"
  shows "nChildren (node s' l) = [c, r] \<and> 0 \<in> worker_ids (node s' c) \<and> 0 \<in> worker_ids (node s' r)"
proof -
  from AddServerToLeaf_effect [OF assms(1,3)] assms(4) obtain p w
    where eff: "server_added s s' si lid l p w r" by (auto simp: server_added_def)
  note e = eff [unfolded server_added_def]
  have "nLastWorkerID (node s l) = 0" "nFirstWorkerID (node s c) = 0"
    using assms(2,5,6) by (simp_all add: workers_ok_def total_workers_def last_worker_def)
  moreover from this e have "w = 0" by simp
  moreover have "node s' c = node s c"
    using server_added_total(2) [OF assms(1) eff] assms(5) by simp
  moreover have "worker_count (node s' r) = ucast (siWorkersCount si)" using e by (simp add: worker_count_def)
  ultimately show ?thesis
    using e assms(5-7) by (simp add: worker_ids_def unat_gt_0)
qed

definition one_worker :: Topology where
  "one_worker = sample\<lparr>tNodes := (tNodes sample)[5 := sample_leaf 1 1 [6] 0, 6 := sample_server 2 5 0 0]\<rparr>"

theorem AddServer_overlap_witness:
  "\<exists>s'. AddServerToLeaf sample_add 1 one_worker = Ret (s', Inr 7) \<and>
    0 \<in> worker_ids (node s' 6) \<and> 0 \<in> worker_ids (node s' 7)"
proof -
  note ev = one_worker_def sample_eval
  have wf: "wf_topo one_worker"
    by (simp add: wf_topo_code server_ok_def leaf_ok_def spine_ok_def ev)
  have ok: "workers_ok one_worker 5" and ch: "nChildren (node one_worker 5) = [6]"
    and l: "gm_load (tLeaves one_worker) 1 = Some 5" and c: "worker_count (node one_worker 6) = 1"
    by (simp_all add: workers_ok_def total_workers_def worker_count_def last_worker_def ev)
  obtain s' where run: "AddServerToLeaf sample_add 1 one_worker = Ret (s', Inr 7)"
    by (simp add: AddServerToLeaf_def sample_add_def ev sample_hw_def Let_def FindPort_def
      FindAsic_def asic_def)
  have "ucast (siWorkersCount sample_add) \<noteq> (0 :: u16)" by (simp add: sample_add_def)
  from AddServer_overlap [OF wf ok run l ch c this] run show ?thesis by blast
qed

text \<open>
  The loop of \<open>RemoveLeaf\<close> has no exit when the first child of the leaf is not registered as a
  server under its ID: the call does not return.
\<close>

theorem RemoveLeaf_diverges:
  assumes "gm_load (tLeaves s) k = Some l" and "nChildren (node s l) = c # cs"
    and "gm_load (tServers s) (nID (node s c)) = None"
  shows "RemoveLeaf k s = None"
  using remove_children_stuck [OF assms(2,3)] assms(1) by (simp add: RemoveLeaf_def)

theorem RemoveLeaf_diverges_witness:
  "RemoveLeaf 0 (sample\<lparr>tServers := [(2, 6)]\<rparr>) = None"
  by (rule RemoveLeaf_diverges [of _ _ 2 3 "[4]"]) (simp_all add: sample_eval)

end
