(* ===== verification/Topo_Build.thy ===== *)
theory Topo_Build
  imports Topology_Correct
begin

text \<open>
  The topology objects that the constructors build are well-formed: the tree invariant holds and
  the worker IDs of every leaf are laid out, when the IDs in the configuration (or the message) are
  distinct. The construction registers a leaf only after its servers; the proofs first move this
  store to the front (\<open>build_leaf_first\<close>), so that the tree is well-formed all the time.
\<close>

section \<open>One server\<close>

definition built_server ::
  "Topology \<Rightarrow> Topology \<Rightarrow> serverSpec \<Rightarrow> nref \<Rightarrow> u16 \<Rightarrow> nref \<Rightarrow> bool" where
  "built_server s s' c l w r \<longleftrightarrow>
     \<not> valid_node s r \<and>
     (\<exists>p. node s' r = (NewServer (tHw s) (ssAddress c) (ssID c) p)\<lparr>nParent := Some l,
        nFirstWorkerID := w, nLastWorkerID := w + ssWorkers c - 1\<rparr>) \<and>
     node s' l = (node s l)\<lparr>nChildren := nChildren (node s l) @ [r]\<rparr> \<and>
     (\<forall>q. valid_node s q \<longrightarrow> q \<noteq> l \<longrightarrow> node s' q = node s q) \<and>
     (\<forall>q. valid_node s' q \<longleftrightarrow> q = r \<or> valid_node s q) \<and>
     s'\<lparr>tNodes := [], tServers := []\<rparr> = s\<lparr>tNodes := [], tServers := []\<rparr> \<and>
     tServers s' = gm_store (ssID c) r (tServers s)"

lemma built_server_maps:
  "built_server s s' c l w r \<Longrightarrow> tLeaves s' = tLeaves s \<and> tSpines s' = tSpines s \<and> tRoot s' = tRoot s \<and>
     tHw s' = tHw s \<and> tAsicRegistry s' = tAsicRegistry s \<and> tClients s' = tClients s"
  by (cases s; cases s') (simp add: built_server_def)

lemma build_server_effect:
  assumes run: "build_server a l c (s, w) = Ret (s', w')" and v: "valid_node s l"
  shows "\<exists>r. built_server s s' c l w r \<and> w' = w + ssWorkers c"
proof -
  let ?r = "length (tNodes s)"
  from run obtain p where p: "FindPort s a (ssPort c) = Inr p"
    by (auto simp: build_server_def Let_def returned)
  define nr where "nr = (NewServer (tHw s) (ssAddress c) (ssID c) p)\<lparr>nParent := Some l,
    nFirstWorkerID := w, nLastWorkerID := w + ssWorkers c - 1\<rparr>"
  define nl where "nl = (node s l)\<lparr>nChildren := nChildren (node s l) @ [?r]\<rparr>"
  have lt: "l < length (tNodes s)" using v by (simp add: valid_node_def)
  have "build_server a l c (s, w) = Ret (s\<lparr>tNodes := (tNodes s)[l := nl] @ [nr],
      tServers := gm_store (ssID c) ?r (tServers s)\<rparr>, w + ssWorkers c)"
    using lt by (simp add: build_server_def Let_def p nr_def nl_def topo_eval list_update_append
        nth_append)
  with run have s': "s' = s\<lparr>tNodes := (tNodes s)[l := nl] @ [nr],
      tServers := gm_store (ssID c) ?r (tServers s)\<rparr>" and w': "w' = w + ssWorkers c" by auto
  have nodes: "node s' ?r = nr" "node s' l = nl" using lt by (simp_all add: s' node_def nth_append)
  have others: "node s' q = node s q" if "valid_node s q" "q \<noteq> l" for q
    using that by (simp add: s' node_def valid_node_def nth_append)
  have valid: "valid_node s' q \<longleftrightarrow> q = ?r \<or> valid_node s q" for q
    by (auto simp: s' valid_node_def)
  have "\<not> valid_node s ?r" by (simp add: valid_node_def)
  moreover have "s'\<lparr>tNodes := [], tServers := []\<rparr> = s\<lparr>tNodes := [], tServers := []\<rparr>"
    "tServers s' = gm_store (ssID c) ?r (tServers s)" by (simp_all add: s')
  moreover have "\<exists>p. node s' ?r = (NewServer (tHw s) (ssAddress c) (ssID c) p)\<lparr>nParent := Some l,
        nFirstWorkerID := w, nLastWorkerID := w + ssWorkers c - 1\<rparr>"
    using nodes(1) by (auto simp: nr_def)
  ultimately have "built_server s s' c l w ?r"
    unfolding built_server_def using nodes(2) others valid by (auto simp: nl_def)
  with w' show ?thesis by blast
qed

lemma built_server_wf:
  assumes wf: "wf_topo s" and l: "gm_load (tLeaves s) k = Some l"
    and new: "gm_load (tServers s) (ssID c) = None" and eff: "built_server s s' c l w r"
  shows "wf_topo s'"
proof (rule wf_attach_server [OF wf l new])
  note e = eff [unfolded built_server_def]
  from e obtain p where "node s' r = (NewServer (tHw s) (ssAddress c) (ssID c) p)\<lparr>nParent := Some l,
        nFirstWorkerID := w, nLastWorkerID := w + ssWorkers c - 1\<rparr>" by blast
  then show "nID (node s' r) = ssID c" "nType (node s' r) = NodeType_Server"
    "nParent (node s' r) = Some l" "nPort (node s' r) \<noteq> None"
    by (simp_all add: NewServer_def)
qed (use eff built_server_maps [OF eff] in \<open>simp_all add: built_server_def tree_eq_iff\<close>)

text \<open>What the loop keeps: the leaf's workers so far are laid out up to the counter.\<close>

definition filling :: "Topology \<Rightarrow> nref \<Rightarrow> u16 \<Rightarrow> bool" where
  "filling s l w \<longleftrightarrow> layout 0 (map (node s) (nChildren (node s l))) \<and> nFirstWorkerID (node s l) = 0 \<and>
     w = total_workers s (nChildren (node s l))"

text \<open>The range of a leaf as the constructors leave it; with no worker at all its end wraps around.\<close>

definition built_workers :: "Topology \<Rightarrow> nref \<Rightarrow> bool" where
  "built_workers s l \<longleftrightarrow> layout 0 (map (node s) (nChildren (node s l))) \<and>
     nFirstWorkerID (node s l) = 0 \<and>
     nLastWorkerID (node s l) = total_workers s (nChildren (node s l)) - 1"

lemma built_workers_cong:
  assumes "nChildren (node s' l) = nChildren (node s l)"
    and "nFirstWorkerID (node s' l) = nFirstWorkerID (node s l)"
    and "nLastWorkerID (node s' l) = nLastWorkerID (node s l)"
    and "\<forall>c \<in> set (nChildren (node s l)). node s' c = node s c"
  shows "built_workers s' l \<longleftrightarrow> built_workers s l"
proof -
  have "map (node s') (nChildren (node s l)) = map (node s) (nChildren (node s l))"
    by (rule map_cong) (use assms(4) in auto)
  moreover have "total_workers s' (nChildren (node s l)) = total_workers s (nChildren (node s l))"
    using assms(4) by (auto simp: total_workers_def intro!: arg_cong [where f = sum_list])
  ultimately show ?thesis by (simp only: built_workers_def assms(1-3))
qed

lemma built_server_filling:
  assumes wf: "wf_topo s" and l: "gm_load (tLeaves s) k = Some l" and fill: "filling s l w"
    and eff: "built_server s s' c l w r"
  shows "filling s' l (w + ssWorkers c)"
    and "\<And>j q. gm_load (tLeaves s) j = Some q \<Longrightarrow> q \<noteq> l \<Longrightarrow> built_workers s q \<Longrightarrow> built_workers s' q"
proof -
  note e = eff [unfolded built_server_def]
  have ty: "nType (node s q) = NodeType_Leaf \<and> valid_node s q" if "gm_load (tLeaves s) j = Some q" for j q
    using wf_leaf [OF wf that] by (simp add: leaf_ok_def)
  have same: "node s' c = node s c" if "gm_load (tLeaves s) j = Some q" "c \<in> set (nChildren (node s q))" for j q c
    using wf_child(3,4) [OF wf that] ty [OF l] e by auto
  have m: "map (node s') (nChildren (node s l)) = map (node s) (nChildren (node s l))"
    using same [OF l] by simp
  have t: "total_workers s' (nChildren (node s l)) = total_workers s (nChildren (node s l))"
    using same [OF l] by (auto simp: total_workers_def intro!: arg_cong [where f = sum_list])
  from e obtain p where r: "node s' r = (NewServer (tHw s) (ssAddress c) (ssID c) p)\<lparr>nParent := Some l,
        nFirstWorkerID := w, nLastWorkerID := w + ssWorkers c - 1\<rparr>" by blast
  have ch: "nChildren (node s' l) = nChildren (node s l) @ [r]" "nFirstWorkerID (node s' l) = nFirstWorkerID (node s l)"
    using e by simp_all
  have "(\<Sum>m\<leftarrow>map (node s) (nChildren (node s l)). worker_count m) = w"
    using fill by (simp add: filling_def total_workers_def o_def)
  moreover have "worker_count (node s' r) = ssWorkers c" by (simp add: r worker_count_def)
  ultimately show "filling s' l (w + ssWorkers c)"
    using fill r by (simp add: filling_def ch m layout_snoc)
      (simp add: total_workers_def t [unfolded total_workers_def])
  show "built_workers s' q" if q: "gm_load (tLeaves s) j = Some q" "q \<noteq> l" "built_workers s q" for j q
  proof -
    have "node s' q = node s q" using e ty [OF q(1)] q(2) by blast
    then have "built_workers s' q \<longleftrightarrow> built_workers s q"
      using same [OF q(1)] by (intro built_workers_cong) auto
    with q(3) show ?thesis by simp
  qed
qed

section \<open>The servers of a leaf\<close>

abbreviation build_servers ::
  "string \<Rightarrow> nref \<Rightarrow> ('x \<Rightarrow> serverSpec go) \<Rightarrow> 'x list \<Rightarrow> Topology \<times> u16 \<Rightarrow> (Topology \<times> u16) go" where
  "build_servers a l serverOf xs st \<equiv>
     go_fold (\<lambda>x st. go_bind (serverOf x) (\<lambda>sc. build_server a l sc st)) xs st"

lemma build_servers_wf:
  assumes "build_servers a l serverOf xs (s, w) = Ret (s', w')" and "wf_topo s"
    and "gm_load (tLeaves s) k = Some l" and "filling s l w"
    and sid: "\<And>x sc. serverOf x = Ret sc \<Longrightarrow> ssID sc = sid x" and "distinct (map sid xs)"
    and "\<forall>x \<in> set xs. gm_load (tServers s) (sid x) = None"
    and "\<forall>j q. gm_load (tLeaves s) j = Some q \<longrightarrow> q \<noteq> l \<longrightarrow> built_workers s q"
  shows "wf_topo s' \<and> filling s' l w' \<and> tLeaves s' = tLeaves s \<and> tSpines s' = tSpines s \<and>
    tRoot s' = tRoot s \<and>
    (\<forall>q. valid_node s q \<longrightarrow> q \<noteq> l \<longrightarrow> node s' q = node s q) \<and> (\<forall>q. valid_node s q \<longrightarrow> valid_node s' q) \<and>
    (\<forall>j. j \<notin> sid ` set xs \<longrightarrow> gm_load (tServers s') j = gm_load (tServers s) j) \<and>
    (\<forall>j q. gm_load (tLeaves s) j = Some q \<longrightarrow> q \<noteq> l \<longrightarrow> built_workers s' q)"
  using assms(1-4,6-)
proof (induction xs arbitrary: s w)
  case (Cons x xs)
  from Cons.prems(1) obtain sc t v where sc: "serverOf x = Ret sc"
    and step: "build_server a l sc (s, w) = Ret (t, v)"
    and rest: "build_servers a l serverOf xs (t, v) = Ret (s', w')" by auto
  have vl: "valid_node s l" using wf_leaf [OF Cons.prems(2,3)] by (simp add: leaf_ok_def)
  from build_server_effect [OF step vl] obtain r where eff: "built_server s t sc l w r"
    and v: "v = w + ssWorkers sc" by blast
  note e = eff [unfolded built_server_def] and maps = built_server_maps [OF eff]
  have id: "ssID sc = sid x" by (rule sid [OF sc])
  have new: "gm_load (tServers s) (ssID sc) = None" using Cons.prems(6) id by simp
  have wf: "wf_topo t" by (rule built_server_wf [OF Cons.prems(2,3) new eff])
  note fill = built_server_filling [OF Cons.prems(2,3,4) eff]
  have "gm_load (tServers t) = (gm_load (tServers s))(sid x \<mapsto> r)" using e id by simp
  moreover have "sid y \<noteq> sid x" if "y \<in> set xs" for y
    using Cons.prems(5) that by (auto simp: image_iff)
  ultimately have free: "\<forall>y \<in> set xs. gm_load (tServers t) (sid y) = None"
    using Cons.prems(6) by simp
  have "\<forall>j q. gm_load (tLeaves t) j = Some q \<longrightarrow> q \<noteq> l \<longrightarrow> built_workers t q"
    using Cons.prems(7) fill(2) maps by simp
  with Cons.IH [OF rest wf _ fill(1) [folded v] _ free] Cons.prems(3,5) maps
  have IH: "wf_topo s' \<and> filling s' l w' \<and> tLeaves s' = tLeaves t \<and> tSpines s' = tSpines t \<and>
    tRoot s' = tRoot t \<and>
    (\<forall>q. valid_node t q \<longrightarrow> q \<noteq> l \<longrightarrow> node s' q = node t q) \<and> (\<forall>q. valid_node t q \<longrightarrow> valid_node s' q) \<and>
    (\<forall>j. j \<notin> sid ` set xs \<longrightarrow> gm_load (tServers s') j = gm_load (tServers t) j) \<and>
    (\<forall>j q. gm_load (tLeaves t) j = Some q \<longrightarrow> q \<noteq> l \<longrightarrow> built_workers s' q)" by simp
  with e maps id show ?case by simp
qed auto

section \<open>One leaf\<close>

text \<open>Neither the ports nor the servers depend on the map of leaves.\<close>

lemma FindPort_leaves [simp]: "FindPort (s\<lparr>tLeaves := m\<rparr>) a p = FindPort s a p"
  by (simp add: FindPort_def FindAsic_def split: option.split)

lemma upd_node_leaves: "upd_node r f (s\<lparr>tLeaves := m\<rparr>) = (upd_node r f s)\<lparr>tLeaves := m\<rparr>"
  by (simp add: topo_eval)

lemma build_server_leaves:
  "build_server a l c (s\<lparr>tLeaves := m\<rparr>, w) =
     go_bind (build_server a l c (s, w)) (\<lambda>(s', w'). Ret (s'\<lparr>tLeaves := m\<rparr>, w'))"
  by (cases "FindPort s a (ssPort c)") (simp_all add: build_server_def Let_def topo_eval)

lemma build_servers_leaves:
  "build_servers a l serverOf xs (s\<lparr>tLeaves := m\<rparr>, w) =
     go_bind (build_servers a l serverOf xs (s, w)) (\<lambda>(s', w'). Ret (s'\<lparr>tLeaves := m\<rparr>, w'))"
proof (induction xs arbitrary: s w)
  case (Cons x xs)
  show ?case
  proof (cases "serverOf x")
    case (Ret sc)
    then show ?thesis
      using Cons by (cases "build_server a l sc (s, w)") (auto simp: build_server_leaves)
  qed simp_all
qed simp

lemma build_servers_same_leaves:
  assumes "build_servers a l serverOf xs (s, w) = Ret (s', w')"
  shows "tLeaves s' = tLeaves s"
proof -
  have "build_servers a l serverOf xs (s\<lparr>tLeaves := tLeaves s\<rparr>, w) = Ret (s'\<lparr>tLeaves := tLeaves s\<rparr>, w')"
    unfolding build_servers_leaves by (simp add: assms)
  with assms have "s' = s'\<lparr>tLeaves := tLeaves s\<rparr>" by simp
  then show ?thesis by (metis Topology.select_convs(6) Topology.update_convs(6) Topology.surjective)
qed

text \<open>The new leaf, attached to its spine and registered, before its servers.\<close>

definition with_leaf :: "nref \<Rightarrow> leafSpec \<Rightarrow> pref \<Rightarrow> pref \<Rightarrow> Topology \<Rightarrow> Topology" where
  "with_leaf sp c ds us s =
     s\<lparr>tNodes := (tNodes s)[sp := (node s sp)\<lparr>nChildren := nChildren (node s sp) @ [length (tNodes s)]\<rparr>] @
         [(NewLeaf (tHw s) (lsAddress c) (lsMgmtAddress c) (lsID c) ds us)
            \<lparr>nIndex := lsIndex c, nParent := Some sp\<rparr>],
       tLeaves := gm_store (lsID c) (length (tNodes s)) (tLeaves s)\<rparr>"

lemma build_leaf_first:
  assumes run: "build_leaf sp serverOf (c, xs) s = Ret s'" and v: "valid_node s sp"
  obtains ds us t w where
    "build_servers (lsAsic c) (length (tNodes s)) serverOf xs (with_leaf sp c ds us s, 0) = Ret (t, w)"
    and "s' = upd_node (length (tNodes s)) (\<lambda>n. n\<lparr>nLastWorkerID := w - 1\<rparr>) t"
proof -
  let ?l = "length (tNodes s)"
  from run obtain ds us where p: "FindPort s (lsAsic c) (lsDsPort c) = Inr ds"
    "FindPort s (lsAsic c) (lsUsPort c) = Inr us" by (auto simp: build_leaf_def returned)
  define s4 where "s4 = (with_leaf sp c ds us s)\<lparr>tLeaves := tLeaves s\<rparr>"
  have lt: "sp < ?l" using v by (simp add: valid_node_def)
  have "build_leaf sp serverOf (c, xs) s =
      go_bind (build_servers (lsAsic c) ?l serverOf xs (s4, 0))
        (\<lambda>(s5, w). let s6 = upd_node ?l (\<lambda>n. n\<lparr>nLastWorkerID := w - 1\<rparr>) s5
                   in Ret (s6\<lparr>tLeaves := gm_store (lsID c) ?l (tLeaves s6)\<rparr>))"
    using lt by (simp add: build_leaf_def Let_def p s4_def with_leaf_def topo_eval list_update_append
        nth_append NewLeaf_def zero_Node_def)
  with run obtain s5 w where s5: "build_servers (lsAsic c) ?l serverOf xs (s4, 0) = Ret (s5, w)"
    and s': "s' = (upd_node ?l (\<lambda>n. n\<lparr>nLastWorkerID := w - 1\<rparr>) s5)
        \<lparr>tLeaves := gm_store (lsID c) ?l (tLeaves s5)\<rparr>"
    by (auto simp: Let_def)
  let ?m = "gm_store (lsID c) ?l (tLeaves s)"
  have "with_leaf sp c ds us s = s4\<lparr>tLeaves := ?m\<rparr>" by (simp add: s4_def with_leaf_def)
  then have "build_servers (lsAsic c) ?l serverOf xs (with_leaf sp c ds us s, 0) = Ret (s5\<lparr>tLeaves := ?m\<rparr>, w)"
    unfolding build_servers_leaves by (simp add: build_servers_leaves s5)
  moreover have "tLeaves s5 = tLeaves s"
    using build_servers_same_leaves [OF s5] by (simp add: s4_def)
  ultimately show ?thesis
    using that s' by (simp add: upd_node_leaves)
qed

lemma with_leaf_wf:
  fixes ds us :: pref
  assumes wf: "wf_topo s" and sp: "gm_load (tSpines s) k = Some sp"
    and new: "gm_load (tLeaves s) (lsID c) = None"
  defines "t \<equiv> with_leaf sp c ds us s" and "l \<equiv> length (tNodes s)"
  shows "wf_topo t" and "gm_load (tLeaves t) (lsID c) = Some l" and "filling t l 0"
    and "\<And>q. valid_node s q \<Longrightarrow> q \<noteq> sp \<Longrightarrow> node t q = node s q"
    and "\<And>q. valid_node t q \<longleftrightarrow> q = l \<or> valid_node s q"
    and "\<And>j q. gm_load (tLeaves s) j = Some q \<Longrightarrow> built_workers s q \<Longrightarrow> built_workers t q"
proof -
  have v: "valid_node s sp" and ty: "nType (node s sp) = NodeType_Spine"
    using wf_spine [OF wf sp] by (simp_all add: spine_ok_def)
  then have lt: "sp < length (tNodes s)" by (simp add: valid_node_def)
  have nl: "node t l = (NewLeaf (tHw s) (lsAddress c) (lsMgmtAddress c) (lsID c) ds us)
      \<lparr>nIndex := lsIndex c, nParent := Some sp\<rparr>"
    and np: "node t sp = (node s sp)\<lparr>nChildren := nChildren (node s sp) @ [l]\<rparr>"
    using lt by (simp_all add: t_def l_def with_leaf_def node_def nth_append)
  show frame: "node t q = node s q" if "valid_node s q" "q \<noteq> sp" for q
    using that by (simp add: t_def with_leaf_def node_def valid_node_def nth_append)
  show valid: "valid_node t q \<longleftrightarrow> q = l \<or> valid_node s q" for q
    by (auto simp: t_def l_def with_leaf_def valid_node_def)
  show "wf_topo t"
    by (rule wf_attach_leaf [OF wf sp new, where l = l])
      (use valid in \<open>simp_all add: nl np frame tree_eq_iff NewLeaf_def zero_Node_def\<close>,
       simp_all add: t_def l_def with_leaf_def valid_node_def)
  show "gm_load (tLeaves t) (lsID c) = Some l" by (simp add: t_def l_def with_leaf_def)
  show "filling t l 0" by (simp add: filling_def nl NewLeaf_def zero_Node_def total_workers_def)
  show "built_workers t q" if q: "gm_load (tLeaves s) j = Some q" "built_workers s q" for j q
  proof -
    have "valid_node s q" "nType (node s q) = NodeType_Leaf"
      using wf_leaf [OF wf q(1)] by (simp_all add: leaf_ok_def)
    moreover from this ty have "q \<noteq> sp" by auto
    ultimately have "node t q = node s q" using frame by blast
    moreover have "node t c = node s c" if "c \<in> set (nChildren (node s q))" for c
    proof -
      note c = wf_child(3,4) [OF wf q(1) that]
      with ty have "c \<noteq> sp" by auto
      with c(1) show ?thesis by (rule frame)
    qed
    ultimately have "built_workers t q \<longleftrightarrow> built_workers s q" by (intro built_workers_cong) auto
    with q(2) show ?thesis by simp
  qed
qed

section \<open>The whole tree\<close>

text \<open>The invariant of the construction: its tree is well-formed and hangs on a core node.\<close>

definition tree_ok :: "Topology \<Rightarrow> bool" where
  "tree_ok s \<longleftrightarrow> wf_topo s \<and> (\<forall>j q. gm_load (tLeaves s) j = Some q \<longrightarrow> built_workers s q) \<and>
     (\<exists>root. tRoot s = Some root \<and> valid_node s root \<and> nType (node s root) = NodeType_Core)"

lemma close_leaf:
  assumes wf: "wf_topo t" and l: "gm_load (tLeaves t) k = Some l" and fill: "filling t l w"
    and others: "\<forall>j q. gm_load (tLeaves t) j = Some q \<longrightarrow> q \<noteq> l \<longrightarrow> built_workers t q"
  defines "s' \<equiv> upd_node l (\<lambda>n. n\<lparr>nLastWorkerID := w - 1\<rparr>) t"
  shows "wf_topo s'" and "\<forall>j q. gm_load (tLeaves s') j = Some q \<longrightarrow> built_workers s' q"
proof -
  have v: "valid_node t l" and ty: "nType (node t l) = NodeType_Leaf"
    using wf_leaf [OF wf l] by (simp_all add: leaf_ok_def)
  have nd: "node s' q = (if q = l then (node t l)\<lparr>nLastWorkerID := w - 1\<rparr> else node t q)" for q
    using v by (simp add: s'_def ns.get_upd)
  show "wf_topo s'"
    by (rule wf_same_tree [OF wf]) (simp_all add: nd tree_eq_iff, simp_all add: s'_def)
  have kid: "node s' c = node t c" if "gm_load (tLeaves t) j = Some q" "c \<in> set (nChildren (node t q))" for j q c
    using wf_child(4) [OF wf that] ty by (auto simp: nd)
  show "\<forall>j q. gm_load (tLeaves s') j = Some q \<longrightarrow> built_workers s' q"
  proof (intro allI impI)
    fix j q assume "gm_load (tLeaves s') j = Some q"
    then have q: "gm_load (tLeaves t) j = Some q" by (simp add: s'_def)
    show "built_workers s' q"
    proof (cases "q = l")
      case True
      have "map (node s') (nChildren (node t l)) = map (node t) (nChildren (node t l))"
        by (rule map_cong) (use kid [OF l] in auto)
      moreover have "total_workers s' (nChildren (node t l)) = total_workers t (nChildren (node t l))"
        using kid [OF l] by (auto simp: total_workers_def intro!: arg_cong [where f = sum_list])
      moreover have "nChildren (node s' l) = nChildren (node t l)" "nFirstWorkerID (node s' l) = nFirstWorkerID (node t l)"
        "nLastWorkerID (node s' l) = w - 1" by (simp_all add: nd)
      ultimately show ?thesis using fill unfolding True by (simp only: built_workers_def filling_def)
    next
      case False
      then have "built_workers s' q \<longleftrightarrow> built_workers t q"
        using kid [OF q] by (intro built_workers_cong) (auto simp: nd)
      with others q False show ?thesis by blast
    qed
  qed
qed

lemma build_leaf_ok:
  assumes run: "build_leaf sp serverOf (c, xs) s = Ret s'" and ok: "tree_ok s"
    and sp: "gm_load (tSpines s) k = Some sp" and new: "gm_load (tLeaves s) (lsID c) = None"
    and sid: "\<And>x sc. serverOf x = Ret sc \<Longrightarrow> ssID sc = sid x" and dist: "distinct (map sid xs)"
    and free: "\<forall>x \<in> set xs. gm_load (tServers s) (sid x) = None"
  shows "tree_ok s' \<and> tSpines s' = tSpines s \<and>
    (\<forall>j. j \<noteq> lsID c \<longrightarrow> gm_load (tLeaves s') j = gm_load (tLeaves s) j) \<and>
    (\<forall>j. j \<notin> sid ` set xs \<longrightarrow> gm_load (tServers s') j = gm_load (tServers s) j)"
proof -
  have wf: "wf_topo s" and bw: "\<forall>j q. gm_load (tLeaves s) j = Some q \<longrightarrow> built_workers s q"
    using ok by (simp_all add: tree_ok_def)
  from ok obtain root where root: "tRoot s = Some root" "valid_node s root"
    "nType (node s root) = NodeType_Core" by (auto simp: tree_ok_def)
  have sps: "valid_node s sp" "nType (node s sp) = NodeType_Spine"
    using wf_spine [OF wf sp] by (simp_all add: spine_ok_def)
  define l where "l = length (tNodes s)"
  from build_leaf_first [OF run sps(1)] obtain ds us t w where
    servers: "build_servers (lsAsic c) l serverOf xs (with_leaf sp c ds us s, 0) = Ret (t, w)"
    and s': "s' = upd_node l (\<lambda>n. n\<lparr>nLastWorkerID := w - 1\<rparr>) t" unfolding l_def by blast
  let ?u = "with_leaf sp c ds us s"
  note u = with_leaf_wf [OF wf sp new, where ds = ds and us = us, folded l_def]
  have um: "tServers ?u = tServers s" "tSpines ?u = tSpines s" "tRoot ?u = tRoot s"
    "tLeaves ?u = gm_store (lsID c) l (tLeaves s)" by (simp_all add: with_leaf_def l_def)
  have "\<forall>j q. gm_load (tLeaves ?u) j = Some q \<longrightarrow> q \<noteq> l \<longrightarrow> built_workers ?u q"
    using bw u(6) by (auto simp: um)
  from build_servers_wf [OF servers u(1,2,3) sid dist _ this] free
  have t: "wf_topo t" "filling t l w" "tLeaves t = tLeaves ?u" "tSpines t = tSpines ?u" "tRoot t = tRoot ?u"
    "\<And>q. valid_node ?u q \<Longrightarrow> q \<noteq> l \<Longrightarrow> node t q = node ?u q" "\<And>q. valid_node ?u q \<Longrightarrow> valid_node t q"
    "\<And>j. j \<notin> sid ` set xs \<Longrightarrow> gm_load (tServers t) j = gm_load (tServers ?u) j"
    "\<forall>j q. gm_load (tLeaves ?u) j = Some q \<longrightarrow> q \<noteq> l \<longrightarrow> built_workers t q"
    by (auto simp: um)
  have lt: "gm_load (tLeaves t) (lsID c) = Some l" using u(2) t(3) by simp
  note fin = close_leaf [OF t(1) lt t(2), folded s', unfolded t(3), OF t(9)]
  have "root \<noteq> l" "root \<noteq> sp" using root sps by (auto simp: l_def valid_node_def)
  moreover have "node t root = node s root"
    using t(6) [of root] u(4,5) [of root] root \<open>root \<noteq> l\<close> \<open>root \<noteq> sp\<close> by simp
  moreover have "valid_node t l" using wf_leaf [OF t(1) lt] by (simp add: leaf_ok_def)
  ultimately have "node s' root = node s root" "valid_node s' root"
    using t(7) [of root] u(5) [of root] root by (simp_all add: s' ns.get_upd)
  with root t(5) have "\<exists>root. tRoot s' = Some root \<and> valid_node s' root \<and> nType (node s' root) = NodeType_Core"
    by (auto simp: s' um)
  with fin have "tree_ok s'" by (simp add: tree_ok_def)
  moreover have "tSpines s' = tSpines s" using t(4) by (simp add: s' um)
  moreover have "gm_load (tLeaves s') j = gm_load (tLeaves s) j" if "j \<noteq> lsID c" for j
    using t(3) that by (simp add: s' um)
  moreover have "gm_load (tServers s') j = gm_load (tServers s) j" if "j \<notin> sid ` set xs" for j
    using t(8) [OF that] by (simp add: s' um)
  ultimately show ?thesis by blast
qed

lemma build_leaves_ok:
  assumes "go_fold (\<lambda>y t. go_bind (leafOf y) (\<lambda>lc. build_leaf sp serverOf lc t)) ys s = Ret s'"
    and "tree_ok s" and "gm_load (tSpines s) k = Some sp"
    and sid: "\<And>x sc. serverOf x = Ret sc \<Longrightarrow> ssID sc = sid x"
    and lid: "\<And>y c xs. leafOf y = Ret (c, xs) \<Longrightarrow> lsID c = lid y \<and> map sid xs = sids y"
    and "distinct (map lid ys)" and "distinct (concat (map sids ys))"
    and "\<forall>y \<in> set ys. gm_load (tLeaves s) (lid y) = None"
    and "\<forall>j \<in> set (concat (map sids ys)). gm_load (tServers s) j = None"
  shows "tree_ok s' \<and> tSpines s' = tSpines s \<and>
    (\<forall>j. j \<notin> lid ` set ys \<longrightarrow> gm_load (tLeaves s') j = gm_load (tLeaves s) j) \<and>
    (\<forall>j. j \<notin> set (concat (map sids ys)) \<longrightarrow> gm_load (tServers s') j = gm_load (tServers s) j)"
  using assms(1-3,6-)
proof (induction ys arbitrary: s)
  case (Cons y ys)
  from Cons.prems(1) obtain c xs t where lc: "leafOf y = Ret (c, xs)"
    and step: "build_leaf sp serverOf (c, xs) s = Ret t"
    and rest: "go_fold (\<lambda>y t. go_bind (leafOf y) (\<lambda>lc. build_leaf sp serverOf lc t)) ys t = Ret s'"
    by auto
  have id: "lsID c = lid y" "map sid xs = sids y" using lid [OF lc] by simp_all
  have ids: "sid ` set xs = set (sids y)" using id(2) by (metis set_map)
  have new: "gm_load (tLeaves s) (lsID c) = None" using Cons.prems(6) id by simp
  have dist: "distinct (map sid xs)" using Cons.prems(5) id by simp
  have free: "\<forall>x \<in> set xs. gm_load (tServers s) (sid x) = None"
    using Cons.prems(7) ids by auto
  from build_leaf_ok [OF step Cons.prems(2,3) new sid dist free]
  have t: "tree_ok t" "tSpines t = tSpines s"
    "\<And>j. j \<noteq> lid y \<Longrightarrow> gm_load (tLeaves t) j = gm_load (tLeaves s) j"
    "\<And>j. j \<notin> set (sids y) \<Longrightarrow> gm_load (tServers t) j = gm_load (tServers s) j"
    by (auto simp: ids id)
  have "lid z \<noteq> lid y" if "z \<in> set ys" for z using Cons.prems(4) that by (auto simp: image_iff)
  then have fl: "\<forall>z \<in> set ys. gm_load (tLeaves t) (lid z) = None" using t(3) Cons.prems(6) by simp
  have "j \<notin> set (sids y)" if "j \<in> set (concat (map sids ys))" for j using Cons.prems(5) that by auto
  then have fs: "\<forall>j \<in> set (concat (map sids ys)). gm_load (tServers t) j = None"
    using t(4) Cons.prems(7) by auto
  have "gm_load (tSpines t) k = Some sp" using t(2) Cons.prems(3) by simp
  from Cons.IH [OF rest t(1) this _ _ fl fs] Cons.prems(4,5) t show ?case by auto
qed auto

text \<open>The new spine, attached to the root, before its leaves.\<close>

lemma attach_spine_ok:
  assumes ok: "tree_ok s" and new: "gm_load (tSpines s) pid = None" and p: "\<not> valid_node s p"
    and root: "tRoot s = Some root"
    and node_p: "node s' p = n" "nID n = pid" "nType n = NodeType_Spine" "nChildren n = []"
    and node_root: "node s' root = (node s root)\<lparr>nChildren := cs\<rparr>"
    and frame: "\<And>q. valid_node s q \<Longrightarrow> q \<noteq> root \<Longrightarrow> node s' q = node s q"
    and valid: "\<And>q. valid_node s' q \<longleftrightarrow> q = p \<or> valid_node s q"
    and maps: "tSpines s' = gm_store pid p (tSpines s)" "tServers s' = tServers s"
      "tLeaves s' = tLeaves s" "tRoot s' = tRoot s"
  shows "tree_ok s'"
proof -
  have wf: "wf_topo s" and rv: "valid_node s root" "nType (node s root) = NodeType_Core"
    using ok root by (auto simp: tree_ok_def)
  have same: "node s' q = node s q" if "valid_node s q" "nType (node s q) \<noteq> NodeType_Core" for q
    using frame that rv by metis
  have lf: "node s' q = node s q \<and> valid_node s q" if "gm_load (tLeaves s) j = Some q" for j q
    using same wf_leaf [OF wf that] by (simp add: leaf_ok_def)
  have sv: "node s' q = node s q \<and> valid_node s q" if "gm_load (tServers s) j = Some q" for j q
    using same wf_server [OF wf that] by (simp add: server_ok_def)
  have spn: "node s' q = node s q \<and> valid_node s q" if "gm_load (tSpines s) j = Some q" for j q
    using same wf_spine [OF wf that] by (simp add: spine_ok_def)
  have "wf_topo s'"
  proof (rule wf_topoI)
    show "server_ok s' j q" if "gm_load (tServers s') j = Some q" for j q
    proof -
      from that maps have q: "gm_load (tServers s) j = Some q" by simp
      from wf_parent [OF wf q] obtain l where "nParent (node s q) = Some l"
        "gm_load (tLeaves s) (nID (node s l)) = Some l" "q \<in> set (nChildren (node s l))" by blast
      with wf_server [OF wf q] sv [OF q] lf maps valid show ?thesis by (auto simp: server_ok_def)
    qed
    show "leaf_ok s' j q" if "gm_load (tLeaves s') j = Some q" for j q
    proof -
      from that maps have q: "gm_load (tLeaves s) j = Some q" by simp
      from wf_leaf_parent [OF wf q] obtain m where m: "nParent (node s q) = Some m"
        "gm_load (tSpines s) (nID (node s m)) = Some m" "q \<in> set (nChildren (node s m))" by blast
      have kid: "node s' c = node s c" if "c \<in> set (nChildren (node s q))" for c
        using sv wf_child(1) [OF wf q that] by blast
      from m(2) new have "nID (node s m) \<noteq> pid" by auto
      with m wf_leaf [OF wf q] lf [OF q] spn [OF m(2)] kid maps valid show ?thesis
        by (auto simp: leaf_ok_def)
    qed
    show "spine_ok s' j q" if "gm_load (tSpines s') j = Some q" for j q
    proof (cases "j = pid")
      case True
      with that maps node_p valid show ?thesis by (simp add: spine_ok_def)
    next
      case False
      with that maps have q: "gm_load (tSpines s) j = Some q" by simp
      have kid: "node s' c = node s c" if "c \<in> set (nChildren (node s q))" for c
        using lf wf_leaf_child(1) [OF wf q that] by blast
      with wf_spine [OF wf q] spn [OF q] maps valid show ?thesis by (auto simp: spine_ok_def)
    qed
  qed (use wf_maps [OF wf] in \<open>simp_all add: maps\<close>)
  moreover have "built_workers s' q" if q: "gm_load (tLeaves s) j = Some q" for j q
  proof -
    have "node s' c = node s c" if "c \<in> set (nChildren (node s q))" for c
      using sv wf_child(1) [OF wf q that] by blast
    with lf [OF q] have "built_workers s' q \<longleftrightarrow> built_workers s q" by (intro built_workers_cong) auto
    with ok q show ?thesis by (auto simp: tree_ok_def)
  qed
  ultimately show ?thesis using rv valid root by (simp add: tree_ok_def maps node_root)
qed

lemma build_spine_ok:
  assumes run: "build_spine leafOf serverOf (c, ys) s = Ret s'" and ok: "tree_ok s"
    and new: "gm_load (tSpines s) (sSID c) = None"
    and sid: "\<And>x sc. serverOf x = Ret sc \<Longrightarrow> ssID sc = sid x"
    and lid: "\<And>y c xs. leafOf y = Ret (c, xs) \<Longrightarrow> lsID c = lid y \<and> map sid xs = sids y"
    and dist: "distinct (map lid ys)" "distinct (concat (map sids ys))"
    and free: "\<forall>y \<in> set ys. gm_load (tLeaves s) (lid y) = None"
      "\<forall>j \<in> set (concat (map sids ys)). gm_load (tServers s) j = None"
  shows "tree_ok s' \<and>
    (\<forall>j. j \<noteq> sSID c \<longrightarrow> gm_load (tSpines s') j = gm_load (tSpines s) j) \<and>
    (\<forall>j. j \<notin> lid ` set ys \<longrightarrow> gm_load (tLeaves s') j = gm_load (tLeaves s) j) \<and>
    (\<forall>j. j \<notin> set (concat (map sids ys)) \<longrightarrow> gm_load (tServers s') j = gm_load (tServers s) j)"
proof -
  from ok obtain root where root: "tRoot s = Some root" "valid_node s root" by (auto simp: tree_ok_def)
  let ?p = "length (tNodes s)"
  from run root obtain a where a: "FindAsic s (sSAsic c) = Inr a" by (auto simp: build_spine_def returned)
  define s4 where "s4 = s\<lparr>tNodes := (tNodes s)[root := (node s root)\<lparr>nChildren := nChildren (node s root) @ [?p]\<rparr>] @
      [(NewSpine (sSAddress c) (sSID c) a)\<lparr>nParent := Some root\<rparr>],
    tSpines := gm_store (sSID c) ?p (tSpines s)\<rparr>"
  have lt: "root < ?p" using root by (simp add: valid_node_def)
  have leaves: "go_fold (\<lambda>y t. go_bind (leafOf y) (\<lambda>lc. build_leaf ?p serverOf lc t)) ys s4 = Ret s'"
    using run lt by (simp add: build_spine_def a root Let_def s4_def topo_eval list_update_append nth_append)
  have s4_ok: "tree_ok s4"
    by (rule attach_spine_ok [OF ok new, where p = ?p and root = root and s' = s4
          and n = "(NewSpine (sSAddress c) (sSID c) a)\<lparr>nParent := Some root\<rparr>"
          and cs = "nChildren (node s root) @ [?p]"])
      (use lt root in \<open>auto simp: s4_def topo_eval nth_append NewSpine_def zero_Node_def\<close>)
  have m: "gm_load (tSpines s4) (sSID c) = Some ?p" "tLeaves s4 = tLeaves s" "tServers s4 = tServers s"
    by (simp_all add: s4_def)
  from build_leaves_ok [OF leaves s4_ok m(1) sid lid dist, unfolded m, OF _ _ free]
  show ?thesis by (auto simp: s4_def)
qed

lemma build_spines_ok:
  assumes "go_fold (\<lambda>z t. go_bind (spineOf z) (\<lambda>sc. build_spine leafOf serverOf sc t)) zs s = Ret s'"
    and "tree_ok s"
    and sid: "\<And>x sc. serverOf x = Ret sc \<Longrightarrow> ssID sc = sid x"
    and lid: "\<And>y c xs. leafOf y = Ret (c, xs) \<Longrightarrow> lsID c = lid y \<and> map sid xs = sids y"
    and spid: "\<And>z c ys. spineOf z = Ret (c, ys) \<Longrightarrow> sSID c = spid z \<and> ys = leaves z"
    and "distinct (map spid zs)" and "distinct (map lid (concat (map leaves zs)))"
    and "distinct (concat (map sids (concat (map leaves zs))))"
    and "\<forall>z \<in> set zs. gm_load (tSpines s) (spid z) = None"
    and "\<forall>y \<in> set (concat (map leaves zs)). gm_load (tLeaves s) (lid y) = None"
    and "\<forall>j \<in> set (concat (map sids (concat (map leaves zs)))). gm_load (tServers s) j = None"
  shows "tree_ok s'"
  using assms(1,2,6-)
proof (induction zs arbitrary: s)
  case (Cons z zs)
  from Cons.prems(1) obtain c ys t where sc: "spineOf z = Ret (c, ys)"
    and step: "build_spine leafOf serverOf (c, ys) s = Ret t"
    and rest: "go_fold (\<lambda>z t. go_bind (spineOf z) (\<lambda>sc. build_spine leafOf serverOf sc t)) zs t = Ret s'"
    by auto
  from spid [OF sc] have id: "sSID c = spid z" "ys = leaves z" by simp_all
  have new: "gm_load (tSpines s) (sSID c) = None" using Cons.prems(6) id by simp
  have dist: "distinct (map lid ys)" "distinct (concat (map sids ys))"
    using Cons.prems(4,5) id by simp_all
  have free: "\<forall>y \<in> set ys. gm_load (tLeaves s) (lid y) = None"
    "\<forall>j \<in> set (concat (map sids ys)). gm_load (tServers s) j = None"
    using Cons.prems(7,8) id by auto
  from build_spine_ok [OF step Cons.prems(2) new sid lid dist free]
  have t: "tree_ok t"
    "\<And>j. j \<noteq> spid z \<Longrightarrow> gm_load (tSpines t) j = gm_load (tSpines s) j"
    "\<And>j. j \<notin> lid ` set (leaves z) \<Longrightarrow> gm_load (tLeaves t) j = gm_load (tLeaves s) j"
    "\<And>j. j \<notin> set (concat (map sids (leaves z))) \<Longrightarrow> gm_load (tServers t) j = gm_load (tServers s) j"
    by (auto simp: id)
  have "spid y \<noteq> spid z" if "y \<in> set zs" for y using Cons.prems(3) that by (auto simp: image_iff)
  then have f1: "\<forall>y \<in> set zs. gm_load (tSpines t) (spid y) = None" using t(2) Cons.prems(6) by simp
  have f2: "\<forall>y \<in> set (concat (map leaves zs)). gm_load (tLeaves t) (lid y) = None"
  proof
    fix y assume y: "y \<in> set (concat (map leaves zs))"
    then have "lid y \<notin> lid ` set (leaves z)" using Cons.prems(4) by (auto simp: image_iff)
    with t(3) Cons.prems(7) y show "gm_load (tLeaves t) (lid y) = None" by auto
  qed
  have f3: "\<forall>j \<in> set (concat (map sids (concat (map leaves zs)))). gm_load (tServers t) j = None"
  proof
    fix j assume j: "j \<in> set (concat (map sids (concat (map leaves zs))))"
    then have "j \<notin> set (concat (map sids (leaves z)))" using Cons.prems(5) by auto
    with t(4) Cons.prems(8) j show "gm_load (tServers t) j = None" by auto
  qed
  from Cons.IH [OF rest t(1) _ _ _ f1 f2 f3] Cons.prems(3,4,5) show ?case by simp
qed simp

text \<open>Clients and the root do not touch the tree.\<close>

lemma build_client_empty:
  assumes "build_client k a p s = Ret s'" and "tServers s = [] \<and> tLeaves s = [] \<and> tSpines s = []"
  shows "tServers s' = [] \<and> tLeaves s' = [] \<and> tSpines s' = []"
  using assms by (auto simp: build_client_def Let_def new_node_def returned)

lemma build_root_ok:
  assumes "tServers s = [] \<and> tLeaves s = [] \<and> tSpines s = []"
  shows "tree_ok (build_root s)"
    and "tServers (build_root s) = [] \<and> tLeaves (build_root s) = [] \<and> tSpines (build_root s) = []"
  using assms by (simp_all add: build_root_def Let_def topo_eval tree_ok_def wf_topo_code gm_eval NewNode_def)

section \<open>The constructors\<close>

definition conf_leaf_ids :: "topoConfig \<Rightarrow> u16 list" where
  "conf_leaf_ids cfg = concat (map csLeafIDs (tcSpines cfg))"

definition conf_server_ids :: "topoConfig \<Rightarrow> u16 list" where
  "conf_server_ids cfg =
     concat (map (\<lambda>i. clServerIDs (tcLeaves cfg ! unat i)) (conf_leaf_ids cfg))"

lemma NewDCNFromConf_tree:
  assumes run: "NewDCNFromConf cfg = Ret s"
    and "distinct (map csID (tcSpines (trTopo cfg)))"
    and "distinct (map (\<lambda>i. clID (tcLeaves (trTopo cfg) ! unat i)) (conf_leaf_ids (trTopo cfg)))"
    and "distinct (map (\<lambda>i. cvID (tcServers (trTopo cfg) ! unat i)) (conf_server_ids (trTopo cfg)))"
  shows "tree_ok s"
proof -
  let ?t = "trTopo cfg"
  let ?sid = "\<lambda>i. cvID (tcServers ?t ! unat i)" and ?lid = "\<lambda>i. clID (tcLeaves ?t ! unat i)"
  let ?sids = "\<lambda>i. map ?sid (clServerIDs (tcLeaves ?t ! unat i))"
  obtain ar h where reg: "NewAsicRegistry (trAsics cfg) (trPortConfig cfg) (trPortGroup cfg)
      \<lparr>hPorts = [], hAsics = []\<rparr> = (ar, h)" by fastforce
  from run obtain s1 where clients: "go_fold (\<lambda>c. build_client (ccID c) (ccAsic c) (ccPort c))
      (tcClients ?t) (empty_topology h ar) = Ret s1"
    and spines: "go_fold (\<lambda>z t. go_bind (Ret (conf_spine z))
      (\<lambda>sc. build_spine (conf_leaf ?t) (conf_server ?t) sc t)) (tcSpines ?t) (build_root s1) = Ret s"
    by (auto simp: NewDCNFromConf_def reg Let_def)
  have "tServers s1 = [] \<and> tLeaves s1 = [] \<and> tSpines s1 = []"
    by (rule go_fold_inv [OF clients]) (auto simp: empty_topology_def gm_empty_def dest: build_client_empty)
  note root = build_root_ok [OF this]
  show ?thesis
  proof (rule build_spines_ok [OF spines root(1), where sid = ?sid and lid = ?lid and sids = ?sids
        and spid = csID and leaves = csLeafIDs])
    show "ssID sc = ?sid x" if "conf_server ?t x = Ret sc" for x sc
      using that by (auto simp: conf_server_def go_nth_def split: if_splits)
    show "lsID c = ?lid y \<and> map ?sid xs = ?sids y" if "conf_leaf ?t y = Ret (c, xs)" for y c xs
      using that by (auto simp: conf_leaf_def go_nth_def split: if_splits)
    show "sSID c = csID z \<and> ys = csLeafIDs z" if "Ret (conf_spine z) = Ret (c, ys)" for z c ys
      using that by (auto simp: conf_spine_def)
    show "distinct (concat (map ?sids (concat (map csLeafIDs (tcSpines ?t)))))"
      using assms(4) by (simp add: conf_server_ids_def conf_leaf_ids_def map_concat o_def)
  qed (use assms(2,3) root(2) in \<open>simp_all add: conf_leaf_ids_def gm_load_def\<close>)
qed

definition info_leaves :: "TopoInfo \<Rightarrow> LeafInfo list" where
  "info_leaves info = concat (map spLeaves (tiSpines info))"

lemma NewDCNFromTopoInfo_tree:
  assumes run: "NewDCNFromTopoInfo info = Ret s"
    and "distinct (map (\<lambda>sp. ucast (spId sp) :: u16) (tiSpines info))"
    and "distinct (map (\<lambda>li. ucast (liId li) :: u16) (info_leaves info))"
    and "distinct (map (\<lambda>si. ucast (siId si) :: u16) (concat (map liServers (info_leaves info))))"
  shows "tree_ok s"
proof -
  let ?sid = "\<lambda>si. ucast (siId si) :: u16" and ?lid = "\<lambda>li. ucast (liId li) :: u16"
  let ?sids = "\<lambda>li. map ?sid (liServers li)"
  from run obtain ar h s1 where clients: "go_fold info_client (tiClients info) (empty_topology h ar) = Ret s1"
    and spines: "go_fold (\<lambda>z t. go_bind (info_spine z) (\<lambda>sc. build_spine info_leaf info_server sc t))
      (tiSpines info) (build_root s1) = Ret s"
    by (auto simp: NewDCNFromTopoInfo_def)
  have "tServers s1 = [] \<and> tLeaves s1 = [] \<and> tSpines s1 = []"
    by (rule go_fold_inv [OF clients])
      (auto simp: empty_topology_def gm_empty_def info_client_def dest: build_client_empty)
  note root = build_root_ok [OF this]
  show ?thesis
  proof (rule build_spines_ok [OF spines root(1), where sid = ?sid and lid = ?lid and sids = ?sids
        and spid = "\<lambda>sp. ucast (spId sp)" and leaves = spLeaves])
    show "ssID sc = ?sid x" if "info_server x = Ret sc" for x sc
      using that by (auto simp: info_server_def)
    show "lsID c = ?lid y \<and> map ?sid xs = ?sids y" if "info_leaf y = Ret (c, xs)" for y c xs
      using that by (auto simp: info_leaf_def)
    show "sSID c = ucast (spId z) \<and> ys = spLeaves z" if "info_spine z = Ret (c, ys)" for z c ys
      using that by (auto simp: info_spine_def)
    show "distinct (concat (map ?sids (concat (map spLeaves (tiSpines info)))))"
      using assms(4) by (simp add: info_leaves_def map_concat o_def)
  qed (use assms(2,3) root(2) in \<open>simp_all add: info_leaves_def gm_load_def\<close>)
qed

end
