(* ===== verification/Ports_Correct.thy ===== *)
theory Ports_Correct
  imports Topo_Build
begin

text \<open>
  The properties of the hardware configuration (core/model/port.go, core/model/asic.go): port
  specifications, port registries, the lookup of ports, and the topology that is built from the
  configuration on top of them.
\<close>

section \<open>Port specifications\<close>

lemma expandPortSpec_print:
  assumes "c < 2 ^ 63" and "l \<le> 3"
  shows "expandPortSpec (fmt_d c @ slash # fmt_d l) = Inr [NewPortSpec (of_nat c) (of_nat l)]"
proof -
  have "CHR ''-'' \<notin> set (fmt_d l)"
    using fmt_d_set [of "CHR ''-''" l] digit_not [of "CHR ''-''"] by blast
  then have "fmt_d l \<noteq> ''-''" by auto
  with assms show ?thesis
    by (simp add: expandPortSpec_def Let_def TrimSpace_spec Split_spec Atoi_fmt_d)
qed

lemma digit_chars:
  "digit_char 0 = CHR ''0''" "digit_char (Suc 0) = CHR ''1''" "digit_char 2 = CHR ''2''"
  by (simp_all add: digit_char_def) (code_simp)+

lemma sample_specs:
  "expandPortSpec ''1/0'' = Inr [NewPortSpec 1 0]"
  "expandPortSpec ''1/1'' = Inr [NewPortSpec 1 1]"
  "expandPortSpec ''2/0'' = Inr [NewPortSpec 2 0]"
  using expandPortSpec_print [of 1 0] expandPortSpec_print [of 1 1] expandPortSpec_print [of 2 0]
  by (simp_all add: slash_def fmt_d.simps digit_chars)

lemma sample_spec_ids:
  "NewPortSpec 1 0 = \<lparr>psID = ''1/0'', psCage = 1, psLane = 0\<rparr>"
  "NewPortSpec 1 1 = \<lparr>psID = ''1/1'', psCage = 1, psLane = 1\<rparr>"
  "NewPortSpec 2 0 = \<lparr>psID = ''2/0'', psCage = 2, psLane = 0\<rparr>"
  by (simp_all add: NewPortSpec_def slash_def fmt_d.simps digit_chars)

definition sample_conf :: topoRootConfig where
  "sample_conf = \<lparr>trTopo = \<lparr>tcClients = [\<lparr>ccID = 7, ccPort = ''1/1'', ccAsic = ''a''\<rparr>],
       tcSpines = [\<lparr>csID = 3, csAddress = ''s'', csLeafIDs = [0], csAsic = ''a''\<rparr>],
       tcLeaves = [\<lparr>clID = 0, clIndex = 0, clAddress = ''l'', clMgmtAddress = ''m'',
         clServerIDs = [1, 0], clAsic = ''a'', clUsPort = ''1/0'', clDsPort = ''1/1''\<rparr>],
       tcServers = [\<lparr>cvID = 0, cvPort = ''2/0'', cvAddress = ''u'', cvWorkersCount = 2\<rparr>,
         \<lparr>cvID = 1, cvPort = ''2/0'', cvAddress = ''v'', cvWorkersCount = 4\<rparr>]\<rparr>,
     trAsics = [\<lparr>caID = ''a'', caProgram = ''p'', caDeviceID = 0, caPipeID = 0,
       caCtrlAddress = [], caCtrlAPI = ''bfrt''\<rparr>],
     trPortConfig = [\<lparr>cpID = ''c'', cpSpeed = ''10G'', cpFec = ''none'', cpAn = ''auto''\<rparr>],
     trPortGroup = [\<lparr>cgSpecs = [''1/0'', ''x'', ''1/1'', ''2/0''], cgConfig = ''c'', cgAsic = ''a''\<rparr>]\<rparr>"

lemma sample_port_config:
  "NewPortConfig \<lparr>cpID = ''c'', cpSpeed = ''10G'', cpFec = ''none'', cpAn = ''auto''\<rparr> =
    Inr \<lparr>pcID = ''c'', pcSpeed = ''BF_SPEED_10G'', pcFec = ''BF_FEC_TYP_NONE'', pcAn = ''PM_AN_DEFAULT''\<rparr>"
  by code_simp

lemma sample_bad_spec: "\<exists>e. expandPortSpec ''x'' = Inl e"
  by (simp add: expandPortSpec_def Let_def TrimSpace_id is_space_def slash_def)

lemma sample_registry:
  "\<exists>h. NewAsicRegistry (trAsics sample_conf) (trPortConfig sample_conf) (trPortGroup sample_conf)
      \<lparr>hPorts = [], hAsics = []\<rparr> = ([(''a'', 0)], h) \<and>
    prPortMap (asPortRegistry (asic h 0)) = [(''1/0'', 0), (''1/1'', 1), (''2/0'', 2)] \<and>
    poSpec (port h 2) = NewPortSpec 2 0"
  using sample_bad_spec
  by (auto simp: NewAsicRegistry_def sample_conf_def add_asic_def NewAsic_def filterPortGroup_def Let_def
      NewPortRegistry_def add_port_config_def sample_port_config add_group_def group_specs_def
      sample_specs add_port_def sample_spec_ids asic_def port_def SetDevPort_def NewPort_def gm_eval)

lemma sample_conf_built: "\<exists>s. NewDCNFromConf sample_conf = Ret s"
proof -
  obtain h where reg: "NewAsicRegistry (trAsics sample_conf) (trPortConfig sample_conf)
      (trPortGroup sample_conf) \<lparr>hPorts = [], hAsics = []\<rparr> = ([(''a'', 0)], h)"
    and ports: "prPortMap (asPortRegistry (asic h 0)) = [(''1/0'', 0), (''1/1'', 1), (''2/0'', 2)]"
    using sample_registry by blast
  show ?thesis
    by (simp add: NewDCNFromConf_def reg Let_def)
      (simp add: sample_conf_def build_client_def empty_topology_def FindPort_def FindAsic_def ports
         build_root_def build_spine_def conf_spine_def build_leaf_def conf_leaf_def conf_server_def
         go_nth_def build_server_def Let_def topo_eval gm_eval)
qed

section \<open>The hardware of a built topology\<close>

definition has_hw :: "hw \<Rightarrow> AsicRegistry \<Rightarrow> Topology \<Rightarrow> bool" where
  "has_hw h ar s \<longleftrightarrow> tHw s = h \<and> tAsicRegistry s = ar"

lemma build_servers_hw:
  assumes "build_servers a l serverOf xs (s, w) = Ret (s', w')"
  shows "tHw s' = tHw s \<and> tAsicRegistry s' = tAsicRegistry s"
proof -
  have "has_hw (tHw s) (tAsicRegistry s) (fst (s', w'))"
    by (rule go_fold_inv [OF assms, where P = "\<lambda>st. has_hw (tHw s) (tAsicRegistry s) (fst st)"])
      (auto simp: build_server_def Let_def returned new_node_def has_hw_def)
  then show ?thesis by (simp add: has_hw_def)
qed

lemma build_leaf_hw:
  "build_leaf sp serverOf (c, xs) s = Ret s' \<Longrightarrow> tHw s' = tHw s \<and> tAsicRegistry s' = tAsicRegistry s"
  by (auto simp: build_leaf_def Let_def returned new_node_def dest!: build_servers_hw)

lemma build_leaves_hw:
  assumes "go_fold (\<lambda>y t. go_bind (leafOf y) (\<lambda>lc. build_leaf p serverOf lc t)) ys s = Ret s'"
  shows "tHw s' = tHw s \<and> tAsicRegistry s' = tAsicRegistry s"
proof -
  have "has_hw (tHw s) (tAsicRegistry s) s'"
    by (rule go_fold_inv [OF assms, where P = "has_hw (tHw s) (tAsicRegistry s)"])
      (auto simp: has_hw_def dest!: build_leaf_hw)
  then show ?thesis by (simp add: has_hw_def)
qed

lemma build_spine_hw:
  assumes "build_spine leafOf serverOf sc s = Ret s'" and "has_hw h ar s"
  shows "has_hw h ar s'"
  using assms
  by (cases sc) (auto simp: build_spine_def Let_def returned new_node_def has_hw_def dest!: build_leaves_hw)

lemma NewDCNFromConf_has_hw:
  assumes reg: "NewAsicRegistry (trAsics cfg) (trPortConfig cfg) (trPortGroup cfg) \<lparr>hPorts = [], hAsics = []\<rparr> = (ar, h)"
    and "NewDCNFromConf cfg = Ret s"
  shows "has_hw h ar s"
proof -
  from assms(2) obtain s1 where clients: "go_fold (\<lambda>c. build_client (ccID c) (ccAsic c) (ccPort c))
      (tcClients (trTopo cfg)) (empty_topology h ar) = Ret s1"
    and spines: "go_fold (\<lambda>sc. build_spine (conf_leaf (trTopo cfg)) (conf_server (trTopo cfg))
      (conf_spine sc)) (tcSpines (trTopo cfg)) (build_root s1) = Ret s"
    by (auto simp: NewDCNFromConf_def reg Let_def)
  have "has_hw h ar s1"
    by (rule go_fold_inv [OF clients])
      (auto simp: has_hw_def empty_topology_def build_client_def Let_def new_node_def returned)
  then have "has_hw h ar (build_root s1)" by (simp add: has_hw_def build_root_def Let_def new_node_def)
  then show "has_hw h ar s" by (rule go_fold_inv [OF spines]) (auto intro: build_spine_hw)
qed

lemma NewDCNFromConf_hw:
  assumes "NewDCNFromConf cfg = Ret s"
  shows "registry_ok (tAsicRegistry s) (tHw s)"
proof -
  obtain ar h where reg: "NewAsicRegistry (trAsics cfg) (trPortConfig cfg) (trPortGroup cfg)
      \<lparr>hPorts = [], hAsics = []\<rparr> = (ar, h)" by fastforce
  from NewDCNFromConf_has_hw [OF reg assms] NewAsicRegistry_ok [OF reg] show ?thesis by (simp add: has_hw_def)
qed

section \<open>The properties\<close>

text \<open>
  C35: The textual form \<open>cage/lane\<close> that identifies a port is read back as the same port, and
  \<open>cage/-\<close> as the four lanes of the cage.
\<close>

theorem port_spec_roundtrip:
  assumes "unat c < 2 ^ 63" and "l \<le> 3"
  shows "expandPortSpec (psID (NewPortSpec c l)) = Inr [NewPortSpec c l] \<and>
    expandPortSpec (fmt_d (unat c) @ [slash] @ ''-'') = Inr (map (NewPortSpec c) [0, 1, 2, 3])"
proof
  from assms(2) have "unat l \<le> 3" by (simp add: word_le_nat_alt)
  then show "expandPortSpec (psID (NewPortSpec c l)) = Inr [NewPortSpec c l]"
    using expandPortSpec_print [OF assms(1), of "unat l"] by (simp add: NewPortSpec_def)
  have "slash \<notin> set ''-''" "\<not> is_space (CHR ''-'')" by (simp_all add: slash_def is_space_def)
  then have "TrimSpace (fmt_d (unat c) @ [slash] @ ''-'') = fmt_d (unat c) @ [slash] @ ''-''"
    "Split slash (fmt_d (unat c) @ [slash] @ ''-'') = [fmt_d (unat c), ''-'']"
    by (auto simp: TrimSpace_id end_fmt_d Split_append slash_not_digit Split_free)
  then show "expandPortSpec (fmt_d (unat c) @ [slash] @ ''-'') = Inr (map (NewPortSpec c) [0, 1, 2, 3])"
    using assms(1) by (simp add: expandPortSpec_def Let_def Atoi_fmt_d)
qed

theorem port_spec_roundtrip_witness:
  "expandPortSpec (psID (NewPortSpec 17 2)) = Inr [NewPortSpec 17 2]"
  using port_spec_roundtrip [of 17 2] by simp

text \<open>
  In a topology built from the configuration, a successful lookup of a port by ASIC and
  specification returns the port that has this specification and belongs to the ASIC of this name.
\<close>

theorem FindPort_sound:
  assumes "NewDCNFromConf cfg = Ret s" and "FindPort s asicStr portStr = Inr p"
  shows "port_spec_id s p = portStr \<and> port_asic_id s p = asicStr \<and>
    psID (NewPortSpec (psCage (poSpec (port (tHw s) p))) (psLane (poSpec (port (tHw s) p)))) = portStr"
proof -
  from assms(2) obtain a where a: "gm_load (tAsicRegistry s) asicStr = Some a"
    and p: "gm_load (prPortMap (asPortRegistry (asic (tHw s) a))) portStr = Some p"
    by (auto simp: FindPort_def FindAsic_def split: option.splits)
  from NewDCNFromConf_hw [OF assms(1)] a have "asID (asic (tHw s) a) = asicStr" "asic_ok (tHw s) a"
    by (auto simp: registry_ok_def)
  moreover from this p have "port_entry_ok a (prConfigMap (asPortRegistry (asic (tHw s) a))) 0
      (hPorts (tHw s)) portStr p" by (simp add: asic_ok_def)
  ultimately show ?thesis
    by (auto simp: port_entry_ok_def port_spec_id_def port_asic_id_def port_def)
qed

theorem FindPort_sound_witness:
  "\<exists>s p. NewDCNFromConf sample_conf = Ret s \<and> FindPort s ''a'' ''2/0'' = Inr p \<and> port_spec_id s p = ''2/0''"
proof -
  obtain s where run: "NewDCNFromConf sample_conf = Ret s" using sample_conf_built by blast
  obtain h where reg: "NewAsicRegistry (trAsics sample_conf) (trPortConfig sample_conf)
      (trPortGroup sample_conf) \<lparr>hPorts = [], hAsics = []\<rparr> = ([(''a'', 0)], h)"
    and ports: "prPortMap (asPortRegistry (asic h 0)) = [(''1/0'', 0), (''1/1'', 1), (''2/0'', 2)]"
    using sample_registry by blast
  have "FindPort s ''a'' ''2/0'' = Inr 2"
    using run
    by (simp add: NewDCNFromConf_def reg Let_def)
      (auto simp: sample_conf_def build_client_def empty_topology_def FindPort_def FindAsic_def ports
         build_root_def build_spine_def conf_spine_def build_leaf_def conf_leaf_def conf_server_def
         go_nth_def build_server_def Let_def topo_eval gm_eval)
  with FindPort_sound [OF run this] run show ?thesis by blast
qed

text \<open>
  C33: The topology built from the configuration is well-formed when the IDs of the spines, of the
  leaves and of the servers it refers to are distinct; the workers of every leaf are numbered
  consecutively from 0, and the range of the leaf ends with the last of them.
\<close>

theorem NewDCNFromConf_wellformed:
  assumes "NewDCNFromConf cfg = Ret s"
    and "distinct (map csID (tcSpines (trTopo cfg)))"
    and "distinct (map (\<lambda>i. clID (tcLeaves (trTopo cfg) ! unat i)) (conf_leaf_ids (trTopo cfg)))"
    and "distinct (map (\<lambda>i. cvID (tcServers (trTopo cfg) ! unat i)) (conf_server_ids (trTopo cfg)))"
  shows "wf_topo s \<and> (\<forall>k l. gm_load (tLeaves s) k = Some l \<longrightarrow>
    layout 0 (map (node s) (nChildren (node s l))) \<and> nFirstWorkerID (node s l) = 0 \<and>
    nLastWorkerID (node s l) = total_workers s (nChildren (node s l)) - 1)"
  using NewDCNFromConf_tree [OF assms] by (simp add: tree_ok_def built_workers_def)

theorem NewDCNFromConf_wellformed_witness:
  "\<exists>s. NewDCNFromConf sample_conf = Ret s \<and> wf_topo s"
proof -
  obtain s where run: "NewDCNFromConf sample_conf = Ret s" using sample_conf_built by blast
  with NewDCNFromConf_wellformed [OF run] show ?thesis
    by (auto simp: sample_conf_def conf_leaf_ids_def conf_server_ids_def)
qed

text \<open>
  A leaf that is built without workers gets the range 0 to 65535, although the comment in the
  constructor says that its last worker ID is 0 then.
\<close>

theorem empty_leaf_range_wraps:
  assumes "NewDCNFromTopoInfo info = Ret s"
    and "distinct (map (\<lambda>sp. ucast (spId sp) :: u16) (tiSpines info))"
    and "distinct (map (\<lambda>li. ucast (liId li) :: u16) (info_leaves info))"
    and "distinct (map (\<lambda>si. ucast (siId si) :: u16) (concat (map liServers (info_leaves info))))"
    and "gm_load (tLeaves s) k = Some l" and "nChildren (node s l) = []"
  shows "wf_topo s \<and> nFirstWorkerID (node s l) = 0 \<and> unat (nLastWorkerID (node s l)) = 65535"
proof -
  have ok: "tree_ok s" by (rule NewDCNFromTopoInfo_tree [OF assms(1-4)])
  with assms(5) have "built_workers s l" by (simp add: tree_ok_def)
  moreover have "unat (- 1 :: u16) = 65535"
    by (simp add: unsigned_minus_1_eq_mask mask_eq_exp_minus_1)
  ultimately show ?thesis using ok assms(6)
    by (simp add: tree_ok_def built_workers_def total_workers_def)
qed

definition sample_info :: TopoInfo where
  "sample_info =
     (let pc = \<lparr>pciID = ''c'', pciSpeed = ''BF_SPEED_10G'', pciFec = ''BF_FEC_TYP_NONE'',
                pciAn = ''PM_AN_DEFAULT''\<rparr>;
          up = \<lparr>piID = ''1/0'', piCage = 1, piLane = 0, piDevPort = 0, piPortConfig = Some pc\<rparr>;
          dn = \<lparr>piID = ''1/1'', piCage = 1, piLane = 1, piDevPort = 0, piPortConfig = Some pc\<rparr>;
          a = \<lparr>aiID = ''a'', aiProgram = ''p'', aiDeviceID = 0, aiPipeID = 0, aiCtrlAddress = [],
               aiCtrlAPI = ''v1'', aiPortsInfo = [up, dn]\<rparr>
      in \<lparr>tiSpines = [\<lparr>spId = 0, spAddress = ''s'',
             spLeaves = [\<lparr>liId = 4, liIndex = 0, liAddress = ''l'', liMgmtAddress = ''m'',
               liServers = [], liSpineID = 0, liAsic = Some a, liDsPort = Some dn,
               liUsPort = Some up\<rparr>], spAsic = Some a\<rparr>],
          tiClients = [], tiAsics = [a], tiPortConfig = [pc]\<rparr>)"

lemma sample_info_config:
  "NewPortConfig \<lparr>cpID = ''c'', cpSpeed = ''BF_SPEED_10G'',
      cpFec = ''BF_FEC_TYP_NONE'', cpAn = ''PM_AN_DEFAULT''\<rparr> =
    Inr \<lparr>pcID = ''c'', pcSpeed = ''BF_SPEED_10G'', pcFec = ''BF_FEC_TYP_NONE'', pcAn = ''PM_AN_DEFAULT''\<rparr>"
  by code_simp

lemma sample_info_built:
  "\<exists>s. NewDCNFromTopoInfo sample_info = Ret s \<and> gm_load (tLeaves s) 4 = Some 2 \<and>
     nChildren (node s 2) = []"
  by (simp add: NewDCNFromTopoInfo_def NewAsicRegistryFromInfo_def sample_info_def Let_def
      add_asic_info_def NewAsicFromInfo_def NewPortRegistryFromInfo_def add_port_config_def
      sample_info_config info_portConfig_def add_port_info_def add_port_def
      sample_spec_ids gm_eval)
    (simp add: empty_topology_def FindPort_def FindAsic_def asic_def
         build_root_def build_spine_def info_spine_def build_leaf_def info_leaf_def
         build_server_def Let_def topo_eval gm_eval NewLeaf_def zero_Node_def)

theorem empty_leaf_range_wraps_witness:
  "\<exists>s. NewDCNFromTopoInfo sample_info = Ret s \<and> unat (nLastWorkerID (node s 2)) = 65535"
proof -
  obtain s where run: "NewDCNFromTopoInfo sample_info = Ret s"
    and l: "gm_load (tLeaves s) 4 = Some 2" "nChildren (node s 2) = []"
    using sample_info_built by blast
  from empty_leaf_range_wraps [OF run _ _ _ l] run show ?thesis
    by (simp add: sample_info_def info_leaves_def Let_def)
qed

end
