(* ===== verification/Codec_Correct.thy ===== *)
theory Codec_Correct
  imports Ports_Correct
begin

text \<open>
  The properties of the encoding of a topology into a \<open>TopoInfo\<close> message (core/model/topology.go).
\<close>

section \<open>Loops that build lists\<close>

lemma go_map_view:
  assumes "\<forall>x \<in> set xs. \<exists>y. f x = Ret y \<and> h y = g x"
  shows "\<exists>ys. go_map f xs = Ret ys \<and> map h ys = map g xs"
  using assms
proof (induction xs)
  case (Cons x xs)
  then obtain y ys where "f x = Ret y" "h y = g x" "go_map f xs = Ret ys" "map h ys = map g xs" by auto
  then show ?case by simp
qed simp

section \<open>What a message says of the tree\<close>

type_synonym server_view = "u32 \<times> string \<times> u32"
type_synonym leaf_view = "u32 \<times> u32 \<times> string \<times> string \<times> server_view list"

definition server_view :: "ServerInfo \<Rightarrow> server_view" where
  "server_view si = (siId si, siAddress si, siWorkersCount si)"

definition leaf_view :: "LeafInfo \<Rightarrow> leaf_view" where
  "leaf_view li = (liId li, liIndex li, liAddress li, liMgmtAddress li, map server_view (liServers li))"

definition spine_view :: "SpineInfo \<Rightarrow> u32 \<times> string \<times> leaf_view list" where
  "spine_view sp = (spId sp, spAddress sp, map leaf_view (spLeaves sp))"

definition node_server_view :: "Topology \<Rightarrow> nref \<Rightarrow> server_view" where
  "node_server_view s r = (ucast (nID (node s r)), nAddress (node s r), ucast (encoded_workers (node s r)))"

definition node_leaf_view :: "Topology \<Rightarrow> nref \<Rightarrow> leaf_view" where
  "node_leaf_view s l = (ucast (nID (node s l)), ucast (nIndex (node s l)), nAddress (node s l),
     nMgmtAddress (node s l), map (node_server_view s) (nChildren (node s l)))"

definition node_spine_view :: "Topology \<Rightarrow> nref \<Rightarrow> u32 \<times> string \<times> leaf_view list" where
  "node_spine_view s p = (ucast (nID (node s p)), nAddress (node s p),
     map (node_leaf_view s) (nChildren (node s p)))"

lemma encode_server_view:
  "server_ok s k r \<Longrightarrow> \<exists>si. encode_server s a asics r = Ret si \<and> server_view si = node_server_view s r"
  by (auto simp: server_ok_def encode_server_def server_view_def node_server_view_def)

lemma encode_leaf_view:
  assumes wf: "wf_topo s" and l: "gm_load (tLeaves s) k = Some l"
  shows "\<exists>li. encode_leaf s i asics l = Ret li \<and> leaf_view li = node_leaf_view s l \<and> liSpineID li = ucast i"
proof -
  have ok: "leaf_ok s k l" by (rule wf_leaf [OF wf l])
  then obtain ds us where p: "nDsPort (node s l) = Some ds" "nUsPort (node s l) = Some us"
    by (auto simp: leaf_ok_def)
  have "\<exists>ys. go_map (encode_server s (port_asic_id s ds) asics) (nChildren (node s l)) = Ret ys \<and>
      map server_view ys = map (node_server_view s) (nChildren (node s l))"
    by (rule go_map_view) (use encode_server_view wf_server [OF wf] wf_child(1) [OF wf l] in blast)
  then obtain ys where "go_map (encode_server s (port_asic_id s ds) asics) (nChildren (node s l)) = Ret ys"
    "map server_view ys = map (node_server_view s) (nChildren (node s l))" by blast
  then show ?thesis by (simp add: encode_leaf_def p Let_def leaf_view_def node_leaf_view_def)
qed

lemma encode_spine_view:
  assumes wf: "wf_topo s" and p: "gm_load (tSpines s) k = Some p" and "nAsic (node s p) \<noteq> None"
  shows "\<exists>sp. encode_spine s asics p = Ret sp \<and> spine_view sp = node_spine_view s p"
proof -
  have "\<exists>ys. go_map (encode_leaf s (nID (node s p)) asics) (nChildren (node s p)) = Ret ys \<and>
      map leaf_view ys = map (node_leaf_view s) (nChildren (node s p))"
    by (rule go_map_view) (use encode_leaf_view [OF wf] wf_leaf_child(1) [OF wf p] in blast)
  with assms(3) show ?thesis by (auto simp: encode_spine_def spine_view_def node_spine_view_def)
qed

lemma getClientInfo_ok:
  assumes "\<forall>(k, c) \<in> set (tClients s). nPort (node s c) \<noteq> None" and "is_order ord"
  shows "\<exists>cs. getClientInfo ord s asics = Ret cs"
proof -
  have "\<exists>cs. getClientInfo ord s asics = Ret cs \<and> map (\<lambda>_. ()) cs = map (\<lambda>_. ()) (go_range ord (tClients s))"
    unfolding getClientInfo_def
    by (rule go_map_view) (use assms in \<open>auto split: prod.splits\<close>)
  then show ?thesis by blast
qed

section \<open>The properties\<close>

text \<open>
  C34: The topology message of a well-formed topology can always be built, whatever order Go picks for
  its maps, and lists every registered spine once, with its leaves and their servers in the order of
  the tree, each with its ID and address, and each leaf with its index.
\<close>

theorem EncodeToTopoInfo_faithful:
  assumes "wf_topo s" and "is_order ord"
    and "\<forall>(k, p) \<in> set (tSpines s). nAsic (node s p) \<noteq> None"
    and "\<forall>(k, c) \<in> set (tClients s). nPort (node s c) \<noteq> None"
  shows "\<exists>info. EncodeToTopoInfo ord s = Ret info \<and>
    map spine_view (tiSpines info) = map (\<lambda>(k, p). node_spine_view s p) (go_range ord (tSpines s)) \<and>
    mset (map (\<lambda>(k, p). p) (go_range ord (tSpines s))) = mset (map (\<lambda>(k, p). p) (tSpines s))"
proof -
  let ?asics = "EncodeToAsicInfo ord (tAsicRegistry s) (tHw s)"
  obtain cs where cs: "getClientInfo ord s ?asics = Ret cs" using getClientInfo_ok [OF assms(4,2)] by blast
  have "\<exists>ys. go_map (\<lambda>(k, p). encode_spine s ?asics p) (go_range ord (tSpines s)) = Ret ys \<and>
      map spine_view ys = map (\<lambda>(k, p). node_spine_view s p) (go_range ord (tSpines s))"
  proof (rule go_map_view, intro ballI)
    fix x assume x: "x \<in> set (go_range ord (tSpines s))"
    obtain k p where kp: "x = (k, p)" by fastforce
    then have "gm_load (tSpines s) k = Some p"
      using x assms(2) gm_range_load [OF assms(2) wf_maps(3) [OF assms(1)]] by blast
    moreover have "nAsic (node s p) \<noteq> None" using x assms(2,3) by (auto simp: kp)
    ultimately show "\<exists>y. (case x of (k, p) \<Rightarrow> encode_spine s ?asics p) = Ret y \<and>
        spine_view y = (case x of (k, p) \<Rightarrow> node_spine_view s p)"
      using encode_spine_view [OF assms(1)] by (simp add: kp)
  qed
  then obtain ys where "go_map (\<lambda>(k, p). encode_spine s ?asics p) (go_range ord (tSpines s)) = Ret ys"
    "map spine_view ys = map (\<lambda>(k, p). node_spine_view s p) (go_range ord (tSpines s))" by blast
  with cs show ?thesis
    by (simp add: EncodeToTopoInfo_def Let_def mset_go_range [OF assms(2)])
qed

theorem EncodeToTopoInfo_faithful_witness:
  "\<exists>info. EncodeToTopoInfo stored_order sample = Ret info \<and>
    map spine_view (tiSpines info) = [node_spine_view sample 1]"
proof -
  have "\<forall>(k, p) \<in> set (tSpines sample). nAsic (node sample p) \<noteq> None"
    "\<forall>(k, c) \<in> set (tClients sample). nPort (node sample c) \<noteq> None"
    "go_range stored_order (tSpines sample) = [(0, 1)]"
    by (simp_all add: sample_eval)
  with EncodeToTopoInfo_faithful [OF sample_wf is_order_stored] show ?thesis by fastforce
qed

text \<open>
  The number of workers sent for a server is right unless the server has exactly one worker (or
  its range wraps around): a server with one worker is announced with none, so the receiver
  builds a different layout.
\<close>

theorem encoded_workers_count:
  "(nFirstWorkerID n < nLastWorkerID n \<longrightarrow> encoded_workers n = worker_count n) \<and>
   (worker_count n = 1 \<longrightarrow> encoded_workers n = 0)"
  by (auto simp: encoded_workers_def worker_count_def)

theorem encoded_workers_count_witness:
  "worker_count (sample_server 1 2 4 4) = 1 \<and> encoded_workers (sample_server 1 2 4 4) = 0"
  using encoded_workers_count [of "sample_server 1 2 4 4"]
  by (simp add: sample_server_def worker_count_def)

end
