(* ===== verification/Virtual_Cluster.thy ===== *)
theory Virtual_Cluster
  imports Topology_Correct
begin

text \<open>
  A virtual cluster (core/model/vc.go): the sets of spines, leaves and servers of the topology that
  a cluster uses. The maps hold pointers to the nodes of the topology, which is passed along.
\<close>

section \<open>The object and its construction\<close>

record VirtualCluster =
  vcClusterID :: u16
  vcSpines :: NodeMap
  vcLeaves :: NodeMap
  vcServers :: NodeMap

text \<open>The two loops of \<open>NewVC\<close>: each returns the first error.\<close>

fun vc_add_spines :: "Topology \<Rightarrow> u32 list \<Rightarrow> VirtualCluster \<Rightarrow> (go_error + VirtualCluster) go" where
  "vc_add_spines t [] vc = Ret (Inr vc)"
| "vc_add_spines t (spineID # ids) vc =
     go_bind (GetNode t (ucast spineID) NodeType_Spine) (\<lambda>spine.
       case spine of
         Some sp \<Rightarrow>
           vc_add_spines t ids (vc\<lparr>vcSpines := NodeMap_Store (nID (node t sp)) sp (vcSpines vc)\<rparr>)
       | None \<Rightarrow> Ret (Inl (ErrVCNoSpine spineID)))"

fun vc_add_servers ::
  "Topology \<Rightarrow> VCServerInfo list \<Rightarrow> VirtualCluster \<Rightarrow> (go_error + VirtualCluster) go" where
  "vc_add_servers t [] vc = Ret (Inr vc)"
| "vc_add_servers t (cfg # cfgs) vc =
     go_bind (GetNode t (ucast (vsId cfg)) NodeType_Server) (\<lambda>server.
       case server of
         Some r \<Rightarrow>
           (case nParent (node t r) of
              Some leaf \<Rightarrow>
                vc_add_servers t cfgs
                  (vc\<lparr>vcServers := NodeMap_Store (nID (node t r)) r (vcServers vc),
                      vcLeaves := NodeMap_Store (nID (node t leaf)) leaf (vcLeaves vc)\<rparr>)
            | None \<Rightarrow> Ret (Inl ErrVCNoLeaf))
       | None \<Rightarrow> Ret (Inl (ErrVCNoServer (vsId cfg))))"

definition NewVC :: "VCInfo \<Rightarrow> Topology \<Rightarrow> (go_error + VirtualCluster) go" where
  "NewVC vcConfig t =
     go_bind (vc_add_spines t (viSpines vcConfig)
         \<lparr>vcClusterID = ucast (viId vcConfig), vcSpines = gm_empty, vcLeaves = gm_empty,
          vcServers = gm_empty\<rparr>) (\<lambda>res.
       case res of
         Inl e \<Rightarrow> Ret (Inl e)
       | Inr vc \<Rightarrow> vc_add_servers t (viServers vcConfig) vc)"

section \<open>Detaching\<close>

text \<open>
  The result tells whether the server was detached, and whether its leaf has no other server in the
  cluster; the leaf itself stays in the cluster (the caller deletes it).
\<close>

definition vc_DetachServer ::
  "Topology \<Rightarrow> u16 \<Rightarrow> VirtualCluster \<Rightarrow> (VirtualCluster \<times> bool \<times> bool) go" where
  "vc_DetachServer t serverID vc =
     (case NodeMap_Load (vcServers vc) serverID of
        None \<Rightarrow> Ret (vc, False, False)
      | Some server \<Rightarrow>
          deref (nParent (node t server)) (\<lambda>leaf.
            let leafHasOtherChild =
                  list_ex (\<lambda>s. nID (node t s) \<noteq> serverID \<and>
                               NodeMap_Load (vcServers vc) (nID (node t s)) \<noteq> None)
                    (nChildren (node t leaf))
            in Ret (vc\<lparr>vcServers := NodeMap_Delete serverID (vcServers vc)\<rparr>,
                    True, \<not> leafHasOtherChild)))"

definition vc_detach_child ::
  "Topology \<Rightarrow> nref \<Rightarrow> VirtualCluster \<times> bool \<times> nref list \<Rightarrow> (VirtualCluster \<times> bool \<times> nref list) go" where
  "vc_detach_child t server st =
     (case st of (vc, isDetached, detachedServers) \<Rightarrow>
       go_bind (vc_DetachServer t (nID (node t server)) vc) (\<lambda>(vc', serverDetached, detachLeaf).
         Ret (vc', isDetached \<or> detachLeaf,
              if serverDetached then detachedServers @ [server] else detachedServers)))"

definition vc_DetachLeaf ::
  "Topology \<Rightarrow> u16 \<Rightarrow> VirtualCluster \<Rightarrow> (VirtualCluster \<times> bool \<times> nref list) go" where
  "vc_DetachLeaf t leafID vc =
     (case NodeMap_Load (vcLeaves vc) leafID of
        None \<Rightarrow> Ret (vc, False, [])
      | Some leaf \<Rightarrow>
          go_bind (go_fold (vc_detach_child t) (nChildren (node t leaf)) (vc, False, []))
            (\<lambda>(vc', isDetached, detachedServers).
              Ret (vc'\<lparr>vcLeaves := NodeMap_Delete (nID (node t leaf)) (vcLeaves vc')\<rparr>,
                   isDetached, detachedServers)))"

section \<open>Invariant\<close>

text \<open>
  The servers and spines of a cluster are registered in the topology, and its leaves are exactly the
  parents of its servers.
\<close>

definition vc_members_ok :: "Topology \<Rightarrow> VirtualCluster \<Rightarrow> bool" where
  "vc_members_ok t vc \<longleftrightarrow>
     gm_wf (vcServers vc) \<and> gm_wf (vcLeaves vc) \<and> gm_wf (vcSpines vc) \<and>
     (\<forall>k r. gm_load (vcServers vc) k = Some r \<longrightarrow> gm_load (tServers t) k = Some r) \<and>
     (\<forall>k p. gm_load (vcSpines vc) k = Some p \<longrightarrow> gm_load (tSpines t) k = Some p)"

definition vc_leaves_ok :: "Topology \<Rightarrow> VirtualCluster \<Rightarrow> bool" where
  "vc_leaves_ok t vc \<longleftrightarrow>
     (\<forall>j l. gm_load (vcLeaves vc) j = Some l \<longleftrightarrow>
        (\<exists>k r. gm_load (vcServers vc) k = Some r \<and> nParent (node t r) = Some l \<and> nID (node t l) = j))"

definition vc_ok :: "Topology \<Rightarrow> VirtualCluster \<Rightarrow> bool" where
  "vc_ok t vc \<longleftrightarrow> vc_members_ok t vc \<and> vc_leaves_ok t vc"

lemma server_leaf:
  assumes "wf_topo t" and "gm_load (tServers t) k = Some r" and "nParent (node t r) = Some l"
  shows "gm_load (tLeaves t) (nID (node t l)) = Some l"
  using wf_server [OF assms(1,2)] assms(3) by (simp add: server_ok_def)

text \<open>Two servers with leaves of the same ID have the same leaf.\<close>

lemma parent_by_id:
  assumes wf: "wf_topo t" and "gm_load (tServers t) k = Some r" "nParent (node t r) = Some l"
    and "gm_load (tServers t) k' = Some r'" "nParent (node t r') = Some l'"
    and "nID (node t l) = nID (node t l')"
  shows "l = l'"
proof -
  have "Some l = Some l'"
    using server_leaf [OF wf assms(2,3)] server_leaf [OF wf assms(4,5)] unfolding assms(6) by metis
  then show ?thesis by blast
qed

lemma wf_server_id: "wf_topo t \<Longrightarrow> gm_load (tServers t) k = Some r \<Longrightarrow> nID (node t r) = k"
  by (drule (1) wf_server) (simp add: server_ok_def)

lemma vc_add_spines_same:
  "vc_add_spines t ids vc = Ret (Inr vc') \<Longrightarrow> vcServers vc' = vcServers vc \<and> vcLeaves vc' = vcLeaves vc \<and>
     vcClusterID vc' = vcClusterID vc \<and> (gm_wf (vcSpines vc) \<longrightarrow> gm_wf (vcSpines vc'))"
  by (induction ids arbitrary: vc) (fastforce simp: returned)+

lemma vc_add_spines_registered:
  assumes wf: "wf_topo t" and "vc_add_spines t ids vc = Ret (Inr vc')"
    and "\<And>k p. gm_load (vcSpines vc) k = Some p \<Longrightarrow> gm_load (tSpines t) k = Some p"
    and "gm_load (vcSpines vc') k = Some p"
  shows "gm_load (tSpines t) k = Some p"
  using assms(2-4)
proof (induction ids arbitrary: vc)
  case (Cons i ids)
  then obtain sp where sp: "gm_load (tSpines t) (ucast i) = Some sp"
    and rest: "vc_add_spines t ids (vc\<lparr>vcSpines := gm_store (nID (node t sp)) sp (vcSpines vc)\<rparr>) = Ret (Inr vc')"
    by (auto simp: returned)
  have "nID (node t sp) = ucast i" using wf_spine [OF wf sp] by (simp add: spine_ok_def)
  then show ?case using Cons.IH [OF rest _ Cons.prems(3)] Cons.prems(2) sp by (auto split: if_splits)
qed simp

lemma vc_add_servers_ok:
  assumes wf: "wf_topo t" and "vc_ok t vc" and "vc_add_servers t cfgs vc = Ret (Inr vc')"
  shows "vc_ok t vc' \<and> vcClusterID vc' = vcClusterID vc \<and>
    (\<forall>k. gm_load (vcServers vc') k \<noteq> None \<longleftrightarrow>
       gm_load (vcServers vc) k \<noteq> None \<or> (\<exists>c \<in> set cfgs. ucast (vsId c) = k))"
  using assms(2,3)
proof (induction cfgs arbitrary: vc)
  case (Cons cfg cfgs)
  let ?k = "ucast (vsId cfg) :: u16"
  from Cons.prems(2) obtain r leaf where r: "gm_load (tServers t) ?k = Some r"
    and leaf: "nParent (node t r) = Some leaf"
    and rest: "vc_add_servers t cfgs (vc\<lparr>vcServers := gm_store (nID (node t r)) r (vcServers vc),
        vcLeaves := gm_store (nID (node t leaf)) leaf (vcLeaves vc)\<rparr>) = Ret (Inr vc')"
    by (auto simp: returned)
  have id: "nID (node t r) = ?k" by (rule wf_server_id [OF wf r])
  let ?vc = "vc\<lparr>vcServers := gm_store ?k r (vcServers vc),
      vcLeaves := gm_store (nID (node t leaf)) leaf (vcLeaves vc)\<rparr>"
  have "vc_members_ok t ?vc" using Cons.prems(1) r by (auto simp: vc_ok_def vc_members_ok_def)
  moreover have "vc_leaves_ok t ?vc"
    unfolding vc_leaves_ok_def
  proof (intro allI iffI)
    fix j l
    have old: "gm_load (vcLeaves vc) j = Some l \<longleftrightarrow> (\<exists>k r. gm_load (vcServers vc) k = Some r \<and>
        nParent (node t r) = Some l \<and> nID (node t l) = j)" for j l
      using Cons.prems(1) by (simp add: vc_ok_def vc_leaves_ok_def)
    have reg: "gm_load (tServers t) k = Some r" if "gm_load (vcServers vc) k = Some r" for k r
      using Cons.prems(1) that by (simp add: vc_ok_def vc_members_ok_def)
    {
      assume "gm_load (vcLeaves ?vc) j = Some l"
      then have cs: "(if j = nID (node t leaf) then Some leaf else gm_load (vcLeaves vc) j) = Some l" by simp
      show "\<exists>k r. gm_load (vcServers ?vc) k = Some r \<and> nParent (node t r) = Some l \<and> nID (node t l) = j"
      proof (cases "j = nID (node t leaf)")
        case True
        with cs leaf show ?thesis by (intro exI [of _ ?k] exI [of _ r]) simp
      next
        case False
        with cs have "gm_load (vcLeaves vc) j = Some l" by simp
        then obtain k' r' where kr: "gm_load (vcServers vc) k' = Some r'" "nParent (node t r') = Some l"
          "nID (node t l) = j" by (auto simp: old)
        show ?thesis
        proof (cases "k' = ?k")
          case True
          with kr(1) reg r have "r' = r" by (metis option.inject)
          with kr leaf \<open>j \<noteq> nID (node t leaf)\<close> show ?thesis by simp
        next
          case False
          with kr show ?thesis by (intro exI [of _ k'] exI [of _ r']) simp
        qed
      qed
    next
      assume "\<exists>k r. gm_load (vcServers ?vc) k = Some r \<and> nParent (node t r) = Some l \<and> nID (node t l) = j"
      then obtain k' r' where kr: "gm_load (vcServers ?vc) k' = Some r'" "nParent (node t r') = Some l"
        "nID (node t l) = j" by blast
      have r': "gm_load (tServers t) k' = Some r'" using kr(1) reg r by (auto split: if_splits)
      show "gm_load (vcLeaves ?vc) j = Some l"
      proof (cases "j = nID (node t leaf)")
        case True
        with parent_by_id [OF wf r' kr(2) r leaf] kr(3) show ?thesis by simp
      next
        case False
        with kr leaf have "gm_load (vcServers vc) k' = Some r'" by (auto split: if_splits)
        with kr False show ?thesis by (auto simp: old)
      qed
    }
  qed
  ultimately have "vc_ok t ?vc" by (simp add: vc_ok_def)
  from Cons.IH [OF this rest [unfolded id]] show ?case by auto
qed auto

lemma NewVC_ok:
  assumes wf: "wf_topo t" and run: "NewVC cfg t = Ret (Inr vc)"
  shows "vc_ok t vc" and "vcClusterID vc = ucast (viId cfg)"
    and "gm_load (vcServers vc) k \<noteq> None \<longleftrightarrow> (\<exists>c \<in> set (viServers cfg). ucast (vsId c) = k)"
proof -
  from run obtain vc1 where spines: "vc_add_spines t (viSpines cfg)
      \<lparr>vcClusterID = ucast (viId cfg), vcSpines = gm_empty, vcLeaves = gm_empty, vcServers = gm_empty\<rparr> = Ret (Inr vc1)"
    and servers: "vc_add_servers t (viServers cfg) vc1 = Ret (Inr vc)"
    by (auto simp: NewVC_def returned)
  note same = vc_add_spines_same [OF spines, simplified]
  then have "vc_ok t vc1" using vc_add_spines_registered [OF wf spines]
    by (simp add: vc_ok_def vc_members_ok_def vc_leaves_ok_def)
  from vc_add_servers_ok [OF wf this servers] same
  show "vc_ok t vc" "vcClusterID vc = ucast (viId cfg)"
    "gm_load (vcServers vc) k \<noteq> None \<longleftrightarrow> (\<exists>c \<in> set (viServers cfg). ucast (vsId c) = k)" by auto
qed

section \<open>What detaching does\<close>

text \<open>Detaching a member reports whether it was the last server of its leaf in the cluster.\<close>

lemma vc_DetachServer_member:
  assumes wf: "wf_topo t" and ok: "vc_members_ok t vc" and k: "gm_load (vcServers vc) k = Some r"
    and l: "nParent (node t r) = Some l"
  shows "vc_DetachServer t k vc = Ret (vc\<lparr>vcServers := gm_delete k (vcServers vc)\<rparr>, True,
    \<not> (\<exists>k' r'. k' \<noteq> k \<and> gm_load (vcServers vc) k' = Some r' \<and> nParent (node t r') = Some l))"
proof -
  have reg: "gm_load (tServers t) j = Some q" if "gm_load (vcServers vc) j = Some q" for j q
    using ok that by (simp add: vc_members_ok_def)
  from wf_parent [OF wf reg [OF k]] l have lf: "gm_load (tLeaves t) (nID (node t l)) = Some l" by auto
  have "list_ex (\<lambda>s. nID (node t s) \<noteq> k \<and> gm_load (vcServers vc) (nID (node t s)) \<noteq> None)
      (nChildren (node t l)) \<longleftrightarrow>
    (\<exists>k' r'. k' \<noteq> k \<and> gm_load (vcServers vc) k' = Some r' \<and> nParent (node t r') = Some l)" (is "?a \<longleftrightarrow> ?b")
  proof
    assume ?a
    then obtain s where s: "s \<in> set (nChildren (node t l))" "nID (node t s) \<noteq> k"
      "gm_load (vcServers vc) (nID (node t s)) \<noteq> None" by (auto simp: list_ex_iff)
    then obtain q where q: "gm_load (vcServers vc) (nID (node t s)) = Some q" by blast
    with reg wf_child(1) [OF wf lf s(1)] have "q = s" by (metis option.inject)
    with q s wf_child(2) [OF wf lf s(1)] show ?b by blast
  next
    assume ?b
    then obtain k' r' where r': "k' \<noteq> k" "gm_load (vcServers vc) k' = Some r'" "nParent (node t r') = Some l"
      by blast
    have "nID (node t r') = k'" by (rule wf_server_id [OF wf reg [OF r'(2)]])
    moreover have "r' \<in> set (nChildren (node t l))"
      using wf_server [OF wf reg [OF r'(2)]] r'(3) by (simp add: server_ok_def)
    ultimately show ?a using r' by (auto simp: list_ex_iff)
  qed
  then show ?thesis by (simp add: vc_DetachServer_def k l Let_def)
qed

lemma vc_DetachServer_other:
  "gm_load (vcServers vc) k = None \<Longrightarrow> vc_DetachServer t k vc = Ret (vc, False, False)"
  by (simp add: vc_DetachServer_def)

text \<open>The loop of \<open>DetachLeaf\<close> takes the listed servers out of the cluster.\<close>

lemma vc_detach_children:
  assumes wf: "wf_topo t" and "vc_members_ok t vc" and "distinct (map (\<lambda>c. nID (node t c)) cs)"
  shows "\<exists>vc' b. go_fold (vc_detach_child t) cs (vc, d, acc) =
      Ret (vc', b, acc @ filter (\<lambda>c. gm_load (vcServers vc) (nID (node t c)) \<noteq> None) cs) \<and>
    vc'\<lparr>vcServers := []\<rparr> = vc\<lparr>vcServers := []\<rparr> \<and> gm_wf (vcServers vc') \<and>
    (\<forall>k. gm_load (vcServers vc') k =
       (if k \<in> (\<lambda>c. nID (node t c)) ` set cs then None else gm_load (vcServers vc) k))"
  using assms(2,3)
proof (induction cs arbitrary: vc d acc)
  case Nil
  then show ?case by (simp add: vc_members_ok_def)
next
  case (Cons c cs)
  let ?k = "nID (node t c)"
  have dist: "distinct (map (\<lambda>c. nID (node t c)) cs)" and kn: "?k \<notin> (\<lambda>c. nID (node t c)) ` set cs"
    using Cons.prems(2) by simp_all
  show ?case
  proof (cases "gm_load (vcServers vc) ?k")
    case None
    from Cons.IH [OF Cons.prems(1) dist, of d acc] obtain vc' b where IH:
      "go_fold (vc_detach_child t) cs (vc, d, acc) =
        Ret (vc', b, acc @ filter (\<lambda>c. gm_load (vcServers vc) (nID (node t c)) \<noteq> None) cs)"
      "vc'\<lparr>vcServers := []\<rparr> = vc\<lparr>vcServers := []\<rparr>" "gm_wf (vcServers vc')"
      "\<forall>k. gm_load (vcServers vc') k =
         (if k \<in> (\<lambda>c. nID (node t c)) ` set cs then None else gm_load (vcServers vc) k)" by blast
    have "go_fold (vc_detach_child t) (c # cs) (vc, d, acc) = go_fold (vc_detach_child t) cs (vc, d, acc)"
      by (simp add: vc_detach_child_def vc_DetachServer_other [OF None])
    moreover have "gm_load (vcServers vc') k =
        (if k \<in> (\<lambda>c. nID (node t c)) ` set (c # cs) then None else gm_load (vcServers vc) k)" for k
      using IH(4) None by simp
    ultimately show ?thesis using IH(1-3) None by (intro exI [of _ vc'] exI [of _ b]) simp
  next
    case (Some r)
    let ?vc = "vc\<lparr>vcServers := gm_delete ?k (vcServers vc)\<rparr>"
    have reg: "gm_load (tServers t) ?k = Some r" using Cons.prems(1) Some by (simp add: vc_members_ok_def)
    from wf_parent [OF wf reg] obtain l where l: "nParent (node t r) = Some l" by blast
    have "\<exists>d'. go_fold (vc_detach_child t) (c # cs) (vc, d, acc) =
        go_fold (vc_detach_child t) cs (?vc, d', acc @ [c])"
      by (simp add: vc_detach_child_def vc_DetachServer_member [OF wf Cons.prems(1) Some l]) blast
    then obtain d' where step: "go_fold (vc_detach_child t) (c # cs) (vc, d, acc) =
        go_fold (vc_detach_child t) cs (?vc, d', acc @ [c])" by blast
    have "vc_members_ok t ?vc" using Cons.prems(1) by (auto simp: vc_members_ok_def)
    from Cons.IH [OF this dist, of d' "acc @ [c]"] obtain vc' b where IH:
      "go_fold (vc_detach_child t) cs (?vc, d', acc @ [c]) =
        Ret (vc', b, (acc @ [c]) @ filter (\<lambda>c. gm_load (vcServers ?vc) (nID (node t c)) \<noteq> None) cs)"
      "vc'\<lparr>vcServers := []\<rparr> = ?vc\<lparr>vcServers := []\<rparr>" "gm_wf (vcServers vc')"
      "\<forall>k. gm_load (vcServers vc') k =
         (if k \<in> (\<lambda>c. nID (node t c)) ` set cs then None else gm_load (vcServers ?vc) k)" by blast
    have "filter (\<lambda>c. gm_load (vcServers ?vc) (nID (node t c)) \<noteq> None) cs =
        filter (\<lambda>c. gm_load (vcServers vc) (nID (node t c)) \<noteq> None) cs"
      using kn by (intro filter_cong) (auto simp: image_iff)
    moreover have "gm_load (vcServers vc') k =
        (if k \<in> (\<lambda>c. nID (node t c)) ` set (c # cs) then None else gm_load (vcServers vc) k)" for k
      using IH(4) by simp
    ultimately show ?thesis
      using IH(1-3) Some step by (intro exI [of _ vc'] exI [of _ b]) simp
  qed
qed

lemma vc_DetachLeaf_member:
  assumes wf: "wf_topo t" and ok: "vc_ok t vc" and j: "gm_load (vcLeaves vc) j = Some l"
  obtains vc' b where "vc_DetachLeaf t j vc =
      Ret (vc', b, filter (\<lambda>c. gm_load (vcServers vc) (nID (node t c)) \<noteq> None) (nChildren (node t l)))"
    and "vc_ok t vc'" and "vcClusterID vc' = vcClusterID vc" and "vcSpines vc' = vcSpines vc"
    and "gm_load (vcLeaves vc') = (gm_load (vcLeaves vc))(j := None)"
    and "\<And>k. gm_load (vcServers vc') k =
      (if k \<in> (\<lambda>c. nID (node t c)) ` set (nChildren (node t l)) then None else gm_load (vcServers vc) k)"
proof -
  have mem: "vc_members_ok t vc" and lv: "vc_leaves_ok t vc" using ok by (simp_all add: vc_ok_def)
  from lv j obtain k0 r0 where r0: "gm_load (vcServers vc) k0 = Some r0" "nParent (node t r0) = Some l"
    "nID (node t l) = j" by (auto simp: vc_leaves_ok_def)
  have reg: "gm_load (tServers t) j = Some q" if "gm_load (vcServers vc) j = Some q" for j q
    using mem that by (simp add: vc_members_ok_def)
  have lf: "gm_load (tLeaves t) j = Some l" using server_leaf [OF wf reg [OF r0(1)] r0(2)] r0(3) by simp
  have "distinct (nChildren (node t l))" using wf_leaf [OF wf lf] by (simp add: leaf_ok_def)
  then have dist: "distinct (map (\<lambda>c. nID (node t c)) (nChildren (node t l)))"
    using wf_child_inj [OF wf lf] by (auto simp: distinct_map inj_on_def)
  from vc_detach_children [OF wf mem dist, of False "[]"] obtain v b where
    run: "go_fold (vc_detach_child t) (nChildren (node t l)) (vc, False, []) =
      Ret (v, b, filter (\<lambda>c. gm_load (vcServers vc) (nID (node t c)) \<noteq> None) (nChildren (node t l)))"
    and v: "v\<lparr>vcServers := []\<rparr> = vc\<lparr>vcServers := []\<rparr>" "gm_wf (vcServers v)"
    and load: "\<And>k. gm_load (vcServers v) k =
       (if k \<in> (\<lambda>c. nID (node t c)) ` set (nChildren (node t l)) then None else gm_load (vcServers vc) k)"
    by auto
  have fields: "vcLeaves v = vcLeaves vc" "vcSpines v = vcSpines vc" "vcClusterID v = vcClusterID vc"
    using v(1) by (cases v; cases vc; simp)+
  let ?vc = "v\<lparr>vcLeaves := gm_delete j (vcLeaves v)\<rparr>"
  have kid: "k \<in> (\<lambda>c. nID (node t c)) ` set (nChildren (node t l)) \<longleftrightarrow> nParent (node t r) = Some l"
    if "gm_load (vcServers vc) k = Some r" for k r
  proof
    assume "nParent (node t r) = Some l"
    then have "r \<in> set (nChildren (node t l))"
      using wf_server [OF wf reg [OF that]] by (simp add: server_ok_def)
    then show "k \<in> (\<lambda>c. nID (node t c)) ` set (nChildren (node t l))"
      using wf_server_id [OF wf reg [OF that]] by force
  next
    assume "k \<in> (\<lambda>c. nID (node t c)) ` set (nChildren (node t l))"
    then obtain c where c: "c \<in> set (nChildren (node t l))" "k = nID (node t c)" by blast
    with wf_child(1,2) [OF wf lf c(1)] reg [OF that] show "nParent (node t r) = Some l" by simp
  qed
  have "vc_members_ok t ?vc"
    using mem v(2) load fields by (auto simp: vc_members_ok_def split: if_splits)
  moreover have "vc_leaves_ok t ?vc"
    unfolding vc_leaves_ok_def
  proof (intro allI)
    fix i m
    have "gm_load (vcLeaves ?vc) i = Some m \<longleftrightarrow> i \<noteq> j \<and> (\<exists>k r. gm_load (vcServers vc) k = Some r \<and>
        nParent (node t r) = Some m \<and> nID (node t m) = i)"
      using lv by (simp add: fields vc_leaves_ok_def)
    also have "\<dots> \<longleftrightarrow> (\<exists>k r. gm_load (vcServers vc) k = Some r \<and> nParent (node t r) = Some m \<and>
        nID (node t m) = i \<and> nParent (node t r) \<noteq> Some l)"
      using parent_by_id [OF wf reg _ reg [OF r0(1)] r0(2)] r0(3) by fastforce
    also have "\<dots> \<longleftrightarrow> (\<exists>k r. gm_load (vcServers ?vc) k = Some r \<and> nParent (node t r) = Some m \<and>
        nID (node t m) = i)"
      using kid by (simp add: load) (metis option.distinct(1))
    finally show "gm_load (vcLeaves ?vc) i = Some m \<longleftrightarrow> (\<exists>k r. gm_load (vcServers ?vc) k = Some r \<and>
        nParent (node t r) = Some m \<and> nID (node t m) = i)" .
  qed
  ultimately have "vc_ok t ?vc" by (simp add: vc_ok_def)
  moreover have "vc_DetachLeaf t j vc = Ret (?vc, b,
      filter (\<lambda>c. gm_load (vcServers vc) (nID (node t c)) \<noteq> None) (nChildren (node t l)))"
    using j run r0(3) by (simp add: vc_DetachLeaf_def)
  ultimately show ?thesis using that [of ?vc b] load by (simp add: fields)
qed

end
