(* ===== verification/VC_Manager.thy ===== *)
theory VC_Manager
  imports Virtual_Cluster
begin

text \<open>
  The manager of all virtual clusters (core/vcManager.go). It keeps the registered clusters by ID and
  two indices: the clusters of every server and of every leaf. Clusters are shared objects: the maps
  and the indices hold pointers to them, positions in the list \<open>vmStore\<close>.
\<close>

section \<open>State\<close>

type_synonym vref = nat
type_synonym vcListMap = "(u16, vref list) gomap"

record VCManager =
  vmStore :: "VirtualCluster list"
  vmVcs :: "(u16, vref) gomap"
  vmServerVCs :: vcListMap
  vmLeafVCs :: vcListMap

definition NewVCManager :: VCManager where
  "NewVCManager = \<lparr>vmStore = [], vmVcs = gm_empty, vmServerVCs = gm_empty, vmLeafVCs = gm_empty\<rparr>"

definition vc_at :: "VCManager \<Rightarrow> vref \<Rightarrow> VirtualCluster" where
  "vc_at m v = vmStore m ! v"

definition upd_vc :: "vref \<Rightarrow> (VirtualCluster \<Rightarrow> VirtualCluster) \<Rightarrow> VCManager \<Rightarrow> VCManager" where
  "upd_vc v f m = m\<lparr>vmStore := (vmStore m)[v := f (vc_at m v)]\<rparr>"

definition new_vc :: "VirtualCluster \<Rightarrow> VCManager \<Rightarrow> vref \<times> VCManager" where
  "new_vc c m = (length (vmStore m), m\<lparr>vmStore := vmStore m @ [c]\<rparr>)"

definition valid_vc :: "VCManager \<Rightarrow> vref \<Rightarrow> bool" where
  "valid_vc m v \<longleftrightarrow> v < length (vmStore m)"

interpretation vs: ref_store vc_at upd_vc new_vc valid_vc
  by unfold_locales
    (auto simp: vc_at_def upd_vc_def new_vc_def valid_vc_def nth_list_update nth_append)

declare vs.valid_upd [simp] vs.get_upd_same [simp] vs.alloc_get [simp]

lemma upd_vc_frame [simp]:
  "vmVcs (upd_vc v f m) = vmVcs m" "vmServerVCs (upd_vc v f m) = vmServerVCs m"
  "vmLeafVCs (upd_vc v f m) = vmLeafVCs m"
  by (simp_all add: upd_vc_def)

lemma new_vc_frame [simp]:
  "vmVcs (snd (new_vc c m)) = vmVcs m" "vmServerVCs (snd (new_vc c m)) = vmServerVCs m"
  "vmLeafVCs (snd (new_vc c m)) = vmLeafVCs m"
  by (simp_all add: new_vc_def)

lemma vc_at_index_update [simp]:
  "vc_at (m\<lparr>vmServerVCs := x\<rparr>) = vc_at m" "vc_at (m\<lparr>vmLeafVCs := x\<rparr>) = vc_at m"
  "vc_at (m\<lparr>vmVcs := y\<rparr>) = vc_at m" "valid_vc (m\<lparr>vmServerVCs := x\<rparr>) = valid_vc m"
  "valid_vc (m\<lparr>vmLeafVCs := x\<rparr>) = valid_vc m" "valid_vc (m\<lparr>vmVcs := y\<rparr>) = valid_vc m"
  by (simp_all add: vc_at_def valid_vc_def fun_eq_iff)

section \<open>The index maps\<close>

definition LoadVCList :: "vcListMap \<Rightarrow> u16 \<Rightarrow> vref list \<times> bool" where
  "LoadVCList rm key = (case gm_load rm key of Some vs \<Rightarrow> (vs, True) | None \<Rightarrow> ([], False))"

definition DeleteVCList :: "u16 \<Rightarrow> vcListMap \<Rightarrow> vcListMap" where
  "DeleteVCList key rm = gm_delete key rm"

definition AppendToVCList :: "u16 \<Rightarrow> vref \<Rightarrow> vcListMap \<Rightarrow> vcListMap" where
  "AppendToVCList key v rm = gm_store key (fst (LoadVCList rm key) @ [v]) rm"

text \<open>The position of the first cluster with the same ID.\<close>

fun find_vc :: "(vref \<Rightarrow> u16) \<Rightarrow> u16 \<Rightarrow> vref list \<Rightarrow> nat option" where
  "find_vc idOf c [] = None"
| "find_vc idOf c (w # ws) = (if idOf w = c then Some 0 else map_option Suc (find_vc idOf c ws))"

definition RemoveFromVCList ::
  "(vref \<Rightarrow> VirtualCluster) \<Rightarrow> u16 \<Rightarrow> vref \<Rightarrow> vcListMap \<Rightarrow> vcListMap" where
  "RemoveFromVCList vcOf key v rm =
     (case gm_load rm key of
        None \<Rightarrow> rm
      | Some vcList \<Rightarrow>
          (case find_vc (\<lambda>w. vcClusterID (vcOf w)) (vcClusterID (vcOf v)) vcList of
             None \<Rightarrow> rm
           | Some vcIdx \<Rightarrow> gm_store key (take vcIdx vcList @ drop (Suc vcIdx) vcList) rm))"

section \<open>The operations\<close>

definition GetVCs :: "order \<Rightarrow> VCManager \<Rightarrow> vref list" where
  "GetVCs ord m = map snd (go_range ord (vmVcs m))"

definition GetVC :: "u16 \<Rightarrow> VCManager \<Rightarrow> vref option" where
  "GetVC clusterID m = vcMap_Load (vmVcs m) clusterID"

definition GetVCsOfServer :: "u16 \<Rightarrow> VCManager \<Rightarrow> vref list \<times> bool" where
  "GetVCsOfServer serverID m = LoadVCList (vmServerVCs m) serverID"

definition GetVCsOfLeaf :: "u16 \<Rightarrow> VCManager \<Rightarrow> vref list \<times> bool" where
  "GetVCsOfLeaf leafID m = LoadVCList (vmLeafVCs m) leafID"

definition AddVC :: "order \<Rightarrow> Topology \<Rightarrow> vref \<Rightarrow> VCManager \<Rightarrow> VCManager \<times> (go_error + bool)" where
  "AddVC ord t v m =
     (case vcMap_Load (vmVcs m) (vcClusterID (vc_at m v)) of
        Some _ \<Rightarrow> (m, Inl (ErrVCExists (vcClusterID (vc_at m v))))
      | None \<Rightarrow>
          (let m1 = m\<lparr>vmVcs := vcMap_Store (vcClusterID (vc_at m v)) v (vmVcs m)\<rparr>;
               m2 = m1\<lparr>vmServerVCs := fold (\<lambda>(_, s). AppendToVCList (nID (node t s)) v)
                      (go_range ord (vcServers (vc_at m v))) (vmServerVCs m1)\<rparr>;
               m3 = m2\<lparr>vmLeafVCs := fold (\<lambda>(_, l). AppendToVCList (nID (node t l)) v)
                      (go_range ord (vcLeaves (vc_at m v))) (vmLeafVCs m2)\<rparr>
           in (m3, Inr True)))"

definition RemoveVC :: "order \<Rightarrow> Topology \<Rightarrow> vref \<Rightarrow> VCManager \<Rightarrow> VCManager \<times> (go_error + bool)" where
  "RemoveVC ord t v m =
     (case vcMap_Load (vmVcs m) (vcClusterID (vc_at m v)) of
        None \<Rightarrow> (m, Inl (ErrVCNotExist (vcClusterID (vc_at m v))))
      | Some _ \<Rightarrow>
          (let m1 = m\<lparr>vmVcs := vcMap_Delete (vcClusterID (vc_at m v)) (vmVcs m)\<rparr>;
               m2 = m1\<lparr>vmServerVCs := fold (\<lambda>(_, s). RemoveFromVCList (vc_at m) (nID (node t s)) v)
                      (go_range ord (vcServers (vc_at m v))) (vmServerVCs m1)\<rparr>;
               m3 = m2\<lparr>vmLeafVCs := fold (\<lambda>(_, l). RemoveFromVCList (vc_at m) (nID (node t l)) v)
                      (go_range ord (vcLeaves (vc_at m v))) (vmLeafVCs m2)\<rparr>
           in (m3, Inr True)))"

text \<open>
  One round of \<open>DetachServer\<close>. The loop state is the manager, the flag \<open>detached\<close> and the flag
  \<open>firstDetach\<close>.
\<close>

definition detach_server_from ::
  "order \<Rightarrow> Topology \<Rightarrow> u16 \<Rightarrow> vref \<Rightarrow> VCManager \<times> bool \<times> bool \<Rightarrow> (VCManager \<times> bool \<times> bool) go" where
  "detach_server_from ord t serverID v st =
     (case st of (m, detached, firstDetach) \<Rightarrow>
       go_bind (vc_DetachServer t serverID (vc_at m v)) (\<lambda>(c, serverDetached, detachLeaf).
         let m1 = upd_vc v (\<lambda>_. c) m;
             detached' = (if \<not> firstDetach then serverDetached else detached \<and> serverDetached)
         in go_bind (GetNode t serverID NodeType_Server) (\<lambda>server.
            go_bind
              (if detachLeaf then
                 deref server (\<lambda>r.
                   case nParent (node t r) of
                     None \<Rightarrow> Ret m1
                   | Some l \<Rightarrow>
                       (let m2 = upd_vc v (\<lambda>c. c\<lparr>vcLeaves := NodeMap_Delete (nID (node t l)) (vcLeaves c)\<rparr>) m1
                        in Ret (m2\<lparr>vmLeafVCs := RemoveFromVCList (vc_at m2) (nID (node t l)) v
                                                  (vmLeafVCs m2)\<rparr>)))
               else Ret m1) (\<lambda>m3.
              let m4 = (if length (vcServers (vc_at m3 v)) = 0 then fst (RemoveVC ord t v m3) else m3)
              in Ret (m4, detached', True)))))"

definition DetachServer :: "order \<Rightarrow> Topology \<Rightarrow> u16 \<Rightarrow> VCManager \<Rightarrow> (VCManager \<times> bool) go" where
  "DetachServer ord t serverID m =
     (case GetVCsOfServer serverID m of (vcs, found) \<Rightarrow>
       go_bind (if found then go_fold (detach_server_from ord t serverID) vcs (m, False, False)
                else Ret (m, False, False)) (\<lambda>(m', detached, _).
         Ret (m'\<lparr>vmServerVCs := DeleteVCList serverID (vmServerVCs m')\<rparr>, found \<and> detached)))"

definition detach_leaf_from ::
  "order \<Rightarrow> Topology \<Rightarrow> u16 \<Rightarrow> vref \<Rightarrow> VCManager \<times> bool \<Rightarrow> (VCManager \<times> bool) go" where
  "detach_leaf_from ord t leafID v st =
     (case st of (m, detached) \<Rightarrow>
       go_bind (vc_DetachLeaf t leafID (vc_at m v)) (\<lambda>(c, leafDetached, detachedServers).
         let m1 = upd_vc v (\<lambda>_. c) m;
             m2 = m1\<lparr>vmServerVCs := fold (\<lambda>srv. RemoveFromVCList (vc_at m1) (nID (node t srv)) v)
                       detachedServers (vmServerVCs m1)\<rparr>;
             m3 = (if length (vcServers (vc_at m2 v)) = 0 then fst (RemoveVC ord t v m2) else m2)
         in Ret (m3, detached \<and> leafDetached)))"

definition DetachLeaf :: "order \<Rightarrow> Topology \<Rightarrow> u16 \<Rightarrow> VCManager \<Rightarrow> (VCManager \<times> bool) go" where
  "DetachLeaf ord t leafID m =
     (case GetVCsOfLeaf leafID m of (vcs, found) \<Rightarrow>
       go_bind (if found then go_fold (detach_leaf_from ord t leafID) vcs (m, True)
                else Ret (m, True)) (\<lambda>(m', detached).
         Ret (m'\<lparr>vmLeafVCs := DeleteVCList leafID (vmLeafVCs m')\<rparr>, found \<or> detached)))"

section \<open>Invariant\<close>

definition registered :: "VCManager \<Rightarrow> vref \<Rightarrow> bool" where
  "registered m v \<longleftrightarrow> gm_load (vmVcs m) (vcClusterID (vc_at m v)) = Some v"

definition listed :: "vcListMap \<Rightarrow> u16 \<Rightarrow> vref list" where
  "listed rm k = fst (LoadVCList rm k)"

text \<open>
  Every registered cluster is filed under its own ID and well-formed, and every index entry lists, once
  each, exactly the registered clusters that contain the server (the leaf). While a server or a leaf is
  being detached, its own entry is out of date: the keys in \<open>K\<close> and \<open>L\<close> are exempt.
\<close>

definition vcs_ok :: "Topology \<Rightarrow> VCManager \<Rightarrow> bool" where
  "vcs_ok t m \<longleftrightarrow> gm_wf (vmVcs m) \<and>
     (\<forall>c v. gm_load (vmVcs m) c = Some v \<longrightarrow>
        valid_vc m v \<and> vcClusterID (vc_at m v) = c \<and> vc_ok t (vc_at m v))"

definition index_ok :: "u16 set \<Rightarrow> VCManager \<Rightarrow> (VirtualCluster \<Rightarrow> NodeMap) \<Rightarrow> vcListMap \<Rightarrow> bool" where
  "index_ok K m members rm \<longleftrightarrow> gm_wf rm \<and>
     (\<forall>k. k \<notin> K \<longrightarrow> distinct (listed rm k) \<and>
        set (listed rm k) = {v. registered m v \<and> gm_load (members (vc_at m v)) k \<noteq> None})"

definition vcm_inv :: "u16 set \<Rightarrow> u16 set \<Rightarrow> Topology \<Rightarrow> VCManager \<Rightarrow> bool" where
  "vcm_inv K L t m \<longleftrightarrow> vcs_ok t m \<and> index_ok K m vcServers (vmServerVCs m) \<and>
     index_ok L m vcLeaves (vmLeafVCs m)"

abbreviation vcm_wf :: "Topology \<Rightarrow> VCManager \<Rightarrow> bool" where
  "vcm_wf t m \<equiv> vcm_inv {} {} t m"

lemma NewVCManager_wf: "vcm_wf t NewVCManager"
  by (simp add: vcm_inv_def vcs_ok_def index_ok_def NewVCManager_def listed_def LoadVCList_def registered_def)

lemma registered_ok:
  assumes "vcs_ok t m" and "registered m v"
  shows "valid_vc m v" and "vc_ok t (vc_at m v)"
  using assms by (auto simp: vcs_ok_def registered_def)

lemma registered_inj:
  "registered m v \<Longrightarrow> registered m w \<Longrightarrow> vcClusterID (vc_at m v) = vcClusterID (vc_at m w) \<Longrightarrow> v = w"
  by (simp add: registered_def)

section \<open>What the index operations do\<close>

lemma listed_simps [simp]:
  "listed (gm_store k vs rm) j = (if j = k then vs else listed rm j)"
  "listed (gm_delete k rm) j = (if j = k then [] else listed rm j)"
  "listed (DeleteVCList k rm) j = (if j = k then [] else listed rm j)"
  "listed (AppendToVCList k v rm) j = (if j = k then listed rm j @ [v] else listed rm j)"
  by (simp_all add: listed_def LoadVCList_def DeleteVCList_def AppendToVCList_def)

lemma index_wf [simp]:
  "gm_wf rm \<Longrightarrow> gm_wf (DeleteVCList k rm)" "gm_wf rm \<Longrightarrow> gm_wf (AppendToVCList k v rm)"
  "gm_wf rm \<Longrightarrow> gm_wf (RemoveFromVCList f k v rm)"
  by (simp_all add: DeleteVCList_def AppendToVCList_def RemoveFromVCList_def split: option.split)

lemma find_vc_None: "find_vc f c vs = None \<longleftrightarrow> (\<forall>w \<in> set vs. f w \<noteq> c)"
  by (induction vs) auto

lemma find_vc_remove:
  assumes "find_vc f c vs = Some i" and "distinct vs" and "\<And>w. w \<in> set vs \<Longrightarrow> f w = c \<longleftrightarrow> w = v"
  shows "take i vs @ drop (Suc i) vs = filter (\<lambda>w. w \<noteq> v) vs"
  using assms
proof (induction vs arbitrary: i)
  case (Cons w vs)
  show ?case
  proof (cases "f w = c")
    case True
    with Cons.prems have "w = v" "i = 0" "v \<notin> set vs" by auto
    then show ?thesis by simp
  next
    case False
    with Cons.prems obtain k where "find_vc f c vs = Some k" "i = Suc k" by auto
    with Cons False show ?thesis by auto
  qed
qed simp

text \<open>Removing a cluster from an entry that lists clusters with distinct IDs.\<close>

lemma listed_remove:
  assumes "distinct (listed rm k)"
    and "\<And>w. w \<in> set (listed rm k) \<Longrightarrow> vcClusterID (f w) = vcClusterID (f v) \<longleftrightarrow> w = v"
  shows "listed (RemoveFromVCList f k v rm) j =
    (if j = k then filter (\<lambda>w. w \<noteq> v) (listed rm k) else listed rm j)"
proof (cases "gm_load rm k")
  case None
  then show ?thesis by (auto simp: RemoveFromVCList_def listed_def LoadVCList_def)
next
  case (Some vs)
  then have vs: "listed rm k = vs" by (simp add: listed_def LoadVCList_def)
  show ?thesis
  proof (cases "find_vc (\<lambda>w. vcClusterID (f w)) (vcClusterID (f v)) vs")
    case None
    then have "v \<notin> set vs" by (auto simp: find_vc_None)
    with None Some vs show ?thesis by (auto simp: RemoveFromVCList_def)
  next
    case (Some i)
    with find_vc_remove [OF this] assms vs \<open>gm_load rm k = Some vs\<close> show ?thesis
      by (simp add: RemoveFromVCList_def)
  qed
qed

lemma listed_remove_all:
  assumes "\<And>k. k \<in> set ks \<Longrightarrow> distinct (listed rm k)"
    and "\<And>k w. k \<in> set ks \<Longrightarrow> w \<in> set (listed rm k) \<Longrightarrow>
      vcClusterID (f w) = vcClusterID (f v) \<longleftrightarrow> w = v"
  shows "listed (fold (\<lambda>k. RemoveFromVCList f k v) ks rm) j =
    (if j \<in> set ks then filter (\<lambda>w. w \<noteq> v) (listed rm j) else listed rm j)"
  using assms
proof (induction ks arbitrary: rm)
  case (Cons k ks)
  let ?rm = "RemoveFromVCList f k v rm"
  have step: "listed ?rm i = (if i = k then filter (\<lambda>w. w \<noteq> v) (listed rm k) else listed rm i)" for i
    by (rule listed_remove) (use Cons.prems in auto)
  have "distinct (listed ?rm i)" if "i \<in> set ks" for i using Cons.prems(1) that by (simp add: step)
  moreover have "vcClusterID (f w) = vcClusterID (f v) \<longleftrightarrow> w = v"
    if "i \<in> set ks" "w \<in> set (listed ?rm i)" for i w
    using that Cons.prems(2) by (auto simp: step split: if_splits)
  ultimately show ?case using Cons.IH [of ?rm] by (simp add: step)
qed simp

lemma fold_remove_wf: "gm_wf rm \<Longrightarrow> gm_wf (fold (\<lambda>k. RemoveFromVCList f k v) ks rm)"
  by (rule fold_inv) simp_all

lemma listed_append_all:
  assumes "distinct ks"
  shows "listed (fold (\<lambda>k. AppendToVCList k v) ks rm) j =
    (if j \<in> set ks then listed rm j @ [v] else listed rm j)"
  using assms by (induction ks arbitrary: rm) auto

lemma fold_append_wf: "gm_wf rm \<Longrightarrow> gm_wf (fold (\<lambda>k. AppendToVCList k v) ks rm)"
  by (rule fold_inv) simp_all

section \<open>Registration\<close>

text \<open>Under the invariant the loops over the members of a cluster visit its keys.\<close>

lemma member_keys:
  assumes wf: "wf_topo t" and ok: "vc_ok t c" and ord: "is_order ord"
  shows "map (\<lambda>(_, s). nID (node t s)) (go_range ord (vcServers c)) = map fst (go_range ord (vcServers c))"
    and "map (\<lambda>(_, l). nID (node t l)) (go_range ord (vcLeaves c)) = map fst (go_range ord (vcLeaves c))"
    and "set (map fst (go_range ord (vcServers c))) = {k. gm_load (vcServers c) k \<noteq> None}"
    and "set (map fst (go_range ord (vcLeaves c))) = {k. gm_load (vcLeaves c) k \<noteq> None}"
    and "distinct (map fst (go_range ord (vcServers c)))" "distinct (map fst (go_range ord (vcLeaves c)))"
proof -
  have w: "gm_wf (vcServers c)" "gm_wf (vcLeaves c)" using ok by (simp_all add: vc_ok_def vc_members_ok_def)
  have s: "nID (node t s) = k" if "(k, s) \<in> set (go_range ord (vcServers c))" for k s
    using that ok ord w(1) by (auto simp: vc_ok_def vc_members_ok_def gm_load_iff [symmetric]
        intro: wf_server_id [OF wf])
  have l: "nID (node t l) = k" if "(k, l) \<in> set (go_range ord (vcLeaves c))" for k l
  proof -
    have "gm_load (vcLeaves c) k = Some l" using that ord w(2) by (simp add: gm_load_iff)
    with ok show ?thesis by (auto simp: vc_ok_def vc_leaves_ok_def)
  qed
  show "map (\<lambda>(_, s). nID (node t s)) (go_range ord (vcServers c)) = map fst (go_range ord (vcServers c))"
    "map (\<lambda>(_, l). nID (node t l)) (go_range ord (vcLeaves c)) = map fst (go_range ord (vcLeaves c))"
    using s l by auto
  show "set (map fst (go_range ord (vcServers c))) = {k. gm_load (vcServers c) k \<noteq> None}"
    "set (map fst (go_range ord (vcLeaves c))) = {k. gm_load (vcLeaves c) k \<noteq> None}"
    using ord gm_load_dom by force+
  show "distinct (map fst (go_range ord (vcServers c)))" "distinct (map fst (go_range ord (vcLeaves c)))"
    using ord w by simp_all
qed

lemma fold_pairs: "fold (\<lambda>(_, s). F (g s)) xs a = fold F (map (\<lambda>(_, s). g s) xs) a"
  by (induction xs arbitrary: a) auto

text \<open>A cluster whose entry has been removed is found in no entry of the index any more.\<close>

lemma index_unregister:
  assumes idx: "index_ok K m members rm" and reg: "registered m v"
    and keys: "set ks = {k. gm_load (members (vc_at m v)) k \<noteq> None}" and disj: "K \<inter> set ks = {}"
    and vcs: "vmVcs m' = gm_delete (vcClusterID (vc_at m v)) (vmVcs m)" "vc_at m' = vc_at m"
  defines "rm' \<equiv> fold (\<lambda>k. RemoveFromVCList (vc_at m) k v) ks rm"
  shows "index_ok K m' members rm'"
    and "\<And>j. listed rm' j = (if j \<in> set ks then filter (\<lambda>w. w \<noteq> v) (listed rm j) else listed rm j)"
proof -
  have reg': "registered m' w \<longleftrightarrow> registered m w \<and> w \<noteq> v" for w
    using reg by (auto simp: registered_def vcs)
  have in_reg: "distinct (listed rm k)" "w \<in> set (listed rm k) \<Longrightarrow> registered m w" if "k \<in> set ks" for k w
    using idx disj that by (auto simp: index_ok_def)
  show lst: "listed rm' j = (if j \<in> set ks then filter (\<lambda>w. w \<noteq> v) (listed rm j) else listed rm j)" for j
    unfolding rm'_def
  proof (rule listed_remove_all)
    show "vcClusterID (vc_at m w) = vcClusterID (vc_at m v) \<longleftrightarrow> w = v"
      if "k \<in> set ks" "w \<in> set (listed rm k)" for k w
      using registered_inj [OF in_reg(2) [OF that] reg] by auto
  qed (rule in_reg(1))
  show "index_ok K m' members rm'"
    unfolding index_ok_def lst
  proof (intro conjI allI impI)
    show "gm_wf rm'" unfolding rm'_def
      using idx by (intro fold_remove_wf) (simp add: index_ok_def)
    fix j assume j: "j \<notin> K"
    show "distinct (if j \<in> set ks then filter (\<lambda>w. w \<noteq> v) (listed rm j) else listed rm j)"
      using idx j by (simp add: index_ok_def)
    have "set (listed rm j) = {w. registered m w \<and> gm_load (members (vc_at m w)) j \<noteq> None}"
      using idx j by (simp add: index_ok_def)
    then show "set (if j \<in> set ks then filter (\<lambda>w. w \<noteq> v) (listed rm j) else listed rm j) =
        {w. registered m' w \<and> gm_load (members (vc_at m' w)) j \<noteq> None}"
      using keys by (auto simp: reg' vcs)
  qed
qed

text \<open>The cluster must not contain the server or leaf whose entry is out of date.\<close>

lemma RemoveVC_inv:
  assumes wf: "wf_topo t" and ord: "is_order ord" and inv: "vcm_inv K L t m" and reg: "registered m v"
    and disj: "\<And>k. k \<in> K \<Longrightarrow> gm_load (vcServers (vc_at m v)) k = None"
      "\<And>k. k \<in> L \<Longrightarrow> gm_load (vcLeaves (vc_at m v)) k = None"
  defines "m' \<equiv> fst (RemoveVC ord t v m)"
  shows "vcm_inv K L t m'" and "vc_at m' = vc_at m" and "valid_vc m' = valid_vc m"
    and "registered m' w \<longleftrightarrow> registered m w \<and> w \<noteq> v"
    and "snd (RemoveVC ord t v m) = Inr True"
    and "vmVcs m' = gm_delete (vcClusterID (vc_at m v)) (vmVcs m)"
    and "k \<in> K \<Longrightarrow> listed (vmServerVCs m') k = listed (vmServerVCs m) k"
    and "k \<in> L \<Longrightarrow> listed (vmLeafVCs m') k = listed (vmLeafVCs m) k"
proof -
  have ok: "vcs_ok t m" and idx: "index_ok K m vcServers (vmServerVCs m)" "index_ok L m vcLeaves (vmLeafVCs m)"
    using inv by (simp_all add: vcm_inv_def)
  let ?c = "vc_at m v"
  have c: "vc_ok t ?c" by (rule registered_ok [OF ok reg])
  note keys = member_keys [OF wf c ord]
  let ?ks = "map fst (go_range ord (vcServers ?c))" and ?ls = "map fst (go_range ord (vcLeaves ?c))"
  have m': "m' = m\<lparr>vmVcs := gm_delete (vcClusterID ?c) (vmVcs m),
      vmServerVCs := fold (\<lambda>k. RemoveFromVCList (vc_at m) k v) ?ks (vmServerVCs m),
      vmLeafVCs := fold (\<lambda>k. RemoveFromVCList (vc_at m) k v) ?ls (vmLeafVCs m)\<rparr>"
    and res: "snd (RemoveVC ord t v m) = Inr True"
    using reg by (simp_all add: m'_def RemoveVC_def registered_def Let_def keys(1,2)
        fold_pairs [where F = "\<lambda>k. RemoveFromVCList (vc_at m) k v"])
  show "snd (RemoveVC ord t v m) = Inr True" by (rule res)
  show at: "vc_at m' = vc_at m" and val: "valid_vc m' = valid_vc m" by (simp_all add: m' vc_at_def valid_vc_def fun_eq_iff)
  show vcs: "vmVcs m' = gm_delete (vcClusterID ?c) (vmVcs m)" by (simp add: m')
  show "registered m' w \<longleftrightarrow> registered m w \<and> w \<noteq> v" for w
    using reg by (auto simp: registered_def vcs at)
  have d: "K \<inter> set ?ks = {}" "L \<inter> set ?ls = {}" unfolding keys using disj by auto
  note S = index_unregister [OF idx(1) reg keys(3) d(1) vcs at]
    and T = index_unregister [OF idx(2) reg keys(4) d(2) vcs at]
  have "vcs_ok t m'" using ok by (auto simp: vcs_ok_def vcs at val split: if_splits)
  then show "vcm_inv K L t m'" using S(1) T(1) by (simp add: vcm_inv_def m')
  show "listed (vmServerVCs m') k = listed (vmServerVCs m) k" if "k \<in> K"
    using S(2) [of k] d(1) that by (auto simp: m')
  show "listed (vmLeafVCs m') k = listed (vmLeafVCs m) k" if "k \<in> L"
    using T(2) [of k] d(2) that by (auto simp: m')
qed

text \<open>Registering a new object under a free ID.\<close>

lemma AddVC_inv:
  assumes wf: "wf_topo t" and ord: "is_order ord" and inv: "vcm_wf t m" and v: "valid_vc m v"
    and c: "vc_ok t (vc_at m v)" and free: "gm_load (vmVcs m) (vcClusterID (vc_at m v)) = None"
    and fresh: "\<not> (\<exists>c. gm_load (vmVcs m) c = Some v)"
  defines "m' \<equiv> fst (AddVC ord t v m)"
  shows "vcm_wf t m'" and "vc_at m' = vc_at m" and "snd (AddVC ord t v m) = Inr True"
    and "vmVcs m' = gm_store (vcClusterID (vc_at m v)) v (vmVcs m)"
proof -
  let ?c = "vc_at m v"
  have ok: "vcs_ok t m" and idx: "index_ok {} m vcServers (vmServerVCs m)" "index_ok {} m vcLeaves (vmLeafVCs m)"
    using inv by (simp_all add: vcm_inv_def)
  note keys = member_keys [OF wf c ord]
  let ?ks = "map fst (go_range ord (vcServers ?c))" and ?ls = "map fst (go_range ord (vcLeaves ?c))"
  have m': "m' = m\<lparr>vmVcs := gm_store (vcClusterID ?c) v (vmVcs m),
      vmServerVCs := fold (\<lambda>k. AppendToVCList k v) ?ks (vmServerVCs m),
      vmLeafVCs := fold (\<lambda>k. AppendToVCList k v) ?ls (vmLeafVCs m)\<rparr>"
    and res: "snd (AddVC ord t v m) = Inr True"
    using free by (simp_all add: m'_def AddVC_def Let_def keys(1,2)
        fold_pairs [where F = "\<lambda>k. AppendToVCList k v"])
  show "snd (AddVC ord t v m) = Inr True" by (rule res)
  show at: "vc_at m' = vc_at m" by (simp add: m' vc_at_def fun_eq_iff)
  show vcs: "vmVcs m' = gm_store (vcClusterID ?c) v (vmVcs m)" by (simp add: m')
  have val: "valid_vc m' = valid_vc m" by (simp add: m' valid_vc_def fun_eq_iff)
  have nv: "\<not> registered m v" using free by (simp add: registered_def)
  have reg': "registered m' w \<longleftrightarrow> registered m w \<or> w = v" for w
    using free by (auto simp: registered_def vcs at)
  have "vcs_ok t m'" using ok v c by (auto simp: vcs_ok_def vcs at val split: if_splits)
  moreover have "index_ok {} m' members (fold (\<lambda>k. AppendToVCList k v) ks rm)"
    if old: "index_ok {} m members rm" and ks: "set ks = {k. gm_load (members ?c) k \<noteq> None}" "distinct ks"
    for members ks rm
    unfolding index_ok_def listed_append_all [OF ks(2)]
  proof (intro conjI allI impI)
    show "gm_wf (fold (\<lambda>k. AppendToVCList k v) ks rm)"
      using old by (intro fold_append_wf) (simp add: index_ok_def)
    fix j
    have l: "distinct (listed rm j)" "set (listed rm j) = {w. registered m w \<and> gm_load (members (vc_at m w)) j \<noteq> None}"
      using old by (simp_all add: index_ok_def)
    then show "distinct (if j \<in> set ks then listed rm j @ [v] else listed rm j)" using nv by simp
    show "set (if j \<in> set ks then listed rm j @ [v] else listed rm j) =
        {w. registered m' w \<and> gm_load (members (vc_at m' w)) j \<noteq> None}"
      using l(2) ks(1) by (auto simp: reg' at)
  qed
  ultimately show "vcm_wf t m'"
    using idx keys(3-6) by (simp add: vcm_inv_def m')
qed

section \<open>Detaching a server\<close>

lemma vcm_inv_weaken: "vcm_inv K L t m \<Longrightarrow> K \<subseteq> K' \<Longrightarrow> L \<subseteq> L' \<Longrightarrow> vcm_inv K' L' t m"
  by (auto simp: vcm_inv_def index_ok_def)

text \<open>Replacing the object of a registered cluster by a well-formed one with the same ID.\<close>

lemma replace_vc:
  assumes ok: "vcs_ok t m" and reg: "registered m v" and c: "vc_ok t c"
    and id: "vcClusterID c = vcClusterID (vc_at m v)"
  defines "m' \<equiv> upd_vc v (\<lambda>_. c) m"
  shows "vcs_ok t m'" and "registered m' w \<longleftrightarrow> registered m w" and "vc_at m' v = c"
    and "w \<noteq> v \<Longrightarrow> vc_at m' w = vc_at m w" and "valid_vc m' w = valid_vc m w"
proof -
  have v: "valid_vc m v" by (rule registered_ok [OF ok reg])
  have at: "vc_at m' w = (if w = v then c else vc_at m w)" for w
    using v by (simp add: m'_def vs.get_upd)
  show "vc_at m' v = c" "w \<noteq> v \<Longrightarrow> vc_at m' w = vc_at m w" by (simp_all add: at)
  show val: "valid_vc m' w = valid_vc m w" for w by (simp add: m'_def)
  show "registered m' w \<longleftrightarrow> registered m w"
    using id v by (cases "w = v") (simp_all add: registered_def m'_def vs.get_upd)
  show "vcs_ok t m'"
    unfolding vcs_ok_def
  proof (intro conjI allI impI)
    show "gm_wf (vmVcs m')" using ok by (simp add: vcs_ok_def m'_def)
    fix i w assume "gm_load (vmVcs m') i = Some w"
    then have "gm_load (vmVcs m) i = Some w" by (simp add: m'_def)
    with ok have "valid_vc m w" "vcClusterID (vc_at m w) = i" "vc_ok t (vc_at m w)" by (simp_all add: vcs_ok_def)
    with c id show "valid_vc m' w" "vcClusterID (vc_at m' w) = i" "vc_ok t (vc_at m' w)"
      by (auto simp: val at)
  qed
qed

lemma index_ok_replace:
  assumes "index_ok K m members rm" and "\<And>w. registered m' w \<longleftrightarrow> registered m w"
    and "\<And>k w. k \<notin> K \<Longrightarrow> registered m w \<Longrightarrow>
      gm_load (members (vc_at m' w)) k = None \<longleftrightarrow> gm_load (members (vc_at m w)) k = None"
  shows "index_ok K m' members rm"
proof -
  have "{v. registered m' v \<and> gm_load (members (vc_at m' v)) k \<noteq> None} =
      {v. registered m v \<and> gm_load (members (vc_at m v)) k \<noteq> None}" if k: "k \<notin> K" for k
  proof (rule Collect_cong)
    fix v
    show "registered m' v \<and> gm_load (members (vc_at m' v)) k \<noteq> None \<longleftrightarrow>
        registered m v \<and> gm_load (members (vc_at m v)) k \<noteq> None"
      unfolding assms(2) [of v]
      by (cases "registered m v") (simp_all only: assms(3) [OF k] simp_thms)
  qed
  note same = this
  show ?thesis
    unfolding index_ok_def
  proof (intro conjI allI impI)
    fix k assume "k \<notin> K"
    then show "distinct (listed rm k)"
      "set (listed rm k) = {v. registered m' v \<and> gm_load (members (vc_at m' v)) k \<noteq> None}"
      using assms(1) same unfolding index_ok_def by blast+
  qed (use assms(1) in \<open>simp add: index_ok_def\<close>)
qed

definition server_gone :: "u16 \<Rightarrow> vref \<Rightarrow> VCManager \<Rightarrow> VCManager \<Rightarrow> bool" where
  "server_gone k v m m' \<longleftrightarrow>
     gm_load (vcServers (vc_at m' v)) k = None \<and> (\<forall>w. w \<noteq> v \<longrightarrow> vc_at m' w = vc_at m w) \<and>
     (\<forall>w. w \<noteq> v \<longrightarrow> (registered m' w \<longleftrightarrow> registered m w)) \<and>
     listed (vmServerVCs m') k = listed (vmServerVCs m) k \<and>
     (\<forall>j. gm_load (vcServers (vc_at m' v)) j = (if j = k then None else gm_load (vcServers (vc_at m v)) j)) \<and>
     (registered m' v \<longleftrightarrow> (\<exists>j. j \<noteq> k \<and> gm_load (vcServers (vc_at m v)) j \<noteq> None))"

lemma empty_or_remove:
  assumes wf: "wf_topo t" and ord: "is_order ord" and inv: "vcm_inv K L t m" and reg: "registered m v"
    and disj: "\<And>k. k \<in> K \<Longrightarrow> gm_load (vcServers (vc_at m v)) k = None"
      "\<And>k. k \<in> L \<Longrightarrow> gm_load (vcLeaves (vc_at m v)) k = None"
  defines "m' \<equiv> (if length (vcServers (vc_at m v)) = 0 then fst (RemoveVC ord t v m) else m)"
  shows "vcm_inv K L t m'" and "vc_at m' = vc_at m"
    and "registered m' w \<longleftrightarrow> registered m w \<and> (w = v \<longrightarrow> (\<exists>j. gm_load (vcServers (vc_at m v)) j \<noteq> None))"
    and "k \<in> K \<Longrightarrow> listed (vmServerVCs m') k = listed (vmServerVCs m) k"
    and "k \<in> L \<Longrightarrow> listed (vmLeafVCs m') k = listed (vmLeafVCs m) k"
  using RemoveVC_inv [OF wf ord inv reg disj] inv gm_empty_iff [of "vcServers (vc_at m v)"]
  by (auto simp: m'_def)

lemma detach_server_step:
  assumes wf: "wf_topo t" and ord: "is_order ord" and inv: "vcm_inv {k} {} t m" and reg: "registered m v"
    and member: "gm_load (vcServers (vc_at m v)) k = Some r"
  shows "\<exists>m'. detach_server_from ord t k v (m, d, f) = Ret (m', \<not> f \<or> d, True) \<and>
    vcm_inv {k} {} t m' \<and> server_gone k v m m'"
proof -
  let ?c = "vc_at m v"
  have ok: "vcs_ok t m" and idx: "index_ok {k} m vcServers (vmServerVCs m)" "index_ok {} m vcLeaves (vmLeafVCs m)"
    using inv by (simp_all add: vcm_inv_def)
  have c: "vc_ok t ?c" by (rule registered_ok [OF ok reg])
  then have mem: "vc_members_ok t ?c" and lv: "vc_leaves_ok t ?c" by (simp_all add: vc_ok_def)
  have rk: "gm_load (tServers t) k = Some r" using mem member by (simp add: vc_members_ok_def)
  from wf_parent [OF wf rk] obtain l where l: "nParent (node t r) = Some l" by blast
  define lone where "lone \<longleftrightarrow>
    \<not> (\<exists>k' r'. k' \<noteq> k \<and> gm_load (vcServers ?c) k' = Some r' \<and> nParent (node t r') = Some l)"
  let ?j = "nID (node t l)"
  let ?c1 = "?c\<lparr>vcServers := gm_delete k (vcServers ?c)\<rparr>"
  let ?c2 = "(if lone then ?c1\<lparr>vcLeaves := gm_delete ?j (vcLeaves ?c)\<rparr> else ?c1)"
  let ?m2 = "upd_vc v (\<lambda>_. ?c2) m"
  let ?m3 = "(if lone then ?m2\<lparr>vmLeafVCs := RemoveFromVCList (vc_at ?m2) ?j v (vmLeafVCs m)\<rparr> else ?m2)"
  let ?m4 = "(if length (vcServers (vc_at ?m3 v)) = 0 then fst (RemoveVC ord t v ?m3) else ?m3)"
  have v: "valid_vc m v" by (rule registered_ok [OF ok reg])
  have twice: "upd_vc v (\<lambda>c. c\<lparr>vcLeaves := gm_delete ?j (vcLeaves c)\<rparr>) (upd_vc v (\<lambda>_. ?c1) m) =
      upd_vc v (\<lambda>_. ?c1\<lparr>vcLeaves := gm_delete ?j (vcLeaves ?c)\<rparr>) m"
    using v by (simp add: upd_vc_def vc_at_def valid_vc_def)
  have run: "detach_server_from ord t k v (m, d, f) = Ret (?m4, \<not> f \<or> d, True)"
    by (simp add: detach_server_from_def vc_DetachServer_member [OF wf mem member l, folded lone_def]
        Let_def rk l twice)
  have c2: "vc_ok t ?c2"
  proof -
    have "vc_members_ok t ?c2" using mem by (auto simp: vc_members_ok_def)
    moreover have "vc_leaves_ok t ?c2"
      unfolding vc_leaves_ok_def
    proof (intro allI)
      fix i q
      have old: "gm_load (vcLeaves ?c) i = Some q \<longleftrightarrow> (\<exists>k r. gm_load (vcServers ?c) k = Some r \<and>
          nParent (node t r) = Some q \<and> nID (node t q) = i)"
        using lv by (simp add: vc_leaves_ok_def)
      have regs: "gm_load (tServers t) k' = Some r'" if "gm_load (vcServers ?c) k' = Some r'" for k' r'
        using mem that by (simp add: vc_members_ok_def)
      have same: "q = l" if "gm_load (vcServers ?c) k' = Some r'" "nParent (node t r') = Some q"
          "nID (node t q) = ?j" for k' r'
        using parent_by_id [OF wf regs [OF that(1)] that(2) rk l that(3)] .
      show "gm_load (vcLeaves ?c2) i = Some q \<longleftrightarrow> (\<exists>k r. gm_load (vcServers ?c2) k = Some r \<and>
          nParent (node t r) = Some q \<and> nID (node t q) = i)"
      proof (cases lone)
        case True
        have "gm_load (vcLeaves ?c2) i = Some q \<longleftrightarrow> i \<noteq> ?j \<and> (\<exists>k r. gm_load (vcServers ?c) k = Some r \<and>
          nParent (node t r) = Some q \<and> nID (node t q) = i)" using True old by simp
        also have "\<dots> \<longleftrightarrow> (\<exists>k' r. k' \<noteq> k \<and> gm_load (vcServers ?c) k' = Some r \<and>
          nParent (node t r) = Some q \<and> nID (node t q) = i)"
          using True [unfolded lone_def] same member l by (metis option.inject)
        finally show ?thesis using True by (simp cong: conj_cong)
      next
        case False
        then obtain k' r' where other: "k' \<noteq> k" "gm_load (vcServers ?c) k' = Some r'"
          "nParent (node t r') = Some l" unfolding lone_def by blast
        have "(\<exists>k r. gm_load (vcServers ?c) k = Some r \<and> nParent (node t r) = Some q \<and> nID (node t q) = i) \<longleftrightarrow>
          (\<exists>k' r. k' \<noteq> k \<and> gm_load (vcServers ?c) k' = Some r \<and> nParent (node t r) = Some q \<and> nID (node t q) = i)"
          using other member l by (metis option.inject)
        with old False show ?thesis by (simp cong: conj_cong)
      qed
    qed
    ultimately show ?thesis by (simp add: vc_ok_def)
  qed
  have id2: "vcClusterID ?c2 = vcClusterID ?c" by simp
  note rep = replace_vc [OF ok reg c2 id2]
  have at3: "vc_at ?m3 = vc_at ?m2" by simp
  have vcs3: "vmVcs ?m3 = vmVcs ?m2" by simp
  have reg3: "registered ?m3 w \<longleftrightarrow> registered m w" for w
    using rep(2) [of w] unfolding registered_def at3 vcs3 .
  have val3: "valid_vc ?m3 = valid_vc ?m2" by simp
  have "vcs_ok t ?m3" using rep(1) unfolding vcs_ok_def at3 vcs3 val3 .
  moreover have "index_ok {k} ?m3 vcServers (vmServerVCs ?m3)"
  proof -
    have "vmServerVCs ?m3 = vmServerVCs m" by simp
    moreover have "index_ok {k} ?m3 vcServers (vmServerVCs m)"
      by (rule index_ok_replace [OF idx(1) reg3]) (simp only: at3, simp add: vs.get_upd v)
    ultimately show ?thesis by simp
  qed
  moreover have "index_ok {} ?m3 vcLeaves (vmLeafVCs ?m3)"
  proof (cases lone)
    case False
    then have "vmLeafVCs ?m3 = vmLeafVCs m" by simp
    moreover have "index_ok {} ?m3 vcLeaves (vmLeafVCs m)"
      by (rule index_ok_replace [OF idx(2) reg3]) (use False in \<open>simp only: at3, simp add: vs.get_upd v\<close>)
    ultimately show ?thesis by simp
  next
    case True
    have lst: "distinct (listed (vmLeafVCs m) i)"
      "set (listed (vmLeafVCs m) i) = {w. registered m w \<and> gm_load (vcLeaves (vc_at m w)) i \<noteq> None}" for i
      using idx(2) by (simp_all add: index_ok_def)
    have rem: "listed (RemoveFromVCList (vc_at ?m2) ?j v (vmLeafVCs m)) i =
        (if i = ?j then filter (\<lambda>w. w \<noteq> v) (listed (vmLeafVCs m) ?j) else listed (vmLeafVCs m) i)" for i
    proof (rule listed_remove [OF lst(1)])
      fix w assume "w \<in> set (listed (vmLeafVCs m) ?j)"
      then have "registered ?m2 w" "registered ?m2 v" using lst(2) rep(2) reg by auto
      then show "vcClusterID (vc_at ?m2 w) = vcClusterID (vc_at ?m2 v) \<longleftrightarrow> w = v"
        using registered_inj by blast
    qed
    have at: "vc_at ?m3 w = (if w = v then ?c1\<lparr>vcLeaves := gm_delete ?j (vcLeaves ?c)\<rparr> else vc_at m w)" for w
      unfolding at3 using True v by (simp add: vs.get_upd)
    show ?thesis
      unfolding index_ok_def
    proof (intro conjI allI impI)
      show "gm_wf (vmLeafVCs ?m3)" using idx(2) True by (simp add: index_ok_def)
      fix i
      have m3l: "listed (vmLeafVCs ?m3) i = (if i = ?j then filter (\<lambda>w. w \<noteq> v) (listed (vmLeafVCs m) ?j)
          else listed (vmLeafVCs m) i)" using True rem [of i] by simp
      show "distinct (listed (vmLeafVCs ?m3) i)" unfolding m3l using lst(1) by simp
      show "set (listed (vmLeafVCs ?m3) i) = {w. registered ?m3 w \<and> gm_load (vcLeaves (vc_at ?m3 w)) i \<noteq> None}"
        unfolding m3l reg3 at using lst(2) by auto
    qed
  qed
  ultimately have inv3: "vcm_inv {k} {} t ?m3" by (simp only: vcm_inv_def)
  have c3: "vcServers (vc_at ?m3 v) = gm_delete k (vcServers ?c)" unfolding at3 using v by simp
  have "registered ?m3 v" using reg3 reg by blast
  note emp = empty_or_remove [OF wf ord inv3 this]
  have d1: "\<And>i. i \<in> {k} \<Longrightarrow> gm_load (vcServers (vc_at ?m3 v)) i = None" unfolding c3 by simp
  have d2: "\<And>i. i \<in> {} \<Longrightarrow> gm_load (vcLeaves (vc_at ?m3 v)) i = None" by simp
  have inv4: "vcm_inv {k} {} t ?m4" by (rule emp(1) [OF d1 d2])
  have at4: "vc_at ?m4 = vc_at ?m3" by (rule emp(2) [OF d1 d2])
  have reg4: "registered ?m4 w \<longleftrightarrow> registered m w \<and>
      (w = v \<longrightarrow> (\<exists>j. gm_load (vcServers (vc_at ?m3 v)) j \<noteq> None))" for w
    using emp(3) [OF d1 d2, of w] reg3 [of w] by blast
  have lst4: "listed (vmServerVCs ?m4) k = listed (vmServerVCs ?m3) k" by (rule emp(4) [OF d1 d2 singletonI])
  define m4 where "m4 = ?m4"
  note at4 = at4 [folded m4_def] and reg4 = reg4 [folded m4_def] and lst4 = lst4 [folded m4_def]
  have c4: "vcServers (vc_at m4 v) = gm_delete k (vcServers ?c)" unfolding at4 by (rule c3)
  have r4: "registered m4 w \<longleftrightarrow> registered m w \<and> (w = v \<longrightarrow> (\<exists>j. j \<noteq> k \<and> gm_load (vcServers ?c) j \<noteq> None))" for w
    unfolding reg4 c3 by auto
  have "server_gone k v m m4"
    unfolding server_gone_def
  proof (intro conjI allI impI)
    show "gm_load (vcServers (vc_at m4 v)) k = None" unfolding c4 by simp
    show "vc_at m4 w = vc_at m w" if "w \<noteq> v" for w
      unfolding at4 at3 using that v by (simp add: vs.get_upd)
    show "registered m4 w \<longleftrightarrow> registered m w" if "w \<noteq> v" for w using r4 [of w] that by blast
    show "listed (vmServerVCs m4) k = listed (vmServerVCs m) k" unfolding lst4 by simp
    show "gm_load (vcServers (vc_at m4 v)) j = (if j = k then None else gm_load (vcServers ?c) j)" for j
      unfolding c4 by simp
    show "registered m4 v \<longleftrightarrow> (\<exists>j. j \<noteq> k \<and> gm_load (vcServers ?c) j \<noteq> None)"
      unfolding r4 using reg by blast
  qed
  with run [folded m4_def] inv4 [folded m4_def] show ?thesis by blast
qed

lemma detach_server_loop:
  assumes wf: "wf_topo t" and ord: "is_order ord" and "vcm_inv {k} {} t m" and "distinct vs"
    and "\<forall>v \<in> set vs. registered m v \<and> gm_load (vcServers (vc_at m v)) k \<noteq> None"
  shows "\<exists>m' f'. go_fold (detach_server_from ord t k) vs (m, d, f) =
      Ret (m', if vs = [] then d else \<not> f \<or> d, f') \<and> vcm_inv {k} {} t m' \<and>
    (\<forall>v \<in> set vs. gm_load (vcServers (vc_at m' v)) k = None \<and>
       (\<forall>j. gm_load (vcServers (vc_at m' v)) j = (if j = k then None else gm_load (vcServers (vc_at m v)) j)) \<and>
       (registered m' v \<longleftrightarrow> (\<exists>j. j \<noteq> k \<and> gm_load (vcServers (vc_at m v)) j \<noteq> None))) \<and>
    (\<forall>v. v \<notin> set vs \<longrightarrow> vc_at m' v = vc_at m v \<and> (registered m' v \<longleftrightarrow> registered m v))"
  using assms(3-5)
proof (induction vs arbitrary: m d f)
  case (Cons v vs)
  then obtain r where "registered m v" "gm_load (vcServers (vc_at m v)) k = Some r" by auto
  from detach_server_step [OF wf ord Cons.prems(1) this] obtain m1
    where step: "detach_server_from ord t k v (m, d, f) = Ret (m1, \<not> f \<or> d, True)"
      and inv1: "vcm_inv {k} {} t m1" and gone: "server_gone k v m m1" by blast
  note g = gone [unfolded server_gone_def]
  have "\<forall>w \<in> set vs. registered m1 w \<and> gm_load (vcServers (vc_at m1 w)) k \<noteq> None"
  proof
    fix w assume w: "w \<in> set vs"
    with Cons.prems(2) have "w \<noteq> v" by auto
    with g Cons.prems(3) w show "registered m1 w \<and> gm_load (vcServers (vc_at m1 w)) k \<noteq> None" by simp
  qed
  from Cons.IH [OF inv1 _ this, of "\<not> f \<or> d" True] Cons.prems(2) obtain m' f' where IH:
    "go_fold (detach_server_from ord t k) vs (m1, \<not> f \<or> d, True) =
      Ret (m', if vs = [] then \<not> f \<or> d else \<not> True \<or> (\<not> f \<or> d), f')" "vcm_inv {k} {} t m'"
    "\<forall>v \<in> set vs. gm_load (vcServers (vc_at m' v)) k = None \<and>
       (\<forall>j. gm_load (vcServers (vc_at m' v)) j = (if j = k then None else gm_load (vcServers (vc_at m1 v)) j)) \<and>
       (registered m' v \<longleftrightarrow> (\<exists>j. j \<noteq> k \<and> gm_load (vcServers (vc_at m1 v)) j \<noteq> None))"
    "\<forall>v. v \<notin> set vs \<longrightarrow> vc_at m' v = vc_at m1 v \<and> (registered m' v \<longleftrightarrow> registered m1 v)" by auto
  have "go_fold (detach_server_from ord t k) (v # vs) (m, d, f) = Ret (m', \<not> f \<or> d, f')"
    using step IH(1) by simp
  moreover have v: "vc_at m' v = vc_at m1 v \<and> (registered m' v \<longleftrightarrow> registered m1 v)"
    using IH(4) Cons.prems(2) by auto
  moreover have "\<forall>w \<in> set (v # vs). gm_load (vcServers (vc_at m' w)) k = None \<and>
       (\<forall>j. gm_load (vcServers (vc_at m' w)) j = (if j = k then None else gm_load (vcServers (vc_at m w)) j)) \<and>
       (registered m' w \<longleftrightarrow> (\<exists>j. j \<noteq> k \<and> gm_load (vcServers (vc_at m w)) j \<noteq> None))"
  proof
    fix w assume w: "w \<in> set (v # vs)"
    show "gm_load (vcServers (vc_at m' w)) k = None \<and>
       (\<forall>j. gm_load (vcServers (vc_at m' w)) j = (if j = k then None else gm_load (vcServers (vc_at m w)) j)) \<and>
       (registered m' w \<longleftrightarrow> (\<exists>j. j \<noteq> k \<and> gm_load (vcServers (vc_at m w)) j \<noteq> None))"
    proof (cases "w = v")
      case True
      with v g show ?thesis by simp
    next
      case False
      with w have "w \<in> set vs" by simp
      moreover from False g have "vc_at m1 w = vc_at m w" by blast
      ultimately show ?thesis using IH(3) by simp
    qed
  qed
  moreover have "\<forall>w. w \<notin> set (v # vs) \<longrightarrow> vc_at m' w = vc_at m w \<and> (registered m' w \<longleftrightarrow> registered m w)"
    using IH(4) g by simp
  ultimately show ?case using IH(2) by (intro exI [of _ m'] exI [of _ f']) simp
qed auto

text \<open>
  Detaching a server: it never fails, keeps the invariant, takes the server out of every cluster,
  unregisters exactly the clusters that had no other server, and reports whether any cluster had it.
\<close>

lemma DetachServer_run:
  assumes wf: "wf_topo t" and ord: "is_order ord" and inv: "vcm_wf t m"
  shows "\<exists>m'. DetachServer ord t k m =
      Ret (m', \<exists>v. registered m v \<and> gm_load (vcServers (vc_at m v)) k \<noteq> None) \<and> vcm_wf t m' \<and>
    (\<forall>v. registered m' v \<longleftrightarrow> registered m v \<and>
       (gm_load (vcServers (vc_at m v)) k = None \<or> (\<exists>j. j \<noteq> k \<and> gm_load (vcServers (vc_at m v)) j \<noteq> None))) \<and>
    (\<forall>v. registered m' v \<longrightarrow> (\<forall>j. gm_load (vcServers (vc_at m' v)) j =
       (if j = k then None else gm_load (vcServers (vc_at m v)) j)))"
proof -
  let ?vs = "listed (vmServerVCs m) k"
  have vs: "distinct ?vs" "set ?vs = {v. registered m v \<and> gm_load (vcServers (vc_at m v)) k \<noteq> None}"
    using inv by (simp_all add: vcm_inv_def index_ok_def)
  have inv_k: "vcm_inv {k} {} t m" by (rule vcm_inv_weaken [OF inv]) auto
  from detach_server_loop [OF wf ord inv_k vs(1), of False False] vs(2) obtain m1 f' where loop:
    "go_fold (detach_server_from ord t k) ?vs (m, False, False) = Ret (m1, ?vs \<noteq> [], f')"
    and inv1: "vcm_inv {k} {} t m1"
    and ins: "\<And>v. v \<in> set ?vs \<Longrightarrow> gm_load (vcServers (vc_at m1 v)) k = None \<and>
       (\<forall>j. gm_load (vcServers (vc_at m1 v)) j = (if j = k then None else gm_load (vcServers (vc_at m v)) j)) \<and>
       (registered m1 v \<longleftrightarrow> (\<exists>j. j \<noteq> k \<and> gm_load (vcServers (vc_at m v)) j \<noteq> None))"
    and outs: "\<And>v. v \<notin> set ?vs \<Longrightarrow> vc_at m1 v = vc_at m v \<and> (registered m1 v \<longleftrightarrow> registered m v)"
    by auto
  let ?m' = "m1\<lparr>vmServerVCs := DeleteVCList k (vmServerVCs m1)\<rparr>"
  have reg': "registered ?m' v \<longleftrightarrow> registered m1 v" for v by (simp add: registered_def)
  have reg1: "registered m1 v \<longleftrightarrow> registered m v \<and>
      (gm_load (vcServers (vc_at m v)) k = None \<or> (\<exists>j. j \<noteq> k \<and> gm_load (vcServers (vc_at m v)) j \<noteq> None))" for v
    using ins [of v] outs [of v] vs(2) by (cases "v \<in> set ?vs") blast+
  have srv1: "gm_load (vcServers (vc_at m1 v)) j = (if j = k then None else gm_load (vcServers (vc_at m v)) j)"
    if "registered m v" for v j
    using ins [of v] outs [of v] vs(2) that by (cases "v \<in> set ?vs") auto
  have "vcs_ok t ?m'" using inv1 by (simp add: vcm_inv_def vcs_ok_def)
  moreover have "index_ok {} ?m' vcServers (vmServerVCs ?m')"
    unfolding index_ok_def
  proof (intro conjI allI impI)
    have i1: "index_ok {k} m1 vcServers (vmServerVCs m1)" using inv1 by (simp add: vcm_inv_def)
    then show "gm_wf (vmServerVCs ?m')" by (simp add: index_ok_def)
    fix j
    show "distinct (listed (vmServerVCs ?m') j)"
      using i1 by (cases "j = k") (simp_all add: index_ok_def)
    have "{v. registered m1 v \<and> gm_load (vcServers (vc_at m1 v)) k \<noteq> None} = {}"
      using srv1 reg1 by auto
    with i1 show "set (listed (vmServerVCs ?m') j) =
        {v. registered ?m' v \<and> gm_load (vcServers (vc_at ?m' v)) j \<noteq> None}"
      unfolding reg' by (cases "j = k") (simp_all add: index_ok_def)
  qed
  moreover have "index_ok {} ?m' vcLeaves (vmLeafVCs ?m')"
    using inv1 by (simp add: vcm_inv_def index_ok_def registered_def)
  ultimately have "vcm_wf t ?m'" by (simp only: vcm_inv_def)
  moreover have "DetachServer ord t k m = Ret (?m', \<exists>v. registered m v \<and> gm_load (vcServers (vc_at m v)) k \<noteq> None)"
  proof -
    have ex: "(\<exists>v. registered m v \<and> gm_load (vcServers (vc_at m v)) k \<noteq> None) \<longleftrightarrow> ?vs \<noteq> []"
      unfolding set_empty [symmetric] vs(2) by blast
    show ?thesis
    proof (cases "gm_load (vmServerVCs m) k")
      case None
      then have "?vs = []" by (simp add: listed_def LoadVCList_def)
      with loop have "m1 = m" by simp
      with None \<open>?vs = []\<close> show ?thesis
        unfolding ex by (simp add: DetachServer_def GetVCsOfServer_def LoadVCList_def)
    next
      case (Some ws)
      then have "?vs = ws" by (simp add: listed_def LoadVCList_def)
      with Some loop show ?thesis
        unfolding ex by (simp add: DetachServer_def GetVCsOfServer_def LoadVCList_def)
    qed
  qed
  ultimately show ?thesis using reg1 srv1 unfolding reg' by (intro exI [of _ ?m']) (auto simp: reg')
qed

section \<open>Detaching a leaf\<close>

definition leaf_gone :: "Topology \<Rightarrow> u16 \<Rightarrow> vref \<Rightarrow> VCManager \<Rightarrow> VCManager \<Rightarrow> bool" where
  "leaf_gone t j v m m' \<longleftrightarrow>
     gm_load (vcLeaves (vc_at m' v)) j = None \<and> (\<forall>w. w \<noteq> v \<longrightarrow> vc_at m' w = vc_at m w) \<and>
     (\<forall>w. w \<noteq> v \<longrightarrow> (registered m' w \<longleftrightarrow> registered m w)) \<and> (registered m' v \<longrightarrow> registered m v)"

lemma detach_leaf_step:
  assumes wf: "wf_topo t" and ord: "is_order ord" and inv: "vcm_inv {} {j} t m" and reg: "registered m v"
    and member: "gm_load (vcLeaves (vc_at m v)) j = Some l"
  shows "\<exists>m' d'. detach_leaf_from ord t j v (m, d) = Ret (m', d') \<and> vcm_inv {} {j} t m' \<and> leaf_gone t j v m m'"
proof -
  let ?c = "vc_at m v"
  have ok: "vcs_ok t m" and idx: "index_ok {} m vcServers (vmServerVCs m)" "index_ok {j} m vcLeaves (vmLeafVCs m)"
    using inv by (simp_all add: vcm_inv_def)
  have c: "vc_ok t ?c" by (rule registered_ok [OF ok reg])
  then have mem: "vc_members_ok t ?c" by (simp add: vc_ok_def)
  let ?ds = "filter (\<lambda>c. gm_load (vcServers ?c) (nID (node t c)) \<noteq> None) (nChildren (node t l))"
  from vc_DetachLeaf_member [OF wf c member] obtain c' b where run: "vc_DetachLeaf t j ?c = Ret (c', b, ?ds)"
    and c': "vc_ok t c'" and id: "vcClusterID c' = vcClusterID ?c"
    and lvs: "gm_load (vcLeaves c') = (gm_load (vcLeaves ?c))(j := None)"
    and srv: "\<And>k. gm_load (vcServers c') k =
      (if k \<in> (\<lambda>c. nID (node t c)) ` set (nChildren (node t l)) then None else gm_load (vcServers ?c) k)" by metis
  have v: "valid_vc m v" by (rule registered_ok [OF ok reg])
  define m1 where "m1 = upd_vc v (\<lambda>_. c') m"
  note rep = replace_vc [OF ok reg c' id, folded m1_def]
  define ks where "ks = map (\<lambda>s. nID (node t s)) ?ds"
  define m2 where "m2 = m1\<lparr>vmServerVCs := fold (\<lambda>k. RemoveFromVCList (vc_at m1) k v) ks (vmServerVCs m1)\<rparr>"
  define m3 where "m3 = (if length (vcServers (vc_at m2 v)) = 0 then fst (RemoveVC ord t v m2) else m2)"
  have "fold (\<lambda>srv. RemoveFromVCList (vc_at m1) (nID (node t srv)) v) ?ds (vmServerVCs m1) =
      fold (\<lambda>k. RemoveFromVCList (vc_at m1) k v) ks (vmServerVCs m1)"
    by (simp add: ks_def fold_map o_def)
  then have vs2: "m1\<lparr>vmServerVCs := fold (\<lambda>srv. RemoveFromVCList (vc_at m1) (nID (node t srv)) v) ?ds
      (vmServerVCs m1)\<rparr> = m2" by (simp only: m2_def)
  have step: "detach_leaf_from ord t j v (m, d) = Ret (m3, d \<and> b)"
    unfolding detach_leaf_from_def prod.case run go_bind.simps Let_def m1_def [symmetric] vs2
      m3_def [symmetric] ..
  have at2: "vc_at m2 = vc_at m1" and val2: "valid_vc m2 = valid_vc m1" and vcs2: "vmVcs m2 = vmVcs m1"
    and lf2: "vmLeafVCs m2 = vmLeafVCs m" by (simp_all add: m2_def m1_def)
  have sv1: "vmServerVCs m1 = vmServerVCs m" by (simp add: m1_def)
  have reg2: "registered m2 w \<longleftrightarrow> registered m w" for w
    using rep(2) [of w] unfolding registered_def at2 vcs2 .
  have ks: "set ks = {k. gm_load (vcServers ?c) k \<noteq> None \<and> gm_load (vcServers c') k = None}"
  proof -
    have "set ks = {k \<in> (\<lambda>c. nID (node t c)) ` set (nChildren (node t l)). gm_load (vcServers ?c) k \<noteq> None}"
      unfolding ks_def by auto
    also have "\<dots> = {k. gm_load (vcServers ?c) k \<noteq> None \<and> gm_load (vcServers c') k = None}"
      unfolding srv by auto
    finally show ?thesis .
  qed
  have "vcs_ok t m2" using rep(1) unfolding vcs_ok_def at2 vcs2 val2 .
  moreover have "index_ok {} m2 vcServers (vmServerVCs m2)"
  proof -
    have lst: "distinct (listed (vmServerVCs m) i)"
      "set (listed (vmServerVCs m) i) = {w. registered m w \<and> gm_load (vcServers (vc_at m w)) i \<noteq> None}" for i
      using idx(1) by (simp_all add: index_ok_def)
    have m2s: "vmServerVCs m2 = fold (\<lambda>k. RemoveFromVCList (vc_at m1) k v) ks (vmServerVCs m)"
      by (simp add: m2_def sv1)
    have rem: "listed (vmServerVCs m2) i = (if i \<in> set ks then filter (\<lambda>w. w \<noteq> v) (listed (vmServerVCs m) i)
        else listed (vmServerVCs m) i)" for i
      unfolding m2s
    proof (rule listed_remove_all [OF lst(1)])
      fix k w assume "w \<in> set (listed (vmServerVCs m) k)"
      then have "registered m1 w" "registered m1 v" using lst(2) [of k] rep(2) reg by auto
      then show "vcClusterID (vc_at m1 w) = vcClusterID (vc_at m1 v) \<longleftrightarrow> w = v"
        using registered_inj by blast
    qed
    have at: "vc_at m2 w = (if w = v then c' else vc_at m w)" for w
      unfolding at2 using rep(3,4) by simp
    have sub: "gm_load (vcServers c') i \<noteq> None \<Longrightarrow> gm_load (vcServers ?c) i \<noteq> None" for i
      unfolding srv by (auto split: if_splits)
    show ?thesis
      unfolding index_ok_def
    proof (intro conjI allI impI)
      show "gm_wf (vmServerVCs m2)"
        unfolding m2s by (rule fold_remove_wf) (use idx(1) in \<open>simp add: index_ok_def\<close>)
      fix i
      show "distinct (listed (vmServerVCs m2) i)" unfolding rem using lst(1) by simp
      show "set (listed (vmServerVCs m2) i) = {w. registered m2 w \<and> gm_load (vcServers (vc_at m2 w)) i \<noteq> None}"
      proof (cases "i \<in> set ks")
        case True
        then have "gm_load (vcServers c') i = None" using ks by blast
        with True show ?thesis unfolding rem reg2 at using lst(2) [of i] by auto
      next
        case False
        then have flip: "gm_load (vcServers c') i = None \<longleftrightarrow> gm_load (vcServers ?c) i = None"
          using ks sub [of i] by blast
        have "gm_load (vcServers (vc_at m2 w)) i = None \<longleftrightarrow> gm_load (vcServers (vc_at m w)) i = None" for w
          unfolding at using flip by (cases "w = v") (simp_all only: if_True if_False simp_thms)
        with False lst(2) [of i] show ?thesis unfolding rem reg2 by (simp only: if_False)
      qed
    qed
  qed
  moreover have "index_ok {j} m2 vcLeaves (vmLeafVCs m2)"
    unfolding lf2
  proof (rule index_ok_replace [OF idx(2) reg2])
    fix k w assume "k \<notin> {j}"
    then have "gm_load (vcLeaves c') k = gm_load (vcLeaves ?c) k" using lvs by simp
    then show "gm_load (vcLeaves (vc_at m2 w)) k = None \<longleftrightarrow> gm_load (vcLeaves (vc_at m w)) k = None"
      unfolding at2 using rep(3,4) by (cases "w = v") simp_all
  qed
  ultimately have inv2: "vcm_inv {} {j} t m2" by (simp add: vcm_inv_def)
  have c2: "vc_at m2 v = c'" unfolding at2 by (rule rep(3))
  have d1: "\<And>i. i \<in> {} \<Longrightarrow> gm_load (vcServers (vc_at m2 v)) i = None" by simp
  have d2: "\<And>i. i \<in> {j} \<Longrightarrow> gm_load (vcLeaves (vc_at m2 v)) i = None" unfolding c2 lvs by simp
  have "registered m2 v" using reg2 reg by blast
  note emp = empty_or_remove [OF wf ord inv2 this, folded m3_def]
  have inv3: "vcm_inv {} {j} t m3" by (rule emp(1) [OF d1 d2])
  have at3: "vc_at m3 = vc_at m2" by (rule emp(2) [OF d1 d2])
  have "leaf_gone t j v m m3"
    unfolding leaf_gone_def
  proof (intro conjI allI impI)
    show "gm_load (vcLeaves (vc_at m3 v)) j = None" unfolding at3 c2 lvs by simp
    show "vc_at m3 w = vc_at m w" if "w \<noteq> v" for w unfolding at3 at2 by (rule rep(4) [OF that])
    show "registered m3 w \<longleftrightarrow> registered m w" if "w \<noteq> v" for w
      using emp(3) [OF d1 d2, of w] reg2 [of w] that by blast
    show "registered m v" by (rule reg)
  qed
  with step inv3 show ?thesis by blast
qed

lemma detach_leaf_loop:
  assumes wf: "wf_topo t" and ord: "is_order ord" and "vcm_inv {} {j} t m" and "distinct vs"
    and "\<forall>v \<in> set vs. registered m v \<and> gm_load (vcLeaves (vc_at m v)) j \<noteq> None"
  shows "\<exists>m' d'. go_fold (detach_leaf_from ord t j) vs (m, d) = Ret (m', d') \<and> vcm_inv {} {j} t m' \<and>
    (\<forall>v \<in> set vs. gm_load (vcLeaves (vc_at m' v)) j = None) \<and>
    (\<forall>v. v \<notin> set vs \<longrightarrow> vc_at m' v = vc_at m v) \<and> (\<forall>v. registered m' v \<longrightarrow> registered m v) \<and>
    (\<forall>v. v \<notin> set vs \<longrightarrow> registered m v \<longrightarrow> registered m' v)"
  using assms(3-5)
proof (induction vs arbitrary: m d)
  case (Cons v vs)
  then obtain l where "registered m v" "gm_load (vcLeaves (vc_at m v)) j = Some l" by auto
  from detach_leaf_step [OF wf ord Cons.prems(1) this] obtain m1 d1
    where step: "detach_leaf_from ord t j v (m, d) = Ret (m1, d1)"
      and inv1: "vcm_inv {} {j} t m1" and gone: "leaf_gone t j v m m1" by blast
  note g = gone [unfolded leaf_gone_def]
  have "\<forall>w \<in> set vs. registered m1 w \<and> gm_load (vcLeaves (vc_at m1 w)) j \<noteq> None"
  proof
    fix w assume w: "w \<in> set vs"
    with Cons.prems(2) have "w \<noteq> v" by auto
    with g Cons.prems(3) w show "registered m1 w \<and> gm_load (vcLeaves (vc_at m1 w)) j \<noteq> None" by simp
  qed
  from Cons.IH [OF inv1 _ this, of d1] Cons.prems(2) obtain m' d' where IH:
    "go_fold (detach_leaf_from ord t j) vs (m1, d1) = Ret (m', d')" "vcm_inv {} {j} t m'"
    "\<forall>v \<in> set vs. gm_load (vcLeaves (vc_at m' v)) j = None" "\<forall>v. v \<notin> set vs \<longrightarrow> vc_at m' v = vc_at m1 v"
    "\<forall>v. registered m' v \<longrightarrow> registered m1 v" "\<forall>v. v \<notin> set vs \<longrightarrow> registered m1 v \<longrightarrow> registered m' v" by auto
  have reg: "registered m w" if "registered m1 w" for w using g that by (cases "w = v") auto
  have at: "vc_at m' v = vc_at m1 v" using IH(4) Cons.prems(2) by simp
  have "go_fold (detach_leaf_from ord t j) (v # vs) (m, d) = Ret (m', d')" using step IH(1) by simp
  moreover have "\<forall>w \<in> set (v # vs). gm_load (vcLeaves (vc_at m' w)) j = None"
    using IH(3) at g by simp
  moreover have "\<forall>w. w \<notin> set (v # vs) \<longrightarrow> vc_at m' w = vc_at m w" using IH(4) g by simp
  moreover have "\<forall>w. registered m' w \<longrightarrow> registered m w" using IH(5) reg by blast
  moreover have "\<forall>w. w \<notin> set (v # vs) \<longrightarrow> registered m w \<longrightarrow> registered m' w" using IH(6) g by simp
  ultimately show ?case using IH(2) by blast
qed auto

text \<open>
  Detaching a leaf never fails, keeps the invariant and takes the leaf, with its servers, out of every
  cluster.
\<close>

lemma DetachLeaf_run:
  assumes wf: "wf_topo t" and ord: "is_order ord" and inv: "vcm_wf t m"
  shows "\<exists>m'. DetachLeaf ord t j m = Ret (m', True) \<and> vcm_wf t m' \<and>
    (\<forall>v. registered m' v \<longrightarrow> registered m v \<and> gm_load (vcLeaves (vc_at m' v)) j = None) \<and>
    (\<forall>v. registered m v \<longrightarrow> gm_load (vcLeaves (vc_at m v)) j = None \<longrightarrow>
       registered m' v \<and> vc_at m' v = vc_at m v)"
proof -
  let ?vs = "listed (vmLeafVCs m) j"
  have vs: "distinct ?vs" "set ?vs = {v. registered m v \<and> gm_load (vcLeaves (vc_at m v)) j \<noteq> None}"
    using inv by (simp_all add: vcm_inv_def index_ok_def)
  have inv_j: "vcm_inv {} {j} t m" by (rule vcm_inv_weaken [OF inv]) auto
  have "\<forall>v \<in> set ?vs. registered m v \<and> gm_load (vcLeaves (vc_at m v)) j \<noteq> None" unfolding vs(2) by blast
  from detach_leaf_loop [OF wf ord inv_j vs(1) this, of True] obtain m1 d' where
    R: "go_fold (detach_leaf_from ord t j) ?vs (m, True) = Ret (m1, d') \<and> vcm_inv {} {j} t m1 \<and>
      (\<forall>v \<in> set ?vs. gm_load (vcLeaves (vc_at m1 v)) j = None) \<and>
      (\<forall>v. v \<notin> set ?vs \<longrightarrow> vc_at m1 v = vc_at m v) \<and> (\<forall>v. registered m1 v \<longrightarrow> registered m v) \<and>
      (\<forall>v. v \<notin> set ?vs \<longrightarrow> registered m v \<longrightarrow> registered m1 v)" by blast
  then have loop: "go_fold (detach_leaf_from ord t j) ?vs (m, True) = Ret (m1, d')"
    and inv1: "vcm_inv {} {j} t m1"
    and ins: "\<And>v. v \<in> set ?vs \<Longrightarrow> gm_load (vcLeaves (vc_at m1 v)) j = None"
    and outs: "\<And>v. v \<notin> set ?vs \<Longrightarrow> vc_at m1 v = vc_at m v"
    and reg: "\<And>v. registered m1 v \<Longrightarrow> registered m v"
    and keep: "\<And>v. v \<notin> set ?vs \<Longrightarrow> registered m v \<Longrightarrow> registered m1 v" by blast+
  let ?m' = "m1\<lparr>vmLeafVCs := DeleteVCList j (vmLeafVCs m1)\<rparr>"
  have reg': "registered ?m' v \<longleftrightarrow> registered m1 v" for v by (simp add: registered_def)
  have none: "gm_load (vcLeaves (vc_at m1 v)) j = None" if "registered m1 v" for v
  proof (cases "v \<in> set ?vs")
    case True
    then show ?thesis by (rule ins)
  next
    case False
    with vs(2) reg [OF that] have "gm_load (vcLeaves (vc_at m v)) j = None" by blast
    with outs [OF False] show ?thesis by simp
  qed
  have "vcs_ok t ?m'" using inv1 by (simp add: vcm_inv_def vcs_ok_def)
  moreover have "index_ok {} ?m' vcServers (vmServerVCs ?m')"
    using inv1 by (simp add: vcm_inv_def index_ok_def registered_def)
  moreover have "index_ok {} ?m' vcLeaves (vmLeafVCs ?m')"
    unfolding index_ok_def
  proof (intro conjI allI impI)
    have i1: "index_ok {j} m1 vcLeaves (vmLeafVCs m1)" using inv1 by (simp add: vcm_inv_def)
    then show "gm_wf (vmLeafVCs ?m')" by (simp add: index_ok_def)
    fix i
    show "distinct (listed (vmLeafVCs ?m') i)"
      using i1 by (cases "i = j") (simp_all add: index_ok_def)
    have "{v. registered m1 v \<and> gm_load (vcLeaves (vc_at m1 v)) j \<noteq> None} = {}" using none by auto
    with i1 show "set (listed (vmLeafVCs ?m') i) =
        {v. registered ?m' v \<and> gm_load (vcLeaves (vc_at ?m' v)) i \<noteq> None}"
      unfolding reg' by (cases "i = j") (simp_all add: index_ok_def)
  qed
  ultimately have "vcm_wf t ?m'" by (simp only: vcm_inv_def)
  moreover have "DetachLeaf ord t j m = Ret (?m', True)"
  proof (cases "gm_load (vmLeafVCs m) j")
    case None
    then have "?vs = []" by (simp add: listed_def LoadVCList_def)
    with loop have "m1 = m" by simp
    with None show ?thesis by (simp add: DetachLeaf_def GetVCsOfLeaf_def LoadVCList_def)
  next
    case (Some ws)
    then have "?vs = ws" by (simp add: listed_def LoadVCList_def)
    with Some loop show ?thesis by (simp add: DetachLeaf_def GetVCsOfLeaf_def LoadVCList_def)
  qed
  moreover have "registered m1 v \<and> vc_at m1 v = vc_at m v"
    if "registered m v" "gm_load (vcLeaves (vc_at m v)) j = None" for v
    using keep [of v] outs [of v] vs(2) that by auto
  ultimately show ?thesis using none reg by (intro exI [of _ ?m']) (auto simp: reg')
qed

end
