(* ===== verification/VC_Correct.thy ===== *)
theory VC_Correct
  imports VC_Manager
begin

text \<open>
  The properties of the virtual clusters and their manager (core/model/vc.go, core/vcManager.go), with
  witnesses on the small data centre \<open>sample\<close>: cluster 1 uses the servers 0 and 2, cluster 2 the
  server 0 only.
\<close>

section \<open>Witness state\<close>

definition sample_vc1 :: VirtualCluster where
  "sample_vc1 = \<lparr>vcClusterID = 1, vcSpines = [(0, 1)], vcLeaves = [(0, 2), (1, 5)],
     vcServers = [(0, 3), (2, 6)]\<rparr>"

definition sample_vc2 :: VirtualCluster where
  "sample_vc2 = \<lparr>vcClusterID = 2, vcSpines = [], vcLeaves = [(0, 2)], vcServers = [(0, 3)]\<rparr>"

definition sample_vcm :: VCManager where
  "sample_vcm = \<lparr>vmStore = [sample_vc1, sample_vc2], vmVcs = [(1, 0), (2, 1)],
     vmServerVCs = [(0, [0, 1]), (2, [0])], vmLeafVCs = [(0, [0, 1]), (1, [0])]\<rparr>"

lemmas vcm_eval = sample_vcm_def sample_vc1_def sample_vc2_def vc_at_def valid_vc_def registered_def
  listed_def LoadVCList_def

definition sample_vcinfo :: VCInfo where
  "sample_vcinfo = \<lparr>viId = 1, viSpines = [0],
     viServers = [\<lparr>vsId = 0, vsWorkersIDs = []\<rparr>, \<lparr>vsId = 2, vsWorkersIDs = []\<rparr>]\<rparr>"

definition sample_vcinfo2 :: VCInfo where
  "sample_vcinfo2 = \<lparr>viId = 2, viSpines = [], viServers = [\<lparr>vsId = 0, vsWorkersIDs = []\<rparr>]\<rparr>"

lemma sample_NewVC: "NewVC sample_vcinfo sample = Ret (Inr sample_vc1)"
  and sample_NewVC2: "NewVC sample_vcinfo2 sample = Ret (Inr sample_vc2)"
  by (simp_all add: NewVC_def sample_vcinfo_def sample_vcinfo2_def sample_vc1_def sample_vc2_def sample_eval)

text \<open>The witness state is what two registrations make of the empty manager.\<close>

definition sample_vcm0 :: VCManager where
  "sample_vcm0 = snd (new_vc sample_vc1 NewVCManager)"

definition sample_vcm1 :: VCManager where
  "sample_vcm1 = snd (new_vc sample_vc2 (fst (AddVC stored_order sample 0 sample_vcm0)))"

lemma sample_vcm_built: "sample_vcm = fst (AddVC stored_order sample 1 sample_vcm1)"
  by (simp add: sample_vcm1_def sample_vcm0_def new_vc_def NewVCManager_def AddVC_def vcm_eval Let_def
      AppendToVCList_def sample_eval)

lemma new_vc_keeps:
  assumes "vcm_wf t m"
  shows "vcm_wf t (snd (new_vc c m))"
proof -
  have reg: "registered (snd (new_vc c m)) v \<longleftrightarrow> registered m v" if ok: "vcs_ok t m" for v
  proof (cases "valid_vc m v")
    case True
    then show ?thesis by (simp add: registered_def vs.alloc_frame)
  next
    case False
    then have "gm_load (vmVcs m) i \<noteq> Some v" for i using ok by (auto simp: vcs_ok_def)
    then show ?thesis by (simp add: registered_def)
  qed
  have ok: "vcs_ok t m" using assms by (simp add: vcm_inv_def)
  have at: "vc_at (snd (new_vc c m)) v = vc_at m v" if "registered m v" for v
    using registered_ok(1) [OF ok that] by (rule vs.alloc_frame)
  have "vcs_ok t (snd (new_vc c m))"
    using ok vs.alloc_frame by (simp add: vcs_ok_def vs.alloc_valid)
  moreover have "index_ok {} (snd (new_vc c m)) members rm" if "index_ok {} m members rm" for members rm
    using that by (rule index_ok_replace) (simp_all add: reg [OF ok] at)
  ultimately show ?thesis using assms by (simp add: vcm_inv_def)
qed

lemma sample_vcm_wf: "vcm_wf sample sample_vcm"
proof -
  have ok1: "vc_ok sample sample_vc1" and ok2: "vc_ok sample sample_vc2"
    using NewVC_ok(1) [OF sample_wf sample_NewVC] NewVC_ok(1) [OF sample_wf sample_NewVC2] .
  have 0: "vcm_wf sample sample_vcm0" unfolding sample_vcm0_def by (rule new_vc_keeps [OF NewVCManager_wf])
  have "vcm_wf sample (fst (AddVC stored_order sample 0 sample_vcm0))"
    by (rule AddVC_inv [OF sample_wf is_order_stored 0])
      (use ok1 in \<open>simp_all add: sample_vcm0_def new_vc_def NewVCManager_def valid_vc_def vc_at_def gm_eval\<close>)
  then have 1: "vcm_wf sample sample_vcm1" unfolding sample_vcm1_def by (rule new_vc_keeps)
  have *: "sample_vcm1 = \<lparr>vmStore = [sample_vc1, sample_vc2], vmVcs = [(1, 0)],
      vmServerVCs = [(0, [0]), (2, [0])], vmLeafVCs = [(0, [0]), (1, [0])]\<rparr>"
    by (simp add: sample_vcm1_def sample_vcm0_def new_vc_def NewVCManager_def AddVC_def vcm_eval Let_def
      AppendToVCList_def sample_eval)
  show ?thesis unfolding sample_vcm_built
    by (rule AddVC_inv [OF sample_wf is_order_stored 1])
      (use ok2 in \<open>simp_all add: * valid_vc_def vc_at_def gm_eval sample_vc2_def\<close>)
qed

section \<open>The properties\<close>

text \<open>The loops of \<open>NewVC\<close> stop at the first ID that is not registered.\<close>

definition no_spine :: "Topology \<Rightarrow> u32 \<Rightarrow> bool" where
  "no_spine t i \<longleftrightarrow> gm_load (tSpines t) (ucast i) = None"

definition no_server :: "Topology \<Rightarrow> VCServerInfo \<Rightarrow> bool" where
  "no_server t c \<longleftrightarrow> gm_load (tServers t) (ucast (vsId c)) = None"

lemma vc_add_spines_run:
  assumes wf: "wf_topo t"
  shows "case find (no_spine t) ids of
      Some i \<Rightarrow> vc_add_spines t ids vc = Ret (Inl (ErrVCNoSpine i))
    | None \<Rightarrow> \<exists>vc'. vc_add_spines t ids vc = Ret (Inr vc') \<and> (\<forall>k. gm_load (vcSpines vc') k =
        (if k \<in> ucast ` set ids then gm_load (tSpines t) k else gm_load (vcSpines vc) k))"
proof (induction ids arbitrary: vc)
  case (Cons i ids)
  show ?case
  proof (cases "gm_load (tSpines t) (ucast i)")
    case (Some sp)
    have id: "nID (node t sp) = ucast i" using wf_spine [OF wf Some] by (simp add: spine_ok_def)
    let ?vc = "vc\<lparr>vcSpines := gm_store (ucast i) sp (vcSpines vc)\<rparr>"
    have run: "vc_add_spines t (i # ids) vc = vc_add_spines t ids ?vc" by (simp add: Some id)
    have load: "gm_load (vcSpines ?vc) k = (if k = ucast i then gm_load (tSpines t) k else gm_load (vcSpines vc) k)" for k
      by (simp add: Some)
    have "\<not> no_spine t i" by (simp add: no_spine_def Some)
    with Cons [of ?vc] show ?thesis unfolding run load by (cases "find (no_spine t) ids") auto
  qed (simp add: no_spine_def)
qed simp

lemma vc_add_servers_run:
  assumes wf: "wf_topo t"
  shows "case find (no_server t) cfgs of
      Some c \<Rightarrow> vc_add_servers t cfgs vc = Ret (Inl (ErrVCNoServer (vsId c)))
    | None \<Rightarrow> \<exists>vc'. vc_add_servers t cfgs vc = Ret (Inr vc') \<and> vcSpines vc' = vcSpines vc"
proof (induction cfgs arbitrary: vc)
  case (Cons c cfgs)
  show ?case
  proof (cases "gm_load (tServers t) (ucast (vsId c))")
    case (Some r)
    from wf_parent [OF wf Some] obtain l where l: "nParent (node t r) = Some l" by blast
    let ?vc = "vc\<lparr>vcServers := gm_store (nID (node t r)) r (vcServers vc),
      vcLeaves := gm_store (nID (node t l)) l (vcLeaves vc)\<rparr>"
    have run: "vc_add_servers t (c # cfgs) vc = vc_add_servers t cfgs ?vc" by (simp add: Some l)
    have "\<not> no_server t c" by (simp add: no_server_def Some)
    with Cons [of ?vc] show ?thesis unfolding run by (cases "find (no_server t) cfgs") auto
  qed (simp add: no_server_def)
qed simp

text \<open>
  C32: Creating a virtual cluster always returns. The first requested spine that is not registered is
  reported, whatever the servers; if there is none, then the first requested server that is not registered.
  Otherwise the cluster has the requested ID, its spines and its servers are exactly the requested ones, each
  the registered node of this ID, and its leaves are exactly the leaves that these servers hang on.
\<close>

theorem NewVC_correct:
  assumes "wf_topo t"
  shows "case find (\<lambda>i. gm_load (tSpines t) (ucast i) = None) (viSpines cfg) of
      Some i \<Rightarrow> NewVC cfg t = Ret (Inl (ErrVCNoSpine i))
    | None \<Rightarrow>
       (case find (\<lambda>c. gm_load (tServers t) (ucast (vsId c)) = None) (viServers cfg) of
          Some c \<Rightarrow> NewVC cfg t = Ret (Inl (ErrVCNoServer (vsId c)))
        | None \<Rightarrow> \<exists>vc. NewVC cfg t = Ret (Inr vc) \<and> vc_ok t vc \<and> vcClusterID vc = ucast (viId cfg) \<and>
            (\<forall>k. gm_load (vcSpines vc) k = (if k \<in> ucast ` set (viSpines cfg) then gm_load (tSpines t) k else None)) \<and>
            (\<forall>k. gm_load (vcServers vc) k =
              (if k \<in> ucast ` vsId ` set (viServers cfg) then gm_load (tServers t) k else None)))"
proof -
  let ?vc0 = "\<lparr>vcClusterID = ucast (viId cfg), vcSpines = gm_empty, vcLeaves = gm_empty, vcServers = gm_empty\<rparr>"
  note sp = vc_add_spines_run [OF assms, of "viSpines cfg" ?vc0, unfolded no_spine_def]
    and sv = vc_add_servers_run [OF assms, of "viServers cfg", unfolded no_server_def]
  show ?thesis
  proof (cases "find (\<lambda>i. gm_load (tSpines t) (ucast i) = None) (viSpines cfg)")
    case (Some i)
    with sp have "vc_add_spines t (viSpines cfg) ?vc0 = Ret (Inl (ErrVCNoSpine i))" by simp
    with Some show ?thesis by (simp add: NewVC_def)
  next
    case None
    with sp obtain vc1 where 1: "vc_add_spines t (viSpines cfg) ?vc0 = Ret (Inr vc1)"
      "\<And>k. gm_load (vcSpines vc1) k = (if k \<in> ucast ` set (viSpines cfg) then gm_load (tSpines t) k else None)" by auto
    have run: "NewVC cfg t = vc_add_servers t (viServers cfg) vc1" by (simp add: NewVC_def 1(1))
    show ?thesis
    proof (cases "find (\<lambda>c. gm_load (tServers t) (ucast (vsId c)) = None) (viServers cfg)")
      case (Some c)
      with sv [of vc1] None show ?thesis by (simp add: run)
    next
      case none: None
      with sv [of vc1] obtain vc where vc: "NewVC cfg t = Ret (Inr vc)" "vcSpines vc = vcSpines vc1" by (auto simp: run)
      have reg: "gm_load (vcServers vc) k = Some r \<Longrightarrow> gm_load (tServers t) k = Some r" for k r
        using NewVC_ok(1) [OF assms vc(1)] by (simp add: vc_ok_def vc_members_ok_def)
      have "gm_load (vcServers vc) k = (if k \<in> ucast ` vsId ` set (viServers cfg) then gm_load (tServers t) k else None)" for k
        using reg [of k] NewVC_ok(3) [OF assms vc(1), of k] by (cases "gm_load (vcServers vc) k") auto
      with NewVC_ok(1,2) [OF assms vc(1)] vc 1(2) none None show ?thesis by simp
    qed
  qed
qed

theorem NewVC_correct_witness:
  "vc_ok sample sample_vc1 \<and> vcClusterID sample_vc1 = 1 \<and>
     NewVC (sample_vcinfo\<lparr>viSpines := [0, 7, 8], viServers := [\<lparr>vsId = 9, vsWorkersIDs = []\<rparr>]\<rparr>) sample =
       Ret (Inl (ErrVCNoSpine 7))"
proof -
  have "find (\<lambda>i. gm_load (tSpines sample) (ucast i) = None) [0, 7, 8 :: u32] = Some 7" by (simp add: sample_eval)
  with NewVC_correct [OF sample_wf, of "sample_vcinfo\<lparr>viSpines := [0, 7, 8], viServers := [\<lparr>vsId = 9, vsWorkersIDs = []\<rparr>]\<rparr>"]
  have bad: "NewVC (sample_vcinfo\<lparr>viSpines := [0, 7, 8], viServers := [\<lparr>vsId = 9, vsWorkersIDs = []\<rparr>]\<rparr>) sample =
      Ret (Inl (ErrVCNoSpine 7))" by simp
  have "find (\<lambda>i. gm_load (tSpines sample) (ucast i) = None) (viSpines sample_vcinfo) = None"
    "find (\<lambda>c. gm_load (tServers sample) (ucast (vsId c)) = None) (viServers sample_vcinfo) = None"
    by (simp_all add: sample_vcinfo_def sample_eval)
  with NewVC_correct [OF sample_wf, of sample_vcinfo] obtain vc where
    "NewVC sample_vcinfo sample = Ret (Inr vc)" "vc_ok sample vc" "vcClusterID vc = ucast (viId sample_vcinfo)" by auto
  with sample_NewVC bad show ?thesis by (simp add: sample_vcinfo_def)
qed

text \<open>
  C31: Registering a newly created cluster: an ID in use is refused and nothing changes; otherwise the
  cluster is filed under its ID and both indices list, for every server and every leaf, exactly the
  registered clusters that contain it.
\<close>

theorem AddVC_correct:
  assumes "wf_topo t" and "is_order ord" and "vcm_wf t m" and "valid_vc m v" and "vc_ok t (vc_at m v)"
    and "\<not> (\<exists>c. gm_load (vmVcs m) c = Some v)"
  shows "if gm_load (vmVcs m) (vcClusterID (vc_at m v)) \<noteq> None
    then AddVC ord t v m = (m, Inl (ErrVCExists (vcClusterID (vc_at m v))))
    else \<exists>m'. AddVC ord t v m = (m', Inr True) \<and> vcm_wf t m' \<and>
      gm_load (vmVcs m') = (gm_load (vmVcs m))(vcClusterID (vc_at m v) \<mapsto> v) \<and>
      (\<forall>k. set (listed (vmServerVCs m') k) =
         {w. registered m' w \<and> gm_load (vcServers (vc_at m' w)) k \<noteq> None})"
proof (cases "gm_load (vmVcs m) (vcClusterID (vc_at m v))")
  case (Some w)
  then show ?thesis by (simp add: AddVC_def)
next
  case None
  note run = AddVC_inv [OF assms(1-5) None assms(6)]
  obtain m' res where m': "AddVC ord t v m = (m', res)" by fastforce
  from run have inv: "vcm_wf t m'" and "res = Inr True"
    and "vmVcs m' = gm_store (vcClusterID (vc_at m v)) v (vmVcs m)" by (simp_all add: m')
  moreover from inv have "\<forall>k. set (listed (vmServerVCs m') k) =
         {w. registered m' w \<and> gm_load (vcServers (vc_at m' w)) k \<noteq> None}"
    by (simp add: vcm_inv_def index_ok_def)
  ultimately show ?thesis using None m' by simp
qed

theorem AddVC_correct_witness:
  "\<exists>m'. AddVC stored_order sample 0 sample_vcm0 = (m', Inr True) \<and> gm_load (vmVcs m') 1 = Some 0"
proof -
  have inv: "vcm_wf sample sample_vcm0" unfolding sample_vcm0_def by (rule new_vc_keeps [OF NewVCManager_wf])
  have at: "vc_at sample_vcm0 0 = sample_vc1" "valid_vc sample_vcm0 0" "vmVcs sample_vcm0 = []"
    by (simp_all add: sample_vcm0_def new_vc_def NewVCManager_def valid_vc_def vc_at_def gm_eval)
  from NewVC_ok(1) [OF sample_wf sample_NewVC] have "vc_ok sample (vc_at sample_vcm0 0)" by (simp add: at)
  from AddVC_correct [OF sample_wf is_order_stored inv at(2) this] show ?thesis
    by (auto simp: at sample_vc1_def gm_load_def [of "[]"])
qed

text \<open>
  Removing a registered cluster deletes its ID and takes it, and nothing else, out of both indices.
\<close>

theorem RemoveVC_correct:
  assumes "wf_topo t" and "is_order ord" and "vcm_wf t m" and "registered m v"
  shows "\<exists>m'. RemoveVC ord t v m = (m', Inr True) \<and> vcm_wf t m' \<and>
    gm_load (vmVcs m') = (gm_load (vmVcs m))(vcClusterID (vc_at m v) := None) \<and>
    (\<forall>w. registered m' w \<longleftrightarrow> registered m w \<and> w \<noteq> v) \<and> vc_at m' = vc_at m"
proof -
  obtain m' res where m': "RemoveVC ord t v m = (m', res)" by fastforce
  have "\<And>k. k \<in> {} \<Longrightarrow> gm_load (vcServers (vc_at m v)) k = None"
    "\<And>k. k \<in> {} \<Longrightarrow> gm_load (vcLeaves (vc_at m v)) k = None" by simp_all
  note run = RemoveVC_inv [OF assms(1-4) this, unfolded m' fst_conv snd_conv]
  show ?thesis using m' run(1,2,4,5,6) by simp
qed

theorem RemoveVC_correct_witness:
  "\<exists>m'. RemoveVC stored_order sample 0 sample_vcm = (m', Inr True) \<and> gm_load (vmVcs m') 1 = None"
proof -
  have "registered sample_vcm 0" by (simp add: vcm_eval gm_eval)
  moreover have "vcClusterID (vc_at sample_vcm 0) = 1" by (simp add: vcm_eval)
  ultimately show ?thesis
    using RemoveVC_correct [OF sample_wf is_order_stored sample_vcm_wf] by fastforce
qed

text \<open>
  C14: Detaching a server never fails, takes the server out of every cluster, unregisters exactly the
  clusters that had no other server, keeps all indices exact, and reports whether some cluster had it.
\<close>

theorem DetachServer_correct:
  assumes "wf_topo t" and "is_order ord" and "vcm_wf t m"
  shows "\<exists>m'. DetachServer ord t k m =
      Ret (m', \<exists>v. registered m v \<and> gm_load (vcServers (vc_at m v)) k \<noteq> None) \<and> vcm_wf t m' \<and>
    (\<forall>v. registered m' v \<longleftrightarrow> registered m v \<and>
       (gm_load (vcServers (vc_at m v)) k = None \<or> (\<exists>j. j \<noteq> k \<and> gm_load (vcServers (vc_at m v)) j \<noteq> None))) \<and>
    (\<forall>v. registered m' v \<longrightarrow> (\<forall>j. gm_load (vcServers (vc_at m' v)) j =
       (if j = k then None else gm_load (vcServers (vc_at m v)) j)))"
  using DetachServer_run [OF assms] .

theorem DetachServer_correct_witness:
  "\<exists>m'. DetachServer stored_order sample 0 sample_vcm = Ret (m', True) \<and>
     registered m' 0 \<and> \<not> registered m' 1"
proof -
  have reg: "registered sample_vcm 0" "registered sample_vcm 1" by (simp_all add: vcm_eval gm_eval)
  have at: "vc_at sample_vcm 0 = sample_vc1" "vc_at sample_vcm 1 = sample_vc2" by (simp_all add: vcm_eval)
  have l: "gm_load (vcServers sample_vc1) 0 = Some 3" "gm_load (vcServers sample_vc1) 2 = Some 6"
    "\<And>j. gm_load (vcServers sample_vc2) j = (if j = 0 then Some 3 else None)"
    by (simp_all add: sample_vc1_def sample_vc2_def gm_load_def)
  have ex: "(\<exists>v. registered sample_vcm v \<and> gm_load (vcServers (vc_at sample_vcm v)) 0 \<noteq> None) = True"
    using reg(1) at l(1) by (metis option.distinct(1))
  obtain m' where run: "DetachServer stored_order sample 0 sample_vcm = Ret (m', True)"
    and rg: "\<forall>v. registered m' v \<longleftrightarrow> registered sample_vcm v \<and>
       (gm_load (vcServers (vc_at sample_vcm v)) 0 = None \<or>
        (\<exists>j. j \<noteq> 0 \<and> gm_load (vcServers (vc_at sample_vcm v)) j \<noteq> None))"
    using DetachServer_correct [OF sample_wf is_order_stored sample_vcm_wf, of 0] unfolding ex by blast
  have "\<exists>j. j \<noteq> 0 \<and> gm_load (vcServers sample_vc1) j \<noteq> None" using l(2) by (intro exI [of _ 2]) simp
  then have "registered m' 0" using rg reg(1) by (simp only: at) simp
  moreover have "\<not> registered m' 1" using rg by (simp only: at l(3)) simp
  ultimately show ?thesis using run by blast
qed

text \<open>
  C15: Detaching a leaf never fails, leaves no cluster with the leaf or with a server of it, keeps the
  clusters that did not use the leaf untouched and all indices exact. It always reports success, even for
  a leaf that no cluster uses, which the TODO comment in the source suspects.
\<close>

theorem DetachLeaf_correct:
  assumes "wf_topo t" and "is_order ord" and "vcm_wf t m"
  shows "\<exists>m'. DetachLeaf ord t j m = Ret (m', True) \<and> vcm_wf t m' \<and>
    (\<forall>v. registered m' v \<longrightarrow> registered m v \<and> gm_load (vcLeaves (vc_at m' v)) j = None \<and>
       (\<forall>k r l. gm_load (vcServers (vc_at m' v)) k = Some r \<longrightarrow> nParent (node t r) = Some l \<longrightarrow> nID (node t l) \<noteq> j)) \<and>
    (\<forall>v. registered m v \<longrightarrow> gm_load (vcLeaves (vc_at m v)) j = None \<longrightarrow>
       registered m' v \<and> vc_at m' v = vc_at m v)"
proof -
  from DetachLeaf_run [OF assms] obtain m' where run: "DetachLeaf ord t j m = Ret (m', True)" "vcm_wf t m'"
    and gone: "\<forall>v. registered m' v \<longrightarrow> registered m v \<and> gm_load (vcLeaves (vc_at m' v)) j = None"
    and kept: "\<forall>v. registered m v \<longrightarrow> gm_load (vcLeaves (vc_at m v)) j = None \<longrightarrow>
       registered m' v \<and> vc_at m' v = vc_at m v" by blast
  have "nID (node t l) \<noteq> j"
    if "registered m' v" "gm_load (vcServers (vc_at m' v)) k = Some r" "nParent (node t r) = Some l" for v k r l
  proof -
    have "vc_leaves_ok t (vc_at m' v)"
      using registered_ok(2) [OF _ that(1)] run(2) by (simp add: vcm_inv_def vc_ok_def)
    with that(2,3) have "gm_load (vcLeaves (vc_at m' v)) (nID (node t l)) = Some l"
      by (auto simp: vc_leaves_ok_def)
    with gone that(1) show ?thesis by auto
  qed
  with run gone kept show ?thesis by blast
qed

theorem DetachLeaf_correct_witness:
  "\<exists>m'. DetachLeaf stored_order sample 9 sample_vcm = Ret (m', True) \<and> registered m' 1"
proof -
  have "registered sample_vcm 1" "gm_load (vcLeaves (vc_at sample_vcm 1)) 9 = None"
    by (simp_all add: vcm_eval gm_eval)
  with DetachLeaf_correct [OF sample_wf is_order_stored sample_vcm_wf, of 9] show ?thesis by blast
qed

end
