(* ===== verification/Fail_Over.thy ===== *)
theory Fail_Over
  imports VC_Correct
begin

text \<open>
  The state that the controllers share: a topology and the virtual clusters on it. Each controller
  takes a failed server out of both, first out of the clusters (\<open>DetachServer\<close>) and then out of the
  topology (\<open>RemoveServer\<close>), and a failed leaf likewise. This theory states what survives such a pair
  of calls, in the locale \<open>server_failure\<close> that the callers rely on.
\<close>

section \<open>The joint invariant\<close>

text \<open>
  The indices of the leaves are not part of it: a leaf controller knows only its own leaf, with the index
  it has at the spine.
\<close>

definition sys_ok :: "Topology \<Rightarrow> VCManager \<Rightarrow> bool" where
  "sys_ok t m \<longleftrightarrow> wf_topo t \<and> vcm_wf t m"

lemma sys_okD:
  "sys_ok t m \<Longrightarrow> wf_topo t" "sys_ok t m \<Longrightarrow> vcm_wf t m"
  by (simp_all add: sys_ok_def)

text \<open>No cluster uses the server, or the leaf.\<close>

definition server_unused :: "VCManager \<Rightarrow> u16 \<Rightarrow> bool" where
  "server_unused m k \<longleftrightarrow> (\<forall>v. registered m v \<longrightarrow> gm_load (vcServers (vc_at m v)) k = None)"

definition leaf_unused :: "VCManager \<Rightarrow> u16 \<Rightarrow> bool" where
  "leaf_unused m j \<longleftrightarrow> (\<forall>v. registered m v \<longrightarrow> gm_load (vcLeaves (vc_at m v)) j = None)"

text \<open>A cluster stays well-formed as long as the topology keeps its servers where they hang.\<close>

lemma vc_ok_topo:
  assumes "vc_ok t c" and "tSpines t' = tSpines t"
    and "\<And>k r. gm_load (vcServers c) k = Some r \<Longrightarrow> gm_load (tServers t') k = Some r \<and>
      nParent (node t' r) = nParent (node t r) \<and>
      (\<forall>l. nParent (node t r) = Some l \<longrightarrow> nID (node t' l) = nID (node t l))"
  shows "vc_ok t' c"
proof -
  have "(\<exists>k r. gm_load (vcServers c) k = Some r \<and> nParent (node t' r) = Some l \<and> nID (node t' l) = j) \<longleftrightarrow>
      (\<exists>k r. gm_load (vcServers c) k = Some r \<and> nParent (node t r) = Some l \<and> nID (node t l) = j)" for j l
    using assms(3) by metis
  with assms show ?thesis by (simp add: vc_ok_def vc_members_ok_def vc_leaves_ok_def)
qed

lemma vcm_wf_topo:
  assumes "vcm_wf t m" and "\<And>v. registered m v \<Longrightarrow> vc_ok t (vc_at m v) \<Longrightarrow> vc_ok t' (vc_at m v)"
  shows "vcm_wf t' m"
proof -
  have "registered m v" if "gm_load (vmVcs m) c = Some v" for c v
    using assms(1) that by (auto simp: vcm_inv_def vcs_ok_def registered_def)
  with assms show ?thesis by (auto simp: vcm_inv_def vcs_ok_def)
qed

lemma server_removed_tree:
  assumes "server_removed t t' k r l ys zs"
  shows "nParent (node t' q) = nParent (node t q)" and "nID (node t' q) = nID (node t q)"
    and "nPort (node t' q) = nPort (node t q)" and "nHealthy (node t' q) = nHealthy (node t q)"
    and "nReady (node t' q) = nReady (node t q)" and "nAddress (node t' q) = nAddress (node t q)"
    and "q \<noteq> l \<Longrightarrow> worker_count (node t' q) = worker_count (node t q)"
proof -
  note e = assms [unfolded server_removed_def]
  consider "q = l" | "q \<in> set (ys @ zs)" "q \<noteq> l" | "q \<notin> set (l # ys @ zs)" by auto
  then have "nParent (node t' q) = nParent (node t q) \<and> nID (node t' q) = nID (node t q) \<and>
    nPort (node t' q) = nPort (node t q) \<and> nHealthy (node t' q) = nHealthy (node t q) \<and>
    nReady (node t' q) = nReady (node t q) \<and> nAddress (node t' q) = nAddress (node t q) \<and>
    (q \<noteq> l \<longrightarrow> worker_count (node t' q) = worker_count (node t q))"
  proof cases
    case 2
    with e obtain a b where "node t' q = (node t q)\<lparr>nFirstWorkerID := a, nLastWorkerID := b\<rparr>"
      "b - a = nLastWorkerID (node t q) - nFirstWorkerID (node t q)" by blast
    then show ?thesis by (simp add: worker_count_def)
  qed (use e in simp_all)
  then show "nParent (node t' q) = nParent (node t q)" and "nID (node t' q) = nID (node t q)"
    and "nPort (node t' q) = nPort (node t q)" and "nHealthy (node t' q) = nHealthy (node t q)"
    and "nReady (node t' q) = nReady (node t q)" and "nAddress (node t' q) = nAddress (node t q)"
    and "q \<noteq> l \<Longrightarrow> worker_count (node t' q) = worker_count (node t q)" by simp_all
qed

lemma sys_ok_server_removed:
  assumes ok: "sys_ok t m" and eff: "server_removed t t' k r l ys zs" and free: "server_unused m k"
  shows "sys_ok t' m"
proof -
  note wf = sys_okD(1) [OF ok]
  have "vc_ok t' (vc_at m v)" if reg: "registered m v" and c: "vc_ok t (vc_at m v)" for v
  proof (rule vc_ok_topo [OF c])
    show "tSpines t' = tSpines t" using server_removed_maps [OF eff] by simp
  next
    fix j q assume q: "gm_load (vcServers (vc_at m v)) j = Some q"
    with free reg have "j \<noteq> k" by (auto simp: server_unused_def)
    moreover have "gm_load (tServers t) j = Some q" using c q by (simp add: vc_ok_def vc_members_ok_def)
    ultimately show "gm_load (tServers t') j = Some q \<and> nParent (node t' q) = nParent (node t q) \<and>
        (\<forall>l. nParent (node t q) = Some l \<longrightarrow> nID (node t' l) = nID (node t l))"
      using eff by (simp add: server_removed_tree [OF eff] server_removed_def)
  qed
  then have "vcm_wf t' m" by (rule vcm_wf_topo [OF sys_okD(2) [OF ok]])
  then show ?thesis using server_removed_wf [OF wf eff]
    by (simp add: sys_ok_def)
qed

text \<open>The servers of a cluster that does not use a leaf hang elsewhere.\<close>

lemma leaf_free_server:
  assumes wf: "wf_topo t" and c: "vc_ok t c" and free: "gm_load (vcLeaves c) k = None"
    and l: "gm_load (tLeaves t) k = Some l" and q: "gm_load (vcServers c) j = Some q"
  shows "nParent (node t q) \<noteq> Some l"
proof
  assume "nParent (node t q) = Some l"
  moreover have "nID (node t l) = k" using wf_leaf [OF wf l] by (simp add: leaf_ok_def)
  ultimately have "gm_load (vcLeaves c) k = Some l" using c q by (auto simp: vc_ok_def vc_leaves_ok_def)
  with free show False by simp
qed

lemma sys_ok_leaf_removed:
  assumes ok: "sys_ok t m" and wf': "wf_topo t'" and eff: "leaf_removed t t' k l p ys zs" and free: "leaf_unused m k"
  shows "sys_ok t' m"
proof -
  note wf = sys_okD(1) [OF ok] and e = eff [unfolded leaf_removed_def]
  from e have l: "gm_load (tLeaves t) k = Some l" "nParent (node t l) = Some p"
    and split: "nChildren (node t p) = ys @ l # zs" by blast+
  note sp = spine_children_distinct [OF wf l split]
  have kids: "nParent (node t c) = Some l \<and> gm_load (tServers t) (nID (node t c)) = Some c"
    if "c \<in> set (nChildren (node t l))" for c
    using wf_leaf [OF wf l(1)] that by (simp add: leaf_ok_def)
  have fields: "nParent (node t' q) = nParent (node t q) \<and> nID (node t' q) = nID (node t q)"
    if "q \<noteq> l" "q \<notin> set (nChildren (node t l))" for q
  proof (cases "q = p \<or> q \<in> set zs")
    case True
    with e show ?thesis by auto
  next
    case False
    with e that show ?thesis by simp
  qed
  have "vc_ok t' (vc_at m v)" if reg: "registered m v" and c: "vc_ok t (vc_at m v)" for v
  proof (rule vc_ok_topo [OF c])
    show "tSpines t' = tSpines t" using leaf_removed_maps [OF eff] by simp
  next
    fix j q assume q: "gm_load (vcServers (vc_at m v)) j = Some q"
    have un: "gm_load (vcLeaves (vc_at m v)) k = None" using free reg by (simp add: leaf_unused_def)
    have par: "nParent (node t q) \<noteq> Some l" by (rule leaf_free_server [OF wf c un l(1) q])
    have srv: "gm_load (tServers t) j = Some q" using c q by (simp add: vc_ok_def vc_members_ok_def)
    then have q_ok: "nID (node t q) = j" "nType (node t q) = NodeType_Server"
      using wf_server [OF wf] by (auto simp: server_ok_def)
    have ql: "q \<noteq> l" "q \<notin> set (nChildren (node t l))"
      using q_ok(2) wf_leaf [OF wf l(1)] kids par by (auto simp: leaf_ok_def)
    have "j \<notin> (\<lambda>c. nID (node t c)) ` set (nChildren (node t l))"
      using kids srv ql(2) by auto
    then have "gm_load (tServers t') j = Some q" using e srv by simp
    moreover have "nID (node t' l') = nID (node t l')" if "nParent (node t q) = Some l'" for l'
    proof -
      have "nType (node t l') = NodeType_Leaf"
        using wf_parent [OF wf srv] that by (metis leaf_ok_def option.inject)
      moreover have "nType (node t c) = NodeType_Server" if "c \<in> set (nChildren (node t l))" for c
        using kids [OF that] wf_server [OF wf] by (auto simp: server_ok_def)
      ultimately have "l' \<notin> set (nChildren (node t l))" "l' \<noteq> l" using par that by auto
      then show ?thesis using fields by blast
    qed
    ultimately show "gm_load (tServers t') j = Some q \<and> nParent (node t' q) = nParent (node t q) \<and>
        (\<forall>l. nParent (node t q) = Some l \<longrightarrow> nID (node t' l) = nID (node t l))"
      using fields [OF ql] by simp
  qed
  then have "vcm_wf t' m" by (rule vcm_wf_topo [OF sys_okD(2) [OF ok]])
  then show ?thesis using wf' by (simp add: sys_ok_def)
qed

text \<open>Additions leave every cluster as it is.\<close>

lemma vcm_wf_frame:
  assumes wf: "wf_topo t" and m: "vcm_wf t m" and sp: "tSpines t' = tSpines t"
    and srv_keep: "\<And>k r. gm_load (tServers t) k = Some r \<Longrightarrow> gm_load (tServers t') k = Some r"
    and fields: "\<And>q. valid_node t q \<Longrightarrow> nParent (node t' q) = nParent (node t q) \<and> nID (node t' q) = nID (node t q)"
  shows "vcm_wf t' m"
proof (rule vcm_wf_topo [OF m])
  fix v assume c: "vc_ok t (vc_at m v)"
  show "vc_ok t' (vc_at m v)"
  proof (rule vc_ok_topo [OF c sp])
    fix j q assume "gm_load (vcServers (vc_at m v)) j = Some q"
    with c have srv: "gm_load (tServers t) j = Some q" by (simp add: vc_ok_def vc_members_ok_def)
    have "valid_node t q" using wf_server [OF wf srv] by (simp add: server_ok_def)
    moreover have "valid_node t l" if "nParent (node t q) = Some l" for l
      using wf_parent [OF wf srv] that by (metis leaf_ok_def option.inject)
    ultimately show "gm_load (tServers t') j = Some q \<and> nParent (node t' q) = nParent (node t q) \<and>
        (\<forall>l. nParent (node t q) = Some l \<longrightarrow> nID (node t' l) = nID (node t l))"
      using srv_keep [OF srv] fields by blast
  qed
qed

lemma sys_ok_AddServer:
  assumes ok: "sys_ok t m" and add: "AddServerToLeaf si lid t = Ret (t', res)"
  shows "sys_ok t' m"
proof (cases res)
  case (Inl e)
  with add AddServerToLeaf_error ok show ?thesis by blast
next
  case (Inr r)
  note wf = sys_okD(1) [OF ok]
  from AddServerToLeaf_effect [OF wf add [unfolded Inr]] obtain l p w where
    eff: "server_added t t' si lid l p w r" by blast
  note e = eff [unfolded server_added_def]
  have "vcm_wf t' m"
  proof (rule vcm_wf_frame [OF wf sys_okD(2) [OF ok]])
    show "tSpines t' = tSpines t" using server_added_maps [OF eff] by simp
    show "gm_load (tServers t') k = Some q" if "gm_load (tServers t) k = Some q" for k q using e that by auto
    show "nParent (node t' q) = nParent (node t q) \<and> nID (node t' q) = nID (node t q)" if "valid_node t q" for q
      using e that by (cases "q = l") simp_all
  qed
  with server_added_wf [OF wf eff] show ?thesis
    by (simp add: sys_ok_def)
qed

lemma sys_ok_AddLeaf:
  assumes ok: "sys_ok t m" and add: "AddLeafToSpine li t = Ret (t', res)"
  shows "sys_ok t' m"
proof (cases res)
  case (Inl e)
  with add AddLeafToSpine_error ok show ?thesis by blast
next
  case (Inr l)
  note wf = sys_okD(1) [OF ok]
  from AddLeafToSpine_effect [OF wf add [unfolded Inr]] obtain sp ds us where
    eff: "leaf_added t t' li sp ds us l" by blast
  note e = eff [unfolded leaf_added_def]
  have "vcm_wf t' m"
  proof (rule vcm_wf_frame [OF wf sys_okD(2) [OF ok]])
    show "tSpines t' = tSpines t" using leaf_added_maps [OF eff] by simp
    show "gm_load (tServers t') k = Some q" if "gm_load (tServers t) k = Some q" for k q
      using leaf_added_maps [OF eff] that by simp
    show "nParent (node t' q) = nParent (node t q) \<and> nID (node t' q) = nID (node t q)" if "valid_node t q" for q
      using e that by (cases "q = sp") simp_all
  qed
  with leaf_added_wf [OF wf eff] show ?thesis
    by (simp add: sys_ok_def)
qed

section \<open>What the callers rely on\<close>

text \<open>
  A server is taken out in two calls. The first leaves the topology alone and frees the server, the
  second leaves the clusters alone and unregisters a free server.
\<close>

locale server_failure =
  fixes detach :: "order \<Rightarrow> 't \<Rightarrow> u16 \<Rightarrow> 'm \<Rightarrow> ('m \<times> bool) go"
    and remove :: "u16 \<Rightarrow> 't \<Rightarrow> ('t \<times> bool \<times> 'n list) go"
    and inv :: "'t \<Rightarrow> 'm \<Rightarrow> bool"
    and known :: "'t \<Rightarrow> u16 \<Rightarrow> bool"
    and free :: "'m \<Rightarrow> u16 \<Rightarrow> bool"
  assumes detach_ok: "is_order ord \<Longrightarrow> inv t m \<Longrightarrow> \<exists>m' b. detach ord t k m = Ret (m', b) \<and> inv t m' \<and> free m' k"
    and detach_free: "is_order ord \<Longrightarrow> inv t m \<Longrightarrow> detach ord t k m = Ret (m', b) \<Longrightarrow> free m j \<Longrightarrow> free m' j"
    and remove_ok: "inv t m \<Longrightarrow> free m k \<Longrightarrow> \<exists>t' us. remove k t = Ret (t', known t k, us) \<and> inv t' m"
    and remove_known: "inv t m \<Longrightarrow> remove k t = Ret (t', b, us) \<Longrightarrow> known t' j \<longleftrightarrow> known t j \<and> j \<noteq> k"
begin

lemma fail_one:
  assumes "is_order ord" and "inv t m"
  shows "\<exists>m' t' b us. detach ord t k m = Ret (m', b) \<and> remove k t = Ret (t', known t k, us) \<and>
    inv t m' \<and> inv t' m' \<and> free m' k \<and> (\<forall>j. free m j \<longrightarrow> free m' j) \<and>
    (\<forall>j. known t' j \<longleftrightarrow> known t j \<and> j \<noteq> k)"
  using detach_ok [OF assms, of k] detach_free [OF assms] remove_ok remove_known by metis

text \<open>Failing one server after the other: the loop of the health manager.\<close>

lemma fail_all:
  assumes "is_order ord" and "inv t m"
  shows "\<exists>t' m'. go_fold (\<lambda>k (t, m). go_bind (detach ord t k m) (\<lambda>(m', _).
      go_bind (remove k t) (\<lambda>(t', _). Ret (t', m')))) ks (t, m) = Ret (t', m') \<and> inv t' m' \<and>
    (\<forall>j. known t' j \<longleftrightarrow> known t j \<and> j \<notin> set ks) \<and> (\<forall>k \<in> set ks. free m' k) \<and>
    (\<forall>j. free m j \<longrightarrow> free m' j)"
  using assms(2)
proof (induction ks arbitrary: t m)
  case (Cons k ks)
  from fail_one [OF assms(1) Cons.prems, of k] obtain m1 t1 b us where
    run: "detach ord t k m = Ret (m1, b)" "remove k t = Ret (t1, known t k, us)" and "inv t1 m1"
    and fr: "free m1 k" "\<forall>j. free m j \<longrightarrow> free m1 j" and kn: "\<forall>j. known t1 j \<longleftrightarrow> known t j \<and> j \<noteq> k" by blast
  from Cons.IH [OF \<open>inv t1 m1\<close>] obtain t' m' where
    "go_fold (\<lambda>k (t, m). go_bind (detach ord t k m) (\<lambda>(m', _).
      go_bind (remove k t) (\<lambda>(t', _). Ret (t', m')))) ks (t1, m1) = Ret (t', m')" "inv t' m'"
    "\<forall>j. known t' j \<longleftrightarrow> known t1 j \<and> j \<notin> set ks" "\<forall>k \<in> set ks. free m' k" "\<forall>j. free m1 j \<longrightarrow> free m' j"
    by blast
  with run fr kn show ?case by auto
qed simp

end

lemma DetachServer_frees:
  assumes ok: "sys_ok t m" and ord: "is_order ord"
  shows "\<exists>m'. DetachServer ord t k m =
      Ret (m', \<exists>v. registered m v \<and> gm_load (vcServers (vc_at m v)) k \<noteq> None) \<and> sys_ok t m' \<and>
    server_unused m' k \<and> (\<forall>j. server_unused m j \<longrightarrow> server_unused m' j)"
proof -
  from DetachServer_run [OF sys_okD(1) [OF ok] ord sys_okD(2) [OF ok], of k] obtain m' where
    run: "DetachServer ord t k m = Ret (m', \<exists>v. registered m v \<and> gm_load (vcServers (vc_at m v)) k \<noteq> None)"
    and inv: "vcm_wf t m'" and reg: "\<forall>v. registered m' v \<longrightarrow> registered m v"
    and mem: "\<forall>v. registered m' v \<longrightarrow> (\<forall>j. gm_load (vcServers (vc_at m' v)) j =
       (if j = k then None else gm_load (vcServers (vc_at m v)) j))" by blast
  have "sys_ok t m'" using ok inv by (simp add: sys_ok_def)
  moreover have "server_unused m' k" "\<forall>j. server_unused m j \<longrightarrow> server_unused m' j"
    using mem reg by (simp_all add: server_unused_def)
  ultimately show ?thesis using run by blast
qed

lemma RemoveServer_sys:
  assumes ok: "sys_ok t m" and free: "server_unused m k"
  shows "\<exists>t' us. RemoveServer k t = Ret (t', gm_load (tServers t) k \<noteq> None, us) \<and> sys_ok t' m"
  using sys_okD(1) [OF ok]
proof (cases rule: RemoveServer_cases [where k = k])
  case unknown
  with ok show ?thesis by simp
next
  case (removed r l ys zs t')
  with sys_ok_server_removed [OF ok removed(1) free] show ?thesis by (simp add: server_removed_def)
qed

lemma RemoveServer_known:
  assumes ok: "sys_ok t m" and run: "RemoveServer k t = Ret (t', b, us)"
  shows "gm_load (tServers t') j \<noteq> None \<longleftrightarrow> gm_load (tServers t) j \<noteq> None \<and> j \<noteq> k"
  using sys_okD(1) [OF ok]
proof (cases rule: RemoveServer_cases [where k = k])
  case unknown
  with run show ?thesis by auto
next
  case (removed r l ys zs s')
  with run show ?thesis by (auto simp: server_removed_def)
qed

interpretation sf: server_failure DetachServer RemoveServer sys_ok
  "\<lambda>t k. gm_load (tServers t) k \<noteq> None" server_unused
proof unfold_locales
  fix ord t m k assume "is_order ord" "sys_ok t m"
  with DetachServer_frees show "\<exists>m' b. DetachServer ord t k m = Ret (m', b) \<and> sys_ok t m' \<and> server_unused m' k"
    by blast
next
  fix ord t m k m' b j
  assume "is_order ord" "sys_ok t m" "DetachServer ord t k m = Ret (m', b)" "server_unused m j"
  then show "server_unused m' j" using DetachServer_frees [of t m ord k] by auto
qed (rule RemoveServer_sys RemoveServer_known; assumption)+

lemma FailLeaf_run:
  assumes ok: "sys_ok t m" and ord: "is_order ord" and l: "gm_load (tLeaves t) k = Some l"
  shows "\<exists>m' t' p ys zs. DetachLeaf ord t k m = Ret (m', True) \<and>
    RemoveLeaf k t = Some (Ret (t', int (length ys), zs)) \<and> sys_ok t' m' \<and> leaf_unused m' k \<and>
    leaf_removed t t' k l p ys zs"
proof -
  note wf = sys_okD(1) [OF ok]
  from DetachLeaf_run [OF wf ord sys_okD(2) [OF ok], of k] obtain m' where
    m': "DetachLeaf ord t k m = Ret (m', True)" "vcm_wf t m'" "leaf_unused m' k"
    unfolding leaf_unused_def by blast
  then have ok': "sys_ok t m'" using ok by (simp add: sys_ok_def)
  from wf_leaf_parent [OF wf l] obtain p where p: "nParent (node t l) = Some p" "l \<in> set (nChildren (node t p))"
    by blast
  from p(2) obtain ys zs where split: "nChildren (node t p) = ys @ l # zs" by (metis split_list)
  from RemoveLeaf_removed [OF wf l p(1) split] obtain t' where
    t': "RemoveLeaf k t = Some (Ret (t', int (length ys), zs))" "wf_topo t'" "leaf_removed t t' k l p ys zs"
    by blast
  from sys_ok_leaf_removed [OF ok' t'(2,3) m'(3)] m' t' show ?thesis by blast
qed

end
