(* ===== verification/Health.thy ===== *)
theory Health
  imports Fail_Over
begin

text \<open>
  The health manager of a leaf (core/leafHealthManager.go, core/healthManagerMsg.go). Servers ping
  their leaf; a server that was healthy and has been silent for the time-out is taken out of the
  clusters and the topology, and the servers whose worker IDs changed are sent to the event loop of
  the leaf. The empty spine health manager (core/spineHealthManager.go) has the same shape.

  Times are nanoseconds since the zero time of Go; the clock is an input of each round.
\<close>

section \<open>State and messages\<close>

record LeafHealthMsg =
  lhSuccess :: bool
  lhUpdated :: "nref list"

definition NewLeafHealthMsg :: "bool \<Rightarrow> nref list \<Rightarrow> LeafHealthMsg" where
  "NewLeafHealthMsg success updated = \<lparr>lhSuccess = success, lhUpdated = updated\<rparr>"

datatype SpineHealthMsg = SpineHealthMsg (shSuccess: bool)

definition NewSpineHealthMsg :: "bool \<Rightarrow> SpineHealthMsg" where
  "NewSpineHealthMsg success = SpineHealthMsg success"

text \<open>
  The channel \<open>hmEgress\<close> is the list of the messages sent to it. A \<open>time.Duration\<close> is a signed
  64-bit number.
\<close>

record LeafHealthManager =
  hmEgress :: "LeafHealthMsg list"
  hmLeaf :: nref
  hmTopology :: Topology
  hmVcMgr :: VCManager
  hmTimeOut :: u64

definition NewLeafHealthManager ::
  "u16 \<Rightarrow> Topology \<Rightarrow> VCManager \<Rightarrow> u64 \<Rightarrow> go_error + LeafHealthManager" where
  "NewLeafHealthManager leafID t m healthyNodeTimeOut =
     (case NodeMap_Load (tLeaves t) leafID of
        None \<Rightarrow> Inl (ErrNoLeaf leafID)
      | Some leaf \<Rightarrow> Inr \<lparr>hmEgress = [], hmLeaf = leaf, hmTopology = t, hmVcMgr = m,
                         hmTimeOut = healthyNodeTimeOut * 1000000\<rparr>)"

record SpineHealthManager =
  shEgress :: "SpineHealthMsg list"
  shTopology :: Topology
  shVcMgr :: VCManager

definition NewSpineHealthManager :: "Topology \<Rightarrow> VCManager \<Rightarrow> u64 \<Rightarrow> go_error + SpineHealthManager" where
  "NewSpineHealthManager t m healthyNodeTimeOut =
     Inr \<lparr>shEgress = [], shTopology = t, shVcMgr = m\<rparr>"

definition OnLeafFailed :: "u16 \<Rightarrow> SpineHealthManager \<Rightarrow> SpineHealthManager" where
  "OnLeafFailed leafID hm = hm"

section \<open>Pings\<close>

definition OnNodePingRecv :: "int \<Rightarrow> u16 \<Rightarrow> u16 \<Rightarrow> LeafHealthManager \<Rightarrow> LeafHealthManager" where
  "OnNodePingRecv now serverId portId hm =
     (case NodeMap_Load (tServers (hmTopology hm)) serverId of
        None \<Rightarrow> hm
      | Some server \<Rightarrow>
          hm\<lparr>hmTopology := upd_node server
               (\<lambda>n. n\<lparr>nLastPingTime := now, nHealthy := True, nReady := True\<rparr>) (hmTopology hm)\<rparr>)"

section \<open>Failed servers\<close>

text \<open>The loop state is the topology, the clusters and the map \<open>updatedMap\<close>.\<close>

definition process_failed ::
  "order \<Rightarrow> nref \<Rightarrow> Topology \<times> VCManager \<times> NodeMap \<Rightarrow> (Topology \<times> VCManager \<times> NodeMap) go" where
  "process_failed ord server st =
     (case st of (t, m, updatedMap) \<Rightarrow>
       let serverID = nID (node t server);
           updatedMap = NodeMap_Delete serverID updatedMap
       in go_bind (DetachServer ord t serverID m) (\<lambda>(m', _).
          go_bind (RemoveServer serverID t) (\<lambda>(t', _, us).
            Ret (t', m', fold (\<lambda>s. NodeMap_Store (nID (node t' s)) s) us updatedMap))))"

definition processFailedNodes :: "order \<Rightarrow> nref list \<Rightarrow> LeafHealthManager \<Rightarrow> LeafHealthManager go" where
  "processFailedNodes ord nodes hm =
     go_bind (go_fold (process_failed ord) nodes (hmTopology hm, hmVcMgr hm, gm_empty))
       (\<lambda>(t, m, updatedMap).
         let updated = map snd (go_range ord updatedMap);
             hm' = hm\<lparr>hmTopology := t, hmVcMgr := m\<rparr>
         in Ret (if length updated > 0
                 then hm'\<lparr>hmEgress := hmEgress hm' @ [NewLeafHealthMsg True updated]\<rparr>
                 else hm'))"

section \<open>One round\<close>

text \<open>\<open>time.Since\<close> saturates at the limits of a 64-bit duration.\<close>

definition time_Since :: "int \<Rightarrow> int \<Rightarrow> int" where
  "time_Since now start = max (- (2 ^ 63)) (min (2 ^ 63 - 1) (now - start))"

definition timed_out :: "u64 \<Rightarrow> int \<Rightarrow> Node \<Rightarrow> bool" where
  "timed_out timeOut now n \<longleftrightarrow> time_Since now (nLastPingTime n) \<ge> sint timeOut \<and> nHealthy n \<and> nReady n"

text \<open>\<open>clock\<close> gives the time that is read when a server is visited.\<close>

definition check_server ::
  "u64 \<Rightarrow> (nref \<Rightarrow> int) \<Rightarrow> nref \<Rightarrow> Topology \<times> nref list \<Rightarrow> Topology \<times> nref list" where
  "check_server timeOut clock server st =
     (case st of (t, failedServers) \<Rightarrow>
       if timed_out timeOut (clock server) (node t server)
       then (upd_node server (\<lambda>n. n\<lparr>nHealthy := False, nReady := False\<rparr>) t, failedServers @ [server])
       else (t, failedServers))"

definition processNodes_round ::
  "order \<Rightarrow> (nref \<Rightarrow> int) \<Rightarrow> LeafHealthManager \<Rightarrow> LeafHealthManager go" where
  "processNodes_round ord clock hm =
     (case fold (check_server (hmTimeOut hm) clock) (nChildren (node (hmTopology hm) (hmLeaf hm)))
             (hmTopology hm, []) of
        (t, failedServers) \<Rightarrow> processFailedNodes ord failedServers (hm\<lparr>hmTopology := t\<rparr>))"

text \<open>The loop of \<open>processNodes\<close>: rounds until the channel \<open>DoneChan\<close> delivers.\<close>

fun processNodes :: "(order \<times> (nref \<Rightarrow> int)) list \<Rightarrow> LeafHealthManager \<Rightarrow> LeafHealthManager go" where
  "processNodes [] hm = Ret hm"
| "processNodes ((ord, clock) # rounds) hm =
     go_bind (processNodes_round ord clock hm) (processNodes rounds)"

end
