(* ===== verification/Health_Correct.thy ===== *)
theory Health_Correct
  imports Health
begin

text \<open>
  The properties of the health manager of a leaf: which servers a round takes out, what is left of the
  topology and the clusters, and what the message to the event loop contains.
\<close>

section \<open>The loop over the failed servers\<close>

text \<open>What holds after the servers \<open>D\<close> of leaf \<open>l\<close> have been processed.\<close>

definition failed_done :: "Topology \<Rightarrow> nref \<Rightarrow> nref list \<Rightarrow> Topology \<times> VCManager \<times> NodeMap \<Rightarrow> bool" where
  "failed_done t0 l D st \<longleftrightarrow> (case st of (t, m, U) \<Rightarrow>
     sys_ok t m \<and> workers_ok t l \<and> gm_wf U \<and> tLeaves t = tLeaves t0 \<and> tSpines t = tSpines t0 \<and>
     nChildren (node t l) = filter (\<lambda>c. c \<notin> set D) (nChildren (node t0 l)) \<and>
     (\<forall>q. nID (node t q) = nID (node t0 q) \<and> nHealthy (node t q) = nHealthy (node t0 q) \<and>
        nReady (node t q) = nReady (node t0 q)) \<and>
     (\<forall>j. gm_load (tServers t) j =
        (if j \<in> (\<lambda>c. nID (node t0 c)) ` set D then None else gm_load (tServers t0) j)) \<and>
     (\<forall>j c. gm_load U j = Some c \<longrightarrow> nID (node t0 c) = j \<and> c \<in> set (nChildren (node t l))) \<and>
     (\<forall>c. c \<noteq> l \<longrightarrow> c \<notin> set D \<longrightarrow> gm_load U (nID (node t0 c)) \<noteq> Some c \<longrightarrow> node t c = node t0 c) \<and>
     (\<forall>c \<in> set D. server_unused m (nID (node t0 c))) \<and>
     tHw t = tHw t0 \<and> (\<forall>q. nAddress (node t q) = nAddress (node t0 q) \<and> nPort (node t q) = nPort (node t0 q)) \<and>
     (\<forall>q. q \<noteq> l \<longrightarrow> worker_count (node t q) = worker_count (node t0 q)))"

lemma load_store_nodes:
  assumes "inj_on f (set cs)"
  shows "gm_load (fold (\<lambda>c. gm_store (f c) c) cs m) j = Some d \<longleftrightarrow>
    d \<in> set cs \<and> f d = j \<or> j \<notin> f ` set cs \<and> gm_load m j = Some d"
  using assms by (induction cs arbitrary: m) (auto simp: inj_on_def)

lemma wf_store_nodes: "gm_wf m \<Longrightarrow> gm_wf (fold (\<lambda>c. gm_store (f c) c) cs m)"
  by (rule fold_inv) simp_all

lemma NodeMap_Store_fun: "NodeMap_Store j = gm_store j"
  by (simp add: fun_eq_iff)

lemma process_failed_step:
  assumes ord: "is_order ord" and l: "gm_load (tLeaves t0) k0 = Some l"
    and inv: "failed_done t0 l D (t, m, U)" and x: "x \<in> set (nChildren (node t0 l))" "x \<notin> set D"
  shows "\<exists>st. process_failed ord x (t, m, U) = Ret st \<and> failed_done t0 l (D @ [x]) st"
proof -
  define k where "k = nID (node t x)"
  note i = inv [unfolded failed_done_def split]
  from i have ok: "sys_ok t m" and wk: "workers_ok t l" and tl: "tLeaves t = tLeaves t0"
    and ch: "nChildren (node t l) = filter (\<lambda>c. c \<notin> set D) (nChildren (node t0 l))"
    and idq: "\<And>q. nID (node t q) = nID (node t0 q)" and U: "gm_wf U"
    and inU: "\<And>j c. gm_load U j = Some c \<Longrightarrow> nID (node t0 c) = j \<and> c \<in> set (nChildren (node t l))"
    and same: "\<And>c. c \<noteq> l \<Longrightarrow> c \<notin> set D \<Longrightarrow> gm_load U (nID (node t0 c)) \<noteq> Some c \<Longrightarrow> node t c = node t0 c"
    and srv: "\<And>j. gm_load (tServers t) j =
        (if j \<in> (\<lambda>c. nID (node t0 c)) ` set D then None else gm_load (tServers t0) j)" by blast+
  note wf = sys_okD(1) [OF ok]
  have lt: "gm_load (tLeaves t) k0 = Some l" using l tl by simp
  have xl: "x \<in> set (nChildren (node t l))" using x ch by simp
  have reg: "gm_load (tServers t) k = Some x" and par: "nParent (node t x) = Some l"
    using wf_leaf [OF wf lt] xl by (simp_all add: leaf_ok_def k_def)
  from DetachServer_frees [OF ok ord, of k] obtain m' where
    m': "\<exists>b. DetachServer ord t k m = Ret (m', b)" "sys_ok t m'" "server_unused m' k"
      "\<And>j. server_unused m j \<Longrightarrow> server_unused m' j" by blast
  from wf show ?thesis
  proof (cases rule: RemoveServer_cases [where k = k])
    case (removed x' l' ys zs t')
    then have eff: "server_removed t t' k x l ys zs"
      using reg par by (auto simp: server_removed_def)
    note e = eff [unfolded server_removed_def] and tr = server_removed_tree [OF eff]
    have split: "nChildren (node t l) = ys @ x # zs" and ch': "nChildren (node t' l) = ys @ zs" using e by simp_all
    have dist: "distinct (ys @ x # zs)" using wf_leaf [OF wf lt] split by (simp add: leaf_ok_def)
    have inj: "inj_on (\<lambda>c. nID (node t0 c)) (set (ys @ x # zs))"
      using wf_child_inj [OF wf lt] split idq by (auto simp: inj_on_def)
    define U' where "U' = fold (\<lambda>s. gm_store (nID (node t0 s)) s) zs (gm_delete k U)"
    have U': "gm_load U' j = Some d \<longleftrightarrow> d \<in> set zs \<and> nID (node t0 d) = j \<or>
        j \<notin> (\<lambda>c. nID (node t0 c)) ` set zs \<and> j \<noteq> k \<and> gm_load U j = Some d" for j d
      unfolding U'_def by (subst load_store_nodes) (use inj in \<open>auto simp: inj_on_def\<close>)
    have k0: "k = nID (node t0 x)" by (simp add: k_def idq)
    have run: "process_failed ord x (t, m, U) = Ret (t', m', U')"
    proof -
      from m'(1) obtain b where "DetachServer ord t k m = Ret (m', b)" by blast
      then show ?thesis using removed(2)
        by (simp add: NodeMap_Store_fun process_failed_def Let_def k0 [symmetric] U'_def tr(2) idq)
    qed
    have "failed_done t0 l (D @ [x]) (t', m', U')"
      unfolding failed_done_def split_conv
    proof (intro conjI allI impI ballI)
      show "sys_ok t' m'" by (rule sys_ok_server_removed [OF m'(2) eff m'(3)])
      show "workers_ok t' l" by (rule server_removed_workers(1) [OF wf eff])
      show "gm_wf U'" unfolding U'_def by (rule wf_store_nodes) (simp add: U)
      show "tLeaves t' = tLeaves t0" "tSpines t' = tSpines t0" "tHw t' = tHw t0"
        using server_removed_maps [OF eff] i by simp_all
      have "ys @ zs = filter (\<lambda>c. c \<noteq> x) (ys @ x # zs)" using dist by simp
      then show "nChildren (node t' l) = filter (\<lambda>c. c \<notin> set (D @ [x])) (nChildren (node t0 l))"
      proof -
        assume "ys @ zs = filter (\<lambda>c. c \<noteq> x) (ys @ x # zs)"
        also have "\<dots> = filter (\<lambda>c. c \<noteq> x) (filter (\<lambda>c. c \<notin> set D) (nChildren (node t0 l)))"
          using ch split by simp
        also have "\<dots> = filter (\<lambda>c. c \<notin> set (D @ [x])) (nChildren (node t0 l))"
          unfolding filter_filter by (rule filter_cong) auto
        finally show ?thesis using ch' by simp
      qed
    next
      fix j
      show "gm_load (tServers t') j =
          (if j \<in> (\<lambda>c. nID (node t0 c)) ` set (D @ [x]) then None else gm_load (tServers t0) j)"
        using e srv [of j] k0 by (auto split: if_splits)
    next
      fix q
      show "nID (node t' q) = nID (node t0 q)" "nHealthy (node t' q) = nHealthy (node t0 q)"
        "nReady (node t' q) = nReady (node t0 q)" "nAddress (node t' q) = nAddress (node t0 q)"
        "nPort (node t' q) = nPort (node t0 q)" using i by (simp_all add: tr)
      show "worker_count (node t' q) = worker_count (node t0 q)" if "q \<noteq> l" using i that by (simp add: tr)
    next
      fix j c assume c: "gm_load U' j = Some c"
      then show "nID (node t0 c) = j" using U' inU by blast
      from c consider "c \<in> set zs" | "gm_load U j = Some c" "j \<noteq> k" using U' by blast
      then show "c \<in> set (nChildren (node t' l))"
      proof cases
        case 2
        with inU have "c \<in> set (ys @ x # zs)" "nID (node t0 c) = j" using split by auto
        with 2 k0 show ?thesis using ch' by auto
      qed (simp add: ch')
    next
      fix c assume c: "c \<noteq> l" "c \<notin> set (D @ [x])" "gm_load U' (nID (node t0 c)) \<noteq> Some c"
      have czs: "c \<notin> set zs" using c(3) U' by blast
      have "gm_load U (nID (node t0 c)) \<noteq> Some c"
      proof
        assume a: "gm_load U (nID (node t0 c)) = Some c"
        then have mem: "c \<in> set (ys @ x # zs)" using inU split by auto
        then have "nID (node t0 c) \<noteq> k" using inj c(2) k0 by (auto simp: inj_on_def)
        moreover have "nID (node t0 c) \<notin> (\<lambda>c. nID (node t0 c)) ` set zs"
          using inj mem czs by (auto simp: inj_on_def)
        ultimately show False using c(3) U' a by blast
      qed
      then have "node t c = node t0 c" using same c by simp
      moreover have "node t' c = node t c"
      proof (cases "c \<in> set ys")
        case True
        then show ?thesis by (rule server_removed_prefix [OF wk eff])
      next
        case False
        with e c(1) czs show ?thesis by simp
      qed
      ultimately show "node t' c = node t0 c" by simp
    next
      fix c assume "c \<in> set (D @ [x])"
      then show "server_unused m' (nID (node t0 c))" using i m' k0 by auto
    qed
    with run show ?thesis by blast
  qed (use reg in simp)
qed

lemma process_failed_loop:
  assumes ord: "is_order ord" and l: "gm_load (tLeaves t0) k0 = Some l"
    and "failed_done t0 l D st" and "set xs \<subseteq> set (nChildren (node t0 l))" and "distinct (D @ xs)"
  shows "\<exists>st'. go_fold (process_failed ord) xs st = Ret st' \<and> failed_done t0 l (D @ xs) st'"
  using assms(3-)
proof (induction xs arbitrary: D st)
  case (Cons x xs)
  obtain t m U where st: "st = (t, m, U)" by (cases st)
  from process_failed_step [OF ord l, of D t m U x] Cons.prems obtain st1 where
    1: "process_failed ord x st = Ret st1" "failed_done t0 l (D @ [x]) st1" unfolding st by auto
  from Cons.IH [OF 1(2)] Cons.prems obtain st' where
    "go_fold (process_failed ord) xs st1 = Ret st'" "failed_done t0 l (D @ x # xs) st'" by auto
  with 1 show ?case by auto
qed simp

lemma failed_done_init:
  "sys_ok t m \<Longrightarrow> workers_ok t l \<Longrightarrow> failed_done t l [] (t, m, gm_empty)"
  by (simp add: failed_done_def)

section \<open>The scan of a round\<close>

text \<open>The scan marks the servers that timed out, and nothing else.\<close>

definition marked :: "Topology \<Rightarrow> nref set \<Rightarrow> Topology \<Rightarrow> bool" where
  "marked t F t' \<longleftrightarrow> t'\<lparr>tNodes := []\<rparr> = t\<lparr>tNodes := []\<rparr> \<and> (\<forall>q. valid_node t' q \<longleftrightarrow> valid_node t q) \<and>
     (\<forall>q. valid_node t q \<longrightarrow>
        node t' q = (if q \<in> F then (node t q)\<lparr>nHealthy := False, nReady := False\<rparr> else node t q))"

lemma check_server_scan:
  assumes "marked t F s" and "\<forall>c \<in> set cs. valid_node t c" and "distinct cs" and "F \<inter> set cs = {}"
  shows "\<exists>s'. fold (check_server to clock) cs (s, fs) =
      (s', fs @ filter (\<lambda>c. timed_out to (clock c) (node t c)) cs) \<and>
    marked t (F \<union> {c \<in> set cs. timed_out to (clock c) (node t c)}) s'"
  using assms
proof (induction cs arbitrary: F s fs)
  case (Cons c cs)
  then have c: "node s c = node t c" "valid_node t c" "c \<notin> F" by (auto simp: marked_def)
  show ?case
  proof (cases "timed_out to (clock c) (node t c)")
    case True
    define s1 where "s1 = upd_node c (\<lambda>n. n\<lparr>nHealthy := False, nReady := False\<rparr>) s"
    have "marked t (insert c F) s1"
      using Cons.prems(1) c by (auto simp: marked_def s1_def ns.get_upd)
    moreover have "insert c F \<inter> set cs = {}" using Cons.prems(3,4) by auto
    ultimately obtain s' where "fold (check_server to clock) cs (s1, fs @ [c]) =
        (s', (fs @ [c]) @ filter (\<lambda>c. timed_out to (clock c) (node t c)) cs)"
      "marked t (insert c F \<union> {c \<in> set cs. timed_out to (clock c) (node t c)}) s'"
      using Cons.IH [of "insert c F" s1 "fs @ [c]"] Cons.prems by auto
    moreover have "insert c F \<union> {c \<in> set cs. timed_out to (clock c) (node t c)} =
        F \<union> {d \<in> set (c # cs). timed_out to (clock d) (node t d)}" using True by auto
    moreover have "check_server to clock c (s, fs) = (s1, fs @ [c])"
      using True by (simp add: check_server_def c(1) s1_def)
    ultimately show ?thesis using True by auto
  next
    case False
    then have "{d \<in> set (c # cs). timed_out to (clock d) (node t d)} =
        {d \<in> set cs. timed_out to (clock d) (node t d)}" by auto
    with Cons.IH [of F s fs] Cons.prems False show ?thesis by (auto simp: check_server_def c(1))
  qed
qed simp

lemma marked_maps:
  "marked t F t' \<Longrightarrow> tServers t' = tServers t \<and> tLeaves t' = tLeaves t \<and> tSpines t' = tSpines t"
  by (cases t; cases t') (simp add: marked_def)

lemma marked_node:
  "marked t F t' \<Longrightarrow> valid_node t q \<Longrightarrow>
     node t' q = (if q \<in> F then (node t q)\<lparr>nHealthy := False, nReady := False\<rparr> else node t q)"
  by (simp add: marked_def)

text \<open>Marks are outside of everything the other invariants speak about.\<close>

lemma sys_ok_same_tree:
  assumes ok: "sys_ok t m" and maps: "tServers t' = tServers t" "tLeaves t' = tLeaves t" "tSpines t' = tSpines t"
    and valid: "\<And>q. valid_node t' q \<longleftrightarrow> valid_node t q"
    and frame: "\<And>q. valid_node t q \<Longrightarrow> tree (node t' q) = tree (node t q)"
  shows "sys_ok t' m"
proof -
  note wf = sys_okD(1) [OF ok]
  have "wf_topo t'" by (rule wf_same_tree [OF wf]) (use frame valid maps in auto)
  moreover have "vcm_wf t' m"
    by (rule vcm_wf_frame [OF wf sys_okD(2) [OF ok]]) (use frame maps in \<open>auto simp: tree_eq_iff\<close>)
  ultimately show ?thesis by (simp add: sys_ok_def)
qed

lemma marked_sys_ok:
  assumes ok: "sys_ok t m" and mk: "marked t F t'"
  shows "sys_ok t' m"
proof (rule sys_ok_same_tree [OF ok])
  show "tServers t' = tServers t" "tLeaves t' = tLeaves t" "tSpines t' = tSpines t"
    using marked_maps [OF mk] by simp_all
  show "valid_node t' q \<longleftrightarrow> valid_node t q" for q using mk by (simp add: marked_def)
  show "tree (node t' q) = tree (node t q)" if "valid_node t q" for q
    using marked_node [OF mk that] by (simp add: tree_eq_iff)
qed

lemma workers_ok_fields:
  assumes "nChildren (node t' l) = nChildren (node t l)"
    and "\<And>q. q \<in> set (l # nChildren (node t l)) \<Longrightarrow> nFirstWorkerID (node t' q) = nFirstWorkerID (node t q) \<and>
      nLastWorkerID (node t' q) = nLastWorkerID (node t q)"
  shows "workers_ok t' l \<longleftrightarrow> workers_ok t l"
proof -
  have "layout w (map (node t') cs) \<longleftrightarrow> layout w (map (node t) cs)" if "set cs \<subseteq> set (nChildren (node t l))" for w cs
    using that assms(2) by (induction cs arbitrary: w) auto
  moreover have "total_workers t' (nChildren (node t l)) = total_workers t (nChildren (node t l))"
    unfolding total_workers_def
    by (intro arg_cong [where f = sum_list] map_cong) (use assms(2) in \<open>auto simp: worker_count_def\<close>)
  ultimately show ?thesis using assms by (simp add: workers_ok_def)
qed

section \<open>The properties\<close>

text \<open>One round from a good state; the parts the properties below put together.\<close>

lemma round_run:
  fixes clock
  assumes ok: "sys_ok t m" and l: "gm_load (tLeaves t) k = Some l" and wk: "workers_ok t l" and ord: "is_order ord"
    and hm: "hmTopology hm = t" "hmVcMgr hm = m" "hmLeaf hm = l"
  defines "F \<equiv> filter (\<lambda>c. timed_out (hmTimeOut hm) (clock c) (node t c)) (nChildren (node t l))"
  shows "\<exists>t1 t' m' U. marked t (set F) t1 \<and> failed_done t1 l F (t', m', U) \<and>
    nChildren (node t1 l) = nChildren (node t l) \<and>
    processNodes_round ord clock hm = Ret (hm\<lparr>hmTopology := t', hmVcMgr := m',
      hmEgress := hmEgress hm @ (if U = [] then [] else [NewLeafHealthMsg True (map snd (go_range ord U))])\<rparr>)"
proof -
  note wf = sys_okD(1) [OF ok]
  have lok: "leaf_ok t k l" by (rule wf_leaf [OF wf l])
  have kids: "\<forall>c \<in> set (nChildren (node t l)). valid_node t c \<and> c \<noteq> l" "distinct (nChildren (node t l))"
    "valid_node t l"
    using wf_child(3,4) [OF wf l] lok by (auto simp: leaf_ok_def)
  have m0: "marked t {} t" by (simp add: marked_def)
  have setF: "set F = {c \<in> set (nChildren (node t l)). timed_out (hmTimeOut hm) (clock c) (node t c)}"
    by (auto simp: F_def)
  from check_server_scan [OF m0, of "nChildren (node t l)" "hmTimeOut hm" clock "[]"] kids obtain t1 where
    scan: "fold (check_server (hmTimeOut hm) clock) (nChildren (node t l)) (t, []) = (t1, F)"
    and mk: "marked t (set F) t1" unfolding setF F_def by auto
  have ok1: "sys_ok t1 m" by (rule marked_sys_ok [OF ok mk])
  have nl: "node t1 l = node t l" using marked_node [OF mk kids(3)] kids(1) by (auto simp: F_def)
  have "workers_ok t1 l \<longleftrightarrow> workers_ok t l"
    by (rule workers_ok_fields) (use nl marked_node [OF mk] kids in auto)
  with wk have wk1: "workers_ok t1 l" by simp
  have l1: "gm_load (tLeaves t1) k = Some l" using marked_maps [OF mk] l by simp
  have F: "set F \<subseteq> set (nChildren (node t1 l))" "distinct F" using kids(2) nl by (auto simp: F_def)
  from process_failed_loop [OF ord l1 failed_done_init [OF ok1 wk1], of F] F obtain t' m' U where
    run: "go_fold (process_failed ord) F (t1, m, gm_empty) = Ret (t', m', U)"
    and fd: "failed_done t1 l F (t', m', U)" by auto
  have "go_range ord U = [] \<longleftrightarrow> U = []" using ord by (metis length_0_conv length_go_range)
  then have "processNodes_round ord clock hm = Ret (hm\<lparr>hmTopology := t', hmVcMgr := m',
      hmEgress := hmEgress hm @ (if U = [] then [] else [NewLeafHealthMsg True (map snd (go_range ord U))])\<rparr>)"
    using scan run by (simp add: processNodes_round_def hm processFailedNodes_def Let_def)
  with mk fd nl show ?thesis by (intro exI [of _ t1] exI [of _ t'] exI [of _ m'] exI [of _ U]) simp
qed

text \<open>The servers that are left.\<close>

lemma failed_servers_gone:
  assumes ok: "sys_ok (hmTopology hm) (hmVcMgr hm)" and l: "gm_load (tLeaves (hmTopology hm)) k = Some (hmLeaf hm)"
    and mk: "marked (hmTopology hm) (set (filter (\<lambda>c. timed_out (hmTimeOut hm) (clock c) (node (hmTopology hm) c))
      (nChildren (node (hmTopology hm) (hmLeaf hm))))) t1"
    and fd: "failed_done t1 (hmLeaf hm) (filter (\<lambda>c. timed_out (hmTimeOut hm) (clock c) (node (hmTopology hm) c))
      (nChildren (node (hmTopology hm) (hmLeaf hm)))) (t', m', U)"
  shows "gm_load (tServers t') j = Some r \<longleftrightarrow> gm_load (tServers (hmTopology hm)) j = Some r \<and>
    \<not> (nParent (node (hmTopology hm) r) = Some (hmLeaf hm) \<and> timed_out (hmTimeOut hm) (clock r) (node (hmTopology hm) r))"
proof -
  let ?t = "hmTopology hm" and ?l = "hmLeaf hm"
  let ?F = "filter (\<lambda>c. timed_out (hmTimeOut hm) (clock c) (node ?t c)) (nChildren (node ?t ?l))"
  note wf = sys_okD(1) [OF ok] and f = fd [unfolded failed_done_def split_conv]
  have kid: "c \<in> set (nChildren (node ?t ?l)) \<longleftrightarrow> nParent (node ?t c) = Some ?l"
    if "gm_load (tServers ?t) j = Some c" for j c
    using wf_parent [OF wf that] wf_leaf [OF wf l] by (metis leaf_ok_def option.inject)
  have ids: "nID (node t1 c) = nID (node ?t c)" if "c \<in> set ?F" for c
    using marked_node [OF mk] wf_child(3) [OF wf l, of c] that by simp
  have srv: "gm_load (tServers ?t) (nID (node ?t c)) = Some c" if "c \<in> set ?F" for c
    using wf_child(1) [OF wf l, of c] that by simp
  have id: "nID (node ?t r) = j" if "gm_load (tServers ?t) j = Some r" for j r
    by (rule wf_server_id [OF wf that])
    have img: "(\<lambda>c. nID (node t1 c)) ` set ?F = (\<lambda>c. nID (node ?t c)) ` set ?F" using ids by (rule image_cong [OF refl])
    have "gm_load (tServers t') j = (if j \<in> (\<lambda>c. nID (node ?t c)) ` set ?F then None else gm_load (tServers ?t) j)"
      using f marked_maps [OF mk] unfolding img by simp
    moreover have "j \<in> (\<lambda>c. nID (node ?t c)) ` set ?F \<longleftrightarrow> r \<in> set ?F" if r: "gm_load (tServers ?t) j = Some r"
    proof
      assume "j \<in> (\<lambda>c. nID (node ?t c)) ` set ?F"
      then obtain c where "c \<in> set ?F" "nID (node ?t c) = j" by blast
      with srv [OF this(1)] r show "r \<in> set ?F" by (metis option.inject)
    next
      assume "r \<in> set ?F"
      with id [OF r] show "j \<in> (\<lambda>c. nID (node ?t c)) ` set ?F" by blast
    qed
    ultimately show ?thesis using kid [of j r] by auto
qed

text \<open>
  C7: A round of the health manager of a leaf returns, and takes out exactly the servers of the leaf that
  were healthy and silent for the time-out: they leave the topology and every cluster, the other servers
  stay registered, and the invariants of the topology, of the clusters and of the worker IDs still hold.
\<close>

theorem health_round_correct:
  assumes "sys_ok (hmTopology hm) (hmVcMgr hm)" and "gm_load (tLeaves (hmTopology hm)) k = Some (hmLeaf hm)"
    and "workers_ok (hmTopology hm) (hmLeaf hm)" and "is_order ord"
  shows "\<exists>hm'. processNodes_round ord clock hm = Ret hm' \<and> sys_ok (hmTopology hm') (hmVcMgr hm') \<and>
    workers_ok (hmTopology hm') (hmLeaf hm) \<and> hmLeaf hm' = hmLeaf hm \<and>
    gm_load (tLeaves (hmTopology hm')) k = Some (hmLeaf hm) \<and>
    nChildren (node (hmTopology hm') (hmLeaf hm)) = filter (\<lambda>c. \<not> timed_out (hmTimeOut hm) (clock c)
      (node (hmTopology hm) c)) (nChildren (node (hmTopology hm) (hmLeaf hm))) \<and>
    (\<forall>j r. gm_load (tServers (hmTopology hm')) j = Some r \<longleftrightarrow> gm_load (tServers (hmTopology hm)) j = Some r \<and>
       \<not> (nParent (node (hmTopology hm) r) = Some (hmLeaf hm) \<and>
          timed_out (hmTimeOut hm) (clock r) (node (hmTopology hm) r))) \<and>
    (\<forall>c \<in> set (nChildren (node (hmTopology hm) (hmLeaf hm))).
       timed_out (hmTimeOut hm) (clock c) (node (hmTopology hm) c) \<longrightarrow>
       server_unused (hmVcMgr hm') (nID (node (hmTopology hm) c)))"
proof -
  let ?t = "hmTopology hm" and ?l = "hmLeaf hm"
  let ?F = "filter (\<lambda>c. timed_out (hmTimeOut hm) (clock c) (node ?t c)) (nChildren (node ?t ?l))"
  note wf = sys_okD(1) [OF assms(1)]
  from round_run [OF assms refl refl refl, of clock] obtain t1 t' m' U where
    mk: "marked ?t (set ?F) t1" and fd: "failed_done t1 ?l ?F (t', m', U)"
    and ch: "nChildren (node t1 ?l) = nChildren (node ?t ?l)"
    and run: "\<exists>e. processNodes_round ord clock hm = Ret (hm\<lparr>hmTopology := t', hmVcMgr := m', hmEgress := e\<rparr>)"
    by blast
  note f = fd [unfolded failed_done_def split_conv]
  note srv' = failed_servers_gone [OF assms(1,2) mk fd]
  have ids: "nID (node t1 c) = nID (node ?t c)" if "c \<in> set ?F" for c
    using marked_node [OF mk] wf_child(3) [OF wf assms(2), of c] that by simp
  have un: "server_unused m' (nID (node ?t c))" if "c \<in> set ?F" for c using f ids [OF that] that by metis
  have "filter (\<lambda>c. c \<notin> set ?F) (nChildren (node ?t ?l)) = filter (\<lambda>c. \<not> timed_out (hmTimeOut hm) (clock c)
      (node ?t c)) (nChildren (node ?t ?l))" by (rule filter_cong) auto
  then have ch': "nChildren (node t' ?l) = filter (\<lambda>c. \<not> timed_out (hmTimeOut hm) (clock c)
      (node ?t c)) (nChildren (node ?t ?l))" using f ch by simp
  have leaves: "gm_load (tLeaves t') k = Some ?l" using f marked_maps [OF mk] assms(2) by simp
  from run obtain e where
    e: "processNodes_round ord clock hm = Ret (hm\<lparr>hmTopology := t', hmVcMgr := m', hmEgress := e\<rparr>)" by blast
  have good: "sys_ok t' m'" "workers_ok t' ?l" using f by blast+
  show ?thesis
    by (rule exI [of _ "hm\<lparr>hmTopology := t', hmVcMgr := m', hmEgress := e\<rparr>"])
      (use e good leaves ch' srv' un in simp)
qed

text \<open>A server of \<open>sample\<close> that was healthy and has never pinged since; all clocks show 10 seconds.\<close>

definition sample_hm :: LeafHealthManager where
  "sample_hm = \<lparr>hmEgress = [], hmLeaf = 2, hmTopology =
     upd_node 3 (\<lambda>n. n\<lparr>nHealthy := True, nReady := True\<rparr>) sample, hmVcMgr = sample_vcm,
     hmTimeOut = 5000000000\<rparr>"

lemma sample_hm_fields [simp]:
  "hmTopology sample_hm = upd_node 3 (\<lambda>n. n\<lparr>nHealthy := True, nReady := True\<rparr>) sample"
  "hmVcMgr sample_hm = sample_vcm" "hmLeaf sample_hm = 2" "hmTimeOut sample_hm = 5000000000"
  "hmEgress sample_hm = []"
  by (simp_all add: sample_hm_def)

lemma sample_sys_ok: "sys_ok sample sample_vcm"
  by (simp add: sys_ok_def sample_wf sample_vcm_wf)

lemma sample_hm_ok:
  "sys_ok (hmTopology sample_hm) (hmVcMgr sample_hm)"
  "gm_load (tLeaves (hmTopology sample_hm)) 0 = Some (hmLeaf sample_hm)"
  "workers_ok (hmTopology sample_hm) (hmLeaf sample_hm)"
proof -
  have v: "valid_node sample 3" by (simp add: sample_eval)
  show "sys_ok (hmTopology sample_hm) (hmVcMgr sample_hm)" unfolding sample_hm_fields
    by (rule sys_ok_same_tree [OF sample_sys_ok]) (simp_all add: ns.get_upd v tree_eq_iff)
  show "gm_load (tLeaves (hmTopology sample_hm)) 0 = Some (hmLeaf sample_hm)" by (simp add: sample_nodes)
  have "workers_ok sample 2" using sample_workers sample_nodes(5) by (simp add: all_workers_ok_def)
  moreover have "workers_ok (hmTopology sample_hm) 2 \<longleftrightarrow> workers_ok sample 2" unfolding sample_hm_fields
    by (rule workers_ok_fields) (simp_all add: ns.get_upd v)
  ultimately show "workers_ok (hmTopology sample_hm) (hmLeaf sample_hm)" by simp
qed

lemma sample_hm_nodes:
  "node (hmTopology sample_hm) 3 = (node sample 3)\<lparr>nHealthy := True, nReady := True\<rparr>"
  "node (hmTopology sample_hm) 2 = node sample 2" "node (hmTopology sample_hm) 4 = node sample 4"
  "tServers (hmTopology sample_hm) = tServers sample"
proof -
  have "valid_node sample 3" by (simp add: sample_eval)
  then show "node (hmTopology sample_hm) 3 = (node sample 3)\<lparr>nHealthy := True, nReady := True\<rparr>"
    "node (hmTopology sample_hm) 2 = node sample 2" "node (hmTopology sample_hm) 4 = node sample 4"
    "tServers (hmTopology sample_hm) = tServers sample" by (simp_all add: ns.get_upd)
qed

lemma sample_timed_out:
  "timed_out (hmTimeOut sample_hm) 10000000000 (node (hmTopology sample_hm) 3)"
  "\<not> timed_out (hmTimeOut sample_hm) 10000000000 (node (hmTopology sample_hm) 4)"
  by (simp_all add: sample_hm_nodes timed_out_def time_Since_def sample_eval)

theorem health_round_correct_witness:
  "\<exists>hm'. processNodes_round stored_order (\<lambda>_. 10000000000) sample_hm = Ret hm' \<and>
     nChildren (node (hmTopology hm') 2) = [4] \<and> gm_load (tServers (hmTopology hm')) 0 = None"
proof -
  from health_round_correct [OF sample_hm_ok is_order_stored, of "\<lambda>_. 10000000000"] obtain hm' where
    run: "processNodes_round stored_order (\<lambda>_. 10000000000) sample_hm = Ret hm'"
    and ch: "nChildren (node (hmTopology hm') 2) = filter (\<lambda>c. \<not> timed_out (hmTimeOut sample_hm) 10000000000
      (node (hmTopology sample_hm) c)) (nChildren (node (hmTopology sample_hm) 2))"
    and srv: "\<forall>j r. gm_load (tServers (hmTopology hm')) j = Some r \<longleftrightarrow>
       gm_load (tServers (hmTopology sample_hm)) j = Some r \<and>
       \<not> (nParent (node (hmTopology sample_hm) r) = Some 2 \<and>
          timed_out (hmTimeOut sample_hm) 10000000000 (node (hmTopology sample_hm) r))"
    unfolding sample_hm_fields(3) by blast
  have "nChildren (node (hmTopology hm') 2) = [4]"
    using ch sample_timed_out by (simp add: sample_hm_nodes(2) sample_nodes(10) del: sample_hm_fields)
  moreover have "gm_load (tServers (hmTopology hm')) 0 \<noteq> Some r" for r
    using srv sample_timed_out sample_hm_nodes(1) sample_nodes(1,8) unfolding sample_hm_nodes(4) by fastforce
  ultimately show ?thesis using run by auto
qed

text \<open>What a round leaves behind, together with the message it sends.\<close>

lemma round_message:
  assumes ok: "sys_ok (hmTopology hm) (hmVcMgr hm)" and l: "gm_load (tLeaves (hmTopology hm)) k = Some (hmLeaf hm)"
    and wk: "workers_ok (hmTopology hm) (hmLeaf hm)" and ord: "is_order ord"
  obtains t' m' updated where
    "processNodes_round ord clock hm = Ret (hm\<lparr>hmTopology := t', hmVcMgr := m',
      hmEgress := hmEgress hm @ (if updated = [] then [] else [NewLeafHealthMsg True updated])\<rparr>)"
    and "sys_ok t' m'" and "workers_ok t' (hmLeaf hm)" and "gm_load (tLeaves t') k = Some (hmLeaf hm)"
    and "set updated \<subseteq> set (nChildren (node t' (hmLeaf hm)))"
    and "nChildren (node t' (hmLeaf hm)) = filter (\<lambda>c. \<not> timed_out (hmTimeOut hm) (clock c)
      (node (hmTopology hm) c)) (nChildren (node (hmTopology hm) (hmLeaf hm)))"
    and "\<And>c. c \<in> set (nChildren (node t' (hmLeaf hm))) \<Longrightarrow> c \<notin> set updated \<Longrightarrow> node t' c = node (hmTopology hm) c"
    and "tHw t' = tHw (hmTopology hm)"
    and "\<And>c. c \<in> set (nChildren (node t' (hmLeaf hm))) \<Longrightarrow> nAddress (node t' c) = nAddress (node (hmTopology hm) c) \<and>
      nPort (node t' c) = nPort (node (hmTopology hm) c) \<and> worker_count (node t' c) = worker_count (node (hmTopology hm) c)"
    and "nID (node t' (hmLeaf hm)) = k"
proof -
  let ?t = "hmTopology hm" and ?l = "hmLeaf hm"
  let ?F = "filter (\<lambda>c. timed_out (hmTimeOut hm) (clock c) (node ?t c)) (nChildren (node ?t ?l))"
  note wf = sys_okD(1) [OF ok]
  from round_run [OF assms refl refl refl, of clock] obtain t1 t' m' U where
    mk: "marked ?t (set ?F) t1" and fd: "failed_done t1 ?l ?F (t', m', U)"
    and ch: "nChildren (node t1 ?l) = nChildren (node ?t ?l)"
    and run: "processNodes_round ord clock hm = Ret (hm\<lparr>hmTopology := t', hmVcMgr := m',
      hmEgress := hmEgress hm @ (if U = [] then [] else [NewLeafHealthMsg True (map snd (go_range ord U))])\<rparr>)"
    by blast
  note f = fd [unfolded failed_done_def split_conv]
  define updated where "updated = map snd (go_range ord U)"
  have sys: "sys_ok t' m'" and wfU: "gm_wf U" using f by blast+
  have lv: "gm_load (tLeaves t') k = Some ?l" using f marked_maps [OF mk] l by simp
  have mem: "c \<in> set updated \<longleftrightarrow> (\<exists>j. gm_load U j = Some c)" for c
    using gm_range_load [OF ord wfU] by (force simp: updated_def)
  have in_t': "set updated \<subseteq> set (nChildren (node t' ?l))" using mem f by blast
  have "filter (\<lambda>c. c \<notin> set ?F) (nChildren (node ?t ?l)) = filter (\<lambda>c. \<not> timed_out (hmTimeOut hm) (clock c)
      (node ?t c)) (nChildren (node ?t ?l))" by (rule filter_cong) auto
  then have ch': "nChildren (node t' ?l) = filter (\<lambda>c. \<not> timed_out (hmTimeOut hm) (clock c)
      (node ?t c)) (nChildren (node ?t ?l))" using f ch by simp
  have kept: "c \<noteq> ?l" "c \<notin> set ?F" "node t1 c = node ?t c" if "c \<in> set (nChildren (node t' ?l))" for c
  proof -
    have old: "c \<in> set (nChildren (node ?t ?l))" "c \<notin> set ?F" using that f ch by auto
    show "c \<noteq> ?l" "c \<notin> set ?F" using wf_child(3,4) [OF wf l old(1)] wf_leaf [OF wf l] old(2)
      by (auto simp: leaf_ok_def)
    have "valid_node ?t c" using wf_child(3) [OF wf l old(1)] .
    from marked_node [OF mk this] show "node t1 c = node ?t c" unfolding if_not_P [OF old(2)] .
  qed
  have same: "node t' c = node ?t c" if c: "c \<in> set (nChildren (node t' ?l))" "c \<notin> set updated" for c
  proof -
    have "gm_load U (nID (node t1 c)) \<noteq> Some c" using c(2) mem by blast
    then have "node t' c = node t1 c" using f kept [OF c(1)] by blast
    with kept(3) [OF c(1)] show ?thesis by simp
  qed
  have fields: "nAddress (node t' c) = nAddress (node ?t c) \<and> nPort (node t' c) = nPort (node ?t c) \<and>
      worker_count (node t' c) = worker_count (node ?t c)" if "c \<in> set (nChildren (node t' ?l))" for c
    using f kept [OF that] by metis
  have hw: "tHw t' = tHw ?t"
  proof -
    have "tHw (t1\<lparr>tNodes := []\<rparr>) = tHw (?t\<lparr>tNodes := []\<rparr>)" using mk by (simp add: marked_def)
    with f show ?thesis by simp
  qed
  have "updated = [] \<longleftrightarrow> U = []"
    using ord by (metis length_0_conv length_go_range length_map updated_def)
  then have e: "processNodes_round ord clock hm = Ret (hm\<lparr>hmTopology := t', hmVcMgr := m',
      hmEgress := hmEgress hm @ (if updated = [] then [] else [NewLeafHealthMsg True updated])\<rparr>)"
    using run by (simp add: updated_def)
  have wk': "workers_ok t' ?l" using f by blast
  have nid: "nID (node t' ?l) = k" using wf_leaf [OF sys_okD(1) [OF sys] lv] by (simp add: leaf_ok_def)
  show ?thesis by (rule that [OF e sys wk' lv in_t' ch' same hw fields nid])
qed

text \<open>
  C17: The message a round sends tells everything that changed among the surviving servers: it lists only
  servers of the leaf that are still registered, and a server of the leaf that is not listed has exactly
  the fields it had before, its worker IDs in particular. Without a change no message is sent.
\<close>

theorem health_message_complete:
  assumes "sys_ok (hmTopology hm) (hmVcMgr hm)" and "gm_load (tLeaves (hmTopology hm)) k = Some (hmLeaf hm)"
    and "workers_ok (hmTopology hm) (hmLeaf hm)" and "is_order ord"
  shows "\<exists>hm' updated. processNodes_round ord clock hm = Ret hm' \<and>
    hmEgress hm' = hmEgress hm @ (if updated = [] then [] else [NewLeafHealthMsg True updated]) \<and>
    set updated \<subseteq> set (nChildren (node (hmTopology hm') (hmLeaf hm))) \<and>
    (\<forall>c \<in> set updated. gm_load (tServers (hmTopology hm')) (nID (node (hmTopology hm') c)) = Some c) \<and>
    (\<forall>c \<in> set (nChildren (node (hmTopology hm') (hmLeaf hm))) - set updated.
       node (hmTopology hm') c = node (hmTopology hm) c)"
proof (rule round_message [OF assms, of clock])
  fix t' m' updated
  assume run: "processNodes_round ord clock hm = Ret (hm\<lparr>hmTopology := t', hmVcMgr := m',
      hmEgress := hmEgress hm @ (if updated = [] then [] else [NewLeafHealthMsg True updated])\<rparr>)"
    and sys: "sys_ok t' m'" and lv: "gm_load (tLeaves t') k = Some (hmLeaf hm)"
    and sub: "set updated \<subseteq> set (nChildren (node t' (hmLeaf hm)))"
    and same: "\<And>c. c \<in> set (nChildren (node t' (hmLeaf hm))) \<Longrightarrow> c \<notin> set updated \<Longrightarrow>
      node t' c = node (hmTopology hm) c"
  have "gm_load (tServers t') (nID (node t' c)) = Some c" if "c \<in> set updated" for c
    using wf_child(1) [OF sys_okD(1) [OF sys] lv] sub that by blast
  with run sub same show ?thesis
    by (intro exI [of _ "hm\<lparr>hmTopology := t', hmVcMgr := m',
      hmEgress := hmEgress hm @ (if updated = [] then [] else [NewLeafHealthMsg True updated])\<rparr>"] exI [of _ updated])
      auto
qed

theorem health_message_complete_witness:
  "\<exists>hm' updated. processNodes_round stored_order (\<lambda>_. 10000000000) sample_hm = Ret hm' \<and>
     hmEgress hm' = (if updated = [] then [] else [NewLeafHealthMsg True updated])"
  using health_message_complete [OF sample_hm_ok is_order_stored, of "\<lambda>_. 10000000000"] by auto

section \<open>Pings and rounds together\<close>

text \<open>
  One event of the manager of leaf \<open>k\<close>: a ping arrives, or a round of the loop runs. A round that
  crashed would be no step; the invariant shows that it always is one.
\<close>

inductive health_step :: "LeafHealthManager \<Rightarrow> LeafHealthManager \<Rightarrow> bool" where
  ping: "health_step hm (OnNodePingRecv now serverId portId hm)"
| round: "processNodes_round ord clock hm = Ret hm' \<Longrightarrow> is_order ord \<Longrightarrow> health_step hm hm'"

inductive_cases health_stepE: "health_step hm hm'"

definition hm_ok :: "u16 \<Rightarrow> LeafHealthManager \<Rightarrow> bool" where
  "hm_ok k hm \<longleftrightarrow> sys_ok (hmTopology hm) (hmVcMgr hm) \<and>
     gm_load (tLeaves (hmTopology hm)) k = Some (hmLeaf hm) \<and> workers_ok (hmTopology hm) (hmLeaf hm)"

lemma ping_node:
  assumes "hm_ok k hm" and "gm_load (tServers (hmTopology hm)) j = Some r"
  shows "node (hmTopology (OnNodePingRecv now j p hm)) q = (if q = r then (node (hmTopology hm) r)
    \<lparr>nLastPingTime := now, nHealthy := True, nReady := True\<rparr> else node (hmTopology hm) q)"
proof -
  have "wf_topo (hmTopology hm)" using assms(1) sys_okD(1) by (auto simp: hm_ok_def)
  then have "valid_node (hmTopology hm) r" using wf_server [OF _ assms(2)] by (simp add: server_ok_def)
  then show ?thesis using assms(2) by (simp add: OnNodePingRecv_def ns.get_upd)
qed

lemma ping_frame [simp]:
  "tServers (hmTopology (OnNodePingRecv now j p hm)) = tServers (hmTopology hm)"
  "tLeaves (hmTopology (OnNodePingRecv now j p hm)) = tLeaves (hmTopology hm)"
  "tSpines (hmTopology (OnNodePingRecv now j p hm)) = tSpines (hmTopology hm)"
  "hmVcMgr (OnNodePingRecv now j p hm) = hmVcMgr hm" "hmLeaf (OnNodePingRecv now j p hm) = hmLeaf hm"
  "hmTimeOut (OnNodePingRecv now j p hm) = hmTimeOut hm" "hmEgress (OnNodePingRecv now j p hm) = hmEgress hm"
  "valid_node (hmTopology (OnNodePingRecv now j p hm)) q = valid_node (hmTopology hm) q"
  by (simp_all add: OnNodePingRecv_def split: option.split)

lemma ping_ok:
  assumes ok: "hm_ok k hm"
  shows "hm_ok k (OnNodePingRecv now j p hm)"
proof (cases "gm_load (tServers (hmTopology hm)) j")
  case None
  with ok show ?thesis by (simp add: OnNodePingRecv_def)
next
  case (Some r)
  note nd = ping_node [OF ok Some, of now p]
  have "sys_ok (hmTopology (OnNodePingRecv now j p hm)) (hmVcMgr hm)"
    by (rule sys_ok_same_tree [where t = "hmTopology hm"]) (use ok nd in \<open>simp_all add: hm_ok_def tree_eq_iff\<close>)
  moreover have "workers_ok (hmTopology (OnNodePingRecv now j p hm)) (hmLeaf hm) \<longleftrightarrow>
      workers_ok (hmTopology hm) (hmLeaf hm)"
    by (rule workers_ok_fields) (use nd in simp_all)
  ultimately show ?thesis using ok by (simp add: hm_ok_def)
qed

lemma round_ok:
  assumes "hm_ok k hm" and "is_order ord"
  shows "\<exists>hm'. processNodes_round ord clock hm = Ret hm' \<and> hm_ok k hm'"
proof -
  note ok = assms(1) [unfolded hm_ok_def]
  from round_run [OF conjunct1 [OF ok] conjunct1 [OF conjunct2 [OF ok]] conjunct2 [OF conjunct2 [OF ok]] assms(2)
      refl refl refl, of clock] obtain t1 t' m' U F where
    mk: "marked (hmTopology hm) F t1" and fd: "\<exists>D. failed_done t1 (hmLeaf hm) D (t', m', U)"
    and run: "\<exists>e. processNodes_round ord clock hm = Ret (hm\<lparr>hmTopology := t', hmVcMgr := m', hmEgress := e\<rparr>)"
    by blast
  from run obtain e where
    e: "processNodes_round ord clock hm = Ret (hm\<lparr>hmTopology := t', hmVcMgr := m', hmEgress := e\<rparr>)" by blast
  from fd have "sys_ok t' m'" "workers_ok t' (hmLeaf hm)" "tLeaves t' = tLeaves t1"
    by (auto simp: failed_done_def)
  then have "hm_ok k (hm\<lparr>hmTopology := t', hmVcMgr := m', hmEgress := e\<rparr>)"
    using marked_maps [OF mk] ok by (simp add: hm_ok_def)
  with e show ?thesis by auto
qed

lemma health_step_ok: "health_step hm hm' \<Longrightarrow> hm_ok k hm \<Longrightarrow> hm_ok k hm'"
proof (elim health_stepE)
  fix ord clock assume "processNodes_round ord clock hm = Ret hm'" "is_order ord" "hm_ok k hm"
  with round_ok [of k hm ord clock] show "hm_ok k hm'" by auto
qed (simp add: ping_ok)

interpretation hi: invariant "hm_ok k" health_step for k
  by unfold_locales (use health_step_ok in blast)

lemma sample_hm_is_ok: "hm_ok 0 sample_hm"
  using sample_hm_ok by (simp add: hm_ok_def)

text \<open>
  C18: Whatever sequence of pings and rounds the manager of a leaf goes through, it never crashes: after
  it the invariants hold, and the next round returns.
\<close>

theorem health_never_crashes:
  assumes "health_step\<^sup>*\<^sup>* hm hm'" and "hm_ok k hm" and "is_order ord"
  shows "hm_ok k hm' \<and> (\<exists>hm''. processNodes_round ord clock hm' = Ret hm'')"
proof -
  have "hm_ok k hm'" by (rule hi.reachable [OF assms(1,2)])
  then show ?thesis using round_ok [OF _ assms(3)] by blast
qed

theorem health_never_crashes_witness:
  "\<exists>hm'. processNodes_round stored_order (\<lambda>_. 0) (OnNodePingRecv 5 0 0 sample_hm) = Ret hm'"
proof -
  have "health_step\<^sup>*\<^sup>* sample_hm (OnNodePingRecv 5 0 0 sample_hm)" by (rule r_into_rtranclp) (rule ping)
  from health_never_crashes [OF this sample_hm_is_ok is_order_stored] show ?thesis by blast
qed

text \<open>
  A server that pings in time stays: in a round that looks at it less than the time-out after its
  last ping it is neither unregistered nor taken off its leaf, whatever happens to the other servers.
\<close>

theorem pinged_server_survives:
  assumes "hm_ok k hm" and "gm_load (tServers (hmTopology hm)) j = Some r"
    and "processNodes_round ord clock (OnNodePingRecv now j p hm) = Ret hm'" and "is_order ord"
    and "time_Since (clock r) now < sint (hmTimeOut hm)"
  shows "gm_load (tServers (hmTopology hm')) j = Some r \<and>
    nHealthy (node (hmTopology hm') r) \<and> nReady (node (hmTopology hm') r)"
proof -
  let ?hm = "OnNodePingRecv now j p hm"
  let ?t = "hmTopology ?hm" and ?l = "hmLeaf ?hm"
  let ?F = "filter (\<lambda>c. timed_out (hmTimeOut ?hm) (clock c) (node ?t c)) (nChildren (node ?t ?l))"
  have ok: "hm_ok k ?hm" by (rule ping_ok [OF assms(1)])
  note ok' = ok [unfolded hm_ok_def]
  from round_run [OF conjunct1 [OF ok'] conjunct1 [OF conjunct2 [OF ok']] conjunct2 [OF conjunct2 [OF ok']] assms(4)
      refl refl refl, of clock] obtain t1 t' m' U where
    mk: "marked ?t (set ?F) t1" and fd: "failed_done t1 ?l ?F (t', m', U)" and topo: "hmTopology hm' = t'"
    using assms(3) by auto
  note f = fd [unfolded failed_done_def split_conv] and nd = ping_node [OF assms(1,2), of now p]
  have wf: "wf_topo ?t" using ok' sys_okD(1) by blast
  have reg: "gm_load (tServers ?t) j = Some r" using assms(2) by simp
  have rF: "r \<notin> set ?F" using assms(5) by (simp add: timed_out_def nd)
  have rv: "valid_node ?t r" "nID (node ?t r) = j" using wf_server [OF wf reg] by (simp_all add: server_ok_def)
  have r1: "node t1 r = node ?t r" using marked_node [OF mk rv(1)] unfolding if_not_P [OF rF] .
  have lv: "gm_load (tLeaves ?t) k = Some ?l" using ok' by blast
  have "nID (node t1 c) \<noteq> j" if c: "c \<in> set ?F" for c
  proof
    assume j: "nID (node t1 c) = j"
    have kid: "c \<in> set (nChildren (node ?t ?l))" using c by simp
    have "nID (node t1 c) = nID (node ?t c)"
      unfolding marked_node [OF mk wf_child(3) [OF wf lv kid]] by simp
    with j wf_child(1) [OF wf lv kid] reg have "Some c = Some r" by metis
    with c rF show False by blast
  qed
  then have "j \<notin> (\<lambda>c. nID (node t1 c)) ` set ?F" by blast
  moreover have "gm_load (tServers t1) j = Some r" using marked_maps [OF mk] reg by simp
  moreover from f have "\<forall>j. gm_load (tServers t') j =
      (if j \<in> (\<lambda>c. nID (node t1 c)) ` set ?F then None else gm_load (tServers t1) j)" by (elim conjE)
  ultimately have "gm_load (tServers t') j = Some r" by (simp only: if_False)
  moreover from f have "\<forall>q. nID (node t' q) = nID (node t1 q) \<and> nHealthy (node t' q) = nHealthy (node t1 q) \<and>
      nReady (node t' q) = nReady (node t1 q)" by (elim conjE)
  then have "nHealthy (node t' r) = nHealthy (node t1 r)" "nReady (node t' r) = nReady (node t1 r)" by blast+
  ultimately show ?thesis unfolding topo r1 nd by simp
qed

theorem pinged_server_survives_witness:
  "\<exists>hm'. processNodes_round stored_order (\<lambda>_. 10000000000) (OnNodePingRecv 9000000000 0 7 sample_hm) = Ret hm' \<and>
     gm_load (tServers (hmTopology hm')) 0 = Some 3"
proof -
  from round_ok [OF ping_ok [OF sample_hm_is_ok] is_order_stored] obtain hm' where
    run: "processNodes_round stored_order (\<lambda>_. 10000000000) (OnNodePingRecv 9000000000 0 7 sample_hm) = Ret hm'"
    by blast
  from pinged_server_survives [OF sample_hm_is_ok _ run is_order_stored, of 3] run show ?thesis
    by (auto simp: sample_hm_nodes sample_nodes(1) time_Since_def simp del: sample_hm_fields(1))
qed

end
