(* ===== verification/Messages.thy ===== *)
theory Messages
  imports Health
begin

text \<open>
  The messages that the gRPC servers send to the event loops of their controllers
  (core/net/messages.go). A message holds pointers to nodes of the topology. A channel is the list of
  the messages sent to it, oldest first. A destination slice may be nil, which is \<open>None\<close>.
\<close>

datatype VCUpdateType = VCUpdateAdd | VCUpdateRem

record LeafUpdatedMessage =
  luLeaves :: "nref list"

record LeafFailedMessage =
  lfLeaf :: LeafInfo
  lfDsts :: "nref list option"

record ServerFailedMessage =
  sfServer :: ServerInfo
  sfDsts :: "nref list option"

record ServerAddedMessage =
  saServer :: ServerInfo
  saDst :: "nref option"

record LeafAddedMessage =
  laLeaf :: LeafInfo
  laDst :: "nref option"

record PortDisabledMessage =
  pdPort :: "pref option"

record PortEnabledMessage =
  pePort :: "pref option"

record VCUpdatedMessage =
  vuVCInfo :: VCInfo
  vuDsts :: "nref list"
  vuType :: VCUpdateType

definition NewLeafUpdatedMessage :: "nref list \<Rightarrow> LeafUpdatedMessage" where
  "NewLeafUpdatedMessage leaves = \<lparr>luLeaves = leaves\<rparr>"

definition NewLeafFailedMessage :: "LeafInfo \<Rightarrow> nref list option \<Rightarrow> LeafFailedMessage" where
  "NewLeafFailedMessage leaf dsts = \<lparr>lfLeaf = leaf, lfDsts = dsts\<rparr>"

definition NewServerFailedMessage :: "ServerInfo \<Rightarrow> nref list option \<Rightarrow> ServerFailedMessage" where
  "NewServerFailedMessage server dsts = \<lparr>sfServer = server, sfDsts = dsts\<rparr>"

definition NewServerAddedMessage :: "ServerInfo \<Rightarrow> nref option \<Rightarrow> ServerAddedMessage" where
  "NewServerAddedMessage server dst = \<lparr>saServer = server, saDst = dst\<rparr>"

definition NewLeafAddedMessage :: "LeafInfo \<Rightarrow> nref option \<Rightarrow> LeafAddedMessage" where
  "NewLeafAddedMessage leaf dst = \<lparr>laLeaf = leaf, laDst = dst\<rparr>"

definition NewVCUpdatedMessage :: "VCInfo \<Rightarrow> VCUpdateType \<Rightarrow> nref list \<Rightarrow> VCUpdatedMessage" where
  "NewVCUpdatedMessage vcInfo vcType dsts = \<lparr>vuVCInfo = vcInfo, vuDsts = dsts, vuType = vcType\<rparr>"

text \<open>What a handler answers: an error, or a response with a status.\<close>

type_synonym answer = "go_error + HorusResponse"

abbreviation status :: "string \<Rightarrow> answer" where
  "status st \<equiv> Inr (HorusResponse st)"

end
