(* ===== verification/Central_Server.thy ===== *)
theory Central_Server
  imports Messages
begin

text \<open>
  The gRPC server of the centralized controller (core/net/topologyServer\_central.go): one function
  per handler, from the request and the state to the new state and the answer. The state holds the
  topology, the virtual clusters and the channels to the event loops. A handler that calls
  \<open>RemoveLeaf\<close> may run forever, which is \<open>None\<close>.
\<close>

section \<open>State\<close>

record centralSrvServer =
  ceFailedLeaves :: "LeafFailedMessage list"
  ceFailedServers :: "ServerFailedMessage list"
  ceNewLeaves :: "LeafAddedMessage list"
  ceNewServers :: "ServerAddedMessage list"
  ceEnabledPorts :: "PortEnabledMessage list"
  ceDisabledPorts :: "PortDisabledMessage list"
  ceNewVCs :: "VCUpdatedMessage list"
  ceTopology :: Topology
  ceVcm :: VCManager

definition NewCentralSrvServer :: "Topology \<Rightarrow> VCManager \<Rightarrow> centralSrvServer" where
  "NewCentralSrvServer topology vcm =
     \<lparr>ceFailedLeaves = [], ceFailedServers = [], ceNewLeaves = [], ceNewServers = [],
      ceEnabledPorts = [], ceDisabledPorts = [], ceNewVCs = [], ceTopology = topology, ceVcm = vcm\<rparr>"

section \<open>Queries\<close>

definition central_GetTopology :: "order \<Rightarrow> centralSrvServer \<Rightarrow> (go_error + TopoInfo) go" where
  "central_GetTopology ord s =
     go_bind (EncodeToTopoInfo ord (ceTopology s)) (\<lambda>topoInfo. Ret (Inr topoInfo))"

definition central_GetTopologyAtLeaf ::
  "order \<Rightarrow> LeafInfo \<Rightarrow> centralSrvServer \<Rightarrow> (go_error + TopoInfo) go" where
  "central_GetTopologyAtLeaf ord leafInfo s =
     go_bind (EncodeToTopoInfoAtLeaf ord leafInfo (ceTopology s)) (\<lambda>topoInfo.
       case topoInfo of
         None \<Rightarrow> Ret (Inl (ErrTopoAtLeaf (liId leafInfo)))
       | Some info \<Rightarrow> Ret (Inr info))"

definition vc_server_info :: "Topology \<Rightarrow> nref \<Rightarrow> VCServerInfo" where
  "vc_server_info t server = \<lparr>vsId = ucast (nID (node t server)), vsWorkersIDs = []\<rparr>"

definition central_GetVCs :: "order \<Rightarrow> centralSrvServer \<Rightarrow> VCsResponse" where
  "central_GetVCs ord s =
     VCsResponse (map (\<lambda>v. let vc = vc_at (ceVcm s) v in
         \<lparr>viId = ucast (vcClusterID vc),
          viSpines = map (\<lambda>(_, sp). ucast (nID (node (ceTopology s) sp))) (go_range ord (vcSpines vc)),
          viServers = map (\<lambda>(_, r). vc_server_info (ceTopology s) r) (go_range ord (vcServers vc))\<rparr>)
       (GetVCs ord (ceVcm s)))"

definition central_GetVCsOfLeaf ::
  "order \<Rightarrow> LeafInfo \<Rightarrow> centralSrvServer \<Rightarrow> (go_error + VCsResponse) go" where
  "central_GetVCsOfLeaf ord leafInfo s =
     (case GetVCsOfLeaf (ucast (liId leafInfo)) (ceVcm s) of (vcs, found) \<Rightarrow>
       go_bind (GetNode (ceTopology s) (ucast (liId leafInfo)) NodeType_Leaf) (\<lambda>leaf.
         case leaf of
           None \<Rightarrow> Ret (Inl (ErrVCsOfLeaf (liId leafInfo)))
         | Some l \<Rightarrow>
             if \<not> found then Ret (Inl (ErrVCsOfLeaf (liId leafInfo)))
             else Ret (Inr (VCsResponse (map (\<lambda>v. let vc = vc_at (ceVcm s) v; t = ceTopology s in
               \<lparr>viId = ucast (vcClusterID vc),
                viSpines = map (\<lambda>(_, sp). ucast (nID (node t sp))) (go_range ord (vcSpines vc)),
                viServers = map (\<lambda>(_, r). vc_server_info t r)
                  (filter (\<lambda>(_, r). case nParent (node t r) of
                      None \<Rightarrow> False | Some p \<Rightarrow> nID (node t p) = nID (node t l))
                    (go_range ord (vcServers vc)))\<rparr>) vcs)))))"

section \<open>Leaves\<close>

definition central_AddLeaf :: "LeafInfo \<Rightarrow> centralSrvServer \<Rightarrow> (centralSrvServer \<times> answer) go" where
  "central_AddLeaf leafInfo s =
     go_bind (AddLeafToSpine leafInfo (ceTopology s)) (\<lambda>(t, res).
       let s1 = s\<lparr>ceTopology := t\<rparr> in
       case res of
         Inl err \<Rightarrow> Ret (s1, status ''FAILED'')
       | Inr leaf \<Rightarrow>
           (case nParent (node t leaf) of
              Some spine \<Rightarrow>
                Ret (s1\<lparr>ceEnabledPorts := ceEnabledPorts s1 @
                          [\<lparr>pePort = nDsPort (node t leaf)\<rparr>, \<lparr>pePort = nUsPort (node t leaf)\<rparr>],
                        ceNewLeaves := ceNewLeaves s1 @ [NewLeafAddedMessage leafInfo (Some spine)]\<rparr>,
                     status ''OK'')
            | None \<Rightarrow> Ret (s1, status ''FAILED'')))"

text \<open>The spines of a list of clusters, and the spine the failed node hangs on.\<close>

definition spines_of_vcs :: "order \<Rightarrow> VCManager \<Rightarrow> vref list \<Rightarrow> NodeMap" where
  "spines_of_vcs ord m vcs =
     fold (\<lambda>v. fold (\<lambda>(spineId, spine). NodeMap_Store spineId spine) (go_range ord (vcSpines (vc_at m v))))
       vcs gm_empty"

definition add_spine :: "Topology \<Rightarrow> nref option \<Rightarrow> NodeMap \<Rightarrow> NodeMap" where
  "add_spine t spine spinesMap =
     (case spine of
        None \<Rightarrow> spinesMap
      | Some sp \<Rightarrow> NodeMap_Store (nID (node t sp)) sp spinesMap)"

definition central_FailLeaf ::
  "order \<Rightarrow> LeafInfo \<Rightarrow> centralSrvServer \<Rightarrow> (centralSrvServer \<times> answer) go option" where
  "central_FailLeaf ord leafInfo s =
     (let leafID = ucast (liId leafInfo) :: u16; t = ceTopology s; m = ceVcm s in
      case GetNode t leafID NodeType_Leaf of
        Panic \<Rightarrow> Some Panic
      | Fatal \<Rightarrow> Some Fatal
      | Ret None \<Rightarrow> Some (Ret (s, status ''FAILD''))
      | Ret (Some leaf) \<Rightarrow>
          (let spinesMap = (case GetVCsOfLeaf leafID m of (vcs, ok) \<Rightarrow>
                  if ok then spines_of_vcs ord m vcs else gm_empty);
               spinesMap = add_spine t (nParent (node t leaf)) spinesMap;
               spines = map snd (go_range ord spinesMap);
               servers = nChildren (node t leaf)
           in case DetachLeaf ord t leafID m of
                Panic \<Rightarrow> Some Panic
              | Fatal \<Rightarrow> Some Fatal
              | Ret (m', detached) \<Rightarrow>
                  map_option (\<lambda>res. go_bind res (\<lambda>(t', leafIdx, _).
                    let s1 = s\<lparr>ceTopology := t', ceVcm := m'\<rparr> in
                    if leafIdx \<ge> 0 \<and> detached then
                      Ret (s1\<lparr>ceDisabledPorts := ceDisabledPorts s1 @
                                [\<lparr>pdPort = nDsPort (node t' leaf)\<rparr>, \<lparr>pdPort = nUsPort (node t' leaf)\<rparr>] @
                                map (\<lambda>server. \<lparr>pdPort = nPort (node t' server)\<rparr>) servers,
                              ceFailedLeaves := ceFailedLeaves s1 @
                                [NewLeafFailedMessage leafInfo (Some spines)]\<rparr>,
                           status ''OK'')
                    else Ret (s1, status ''FAILD''))) (RemoveLeaf leafID t)))"

section \<open>Servers\<close>

text \<open>The parent of the parent, where both exist.\<close>

definition grandparent :: "Topology \<Rightarrow> nref \<Rightarrow> nref option" where
  "grandparent t r =
     (case nParent (node t r) of None \<Rightarrow> None | Some l \<Rightarrow> nParent (node t l))"

definition central_AddServer :: "ServerInfo \<Rightarrow> centralSrvServer \<Rightarrow> (centralSrvServer \<times> answer) go" where
  "central_AddServer serverInfo s =
     go_bind (AddServerToLeaf serverInfo (ucast (siLeafID serverInfo)) (ceTopology s)) (\<lambda>(t, res).
       let s1 = s\<lparr>ceTopology := t\<rparr> in
       case res of
         Inl err \<Rightarrow> Ret (s1, status ''FAILED'')
       | Inr server \<Rightarrow>
           (case grandparent t server of
              Some spine \<Rightarrow>
                Ret (s1\<lparr>ceEnabledPorts := ceEnabledPorts s1 @ [\<lparr>pePort = nPort (node t server)\<rparr>],
                        ceNewServers := ceNewServers s1 @ [NewServerAddedMessage serverInfo (Some spine)]\<rparr>,
                     status ''OK'')
            | None \<Rightarrow> Ret (s1, status ''FAILED'')))"

definition central_FailServer ::
  "order \<Rightarrow> ServerInfo \<Rightarrow> centralSrvServer \<Rightarrow> (centralSrvServer \<times> answer) go" where
  "central_FailServer ord serverInfo s =
     (let serverID = ucast (siId serverInfo) :: u16; t = ceTopology s; m = ceVcm s in
      go_bind (GetNode t serverID NodeType_Server) (\<lambda>server.
        case server of
          None \<Rightarrow> Ret (s, status ''FAILD'')
        | Some r \<Rightarrow>
            (let spinesMap = (case GetVCsOfServer serverID m of (vcs, ok) \<Rightarrow>
                    if ok then spines_of_vcs ord m vcs else gm_empty);
                 spinesMap = add_spine t (grandparent t r) spinesMap;
                 spines = map snd (go_range ord spinesMap)
             in go_bind (DetachServer ord t serverID m) (\<lambda>(m', detached).
                go_bind (RemoveServer serverID t) (\<lambda>(t', removed, _).
                  let s1 = s\<lparr>ceTopology := t', ceVcm := m'\<rparr> in
                  if removed \<and> detached then
                    Ret (s1\<lparr>ceDisabledPorts := ceDisabledPorts s1 @ [\<lparr>pdPort = nPort (node t' r)\<rparr>],
                            ceFailedServers := ceFailedServers s1 @
                              [NewServerFailedMessage serverInfo (Some spines)]\<rparr>,
                         status ''OK'')
                  else Ret (s1, status ''OK''))))))"

section \<open>Virtual clusters\<close>

text \<open>Creating and registering a cluster, and its lookup and removal, as all three servers do them.\<close>

definition register_vc ::
  "order \<Rightarrow> VCInfo \<Rightarrow> Topology \<Rightarrow> VCManager \<Rightarrow> (VCManager \<times> (go_error + VirtualCluster)) go" where
  "register_vc ord vcInfo t m =
     go_bind (NewVC vcInfo t) (\<lambda>res.
       case res of
         Inl err \<Rightarrow> Ret (m, Inl err)
       | Inr vc \<Rightarrow>
           (let (v, m1) = new_vc vc m
            in case AddVC ord t v m1 of
                 (m2, Inl err) \<Rightarrow> Ret (m2, Inl err)
               | (m2, Inr ok) \<Rightarrow> Ret (m2, Inr vc)))"

definition central_AddVC :: "order \<Rightarrow> VCInfo \<Rightarrow> centralSrvServer \<Rightarrow> (centralSrvServer \<times> answer) go" where
  "central_AddVC ord vcInfo s =
     go_bind (register_vc ord vcInfo (ceTopology s) (ceVcm s)) (\<lambda>(m, res).
       let s1 = s\<lparr>ceVcm := m\<rparr> in
       case res of
         Inl err \<Rightarrow> Ret (s1, Inl err)
       | Inr vc \<Rightarrow>
           Ret (s1\<lparr>ceNewVCs := ceNewVCs s1 @
                     [NewVCUpdatedMessage vcInfo VCUpdateAdd (map snd (go_range ord (vcSpines vc)))]\<rparr>,
                status ''OK''))"

definition central_RemoveVC :: "order \<Rightarrow> VCInfo \<Rightarrow> centralSrvServer \<Rightarrow> centralSrvServer \<times> answer" where
  "central_RemoveVC ord vcInfo s =
     (let clusterID = ucast (viId vcInfo) :: u16 in
      case GetVC clusterID (ceVcm s) of
        None \<Rightarrow> (s, Inl (ErrVCNotExist clusterID))
      | Some v \<Rightarrow>
          (let spines = map snd (go_range ord (vcSpines (vc_at (ceVcm s) v)));
               m = fst (RemoveVC ord (ceTopology s) v (ceVcm s))
           in (s\<lparr>ceVcm := m, ceNewVCs := ceNewVCs s @ [NewVCUpdatedMessage vcInfo VCUpdateRem spines]\<rparr>,
               status ''OK'')))"

end
