(* ===== verification/Node_Servers.thy ===== *)
theory Node_Servers
  imports Central_Server
begin

text \<open>
  The gRPC servers of the spine, the leaf and the manager controllers
  (core/net/topologyServer\_spine.go, topologyServer\_leaf.go, topologyServer\_manager.go).
\<close>

section \<open>Spine\<close>

record spineSrvServer =
  spFailedLeavesToRPC :: "LeafFailedMessage list"
  spUpdatedLeavesToRPC :: "LeafUpdatedMessage list"
  spFailedServersToRPC :: "ServerFailedMessage list"
  spNewLeavesToRPC :: "LeafAddedMessage list"
  spNewServers :: "ServerAddedMessage list"
  spNewVCs :: "VCUpdatedMessage list"
  spTopology :: Topology
  spVcm :: VCManager

definition NewSpineSrvServer :: "Topology \<Rightarrow> VCManager \<Rightarrow> spineSrvServer" where
  "NewSpineSrvServer topology vcm =
     \<lparr>spFailedLeavesToRPC = [], spUpdatedLeavesToRPC = [], spFailedServersToRPC = [],
      spNewLeavesToRPC = [], spNewServers = [], spNewVCs = [], spTopology = topology, spVcm = vcm\<rparr>"

definition spine_GetTopology :: "spineSrvServer \<Rightarrow> go_error + TopoInfo" where
  "spine_GetTopology s = Inl (ErrNotSupported ''GetTopology isn't supported by spine'')"

definition spine_GetTopologyAtLeaf :: "LeafInfo \<Rightarrow> spineSrvServer \<Rightarrow> go_error + TopoInfo" where
  "spine_GetTopologyAtLeaf leafInfo s =
     Inl (ErrNotSupported ''GetTopologyAtLeaf isn't supported by spine'')"

definition spine_AddLeaf :: "LeafInfo \<Rightarrow> spineSrvServer \<Rightarrow> (spineSrvServer \<times> answer) go" where
  "spine_AddLeaf leafInfo s =
     go_bind (AddLeafToSpine leafInfo (spTopology s)) (\<lambda>(t, res).
       let s1 = s\<lparr>spTopology := t\<rparr> in
       case res of
         Inl err \<Rightarrow> Ret (s1, status ''FAILED'')
       | Inr leaf \<Rightarrow>
           (case nParent (node t leaf) of
              Some _ \<Rightarrow>
                (let leafInfo' = leafInfo\<lparr>liIndex := ucast (nIndex (node t leaf))\<rparr>
                 in Ret (s1\<lparr>spNewLeavesToRPC := spNewLeavesToRPC s1 @
                              [NewLeafAddedMessage leafInfo' (Some leaf)]\<rparr>, status ''OK''))
            | None \<Rightarrow> Ret (s1, status ''FAILED'')))"

definition spine_FailLeaf ::
  "order \<Rightarrow> LeafInfo \<Rightarrow> spineSrvServer \<Rightarrow> (spineSrvServer \<times> answer) go option" where
  "spine_FailLeaf ord leafInfo s =
     (let leafID = ucast (liId leafInfo) :: u16; t = spTopology s; m = spVcm s in
      case GetNode t leafID NodeType_Leaf of
        Panic \<Rightarrow> Some Panic
      | Fatal \<Rightarrow> Some Fatal
      | Ret None \<Rightarrow> Some (Ret (s, status ''FAILD''))
      | Ret (Some leaf) \<Rightarrow>
          (let leafInfo' = leafInfo\<lparr>liIndex := ucast (nIndex (node t leaf))\<rparr>
           in case DetachLeaf ord t leafID m of
                Panic \<Rightarrow> Some Panic
              | Fatal \<Rightarrow> Some Fatal
              | Ret (m', detached) \<Rightarrow>
                  map_option (\<lambda>res. go_bind res (\<lambda>(t', leafIdx, updatedLeaves).
                    let s1 = s\<lparr>spTopology := t', spVcm := m'\<rparr> in
                    if leafIdx \<ge> 0 \<and> detached then
                      (let s2 = (if length updatedLeaves > 0
                                 then s1\<lparr>spUpdatedLeavesToRPC := spUpdatedLeavesToRPC s1 @
                                           [NewLeafUpdatedMessage updatedLeaves]\<rparr>
                                 else s1)
                       in Ret (s2\<lparr>spFailedLeavesToRPC := spFailedLeavesToRPC s2 @
                                    [NewLeafFailedMessage leafInfo' (Some [leaf])]\<rparr>, status ''OK''))
                    else Ret (s1, status ''FAILD''))) (RemoveLeaf leafID t)))"

definition spine_AddServer :: "ServerInfo \<Rightarrow> spineSrvServer \<Rightarrow> (spineSrvServer \<times> answer) go" where
  "spine_AddServer serverInfo s =
     go_bind (AddServerToLeaf serverInfo (ucast (siLeafID serverInfo)) (spTopology s)) (\<lambda>(t, res).
       let s1 = s\<lparr>spTopology := t\<rparr> in
       case res of
         Inl err \<Rightarrow> Ret (s1, status ''FAILED'')
       | Inr server \<Rightarrow>
           (case grandparent t server of
              Some _ \<Rightarrow>
                Ret (s1\<lparr>spNewServers := spNewServers s1 @
                          [NewServerAddedMessage serverInfo (nParent (node t server))]\<rparr>, status ''OK'')
            | None \<Rightarrow> Ret (s1, status ''FAILED'')))"

text \<open>
  The destination of the message is the parent of the removed server, which \<open>RemoveServer\<close> has
  dereferenced and not changed.
\<close>

definition spine_FailServer ::
  "order \<Rightarrow> ServerInfo \<Rightarrow> spineSrvServer \<Rightarrow> (spineSrvServer \<times> answer) go" where
  "spine_FailServer ord serverInfo s =
     (let serverID = ucast (siId serverInfo) :: u16; t = spTopology s; m = spVcm s in
      go_bind (GetNode t serverID NodeType_Server) (\<lambda>server.
        case server of
          None \<Rightarrow> Ret (s, status ''FAILD'')
        | Some r \<Rightarrow>
            go_bind (DetachServer ord t serverID m) (\<lambda>(m', detached).
            go_bind (RemoveServer serverID t) (\<lambda>(t', removed, _).
              let s1 = s\<lparr>spTopology := t', spVcm := m'\<rparr> in
              if removed \<and> detached then
                deref (nParent (node t' r)) (\<lambda>leaf.
                  Ret (s1\<lparr>spFailedServersToRPC := spFailedServersToRPC s1 @
                            [NewServerFailedMessage serverInfo (Some [leaf])]\<rparr>, status ''OK''))
              else Ret (s1, status ''FAILD'')))))"

definition spine_GetVCs :: "spineSrvServer \<Rightarrow> VCsResponse" where
  "spine_GetVCs s = VCsResponse []"

definition spine_GetVCsOfLeaf :: "LeafInfo \<Rightarrow> spineSrvServer \<Rightarrow> VCsResponse" where
  "spine_GetVCsOfLeaf leafInfo s = VCsResponse []"

definition spine_AddVC :: "order \<Rightarrow> VCInfo \<Rightarrow> spineSrvServer \<Rightarrow> (spineSrvServer \<times> answer) go" where
  "spine_AddVC ord vcInfo s =
     go_bind (register_vc ord vcInfo (spTopology s) (spVcm s)) (\<lambda>(m, res).
       let s1 = s\<lparr>spVcm := m\<rparr> in
       case res of
         Inl err \<Rightarrow> Ret (s1, Inl err)
       | Inr vc \<Rightarrow>
           Ret (s1\<lparr>spNewVCs := spNewVCs s1 @
                     [NewVCUpdatedMessage vcInfo VCUpdateAdd (map snd (go_range ord (vcLeaves vc)))]\<rparr>,
                status ''OK''))"

definition spine_RemoveVC :: "order \<Rightarrow> VCInfo \<Rightarrow> spineSrvServer \<Rightarrow> spineSrvServer \<times> answer" where
  "spine_RemoveVC ord vcInfo s =
     (let clusterID = ucast (viId vcInfo) :: u16 in
      case GetVC clusterID (spVcm s) of
        None \<Rightarrow> (s, Inl (ErrVCNotExist clusterID))
      | Some v \<Rightarrow>
          (let leaves = map snd (go_range ord (vcLeaves (vc_at (spVcm s) v)));
               m = fst (RemoveVC ord (spTopology s) v (spVcm s))
           in (s\<lparr>spVcm := m, spNewVCs := spNewVCs s @ [NewVCUpdatedMessage vcInfo VCUpdateRem leaves]\<rparr>,
               status ''OK'')))"

section \<open>Leaf\<close>

record leafSrvServer =
  leUpdatedServers :: "LeafHealthMsg list"
  leNewServers :: "ServerAddedMessage list"
  leNewVCs :: "VCUpdatedMessage list"
  leTopology :: Topology
  leVcm :: VCManager

definition NewLeafSrvServer :: "Topology \<Rightarrow> VCManager \<Rightarrow> leafSrvServer" where
  "NewLeafSrvServer topology vcm =
     \<lparr>leUpdatedServers = [], leNewServers = [], leNewVCs = [], leTopology = topology, leVcm = vcm\<rparr>"

definition leaf_GetTopology :: "leafSrvServer \<Rightarrow> go_error + TopoInfo" where
  "leaf_GetTopology s = Inl (ErrNotSupported ''GetTopology isn't supported by leaf'')"

definition leaf_GetTopologyAtLeaf :: "LeafInfo \<Rightarrow> leafSrvServer \<Rightarrow> go_error + TopoInfo" where
  "leaf_GetTopologyAtLeaf leafInfo s =
     Inl (ErrNotSupported ''GetTopologyAtLeaf isn't supported by leaf'')"

definition leaf_AddLeaf :: "LeafInfo \<Rightarrow> leafSrvServer \<Rightarrow> leafSrvServer \<times> answer" where
  "leaf_AddLeaf leaf s = (s, status ''NOT_SUPPORTED'')"

text \<open>Another leaf has failed: the request carries the new index of the leaf of this controller.\<close>

definition leaf_FailLeaf :: "LeafInfo \<Rightarrow> leafSrvServer \<Rightarrow> (leafSrvServer \<times> answer) go" where
  "leaf_FailLeaf leafInfo s =
     go_bind (GetNode (leTopology s) (ucast (liId leafInfo)) NodeType_Leaf) (\<lambda>leaf.
       case leaf of
         None \<Rightarrow> Ret (s, Inl ErrLeafNil)
       | Some l \<Rightarrow>
           Ret (s\<lparr>leTopology := upd_node l (\<lambda>n. n\<lparr>nIndex := ucast (liIndex leafInfo)\<rparr>) (leTopology s)\<rparr>,
                status ''OK''))"

definition leaf_AddServer :: "ServerInfo \<Rightarrow> leafSrvServer \<Rightarrow> (leafSrvServer \<times> answer) go" where
  "leaf_AddServer serverInfo s =
     go_bind (AddServerToLeaf serverInfo (ucast (siLeafID serverInfo)) (leTopology s)) (\<lambda>(t, res).
       let s1 = s\<lparr>leTopology := t\<rparr> in
       case res of
         Inl err \<Rightarrow> Ret (s1, status ''FAILED'')
       | Inr server \<Rightarrow>
           (case grandparent t server of
              Some _ \<Rightarrow>
                Ret (s1\<lparr>leNewServers := leNewServers s1 @
                          [NewServerAddedMessage serverInfo (nParent (node t server))]\<rparr>, status ''OK'')
            | None \<Rightarrow> Ret (s1, status ''FAILED'')))"

definition leaf_FailServer :: "order \<Rightarrow> ServerInfo \<Rightarrow> leafSrvServer \<Rightarrow> (leafSrvServer \<times> answer) go" where
  "leaf_FailServer ord serverInfo s =
     (let serverID = ucast (siId serverInfo) :: u16; t = leTopology s; m = leVcm s in
      go_bind (GetNode t serverID NodeType_Server) (\<lambda>server.
        case server of
          None \<Rightarrow> Ret (s, status ''FAILD'')
        | Some r \<Rightarrow>
            go_bind (DetachServer ord t (nID (node t r)) m) (\<lambda>(m', _).
            go_bind (RemoveServer (nID (node t r)) t) (\<lambda>(t', _, updated).
              let s1 = s\<lparr>leTopology := t', leVcm := m'\<rparr> in
              Ret (if length updated > 0
                   then s1\<lparr>leUpdatedServers := leUpdatedServers s1 @ [NewLeafHealthMsg True updated]\<rparr>
                   else s1, status ''OK'')))))"

definition leaf_GetVCs :: "leafSrvServer \<Rightarrow> VCsResponse" where
  "leaf_GetVCs s = VCsResponse []"

definition leaf_GetVCsOfLeaf :: "LeafInfo \<Rightarrow> leafSrvServer \<Rightarrow> VCsResponse" where
  "leaf_GetVCsOfLeaf leafInfo s = VCsResponse []"

definition leaf_AddVC :: "order \<Rightarrow> VCInfo \<Rightarrow> leafSrvServer \<Rightarrow> (leafSrvServer \<times> answer) go" where
  "leaf_AddVC ord vcInfo s =
     go_bind (register_vc ord vcInfo (leTopology s) (leVcm s)) (\<lambda>(m, res).
       let s1 = s\<lparr>leVcm := m\<rparr> in
       case res of
         Inl err \<Rightarrow> Ret (s1, Inl err)
       | Inr vc \<Rightarrow>
           Ret (s1\<lparr>leNewVCs := leNewVCs s1 @ [NewVCUpdatedMessage vcInfo VCUpdateAdd []]\<rparr>, status ''OK''))"

definition leaf_RemoveVC :: "order \<Rightarrow> VCInfo \<Rightarrow> leafSrvServer \<Rightarrow> leafSrvServer \<times> answer" where
  "leaf_RemoveVC ord vcInfo s =
     (let clusterID = ucast (viId vcInfo) :: u16 in
      case GetVC clusterID (leVcm s) of
        None \<Rightarrow> (s, Inl (ErrVCNotExist clusterID))
      | Some v \<Rightarrow>
          (let spines = map snd (go_range ord (vcSpines (vc_at (leVcm s) v)));
               m = fst (RemoveVC ord (leTopology s) v (leVcm s))
           in (s\<lparr>leVcm := m, leNewVCs := leNewVCs s @ [NewVCUpdatedMessage vcInfo VCUpdateRem spines]\<rparr>,
               status ''OK'')))"

section \<open>Manager\<close>

text \<open>The manager has no topology and no clusters: it only passes leaf events on.\<close>

record managerSrvServer =
  mgFailedLeaves :: "LeafFailedMessage list"
  mgNewLeaves :: "LeafAddedMessage list"

definition NewManagerSrvServer :: managerSrvServer where
  "NewManagerSrvServer = \<lparr>mgFailedLeaves = [], mgNewLeaves = []\<rparr>"

definition manager_GetTopology :: "managerSrvServer \<Rightarrow> go_error + TopoInfo" where
  "manager_GetTopology s = Inl (ErrNotSupported ''GetTopology isn't supported by manager'')"

definition manager_GetTopologyAtLeaf :: "LeafInfo \<Rightarrow> managerSrvServer \<Rightarrow> go_error + TopoInfo" where
  "manager_GetTopologyAtLeaf leafInfo s =
     Inl (ErrNotSupported ''GetTopologyAtLeaf isn't supported by manager'')"

definition manager_AddLeaf :: "LeafInfo \<Rightarrow> managerSrvServer \<Rightarrow> managerSrvServer \<times> answer" where
  "manager_AddLeaf leafInfo s =
     (s\<lparr>mgNewLeaves := mgNewLeaves s @ [NewLeafAddedMessage leafInfo None]\<rparr>, status ''OK'')"

definition manager_FailLeaf :: "LeafInfo \<Rightarrow> managerSrvServer \<Rightarrow> managerSrvServer \<times> answer" where
  "manager_FailLeaf leafInfo s =
     (s\<lparr>mgFailedLeaves := mgFailedLeaves s @ [NewLeafFailedMessage leafInfo None]\<rparr>, status ''OK'')"

definition manager_AddServer :: "ServerInfo \<Rightarrow> managerSrvServer \<Rightarrow> managerSrvServer \<times> answer" where
  "manager_AddServer server s = (s, status ''NOT_SUPPORTED'')"

definition manager_FailServer :: "ServerInfo \<Rightarrow> managerSrvServer \<Rightarrow> managerSrvServer \<times> answer" where
  "manager_FailServer server s = (s, status ''NOT_SUPPORTED'')"

definition manager_GetVCs :: "managerSrvServer \<Rightarrow> VCsResponse" where
  "manager_GetVCs s = VCsResponse []"

definition manager_GetVCsOfLeaf :: "LeafInfo \<Rightarrow> managerSrvServer \<Rightarrow> VCsResponse" where
  "manager_GetVCsOfLeaf leafInfo s = VCsResponse []"

definition manager_AddVC :: "VCInfo \<Rightarrow> managerSrvServer \<Rightarrow> managerSrvServer \<times> answer" where
  "manager_AddVC vcInfo s = (s, status ''OK'')"

definition manager_RemoveVC :: "VCInfo \<Rightarrow> managerSrvServer \<Rightarrow> managerSrvServer \<times> answer" where
  "manager_RemoveVC vcInfo s = (s, status ''OK'')"

end
