(* ===== verification/Server_Correct.thy ===== *)
theory Server_Correct
  imports Node_Servers Health_Correct
begin

text \<open>
  The properties of the gRPC servers: every handler of the central and of the spine controller keeps the
  joint invariant of topology and clusters, and what the failure handlers do and send.
\<close>

section \<open>Registering and removing clusters\<close>

lemma register_vc_inv:
  assumes ok: "sys_ok t m" and ord: "is_order ord" and run: "register_vc ord cfg t m = Ret (m', res)"
  shows "sys_ok t m'"
proof -
  note wf = sys_okD(1) [OF ok]
  consider (bad) "m' = m" | (new) vc where "NewVC cfg t = Ret (Inr vc)"
      "m' = fst (AddVC ord t (fst (new_vc vc m)) (snd (new_vc vc m)))"
    using run by (fastforce simp: register_vc_def Let_def returned split: prod.splits sum.splits)
  then have "vcm_wf t m'"
  proof cases
    case bad
    with ok show ?thesis by (simp add: sys_ok_def)
  next
    case (new vc)
    define v m1 where "v = fst (new_vc vc m)" and "m1 = snd (new_vc vc m)"
    have 1: "vcm_wf t m1" unfolding m1_def by (rule new_vc_keeps [OF sys_okD(2) [OF ok]])
    have at: "vc_at m1 v = vc" "valid_vc m1 v" by (simp_all add: m1_def v_def vs.valid_alloc_new)
    have vok: "vc_ok t (vc_at m1 v)" unfolding at by (rule NewVC_ok(1) [OF wf new(1)])
    have fresh: "\<not> (\<exists>c. gm_load (vmVcs m1) c = Some v)"
    proof
      assume "\<exists>c. gm_load (vmVcs m1) c = Some v"
      then obtain c where "gm_load (vmVcs m) c = Some v" by (auto simp: m1_def)
      then have "valid_vc m v" using sys_okD(2) [OF ok] by (simp add: vcm_inv_def vcs_ok_def)
      then show False using vs.alloc_fresh unfolding v_def by blast
    qed
    show ?thesis
    proof (cases "gm_load (vmVcs m1) (vcClusterID (vc_at m1 v))")
      case None
      with AddVC_inv [OF wf ord 1 at(2) vok None fresh] show ?thesis
        unfolding new(2) v_def [symmetric] m1_def [symmetric] by simp
    next
      case (Some w)
      then show ?thesis using 1 unfolding new(2) v_def [symmetric] m1_def [symmetric] by (simp add: AddVC_def)
    qed
  qed
  with ok show ?thesis by (simp add: sys_ok_def)
qed

lemma remove_vc_inv:
  assumes ok: "sys_ok t m" and ord: "is_order ord" and v: "GetVC c m = Some v"
  shows "sys_ok t (fst (RemoveVC ord t v m))"
proof -
  have "gm_load (vmVcs m) c = Some v" using v by (simp add: GetVC_def)
  then have reg: "registered m v" using ok by (auto simp: sys_ok_def vcm_inv_def vcs_ok_def registered_def)
  have "\<And>k. k \<in> {} \<Longrightarrow> gm_load (vcServers (vc_at m v)) k = None"
    "\<And>k. k \<in> {} \<Longrightarrow> gm_load (vcLeaves (vc_at m v)) k = None" by simp_all
  with RemoveVC_inv [OF sys_okD(1) [OF ok] ord sys_okD(2) [OF ok] reg] ok show ?thesis by (simp add: sys_ok_def)
qed

section \<open>Failing a server, in all three servers\<close>

text \<open>\<open>fail_server\<close> is the part that the handlers share.\<close>

lemma fail_server_run:
  assumes ok: "sys_ok t m" and ord: "is_order ord" and r: "gm_load (tServers t) k = Some r"
  shows "\<exists>m' t' l ys zs. DetachServer ord t k m =
      Ret (m', \<exists>v. registered m v \<and> gm_load (vcServers (vc_at m v)) k \<noteq> None) \<and>
    RemoveServer k t = Ret (t', True, zs) \<and> server_removed t t' k r l ys zs \<and> sys_ok t' m' \<and> server_unused m' k"
proof -
  from DetachServer_frees [OF ok ord, of k] obtain m' where
    m': "DetachServer ord t k m = Ret (m', \<exists>v. registered m v \<and> gm_load (vcServers (vc_at m v)) k \<noteq> None)"
      "sys_ok t m'" "server_unused m' k" by blast
  from sys_okD(1) [OF ok] show ?thesis
  proof (cases rule: RemoveServer_cases [where k = k])
    case (removed r' l ys zs t')
    then have "server_removed t t' k r l ys zs" using r by (auto simp: server_removed_def)
    with sys_ok_server_removed [OF m'(2) this m'(3)] m' removed(2) show ?thesis by blast
  qed (use r in simp)
qed

lemma listed_server:
  assumes "vcm_wf t m"
  shows "set (listed (vmServerVCs m) k) = {v. registered m v \<and> gm_load (vcServers (vc_at m v)) k \<noteq> None}"
    and "set (listed (vmLeafVCs m) k) = {v. registered m v \<and> gm_load (vcLeaves (vc_at m v)) k \<noteq> None}"
  using assms by (simp_all add: vcm_inv_def index_ok_def)

text \<open>The destinations: the spines of the given clusters, filed under their IDs.\<close>

lemma spines_of_vcs_wf: "gm_wf (spines_of_vcs ord m vcs)"
  unfolding spines_of_vcs_def
  by (rule fold_inv [where P = gm_wf], simp, rule fold_inv [where P = gm_wf]) (auto split: prod.splits)

lemma load_store_pairs:
  "gm_load (fold (\<lambda>(k, v). gm_store k v) kvs m) = gm_load m ++ map_of (rev kvs)"
  using gm.load_store_all .

lemma rev_go_range:
  assumes ord: "is_order ord" and c: "gm_wf c"
  shows "map_of (rev (go_range ord c)) k = gm_load c k"
proof -
  have "distinct (map fst (rev (go_range ord c)))" using ord c by (simp add: rev_map [symmetric])
  from map_of_eq_Some_iff [OF this, of k] have "map_of (rev (go_range ord c)) k = Some q \<longleftrightarrow> gm_load c k = Some q"
    for q using gm_range_load [OF ord c, of k q] by simp
  then show ?thesis by (metis not_None_eq)
qed

lemma spines_of_vcs_range:
  assumes ord: "is_order ord" and wf: "\<And>v. v \<in> set vcs \<Longrightarrow> gm_wf (vcSpines (vc_at m v))"
    and id: "\<And>v k p. v \<in> set vcs \<Longrightarrow> gm_load (vcSpines (vc_at m v)) k = Some p \<Longrightarrow> gm_load sp k = Some p"
  shows "gm_load (spines_of_vcs ord m vcs) k = Some p \<longleftrightarrow>
    (\<exists>v \<in> set vcs. gm_load (vcSpines (vc_at m v)) k = Some p)"
proof -
  have one: "gm_load (fold (\<lambda>(k, v). gm_store k v) (go_range ord c) U) k =
      (case gm_load c k of None \<Rightarrow> gm_load U k | Some q \<Rightarrow> Some q)" if c: "gm_wf c" for c U k
    unfolding load_store_pairs map_add_def rev_go_range [OF ord c] ..
  have "(gm_load (fold (\<lambda>v. fold (\<lambda>(k, v). gm_store k v) (go_range ord (vcSpines (vc_at m v)))) vcs U) k = Some p)
      \<longleftrightarrow> (\<exists>v \<in> set vcs. gm_load (vcSpines (vc_at m v)) k = Some p) \<or> gm_load U k = Some p"
    if "\<And>k p. gm_load U k = Some p \<Longrightarrow> gm_load sp k = Some p" for U k p
    using wf id that
  proof (induction vcs arbitrary: U)
    case (Cons v vcs)
    let ?U = "fold (\<lambda>(k, v). gm_store k v) (go_range ord (vcSpines (vc_at m v))) U"
    have wv: "gm_wf (vcSpines (vc_at m v))" using Cons.prems(1) by simp
    have sp: "gm_load ?U k = Some p \<Longrightarrow> gm_load sp k = Some p" for k p
      unfolding one [OF wv] using Cons.prems(2) [of v] Cons.prems(3) by (simp split: option.splits)
    have step: "gm_load ?U k = Some p \<longleftrightarrow> gm_load (vcSpines (vc_at m v)) k = Some p \<or> gm_load U k = Some p"
    proof (cases "gm_load (vcSpines (vc_at m v)) k")
      case (Some q)
      then have "gm_load U k = Some p \<Longrightarrow> q = p"
        using Cons.prems(2) [of v k q] Cons.prems(3) [of k p] by simp
      with Some show ?thesis unfolding one [OF wv] by auto
    qed (simp add: one [OF wv])
    have "(gm_load (fold (\<lambda>v. fold (\<lambda>(k, v). gm_store k v) (go_range ord (vcSpines (vc_at m v)))) vcs ?U) k = Some p)
      \<longleftrightarrow> (\<exists>v \<in> set vcs. gm_load (vcSpines (vc_at m v)) k = Some p) \<or> gm_load ?U k = Some p"
      by (rule Cons.IH) (use Cons.prems sp in auto)
    then show ?case using step by auto
  qed simp
  from this [of gm_empty] show ?thesis by (simp add: spines_of_vcs_def NodeMap_Store_fun)
qed

text \<open>The destinations of a failure message: the spine of the failed node and those of its clusters.\<close>

lemma destinations:
  assumes ok: "sys_ok t m" and ord: "is_order ord" and reg: "\<And>v. v \<in> set vcs \<Longrightarrow> registered m v"
    and gp: "\<And>p. gp = Some p \<Longrightarrow> gm_load (tSpines t) (nID (node t p)) = Some p"
  shows "set (map snd (go_range ord (add_spine t gp (spines_of_vcs ord m vcs)))) =
    {p. gp = Some p \<or> (\<exists>v \<in> set vcs. \<exists>j. gm_load (vcSpines (vc_at m v)) j = Some p)}"
proof -
  let ?M = "add_spine t gp (spines_of_vcs ord m vcs)"
  have vok: "vc_members_ok t (vc_at m v)" if "v \<in> set vcs" for v
    using registered_ok(2) [OF _ reg [OF that]] sys_okD(2) [OF ok] by (simp add: vcm_inv_def vc_ok_def)
  then have w: "gm_wf (vcSpines (vc_at m v))"
    and sp: "\<And>k p. gm_load (vcSpines (vc_at m v)) k = Some p \<Longrightarrow> gm_load (tSpines t) k = Some p"
    if "v \<in> set vcs" for v using that by (simp_all add: vc_members_ok_def)
  note range = spines_of_vcs_range [OF ord w sp]
  have "gm_load ?M j = Some p \<longleftrightarrow> gp = Some p \<and> nID (node t p) = j \<or>
      (\<exists>v \<in> set vcs. gm_load (vcSpines (vc_at m v)) j = Some p)" for j p
  proof (cases gp)
    case (Some q)
    have "gm_load (vcSpines (vc_at m v)) (nID (node t q)) = Some p \<Longrightarrow> p = q" if "v \<in> set vcs" for v
      using sp [OF that] gp [OF Some] by fastforce
    then show ?thesis using Some range by (auto simp: add_spine_def)
  qed (use range in \<open>simp add: add_spine_def\<close>)
  moreover have "gm_wf ?M" using spines_of_vcs_wf by (simp add: add_spine_def split: option.split)
  then have "p \<in> set (map snd (go_range ord ?M)) \<longleftrightarrow> (\<exists>j. gm_load ?M j = Some p)" for p
    using gm_range_load [OF ord] by force
  ultimately show ?thesis by blast
qed

lemma listed_or_empty:
  "(case LoadVCList rm k of (vcs, ok) \<Rightarrow> if ok then spines_of_vcs ord m vcs else gm_empty) =
     spines_of_vcs ord m (listed rm k)"
  by (auto simp: listed_def LoadVCList_def spines_of_vcs_def split: option.split)

lemma wf_grandparent:
  assumes wf: "wf_topo t" and r: "gm_load (tServers t) k = Some r"
  obtains p where "grandparent t r = Some p" "gm_load (tSpines t) (nID (node t p)) = Some p"
proof -
  from wf_parent [OF wf r] obtain l where l: "nParent (node t r) = Some l"
    "gm_load (tLeaves t) (nID (node t l)) = Some l" by blast
  from wf_leaf_parent [OF wf l(2)] l(1) that show ?thesis by (auto simp: grandparent_def)
qed

section \<open>The central controller\<close>

definition central_ok :: "centralSrvServer \<Rightarrow> bool" where
  "central_ok s \<longleftrightarrow> sys_ok (ceTopology s) (ceVcm s) \<and> indices_ok (ceTopology s)"

text \<open>One request that changes the state.\<close>

inductive central_step :: "centralSrvServer \<Rightarrow> centralSrvServer \<Rightarrow> bool" where
  AddLeaf: "central_AddLeaf li s = Ret (s', a) \<Longrightarrow> central_step s s'"
| FailLeaf: "central_FailLeaf ord li s = Some (Ret (s', a)) \<Longrightarrow> is_order ord \<Longrightarrow> central_step s s'"
| AddServer: "central_AddServer si s = Ret (s', a) \<Longrightarrow> central_step s s'"
| FailServer: "central_FailServer ord si s = Ret (s', a) \<Longrightarrow> is_order ord \<Longrightarrow> central_step s s'"
| AddVC: "central_AddVC ord vi s = Ret (s', a) \<Longrightarrow> is_order ord \<Longrightarrow> central_step s s'"
| RemoveVC: "central_RemoveVC ord vi s = (s', a) \<Longrightarrow> is_order ord \<Longrightarrow> central_step s s'"

lemma sys_ok_fail_server:
  assumes ok: "sys_ok t m" and ord: "is_order ord" and "gm_load (tServers t) k = Some r"
    and "DetachServer ord t k m = Ret (m', b)" and "RemoveServer k t = Ret (t', b', us)"
  shows "sys_ok t' m'"
  using fail_server_run [OF ok ord assms(3)] assms(4,5) by auto

lemma sys_ok_fail_leaf:
  assumes ok: "sys_ok t m" and ord: "is_order ord" and "gm_load (tLeaves t) k = Some l"
    and "DetachLeaf ord t k m = Ret (m', b)" and "RemoveLeaf k t = Some (Ret (t', i, us))"
  shows "sys_ok t' m'"
  using FailLeaf_run [OF ok ord assms(3)] assms(4,5) by auto

lemma central_step_ok:
  assumes "central_step s s'" and "central_ok s"
  shows "central_ok s'"
  using assms(1)
proof cases
  case (AddLeaf li a)
  then obtain t res where run: "AddLeafToSpine li (ceTopology s) = Ret (t, res)"
    and "ceTopology s' = t" "ceVcm s' = ceVcm s"
    by (auto simp: central_AddLeaf_def Let_def returned)
  with sys_ok_AddLeaf [OF _ run] topo_step_inv [OF topo_step.add_leaf [OF run]] assms(2) show ?thesis
    by (auto simp: central_ok_def sys_ok_def)
next
  case (FailLeaf ord li a)
  then consider "s' = s" | l m' b t' i us where "gm_load (tLeaves (ceTopology s)) (ucast (liId li)) = Some l"
      "DetachLeaf ord (ceTopology s) (ucast (liId li)) (ceVcm s) = Ret (m', b)"
      "RemoveLeaf (ucast (liId li)) (ceTopology s) = Some (Ret (t', i, us))" "ceTopology s' = t'" "ceVcm s' = m'"
    by (auto simp: central_FailLeaf_def Let_def returned split: option.splits go.splits)
  then show ?thesis
  proof cases
    case a: 2
    with sys_ok_fail_leaf [OF _ FailLeaf(2) a(1,2,3)] topo_step_inv [OF topo_step.remove_leaf [OF a(3)]] assms(2)
    show ?thesis by (auto simp: central_ok_def sys_ok_def)
  qed (use assms(2) in simp)
next
  case (AddServer si a)
  then obtain t res where run: "AddServerToLeaf si (ucast (siLeafID si)) (ceTopology s) = Ret (t, res)"
    and "ceTopology s' = t" "ceVcm s' = ceVcm s"
    by (auto simp: central_AddServer_def Let_def returned)
  with sys_ok_AddServer [OF _ run] topo_step_inv [OF topo_step.add_server [OF run]] assms(2) show ?thesis
    by (auto simp: central_ok_def sys_ok_def)
next
  case (FailServer ord si a)
  then consider "s' = s" | r m' b t' b' us where "gm_load (tServers (ceTopology s)) (ucast (siId si)) = Some r"
      "DetachServer ord (ceTopology s) (ucast (siId si)) (ceVcm s) = Ret (m', b)"
      "RemoveServer (ucast (siId si)) (ceTopology s) = Ret (t', b', us)" "ceTopology s' = t'" "ceVcm s' = m'"
    by (auto simp: central_FailServer_def Let_def returned)
  then show ?thesis
  proof cases
    case a: 2
    with sys_ok_fail_server [OF _ FailServer(2) a(1,2,3)] topo_step_inv [OF topo_step.remove_server [OF a(3)]] assms(2)
    show ?thesis by (auto simp: central_ok_def sys_ok_def)
  qed (use assms(2) in simp)
next
  case (AddVC ord vi a)
  then obtain m res where run: "register_vc ord vi (ceTopology s) (ceVcm s) = Ret (m, res)"
    and "ceTopology s' = ceTopology s" "ceVcm s' = m"
    by (auto simp: central_AddVC_def Let_def returned)
  with register_vc_inv [OF _ AddVC(2) run] assms(2) show ?thesis by (simp add: central_ok_def)
next
  case (RemoveVC ord vi a)
  then consider "s' = s" | v where "GetVC (ucast (viId vi)) (ceVcm s) = Some v" "ceTopology s' = ceTopology s"
      "ceVcm s' = fst (RemoveVC ord (ceTopology s) v (ceVcm s))"
    by (auto simp: central_RemoveVC_def Let_def split: option.splits)
  then show ?thesis
  proof cases
    case a: 2
    with remove_vc_inv [OF _ RemoveVC(2) a(1)] assms(2) show ?thesis by (simp add: central_ok_def)
  qed (use assms(2) in simp)
qed

interpretation ci: invariant central_ok central_step
  by unfold_locales (use central_step_ok in blast)

end
