(* ===== verification/Central_Correct.thy ===== *)
theory Central_Correct
  imports Server_Correct
begin

text \<open>
  What the failure handlers of the central and the spine controllers do and whom they tell, on every branch.
\<close>

section \<open>Witness state\<close>

definition sample_central :: centralSrvServer where
  "sample_central = NewCentralSrvServer sample sample_vcm"

definition sample_spine :: spineSrvServer where
  "sample_spine = NewSpineSrvServer sample sample_vcm"

definition fail_info :: "u32 \<Rightarrow> ServerInfo" where
  "fail_info k = \<lparr>siId = k, siAddress = [], siWorkersCount = 0, siLeafID = 0, siPort = None\<rparr>"

definition fail_leaf_info :: "u32 \<Rightarrow> LeafInfo" where
  "fail_leaf_info k = \<lparr>liId = k, liIndex = 0, liAddress = [], liMgmtAddress = [], liServers = [],
     liSpineID = 0, liAsic = None, liDsPort = None, liUsPort = None\<rparr>"

lemma sample_central_fields [simp]:
  "ceTopology sample_central = sample" "ceVcm sample_central = sample_vcm"
  "ceFailedServers sample_central = []" "ceFailedLeaves sample_central = []" "ceDisabledPorts sample_central = []"
  by (simp_all add: sample_central_def NewCentralSrvServer_def)

lemma sample_spine_fields [simp]:
  "spTopology sample_spine = sample" "spVcm sample_spine = sample_vcm"
  "spFailedServersToRPC sample_spine = []" "spFailedLeavesToRPC sample_spine = []"
  "spUpdatedLeavesToRPC sample_spine = []"
  by (simp_all add: sample_spine_def NewSpineSrvServer_def)

lemma sample_central_ok: "central_ok sample_central"
  by (simp add: central_ok_def sample_sys_ok sample_indices)

lemma fail_info_fields [simp]: "siId (fail_info k) = k" "liId (fail_leaf_info k) = k"
  by (simp_all add: fail_info_def fail_leaf_info_def)

lemma sample_members:
  "registered sample_vcm 0" "gm_load (vcServers (vc_at sample_vcm 0)) 0 = Some 3"
  "\<And>v. registered sample_vcm v \<Longrightarrow> gm_load (vcServers (vc_at sample_vcm v)) 1 = None"
proof -
  show "registered sample_vcm 0" "gm_load (vcServers (vc_at sample_vcm 0)) 0 = Some 3"
    by (simp_all add: vcm_eval gm_eval)
  fix v assume "registered sample_vcm v"
  then have "v = 0 \<or> v = 1" by (auto simp: registered_def sample_vcm_def gm_eval split: if_splits)
  then show "gm_load (vcServers (vc_at sample_vcm v)) 1 = None" by (auto simp: vcm_eval gm_eval)
qed

section \<open>Any sequence of requests\<close>

text \<open>
  From a good state, the central controller stays in one through any sequence of requests, in any
  order and with any outcome: the topology is a tree with consecutive leaf indices, every cluster lists
  registered nodes only, and both cluster indices are exact.
\<close>

theorem central_requests_keep_invariant:
  assumes "central_step\<^sup>*\<^sup>* s s'" and "central_ok s"
  shows "central_ok s'"
  using ci.reachable assms by blast

theorem central_requests_keep_invariant_witness:
  "\<exists>s'. central_step\<^sup>*\<^sup>* sample_central s' \<and> GetVC 1 (ceVcm s') = None \<and> central_ok s'"
proof -
  let ?vi = "sample_vcinfo\<lparr>viId := 1\<rparr>"
  obtain s' a where run: "central_RemoveVC stored_order ?vi sample_central = (s', a)" by fastforce
  have v: "GetVC 1 sample_vcm = Some 0" by (simp add: GetVC_def vcm_eval gm_eval)
  have "ceVcm s' = fst (RemoveVC stored_order sample 0 sample_vcm)"
    using run v by (auto simp: central_RemoveVC_def)
  then have "GetVC 1 (ceVcm s') = None"
    by (simp add: GetVC_def RemoveVC_def Let_def vcm_eval gm_eval)
  moreover have st: "central_step\<^sup>*\<^sup>* sample_central s'"
    by (rule r_into_rtranclp) (rule central_step.RemoveVC [OF run is_order_stored])
  ultimately show ?thesis using central_requests_keep_invariant [OF st sample_central_ok] by blast
qed

section \<open>Failing a server at the central controller\<close>

lemma server_removed_spine:
  assumes wf: "wf_topo t" and eff: "server_removed t t' k r l ys zs" and p: "gm_load (tSpines t) j = Some p"
  shows "node t' p = node t p"
proof -
  note e = eff [unfolded server_removed_def]
  obtain i where l: "gm_load (tLeaves t) i = Some l" using wf_parent [OF wf] e by (metis option.inject)
  have "nType (node t p) = NodeType_Spine" "nType (node t l) = NodeType_Leaf"
    using wf_spine [OF wf p] wf_leaf [OF wf l] by (simp_all add: spine_ok_def leaf_ok_def)
  moreover have "nType (node t c) = NodeType_Server" if "c \<in> set (ys @ zs)" for c
    using wf_child(4) [OF wf l, of c] e that by auto
  ultimately have "p \<notin> set (l # ys @ zs)" by auto
  with e show ?thesis by blast
qed

text \<open>The run, with what it leaves alone.\<close>

lemma central_FailServer_run:
  assumes "central_ok s" and "is_order ord" and "gm_load (tServers (ceTopology s)) (ucast (siId si)) = Some r"
  shows "\<exists>s'. central_FailServer ord si s = Ret (s', status ''OK'') \<and> central_ok s' \<and>
    (\<forall>p. nID (node (ceTopology s') p) = nID (node (ceTopology s) p)) \<and>
    (\<forall>k p. gm_load (tSpines (ceTopology s)) k = Some p \<longrightarrow> node (ceTopology s') p = node (ceTopology s) p) \<and>
    gm_load (tServers (ceTopology s')) = (gm_load (tServers (ceTopology s)))(ucast (siId si) := None) \<and>
    server_unused (ceVcm s') (ucast (siId si)) \<and>
    (if server_unused (ceVcm s) (ucast (siId si))
     then ceFailedServers s' = ceFailedServers s \<and> ceDisabledPorts s' = ceDisabledPorts s
     else \<exists>dsts. ceFailedServers s' = ceFailedServers s @ [NewServerFailedMessage si (Some dsts)] \<and>
       ceDisabledPorts s' = ceDisabledPorts s @ [\<lparr>pdPort = nPort (node (ceTopology s) r)\<rparr>] \<and>
       set dsts = {p. grandparent (ceTopology s) r = Some p \<or>
         (\<exists>v j. registered (ceVcm s) v \<and> gm_load (vcServers (vc_at (ceVcm s) v)) (ucast (siId si)) \<noteq> None \<and>
                gm_load (vcSpines (vc_at (ceVcm s) v)) j = Some p)})"
proof -
  let ?t = "ceTopology s" and ?m = "ceVcm s" and ?k = "ucast (siId si) :: u16"
  have ok: "sys_ok ?t ?m" and ix: "indices_ok ?t" using assms(1) by (simp_all add: central_ok_def)
  note wf = sys_okD(1) [OF ok]
  from fail_server_run [OF ok assms(2,3)] obtain m' t' l ys zs where
    m': "DetachServer ord ?t ?k ?m = Ret (m', \<not> server_unused ?m ?k)"
    and t': "RemoveServer ?k ?t = Ret (t', True, zs)" "server_removed ?t t' ?k r l ys zs"
    and good: "sys_ok t' m'" "server_unused m' ?k" unfolding server_unused_def by auto
  have ix': "indices_ok t'" by (rule server_removed_indices [OF wf ix t'(2)])
  define dsts where "dsts = map snd (go_range ord (add_spine ?t (grandparent ?t r)
    (spines_of_vcs ord ?m (listed (vmServerVCs ?m) ?k))))"
  have members: "set (listed (vmServerVCs ?m) ?k) =
      {v. registered ?m v \<and> gm_load (vcServers (vc_at ?m v)) ?k \<noteq> None}"
    by (rule listed_server(1) [OF sys_okD(2) [OF ok]])
  have "set dsts = {p. grandparent ?t r = Some p \<or>
      (\<exists>v \<in> set (listed (vmServerVCs ?m) ?k). \<exists>j. gm_load (vcSpines (vc_at ?m v)) j = Some p)}"
    unfolding dsts_def
  proof (rule destinations [OF ok assms(2)])
    show "gm_load (tSpines ?t) (nID (node ?t p)) = Some p" if "grandparent ?t r = Some p" for p
      using wf_grandparent [OF wf assms(3)] that by (metis option.inject)
  qed (simp add: members)
  then have set_dsts: "set dsts = {p. grandparent ?t r = Some p \<or>
      (\<exists>v j. registered ?m v \<and> gm_load (vcServers (vc_at ?m v)) ?k \<noteq> None \<and>
             gm_load (vcSpines (vc_at ?m v)) j = Some p)}"
    unfolding members by blast
  define s' where "s' = (if server_unused ?m ?k then s\<lparr>ceTopology := t', ceVcm := m'\<rparr>
     else s\<lparr>ceTopology := t', ceVcm := m', ceDisabledPorts := ceDisabledPorts s @ [\<lparr>pdPort = nPort (node ?t r)\<rparr>],
        ceFailedServers := ceFailedServers s @ [NewServerFailedMessage si (Some dsts)]\<rparr>)"
  have run: "central_FailServer ord si s = Ret (s', status ''OK'')"
    using assms(3) m' t'(1) server_removed_tree(3) [OF t'(2), of r]
    by (simp add: central_FailServer_def Let_def GetVCsOfServer_def listed_or_empty dsts_def s'_def)
  have topo: "ceTopology s' = t'" "ceVcm s' = m'" by (simp_all add: s'_def)
  have "gm_load (tServers t') = (gm_load (tServers ?t))(?k := None)" using t'(2) by (simp add: server_removed_def)
  moreover have "ceFailedServers s' = (if server_unused ?m ?k then ceFailedServers s
      else ceFailedServers s @ [NewServerFailedMessage si (Some dsts)])"
    "ceDisabledPorts s' = (if server_unused ?m ?k then ceDisabledPorts s
      else ceDisabledPorts s @ [\<lparr>pdPort = nPort (node ?t r)\<rparr>])" by (simp_all add: s'_def)
  moreover have "nID (node t' p) = nID (node ?t p)" for p using server_removed_tree [OF t'(2)] by simp
  moreover have "node t' p = node ?t p" if "gm_load (tSpines ?t) k = Some p" for k p
    by (rule server_removed_spine [OF wf t'(2) that])
  ultimately show ?thesis using run good ix' set_dsts
    by (intro exI [of _ s']) (simp only: central_ok_def topo, auto)
qed

text \<open>
  C23: Failing a registered server at the central controller answers OK and removes it from the topology
  and from every cluster. Its own spine, and every spine of a cluster that used it, is told, and its port
  is disabled, but only when some cluster used the server: otherwise no message is sent at all, so
  the spine and the leaf keep the server that the central controller no longer has.
\<close>

theorem central_FailServer_correct:
  assumes "central_ok s" and "is_order ord" and "gm_load (tServers (ceTopology s)) (ucast (siId si)) = Some r"
  shows "\<exists>s'. central_FailServer ord si s = Ret (s', status ''OK'') \<and> central_ok s' \<and>
    gm_load (tServers (ceTopology s')) = (gm_load (tServers (ceTopology s)))(ucast (siId si) := None) \<and>
    server_unused (ceVcm s') (ucast (siId si)) \<and>
    (if server_unused (ceVcm s) (ucast (siId si))
     then ceFailedServers s' = ceFailedServers s \<and> ceDisabledPorts s' = ceDisabledPorts s
     else \<exists>dsts. ceFailedServers s' = ceFailedServers s @ [NewServerFailedMessage si (Some dsts)] \<and>
       ceDisabledPorts s' = ceDisabledPorts s @ [\<lparr>pdPort = nPort (node (ceTopology s) r)\<rparr>] \<and>
       set dsts = {p. grandparent (ceTopology s) r = Some p \<or>
         (\<exists>v j. registered (ceVcm s) v \<and> gm_load (vcServers (vc_at (ceVcm s) v)) (ucast (siId si)) \<noteq> None \<and>
                gm_load (vcSpines (vc_at (ceVcm s) v)) j = Some p)})"
  using central_FailServer_run [OF assms] by blast

theorem central_FailServer_correct_witness:
  "(\<exists>s'. central_FailServer stored_order (fail_info 0) sample_central = Ret (s', status ''OK'') \<and>
     ceFailedServers s' \<noteq> []) \<and>
   (\<exists>s'. central_FailServer stored_order (fail_info 1) sample_central = Ret (s', status ''OK'') \<and>
     gm_load (tServers (ceTopology s')) 1 = None \<and> ceFailedServers s' = [])"
proof
  have used: "\<not> server_unused sample_vcm 0" using sample_members(1,2) by (auto simp: server_unused_def)
  show "\<exists>s'. central_FailServer stored_order (fail_info 0) sample_central = Ret (s', status ''OK'') \<and>
     ceFailedServers s' \<noteq> []"
    using central_FailServer_correct [OF sample_central_ok is_order_stored, of "fail_info 0" 3] used
    by (fastforce simp: sample_nodes)
  have "server_unused sample_vcm 1" using sample_members(3) by (simp add: server_unused_def)
  then show "\<exists>s'. central_FailServer stored_order (fail_info 1) sample_central = Ret (s', status ''OK'') \<and>
     gm_load (tServers (ceTopology s')) 1 = None \<and> ceFailedServers s' = []"
    using central_FailServer_correct [OF sample_central_ok is_order_stored, of "fail_info 1" 4]
    by (fastforce simp: sample_nodes)
qed

section \<open>Failing a leaf at the central controller\<close>

text \<open>
  C22: Failing a registered leaf at the central controller returns and answers OK; the leaf is gone from
  the topology and from every cluster, its spine and every spine of a cluster that used it are told in
  one message, and the two ports of the leaf and the ports of its servers are disabled, in this order.
\<close>

theorem central_FailLeaf_correct:
  assumes "central_ok s" and "is_order ord" and "gm_load (tLeaves (ceTopology s)) (ucast (liId li)) = Some l"
  shows "\<exists>s' dsts. central_FailLeaf ord li s = Some (Ret (s', status ''OK'')) \<and> central_ok s' \<and>
    gm_load (tLeaves (ceTopology s')) = (gm_load (tLeaves (ceTopology s)))(ucast (liId li) := None) \<and>
    leaf_unused (ceVcm s') (ucast (liId li)) \<and>
    ceFailedLeaves s' = ceFailedLeaves s @ [NewLeafFailedMessage li (Some dsts)] \<and>
    set dsts = {p. nParent (node (ceTopology s) l) = Some p \<or>
      (\<exists>v j. registered (ceVcm s) v \<and> gm_load (vcLeaves (vc_at (ceVcm s) v)) (ucast (liId li)) \<noteq> None \<and>
             gm_load (vcSpines (vc_at (ceVcm s) v)) j = Some p)} \<and>
    map pdPort (ceDisabledPorts s') = map pdPort (ceDisabledPorts s) @
      [nDsPort (node (ceTopology s') l), nUsPort (node (ceTopology s') l)] @
      map (\<lambda>c. nPort (node (ceTopology s') c)) (nChildren (node (ceTopology s) l))"
proof -
  let ?t = "ceTopology s" and ?m = "ceVcm s" and ?k = "ucast (liId li) :: u16"
  have ok: "sys_ok ?t ?m" and ix: "indices_ok ?t" using assms(1) by (simp_all add: central_ok_def)
  note wf = sys_okD(1) [OF ok]
  from FailLeaf_run [OF ok assms(2,3)] obtain m' t' p ys zs where
    m': "DetachLeaf ord ?t ?k ?m = Ret (m', True)"
    and t': "RemoveLeaf ?k ?t = Some (Ret (t', int (length ys), zs))" "leaf_removed ?t t' ?k l p ys zs"
    and good: "sys_ok t' m'" "leaf_unused m' ?k" by blast
  have ix': "indices_ok t'" by (rule leaf_removed_indices [OF wf ix t'(2)])
  define dsts where "dsts = map snd (go_range ord (add_spine ?t (nParent (node ?t l))
    (spines_of_vcs ord ?m (listed (vmLeafVCs ?m) ?k))))"
  have members: "set (listed (vmLeafVCs ?m) ?k) =
      {v. registered ?m v \<and> gm_load (vcLeaves (vc_at ?m v)) ?k \<noteq> None}"
    by (rule listed_server(2) [OF sys_okD(2) [OF ok]])
  have "set dsts = {p. nParent (node ?t l) = Some p \<or>
      (\<exists>v \<in> set (listed (vmLeafVCs ?m) ?k). \<exists>j. gm_load (vcSpines (vc_at ?m v)) j = Some p)}"
    unfolding dsts_def
  proof (rule destinations [OF ok assms(2)])
    show "gm_load (tSpines ?t) (nID (node ?t p)) = Some p" if "nParent (node ?t l) = Some p" for p
      using wf_leaf_parent [OF wf assms(3)] that by (metis option.inject)
  qed (simp add: members)
  then have set_dsts: "set dsts = {p. nParent (node ?t l) = Some p \<or>
      (\<exists>v j. registered ?m v \<and> gm_load (vcLeaves (vc_at ?m v)) ?k \<noteq> None \<and>
             gm_load (vcSpines (vc_at ?m v)) j = Some p)}"
    unfolding members by blast
  define s' where "s' = s\<lparr>ceTopology := t', ceVcm := m', ceDisabledPorts := ceDisabledPorts s @
      [\<lparr>pdPort = nDsPort (node t' l)\<rparr>, \<lparr>pdPort = nUsPort (node t' l)\<rparr>] @
      map (\<lambda>c. \<lparr>pdPort = nPort (node t' c)\<rparr>) (nChildren (node ?t l)),
      ceFailedLeaves := ceFailedLeaves s @ [NewLeafFailedMessage li (Some dsts)]\<rparr>"
  have run: "central_FailLeaf ord li s = Some (Ret (s', status ''OK''))"
    using assms(3) m' t'(1) by (simp add: central_FailLeaf_def Let_def GetVCsOfLeaf_def listed_or_empty dsts_def s'_def)
  have topo: "ceTopology s' = t'" "ceVcm s' = m'" by (simp_all add: s'_def)
  have "gm_load (tLeaves t') = (gm_load (tLeaves ?t))(?k := None)" using t'(2) by (simp add: leaf_removed_def)
  then show ?thesis using run good ix' set_dsts
    by (intro exI [of _ s'] exI [of _ dsts]) (simp add: central_ok_def topo, simp add: s'_def o_def)
qed

theorem central_FailLeaf_correct_witness:
  "\<exists>s'. central_FailLeaf stored_order (fail_leaf_info 0) sample_central = Some (Ret (s', status ''OK'')) \<and>
     gm_load (tLeaves (ceTopology s')) 0 = None \<and> length (ceFailedLeaves s') = 1"
  using central_FailLeaf_correct [OF sample_central_ok is_order_stored, of "fail_leaf_info 0" 2]
  by (fastforce simp: sample_nodes)

section \<open>The spine controller\<close>

lemma spine_FailServer_run:
  assumes "sys_ok (spTopology s) (spVcm s)" and "is_order ord"
    and "gm_load (tServers (spTopology s)) (ucast (siId si)) = Some r" and "nParent (node (spTopology s) r) = Some l"
  shows "\<exists>s'. spine_FailServer ord si s = Ret (s',
      if server_unused (spVcm s) (ucast (siId si)) then status ''FAILD'' else status ''OK'') \<and>
    sys_ok (spTopology s') (spVcm s') \<and>
    gm_load (tServers (spTopology s')) = (gm_load (tServers (spTopology s)))(ucast (siId si) := None) \<and>
    server_unused (spVcm s') (ucast (siId si)) \<and>
    spFailedServersToRPC s' = spFailedServersToRPC s @
      (if server_unused (spVcm s) (ucast (siId si)) then [] else [NewServerFailedMessage si (Some [l])])"
proof -
  let ?t = "spTopology s" and ?m = "spVcm s" and ?k = "ucast (siId si) :: u16"
  from fail_server_run [OF assms(1-3)] obtain m' t' l' ys zs where
    m': "DetachServer ord ?t ?k ?m = Ret (m', \<not> server_unused ?m ?k)"
    and t': "RemoveServer ?k ?t = Ret (t', True, zs)" "server_removed ?t t' ?k r l' ys zs"
    and good: "sys_ok t' m'" "server_unused m' ?k" unfolding server_unused_def by auto
  have par: "nParent (node t' r) = Some l" using server_removed_tree(1) [OF t'(2)] assms(4) by simp
  define s' where "s' = s\<lparr>spTopology := t', spVcm := m', spFailedServersToRPC := spFailedServersToRPC s @
      (if server_unused ?m ?k then [] else [NewServerFailedMessage si (Some [l])])\<rparr>"
  have "spine_FailServer ord si s = Ret (s', if server_unused ?m ?k then status ''FAILD'' else status ''OK'')"
    using assms(3) m' t'(1) par by (simp add: spine_FailServer_def Let_def s'_def)
  moreover have "gm_load (tServers t') = (gm_load (tServers ?t))(?k := None)" using t'(2) by (simp add: server_removed_def)
  ultimately show ?thesis using good by (intro exI [of _ s']) (simp add: s'_def)
qed

text \<open>
  C40: Failing a registered server at the spine controller removes it from the topology and from every
  cluster. If some cluster used it, the leaf of the server is told and the answer is OK; if none did, no
  message is sent and the answer is FAILD, although the server has been removed.
\<close>

theorem spine_FailServer_correct:
  assumes "sys_ok (spTopology s) (spVcm s)" and "is_order ord"
    and "gm_load (tServers (spTopology s)) (ucast (siId si)) = Some r" and "nParent (node (spTopology s) r) = Some l"
  shows "\<exists>s'. spine_FailServer ord si s = Ret (s',
      if server_unused (spVcm s) (ucast (siId si)) then status ''FAILD'' else status ''OK'') \<and>
    sys_ok (spTopology s') (spVcm s') \<and>
    gm_load (tServers (spTopology s')) = (gm_load (tServers (spTopology s)))(ucast (siId si) := None) \<and>
    server_unused (spVcm s') (ucast (siId si)) \<and>
    spFailedServersToRPC s' = spFailedServersToRPC s @
      (if server_unused (spVcm s) (ucast (siId si)) then [] else [NewServerFailedMessage si (Some [l])])"
  using spine_FailServer_run [OF assms] .

theorem spine_FailServer_correct_witness:
  "(\<exists>s'. spine_FailServer stored_order (fail_info 0) sample_spine = Ret (s', status ''OK'')) \<and>
   (\<exists>s'. spine_FailServer stored_order (fail_info 1) sample_spine = Ret (s', status ''FAILD'') \<and>
     gm_load (tServers (spTopology s')) 1 = None)"
proof
  have ok: "sys_ok (spTopology sample_spine) (spVcm sample_spine)" by (simp add: sample_sys_ok)
  have used: "\<not> server_unused sample_vcm 0" using sample_members(1,2) by (auto simp: server_unused_def)
  show "\<exists>s'. spine_FailServer stored_order (fail_info 0) sample_spine = Ret (s', status ''OK'')"
    using spine_FailServer_correct [OF ok is_order_stored, of "fail_info 0" 3 2] used
    by (fastforce simp: sample_nodes)
  have un: "server_unused sample_vcm 1" using sample_members(3) by (simp add: server_unused_def)
  have par: "nParent (node sample 4) = Some 2" by (simp add: sample_eval)
  show "\<exists>s'. spine_FailServer stored_order (fail_info 1) sample_spine = Ret (s', status ''FAILD'') \<and>
     gm_load (tServers (spTopology s')) 1 = None"
    using spine_FailServer_correct [OF ok is_order_stored, of "fail_info 1" 4 2] un par
    by (fastforce simp: sample_nodes)
qed

lemma spine_FailLeaf_run:
  assumes "sys_ok (spTopology s) (spVcm s)" and "is_order ord"
    and "gm_load (tLeaves (spTopology s)) (ucast (liId li)) = Some l"
    and "nParent (node (spTopology s) l) = Some p" and "nChildren (node (spTopology s) p) = ys @ l # zs"
  shows "\<exists>s'. spine_FailLeaf ord li s = Some (Ret (s', status ''OK'')) \<and>
    sys_ok (spTopology s') (spVcm s') \<and> leaf_unused (spVcm s') (ucast (liId li)) \<and>
    gm_load (tLeaves (spTopology s')) = (gm_load (tLeaves (spTopology s)))(ucast (liId li) := None) \<and>
    spFailedLeavesToRPC s' = spFailedLeavesToRPC s @
      [NewLeafFailedMessage (li\<lparr>liIndex := ucast (nIndex (node (spTopology s) l))\<rparr>) (Some [l])] \<and>
    spUpdatedLeavesToRPC s' = spUpdatedLeavesToRPC s @ (if zs = [] then [] else [NewLeafUpdatedMessage zs]) \<and>
    (\<forall>c \<in> set zs. node (spTopology s') c = (node (spTopology s) c)\<lparr>nIndex := nIndex (node (spTopology s) c) - 1\<rparr>)"
proof -
  let ?t = "spTopology s" and ?m = "spVcm s" and ?k = "ucast (liId li) :: u16"
  from FailLeaf_run [OF assms(1-3)] obtain m' where
    m': "DetachLeaf ord ?t ?k ?m = Ret (m', True)" by blast
  from RemoveLeaf_removed [OF sys_okD(1) [OF assms(1)] assms(3-5)] obtain t' where
    t': "RemoveLeaf ?k ?t = Some (Ret (t', int (length ys), zs))" "leaf_removed ?t t' ?k l p ys zs" by blast
  from FailLeaf_run [OF assms(1-3)] m' t' have good: "sys_ok t' m'" "leaf_unused m' ?k" by auto
  define s' where "s' = s\<lparr>spTopology := t', spVcm := m',
      spUpdatedLeavesToRPC := spUpdatedLeavesToRPC s @ (if zs = [] then [] else [NewLeafUpdatedMessage zs]),
      spFailedLeavesToRPC := spFailedLeavesToRPC s @
        [NewLeafFailedMessage (li\<lparr>liIndex := ucast (nIndex (node ?t l))\<rparr>) (Some [l])]\<rparr>"
  have "spine_FailLeaf ord li s = Some (Ret (s', status ''OK''))"
    using assms(3) m' t'(1) by (simp add: spine_FailLeaf_def Let_def s'_def)
  moreover have "gm_load (tLeaves t') = (gm_load (tLeaves ?t))(?k := None)"
    "\<forall>c \<in> set zs. node t' c = (node ?t c)\<lparr>nIndex := nIndex (node ?t c) - 1\<rparr>" using t'(2) by (simp_all add: leaf_removed_def)
  ultimately show ?thesis using good by (intro exI [of _ s']) (simp add: s'_def)
qed

text \<open>
  Failing a registered leaf at the spine controller returns and answers OK; the leaf is gone from the
  topology and from every cluster. The manager is told with the index the leaf had, and, before that, the
  leaves behind it, whose indices have moved down by one, are told if there are any.
\<close>

theorem spine_FailLeaf_correct:
  assumes "sys_ok (spTopology s) (spVcm s)" and "is_order ord"
    and "gm_load (tLeaves (spTopology s)) (ucast (liId li)) = Some l"
    and "nParent (node (spTopology s) l) = Some p" and "nChildren (node (spTopology s) p) = ys @ l # zs"
  shows "\<exists>s'. spine_FailLeaf ord li s = Some (Ret (s', status ''OK'')) \<and>
    sys_ok (spTopology s') (spVcm s') \<and> leaf_unused (spVcm s') (ucast (liId li)) \<and>
    gm_load (tLeaves (spTopology s')) = (gm_load (tLeaves (spTopology s)))(ucast (liId li) := None) \<and>
    spFailedLeavesToRPC s' = spFailedLeavesToRPC s @
      [NewLeafFailedMessage (li\<lparr>liIndex := ucast (nIndex (node (spTopology s) l))\<rparr>) (Some [l])] \<and>
    spUpdatedLeavesToRPC s' = spUpdatedLeavesToRPC s @ (if zs = [] then [] else [NewLeafUpdatedMessage zs]) \<and>
    (\<forall>c \<in> set zs. nIndex (node (spTopology s') c) = nIndex (node (spTopology s) c) - 1)"
  using spine_FailLeaf_run [OF assms] by fastforce

theorem spine_FailLeaf_correct_witness:
  "\<exists>s'. spine_FailLeaf stored_order (fail_leaf_info 0) sample_spine = Some (Ret (s', status ''OK'')) \<and>
     spUpdatedLeavesToRPC s' = [NewLeafUpdatedMessage [5]] \<and> nIndex (node (spTopology s') 5) = 0"
proof -
  have ok: "sys_ok (spTopology sample_spine) (spVcm sample_spine)" by (simp add: sample_sys_ok)
  have hyps: "gm_load (tLeaves (spTopology sample_spine)) (ucast (liId (fail_leaf_info 0))) = Some 2"
    "nParent (node (spTopology sample_spine) 2) = Some 1"
    "nChildren (node (spTopology sample_spine) 1) = [] @ 2 # [5]"
    "nIndex (node (spTopology sample_spine) 5) = 1"
    "spUpdatedLeavesToRPC sample_spine = []" by (simp_all add: sample_eval)
  from spine_FailLeaf_correct [OF ok is_order_stored hyps(1-3)] obtain s' where
    "spine_FailLeaf stored_order (fail_leaf_info 0) sample_spine = Some (Ret (s', status ''OK''))"
    "spUpdatedLeavesToRPC s' = spUpdatedLeavesToRPC sample_spine @ [NewLeafUpdatedMessage [5]]"
    "nIndex (node (spTopology s') 5) = nIndex (node (spTopology sample_spine) 5) - 1" by auto
  then show ?thesis using hyps(4,5) by (intro exI [of _ s']) simp
qed

section \<open>Requests that end the process\<close>

text \<open>
  A request to add a server whose port the switch of the leaf does not have ends the process of
  whichever controller handles it, central, spine or leaf: the lookup error goes to \<open>logrus.Fatal\<close>.
\<close>

theorem unknown_port_is_fatal:
  assumes "gm_load (tLeaves t) (ucast (siLeafID si)) = Some l" and "gm_load (tServers t) (ucast (siId si)) = None"
    and "nAsic (node t l) = Some a" and "siPort si = Some p"
    and "FindPort t (asID (asic (tHw t) a)) (piID p) = Inl e"
    and "ceTopology sc = t" and "spTopology ss = t" and "leTopology sl = t"
  shows "central_AddServer si sc = Fatal \<and> spine_AddServer si ss = Fatal \<and> leaf_AddServer si sl = Fatal"
  using assms by (simp_all add: central_AddServer_def spine_AddServer_def leaf_AddServer_def
      AddServerToLeaf_def Let_def)

theorem unknown_port_is_fatal_witness:
  "central_AddServer (sample_add\<lparr>siPort := Some \<lparr>piID = ''9/9'', piCage = 9, piLane = 9, piDevPort = 0,
     piPortConfig = None\<rparr>\<rparr>) sample_central = Fatal"
  by (rule unknown_port_is_fatal [where l = 2 and a = 0 and t = sample and ss = sample_spine
     and p = "\<lparr>piID = ''9/9'', piCage = 9, piLane = 9, piDevPort = 0, piPortConfig = None\<rparr>"
     and e = "ErrNoPort ''a'' ''9/9''" and sl = "NewLeafSrvServer sample sample_vcm", THEN conjunct1])
    (simp_all add: sample_add_def FindPort_def FindAsic_def sample_eval sample_hw_def asic_def NewLeafSrvServer_def)

end
