(* ===== verification/Topo_Spec.thy ===== *)
theory Topo_Spec
  imports Server_Correct
begin

text \<open>
  An abstract data centre and the refinement of it by the topology objects: a spine is the list of its
  leaves, a leaf is its ID with the list of its servers and their numbers of workers. Worker IDs, indices,
  nodes and pointers are absent; two controllers that agree on the abstract data centre agree on the
  numbers they compute from it.
\<close>

section \<open>The abstract data centre\<close>

type_synonym servers = "(u16 \<times> u16) list"
type_synonym datacentre = "u16 \<Rightarrow> (u16 \<times> servers) list option"

definition abs_servers :: "Topology \<Rightarrow> nref \<Rightarrow> servers" where
  "abs_servers s l = map (\<lambda>c. (nID (node s c), worker_count (node s c))) (nChildren (node s l))"

definition abs_leaves :: "Topology \<Rightarrow> nref \<Rightarrow> (u16 \<times> servers) list" where
  "abs_leaves s p = map (\<lambda>l. (nID (node s l), abs_servers s l)) (nChildren (node s p))"

definition abs_topo :: "Topology \<Rightarrow> datacentre" where
  "abs_topo s k = map_option (abs_leaves s) (gm_load (tSpines s) k)"

text \<open>The five operations on it.\<close>

definition each_spine :: "((u16 \<times> servers) list \<Rightarrow> (u16 \<times> servers) list) \<Rightarrow> datacentre \<Rightarrow> datacentre" where
  "each_spine f d = (\<lambda>i. map_option f (d i))"

definition spec_add_leaf :: "u16 \<Rightarrow> u16 \<Rightarrow> datacentre \<Rightarrow> datacentre" where
  "spec_add_leaf p k d = d(p := map_option (\<lambda>ls. ls @ [(k, [])]) (d p))"

definition spec_add_server :: "u16 \<Rightarrow> u16 \<Rightarrow> u16 \<Rightarrow> datacentre \<Rightarrow> datacentre" where
  "spec_add_server l k n = each_spine (map (\<lambda>(j, cs). (j, if j = l then cs @ [(k, n)] else cs)))"

definition spec_remove_server :: "u16 \<Rightarrow> datacentre \<Rightarrow> datacentre" where
  "spec_remove_server k = each_spine (map (\<lambda>(j, cs). (j, filter (\<lambda>c. fst c \<noteq> k) cs)))"

definition spec_remove_leaf :: "u16 \<Rightarrow> datacentre \<Rightarrow> datacentre" where
  "spec_remove_leaf k = each_spine (filter (\<lambda>l. fst l \<noteq> k))"

definition spec_clear :: "datacentre \<Rightarrow> datacentre" where
  "spec_clear = each_spine (\<lambda>_. [])"

text \<open>The leaves and servers in it.\<close>

definition known_leaf :: "u16 \<Rightarrow> datacentre \<Rightarrow> bool" where
  "known_leaf k d \<longleftrightarrow> (\<exists>p ls. d p = Some ls \<and> k \<in> fst ` set ls)"

definition known_server :: "u16 \<Rightarrow> datacentre \<Rightarrow> bool" where
  "known_server k d \<longleftrightarrow> (\<exists>p ls l. d p = Some ls \<and> l \<in> set ls \<and> k \<in> fst ` set (snd l))"

section \<open>Each operation refines its specification\<close>

lemma abs_leaves_cong:
  assumes "nChildren (node s' p) = nChildren (node s p)"
    and "\<And>l. l \<in> set (nChildren (node s p)) \<Longrightarrow> nID (node s' l) = nID (node s l) \<and> abs_servers s' l = abs_servers s l"
  shows "abs_leaves s' p = abs_leaves s p"
  using assms by (simp add: abs_leaves_def)

lemma abs_servers_cong:
  assumes "nChildren (node s' l) = nChildren (node s l)"
    and "\<And>c. c \<in> set (nChildren (node s l)) \<Longrightarrow> node s' c = node s c"
  shows "abs_servers s' l = abs_servers s l"
  using assms by (simp add: abs_servers_def)

text \<open>The leaves under a spine and the servers under those.\<close>

lemma leaf_under:
  assumes "wf_topo s" and "gm_load (tSpines s) k = Some p" and "l \<in> set (nChildren (node s p))"
  shows "gm_load (tLeaves s) (nID (node s l)) = Some l" "valid_node s l" "nType (node s l) = NodeType_Leaf"
    "nType (node s p) = NodeType_Spine" "valid_node s p"
  using wf_leaf_child [OF assms] wf_spine [OF assms(1,2)] by (simp_all add: spine_ok_def)

lemma abs_server_added:
  assumes wf: "wf_topo s" and eff: "server_added s s' si lid l p w r"
  shows "abs_topo s' = spec_add_server lid (ucast (siId si)) (ucast (siWorkersCount si)) (abs_topo s)"
proof
  fix i
  note e = eff [unfolded server_added_def]
  have l: "gm_load (tLeaves s) lid = Some l" and new: "\<not> valid_node s r" using e by blast+
  have lid: "nID (node s l) = lid" "nType (node s l) = NodeType_Leaf" "valid_node s l"
    using wf_leaf [OF wf l] by (simp_all add: leaf_ok_def)
  have old: "node s' q = node s q" if "valid_node s q" "q \<noteq> l" for q using e that by blast
  have same_id: "nID (node s' q) = nID (node s q)" if "valid_node s q" for q
    using e old [OF that] by (cases "q = l") simp_all
  have kids: "abs_servers s' j = abs_servers s j @ (if j = l then [(ucast (siId si), ucast (siWorkersCount si))] else [])"
    if j: "gm_load (tLeaves s) k = Some j" for k j
  proof -
    have sub: "node s' c = node s c" if "c \<in> set (nChildren (node s j))" for c
    proof -
      note c = wf_child(3,4) [OF wf j that]
      with lid(2) have "c \<noteq> l" by auto
      with old c show ?thesis by simp
    qed
    show ?thesis
    proof (cases "j = l")
      case True
      have "nChildren (node s' l) = nChildren (node s l) @ [r]" "nID (node s' r) = ucast (siId si)"
        "worker_count (node s' r) = ucast (siWorkersCount si)"
        using e by (simp_all add: NewServer_def worker_count_def)
      with True sub show ?thesis by (simp add: abs_servers_def)
    next
      case False
      have "valid_node s j" using wf_leaf [OF wf j] by (simp add: leaf_ok_def)
      with False old sub show ?thesis by (simp add: abs_servers_def)
    qed
  qed
  show "abs_topo s' i = spec_add_server lid (ucast (siId si)) (ucast (siWorkersCount si)) (abs_topo s) i"
  proof (cases "gm_load (tSpines s) i")
    case (Some q)
    note u = leaf_under [OF wf Some]
    have "nType (node s q) = NodeType_Spine" "valid_node s q" using wf_spine [OF wf Some] by (simp_all add: spine_ok_def)
    moreover from this lid have "q \<noteq> l" by auto
    ultimately have "node s' q = node s q" using old by blast
    moreover have "(nID (node s' j), abs_servers s' j) = (nID (node s j), if nID (node s j) = lid
        then abs_servers s j @ [(ucast (siId si), ucast (siWorkersCount si))] else abs_servers s j)"
      if "j \<in> set (nChildren (node s q))" for j
    proof -
      have "j = l \<longleftrightarrow> nID (node s j) = lid" using u(1) [OF that] l lid(1) by (metis option.inject)
      then show ?thesis using kids [OF u(1) [OF that]] same_id [OF u(2) [OF that]] by simp
    qed
    ultimately show ?thesis using Some server_added_maps [OF eff]
      by (simp add: abs_topo_def spec_add_server_def each_spine_def abs_leaves_def)
  qed (use server_added_maps [OF eff] in \<open>simp add: abs_topo_def spec_add_server_def each_spine_def\<close>)
qed

lemma abs_leaf_added:
  assumes wf: "wf_topo s" and eff: "leaf_added s s' li sp ds us l"
  shows "abs_topo s' = spec_add_leaf (ucast (liSpineID li)) (ucast (liId li)) (abs_topo s)"
proof
  fix i
  note e = eff [unfolded leaf_added_def]
  have sp: "gm_load (tSpines s) (ucast (liSpineID li)) = Some sp" using e by blast
  have spt: "nType (node s sp) = NodeType_Spine" "nID (node s sp) = ucast (liSpineID li)"
    using wf_spine [OF wf sp] by (simp_all add: spine_ok_def)
  have old: "node s' q = node s q" if "valid_node s q" "nType (node s q) \<noteq> NodeType_Spine" for q
    using e that spt by auto
  have kids: "nID (node s' j) = nID (node s j) \<and> abs_servers s' j = abs_servers s j"
    if q: "gm_load (tSpines s) k = Some q" and j: "j \<in> set (nChildren (node s q))" for k q j
  proof -
    note u = leaf_under [OF wf q j]
    have "node s' c = node s c" if "c \<in> set (nChildren (node s j))" for c
      using wf_child(3,4) [OF wf u(1) that] old by simp
    moreover have "node s' j = node s j" using old u by simp
    ultimately show ?thesis by (simp add: abs_servers_def)
  qed
  show "abs_topo s' i = spec_add_leaf (ucast (liSpineID li)) (ucast (liId li)) (abs_topo s) i"
  proof (cases "gm_load (tSpines s) i")
    case (Some q)
    have qid: "nID (node s q) = i" "valid_node s q" using wf_spine [OF wf Some] by (simp_all add: spine_ok_def)
    show ?thesis
    proof (cases "q = sp")
      case True
      have "nChildren (node s' sp) = nChildren (node s sp) @ [l]" "nID (node s' l) = ucast (liId li)"
        "abs_servers s' l = []" using e by (simp_all add: NewLeaf_def zero_Node_def abs_servers_def)
      with True Some kids [OF Some] qid spt show ?thesis using leaf_added_maps [OF eff]
        by (simp add: abs_topo_def spec_add_leaf_def abs_leaves_def)
    next
      case False
      with qid spt sp have "i \<noteq> ucast (liSpineID li)" using Some by auto
      moreover have "node s' q = node s q" using e False qid by blast
      ultimately show ?thesis using Some kids [OF Some] leaf_added_maps [OF eff]
        by (simp add: abs_topo_def spec_add_leaf_def abs_leaves_def)
    qed
  next
    case None
    with sp have "i \<noteq> ucast (liSpineID li)" by auto
    with None leaf_added_maps [OF eff] show ?thesis by (simp add: abs_topo_def spec_add_leaf_def)
  qed
qed

lemma abs_server_removed:
  assumes wf: "wf_topo s" and eff: "server_removed s s' k r l ys zs"
  shows "abs_topo s' = spec_remove_server k (abs_topo s)"
proof
  fix i
  note e = eff [unfolded server_removed_def]
  have r: "gm_load (tServers s) k = Some r" "nParent (node s r) = Some l" using e by blast+
  have rid: "nID (node s r) = k" using wf_server [OF wf r(1)] by (simp add: server_ok_def)
  obtain j where l: "gm_load (tLeaves s) j = Some l" and lok: "leaf_ok s j l"
    using wf_parent [OF wf r(1)] r(2) by (metis option.inject)
  have split: "nChildren (node s l) = ys @ r # zs" using e by blast
  have tr: "tree (node s' q) = tree (node s q)" if "q \<noteq> l" for q
  proof (cases "q \<in> set (ys @ zs)")
    case True
    with e obtain a b where "node s' q = (node s q)\<lparr>nFirstWorkerID := a, nLastWorkerID := b\<rparr>" by blast
    then show ?thesis by (simp add: tree_def)
  qed (use e that in simp)
  have lid: "nID (node s' l) = nID (node s l)" using e by simp
  have cnt: "nID (node s' c) = nID (node s c) \<and> worker_count (node s' c) = worker_count (node s c)"
    if "nType (node s c) = NodeType_Server" for c
  proof -
    have "c \<noteq> l" using that lok by (auto simp: leaf_ok_def)
    with tr have "nID (node s' c) = nID (node s c)" by (simp add: tree_eq_iff)
    moreover have "worker_count (node s' c) = worker_count (node s c)"
      using server_removed_count [OF eff, of c] e \<open>c \<noteq> l\<close> by (cases "c \<in> set (ys @ zs)") simp_all
    ultimately show ?thesis ..
  qed
  have kids: "abs_servers s' q = filter (\<lambda>c. fst c \<noteq> k) (abs_servers s q)" if q: "gm_load (tLeaves s) h = Some q" for h q
  proof -
    note ch = wf_child [OF wf q]
    have at: "nID (node s c) = k \<longleftrightarrow> c = r" if "c \<in> set (nChildren (node s q))" for c
      using ch(1) [OF that] r(1) rid by (metis option.inject)
    have "nChildren (node s' q) = filter (\<lambda>c. nID (node s c) \<noteq> k) (nChildren (node s q))"
    proof (cases "q = l")
      case True
      have d: "distinct (ys @ r # zs)" using lok split by (simp add: leaf_ok_def)
      with at True split have "filter (\<lambda>c. nID (node s c) \<noteq> k) ys = ys" "filter (\<lambda>c. nID (node s c) \<noteq> k) zs = zs"
        by (auto intro!: filter_True)
      moreover have "nChildren (node s' l) = ys @ zs" using e by simp
      ultimately show ?thesis using True split rid by simp
    next
      case False
      have "c \<noteq> r" if "c \<in> set (nChildren (node s q))" for c using ch(2) [OF that] r(2) False by auto
      with at have "filter (\<lambda>c. nID (node s c) \<noteq> k) (nChildren (node s q)) = nChildren (node s q)" by (auto intro: filter_True)
      with tr [OF False] show ?thesis by (simp add: tree_eq_iff)
    qed
    then show ?thesis using cnt ch(4) by (simp add: abs_servers_def filter_map o_def)
  qed
  show "abs_topo s' i = spec_remove_server k (abs_topo s) i"
  proof (cases "gm_load (tSpines s) i")
    case (Some p)
    note u = leaf_under [OF wf Some]
    have "nType (node s p) = NodeType_Spine" using wf_spine [OF wf Some] by (simp add: spine_ok_def)
    then have "p \<noteq> l" using lok by (auto simp: leaf_ok_def)
    with tr have "nChildren (node s' p) = nChildren (node s p)" by (simp add: tree_eq_iff)
    moreover have "nID (node s' q) = nID (node s q)" for q using tr lid by (cases "q = l") (simp_all add: tree_eq_iff)
    ultimately show ?thesis using Some kids [OF u(1)] server_removed_maps [OF eff]
      by (simp add: abs_topo_def spec_remove_server_def each_spine_def abs_leaves_def)
  qed (use server_removed_maps [OF eff] in \<open>simp add: abs_topo_def spec_remove_server_def each_spine_def\<close>)
qed

lemma abs_leaf_removed:
  assumes wf: "wf_topo s" and eff: "leaf_removed s s' k l p ys zs"
  shows "abs_topo s' = spec_remove_leaf k (abs_topo s)"
proof
  fix i
  note e = eff [unfolded leaf_removed_def]
  have l: "gm_load (tLeaves s) k = Some l" "nParent (node s l) = Some p" and split: "nChildren (node s p) = ys @ l # zs"
    using e by blast+
  note sd = spine_children_distinct [OF wf l split]
  have lk: "nID (node s l) = k" using wf_leaf [OF wf l(1)] by (simp add: leaf_ok_def)
  have pt: "nType (node s p) = NodeType_Spine"
    using wf_leaf_parent [OF wf l(1)] l(2) by (metis option.inject spine_ok_def)
  have sv: "nType (node s c) = NodeType_Server" if "c \<in> set (nChildren (node s l))" for c
    using wf_child(4) [OF wf l(1) that] .
  have kids: "nID (node s' q) = nID (node s q) \<and> abs_servers s' q = abs_servers s q"
    if q: "gm_load (tLeaves s) h = Some q" and ne: "q \<noteq> l" for h q
  proof -
    have qt: "nType (node s q) = NodeType_Leaf" using wf_leaf [OF wf q] by (simp add: leaf_ok_def)
    have "\<exists>j. node s' q = (node s q)\<lparr>nIndex := j\<rparr>"
    proof (cases "q \<in> set zs")
      case True
      with e show ?thesis by blast
    next
      case False
      with qt pt ne sv have "q \<notin> set (p # l # zs)" "q \<notin> set (nChildren (node s l))" by auto
      with e have "node s' q = node s q" by blast
      then show ?thesis by (intro exI [of _ "nIndex (node s q)"]) simp
    qed
    moreover have "node s' c = node s c" if "c \<in> set (nChildren (node s q))" for c
    proof -
      note c = wf_child [OF wf q that]
      have "c \<notin> set (nChildren (node s l))" using wf_child(2) [OF wf l(1), of c] c(2) ne by auto
      moreover have "c \<notin> set (p # l # zs)" using c(4) pt sd(5) [of c] by auto
      ultimately show ?thesis using e by blast
    qed
    ultimately show ?thesis by (auto simp: abs_servers_def)
  qed
  show "abs_topo s' i = spec_remove_leaf k (abs_topo s) i"
  proof (cases "gm_load (tSpines s) i")
    case (Some q)
    note u = leaf_under [OF wf Some]
    have at: "nID (node s c) = k \<longleftrightarrow> c = l" if "c \<in> set (nChildren (node s q))" for c
      using u(1) [OF that] l(1) lk by (metis option.inject)
    have "nChildren (node s' q) = filter (\<lambda>c. nID (node s c) \<noteq> k) (nChildren (node s q))"
    proof (cases "q = p")
      case True
      with at split sd(1) have "filter (\<lambda>c. nID (node s c) \<noteq> k) ys = ys" "filter (\<lambda>c. nID (node s c) \<noteq> k) zs = zs"
        by (auto intro!: filter_True)
      moreover have "nChildren (node s' p) = ys @ zs" using e by simp
      ultimately show ?thesis using True split lk by simp
    next
      case False
      have ne: "c \<noteq> l" if "c \<in> set (nChildren (node s q))" for c
        using wf_leaf_child(2) [OF wf Some that] l(2) False by auto
      with at have "filter (\<lambda>c. nID (node s c) \<noteq> k) (nChildren (node s q)) = nChildren (node s q)" by (auto intro: filter_True)
      moreover have "q \<notin> set (p # l # zs)" "q \<notin> set (nChildren (node s l))"
        using False wf_spine [OF wf Some] sv sd(5) by (auto simp: spine_ok_def)
      ultimately show ?thesis using e by simp
    qed
    moreover have "nID (node s' c) = nID (node s c) \<and> abs_servers s' c = abs_servers s c"
      if "c \<in> set (nChildren (node s q))" "nID (node s c) \<noteq> k" for c
      using kids [OF u(1) [OF that(1)]] at that by blast
    ultimately show ?thesis using Some leaf_removed_maps [OF eff]
      by (simp add: abs_topo_def spec_remove_leaf_def each_spine_def abs_leaves_def filter_map o_def)
  qed (use leaf_removed_maps [OF eff] in \<open>simp add: abs_topo_def spec_remove_leaf_def each_spine_def\<close>)
qed

lemma abs_ClearLeaves:
  assumes wf: "wf_topo s"
  shows "abs_topo (ClearLeaves s) = spec_clear (abs_topo s)"
proof
  fix i
  have "tSpines (ClearLeaves s) = tSpines s" by (simp add: ClearLeaves_eq)
  then show "abs_topo (ClearLeaves s) i = spec_clear (abs_topo s) i"
    using ClearLeaves_spine(1) [OF wf, of i]
    by (cases "gm_load (tSpines s) i") (simp_all add: abs_topo_def spec_clear_def each_spine_def abs_leaves_def)
qed

end
