(* ===== verification/Replicas.thy ===== *)
theory Replicas
  imports Topo_Spec
begin

text \<open>
  The refinement of the abstract data centre by the topology operations and, request by request, by the handlers of the
  central controller, and what it is for: the controllers keep copies of parts of one data centre, and copies that agree
  on the tree and on the numbers of workers agree on every worker ID and every leaf index.
\<close>

section \<open>Simulation\<close>

text \<open>A labelled step of the model under an invariant is the step that the specification makes for the same label.\<close>

locale simulation = invariant inv "\<lambda>s t. \<exists>e. step s e t" for inv :: "'s \<Rightarrow> bool" and step :: "'s \<Rightarrow> 'e \<Rightarrow> 's \<Rightarrow> bool" +
  fixes abs :: "'s \<Rightarrow> 'a" and spec :: "'e \<Rightarrow> 'a \<Rightarrow> 'a option"
  assumes abs_step: "inv s \<Longrightarrow> step s e t \<Longrightarrow> spec e (abs s) = Some (abs t)"
begin

lemma run:
  assumes "trace step s es t" and "inv s"
  shows "inv t \<and> replay spec es (abs s) = Some (abs t)"
  using assms by (induction rule: trace.induct) (auto simp: abs_step intro: inv_step)

end

text \<open>What the removals do when the ID is unknown: there is nothing of that ID in the abstract data centre.\<close>

lemma spec_remove_server_unknown:
  assumes wf: "wf_topo s" and "gm_load (tServers s) k = None"
  shows "spec_remove_server k (abs_topo s) = abs_topo s"
proof
  fix i
  have "filter (\<lambda>c. fst c \<noteq> k) (abs_servers s l) = abs_servers s l" if "gm_load (tLeaves s) j = Some l" for j l
    using wf_child(1) [OF wf that] assms(2) by (auto simp: abs_servers_def intro!: filter_True)
  then have "filter (\<lambda>c. fst c \<noteq> k) (abs_servers s l) = abs_servers s l"
    if "gm_load (tSpines s) i = Some p" "l \<in> set (nChildren (node s p))" for p l
    using leaf_under(1) [OF wf that] by blast
  then show "spec_remove_server k (abs_topo s) i = abs_topo s i"
    by (cases "gm_load (tSpines s) i") (auto simp: abs_topo_def spec_remove_server_def each_spine_def abs_leaves_def)
qed

lemma spec_remove_leaf_unknown:
  assumes wf: "wf_topo s" and "gm_load (tLeaves s) k = None"
  shows "spec_remove_leaf k (abs_topo s) = abs_topo s"
proof
  fix i
  have "filter (\<lambda>l. fst l \<noteq> k) (abs_leaves s p) = abs_leaves s p" if "gm_load (tSpines s) i = Some p" for p
    using leaf_under(1) [OF wf that] assms(2) by (auto simp: abs_leaves_def intro!: filter_True)
  then show "spec_remove_leaf k (abs_topo s) i = abs_topo s i"
    by (cases "gm_load (tSpines s) i") (auto simp: abs_topo_def spec_remove_leaf_def each_spine_def)
qed

text \<open>The abstract data centre knows the leaves and the servers that are registered.\<close>

lemma known_leaf_abs:
  assumes wf: "wf_topo s"
  shows "known_leaf k (abs_topo s) \<longleftrightarrow> gm_load (tLeaves s) k \<noteq> None"
proof
  assume "known_leaf k (abs_topo s)"
  then obtain i p l where "gm_load (tSpines s) i = Some p" "l \<in> set (nChildren (node s p))" "nID (node s l) = k"
    by (auto simp: known_leaf_def abs_topo_def abs_leaves_def)
  with leaf_under(1) [OF wf] show "gm_load (tLeaves s) k \<noteq> None" by fastforce
next
  assume "gm_load (tLeaves s) k \<noteq> None"
  then obtain l where l: "gm_load (tLeaves s) k = Some l" by blast
  then have "nID (node s l) = k" using wf_leaf [OF wf] by (simp add: leaf_ok_def)
  moreover from wf_leaf_parent [OF wf l] obtain p where "gm_load (tSpines s) (nID (node s p)) = Some p"
    "l \<in> set (nChildren (node s p))" by blast
  ultimately show "known_leaf k (abs_topo s)"
    unfolding known_leaf_def abs_topo_def abs_leaves_def by (intro exI [of _ "nID (node s p)"]) force
qed

text \<open>The servers of a leaf, in the topology and in the abstract data centre.\<close>

definition leaf_view :: "Topology \<Rightarrow> u16 \<Rightarrow> servers option" where
  "leaf_view s j = map_option (abs_servers s) (gm_load (tLeaves s) j)"

lemma leaf_view_abs:
  assumes wf: "wf_topo s"
  shows "leaf_view s j = Some cs \<longleftrightarrow> (\<exists>i ls. abs_topo s i = Some ls \<and> (j, cs) \<in> set ls)"
proof
  assume "leaf_view s j = Some cs"
  then obtain l where l: "gm_load (tLeaves s) j = Some l" "cs = abs_servers s l" by (auto simp: leaf_view_def)
  then have "nID (node s l) = j" using wf_leaf [OF wf] by (simp add: leaf_ok_def)
  moreover from wf_leaf_parent [OF wf l(1)] obtain p where "gm_load (tSpines s) (nID (node s p)) = Some p"
    "l \<in> set (nChildren (node s p))" by blast
  ultimately show "\<exists>i ls. abs_topo s i = Some ls \<and> (j, cs) \<in> set ls"
    unfolding abs_topo_def abs_leaves_def l(2) by (intro exI [of _ "nID (node s p)"]) auto
next
  assume "\<exists>i ls. abs_topo s i = Some ls \<and> (j, cs) \<in> set ls"
  then obtain i p l where p: "gm_load (tSpines s) i = Some p" "l \<in> set (nChildren (node s p))" "nID (node s l) = j"
    "cs = abs_servers s l" by (auto simp: abs_topo_def abs_leaves_def)
  from leaf_under(1) [OF wf p(1,2)] p(3,4) show "leaf_view s j = Some cs" by (simp add: leaf_view_def)
qed

lemma leaf_view_server:
  assumes wf: "wf_topo s" and "leaf_view s j = Some cs" and "k \<in> fst ` set cs"
  obtains r l where "gm_load (tServers s) k = Some r" "nParent (node s r) = Some l" "nID (node s l) = j"
    "gm_load (tLeaves s) j = Some l"
proof -
  from assms(2) obtain l where l: "gm_load (tLeaves s) j = Some l" "cs = abs_servers s l" by (auto simp: leaf_view_def)
  with assms(3) obtain r where r: "r \<in> set (nChildren (node s l))" "nID (node s r) = k" by (auto simp: abs_servers_def)
  have "nID (node s l) = j" using wf_leaf [OF wf l(1)] by (simp add: leaf_ok_def)
  with wf_child(1,2) [OF wf l(1) r(1)] r(2) l(1) that show ?thesis by simp
qed

lemma known_server_abs:
  assumes wf: "wf_topo s"
  shows "known_server k (abs_topo s) \<longleftrightarrow> gm_load (tServers s) k \<noteq> None"
proof
  assume "known_server k (abs_topo s)"
  then obtain i ls j cs where "abs_topo s i = Some ls" "(j, cs) \<in> set ls" and k: "k \<in> fst ` set cs"
    unfolding known_server_def by (metis prod.collapse)
  then have "leaf_view s j = Some cs" unfolding leaf_view_abs [OF wf] by blast
  with k show "gm_load (tServers s) k \<noteq> None" by (metis leaf_view_server [OF wf] option.distinct(1))
next
  assume "gm_load (tServers s) k \<noteq> None"
  then obtain r where r: "gm_load (tServers s) k = Some r" by blast
  from wf_parent [OF wf r] obtain l where l: "gm_load (tLeaves s) (nID (node s l)) = Some l" "r \<in> set (nChildren (node s l))"
    by blast
  have "nID (node s r) = k" using wf_server [OF wf r] by (simp add: server_ok_def)
  with l(2) have "k \<in> fst ` set (abs_servers s l)" by (force simp: abs_servers_def)
  moreover have "leaf_view s (nID (node s l)) = Some (abs_servers s l)" by (simp add: leaf_view_def l(1))
  ultimately show "known_server k (abs_topo s)" unfolding leaf_view_abs [OF wf] known_server_def by force
qed

lemma RemoveServer_refines:
  assumes wf: "wf_topo s" and run: "RemoveServer k s = Ret (s', b, us)"
  shows "abs_topo s' = spec_remove_server k (abs_topo s)"
  using wf
proof (cases rule: RemoveServer_cases [where k = k])
  case unknown
  with run spec_remove_server_unknown [OF wf] show ?thesis by simp
next
  case (removed r l ys zs t)
  with run have "server_removed s s' k r l ys zs" by simp
  then show ?thesis by (rule abs_server_removed [OF wf])
qed

lemma RemoveLeaf_refines:
  assumes wf: "wf_topo s" and run: "RemoveLeaf k s = Some (Ret (s', i, us))"
  shows "abs_topo s' = spec_remove_leaf k (abs_topo s)"
  using wf
proof (cases rule: RemoveLeaf_cases [where k = k])
  case unknown
  with run spec_remove_leaf_unknown [OF wf] show ?thesis by simp
next
  case (removed l p ys zs t)
  with run have "leaf_removed s s' k l p ys zs" by simp
  then show ?thesis by (rule abs_leaf_removed [OF wf])
qed

lemma AddServer_refines:
  assumes wf: "wf_topo s" and run: "AddServerToLeaf si lid s = Ret (s', res)"
  shows "abs_topo s' = (case res of Inl _ \<Rightarrow> abs_topo s
    | Inr _ \<Rightarrow> spec_add_server lid (ucast (siId si)) (ucast (siWorkersCount si)) (abs_topo s))"
proof (cases res)
  case (Inl e)
  with run AddServerToLeaf_error [of si lid s s' e] show ?thesis by simp
next
  case (Inr r)
  with AddServerToLeaf_effect [OF wf] run abs_server_added [OF wf] show ?thesis by fastforce
qed

lemma AddLeaf_refines:
  assumes wf: "wf_topo s" and run: "AddLeafToSpine li s = Ret (s', res)"
  shows "abs_topo s' = (case res of Inl _ \<Rightarrow> abs_topo s
    | Inr _ \<Rightarrow> spec_add_leaf (ucast (liSpineID li)) (ucast (liId li)) (abs_topo s))"
proof (cases res)
  case (Inl e)
  with run AddLeafToSpine_error [of li s s' e] show ?thesis by simp
next
  case (Inr l)
  with AddLeafToSpine_effect [OF wf] run abs_leaf_added [OF wf] show ?thesis by fastforce
qed

section \<open>The requests to the central controller\<close>

text \<open>A request that changes the state, with its answer, is the label of a step.\<close>

datatype central_request =
    ReqAddLeaf LeafInfo
  | ReqFailLeaf LeafInfo
  | ReqAddServer ServerInfo
  | ReqFailServer ServerInfo
  | ReqAddVC VCInfo
  | ReqRemoveVC VCInfo

inductive central_event :: "centralSrvServer \<Rightarrow> central_request \<times> answer \<Rightarrow> centralSrvServer \<Rightarrow> bool" where
  AddLeaf: "central_AddLeaf li s = Ret (s', a) \<Longrightarrow> central_event s (ReqAddLeaf li, a) s'"
| FailLeaf: "central_FailLeaf ord li s = Some (Ret (s', a)) \<Longrightarrow> is_order ord \<Longrightarrow> central_event s (ReqFailLeaf li, a) s'"
| AddServer: "central_AddServer si s = Ret (s', a) \<Longrightarrow> central_event s (ReqAddServer si, a) s'"
| FailServer: "central_FailServer ord si s = Ret (s', a) \<Longrightarrow> is_order ord \<Longrightarrow> central_event s (ReqFailServer si, a) s'"
| AddVC: "central_AddVC ord vi s = Ret (s', a) \<Longrightarrow> is_order ord \<Longrightarrow> central_event s (ReqAddVC vi, a) s'"
| RemoveVC: "central_RemoveVC ord vi s = (s', a) \<Longrightarrow> is_order ord \<Longrightarrow> central_event s (ReqRemoveVC vi, a) s'"

lemma central_event_step: "central_event s e t \<Longrightarrow> central_step s t"
  by (induction rule: central_event.induct) (auto intro: central_step.intros)

text \<open>
  What a request does to the abstract data centre, and which answers it allows. The answer to every
  request but two is determined by the abstract state: the addition of a leaf may also be refused because another
  leaf of the spine has its addresses, and the requests about clusters do not show there at all.
\<close>

fun spec_request :: "central_request \<times> answer \<Rightarrow> datacentre \<Rightarrow> datacentre option" where
  "spec_request (ReqAddLeaf li, a) d =
     (let p = ucast (liSpineID li); k = ucast (liId li) in
      if d p \<noteq> None \<and> \<not> known_leaf k d \<and> a = status ''OK'' then Some (spec_add_leaf p k d)
      else if (d p \<noteq> Some [] \<or> known_leaf k d) \<and> a = status ''FAILED'' then Some d
      else None)"
| "spec_request (ReqFailLeaf li, a) d =
     (let k = ucast (liId li) in
      if known_leaf k d then if a = status ''OK'' then Some (spec_remove_leaf k d) else None
      else if a = status ''FAILD'' then Some d else None)"
| "spec_request (ReqAddServer si, a) d =
     (let l = ucast (siLeafID si); k = ucast (siId si) in
      if known_leaf l d \<and> \<not> known_server k d
      then if a = status ''OK'' then Some (spec_add_server l k (ucast (siWorkersCount si)) d) else None
      else if a = status ''FAILED'' then Some d else None)"
| "spec_request (ReqFailServer si, a) d =
     (let k = ucast (siId si) in
      if known_server k d then if a = status ''OK'' then Some (spec_remove_server k d) else None
      else if a = status ''FAILD'' then Some d else None)"
| "spec_request (ReqAddVC vi, a) d = Some d"
| "spec_request (ReqRemoveVC vi, a) d = Some d"

lemma AddLeaf_simulates:
  assumes wf: "wf_topo (ceTopology s)" and run: "central_AddLeaf li s = Ret (s', a)"
  shows "spec_request (ReqAddLeaf li, a) (abs_topo (ceTopology s)) = Some (abs_topo (ceTopology s'))"
proof -
  let ?t = "ceTopology s" and ?p = "ucast (liSpineID li) :: u16"
  from run obtain t' res where t': "AddLeafToSpine li ?t = Ret (t', res)" "ceTopology s' = t'"
    by (auto simp: central_AddLeaf_def Let_def returned)
  note abs = AddLeaf_refines [OF wf t'(1)]
  show ?thesis
  proof (cases res)
    case (Inl e)
    with run t' have "a = status ''FAILED''" by (auto simp: central_AddLeaf_def Let_def)
    moreover have "abs_topo ?t ?p \<noteq> Some [] \<or> known_leaf (ucast (liId li)) (abs_topo ?t)"
    proof (rule ccontr)
      assume "\<not> ?thesis"
      then obtain sp where "gm_load (tSpines ?t) ?p = Some sp" "nChildren (node ?t sp) = []"
        "gm_load (tLeaves ?t) (ucast (liId li)) = None"
        by (auto simp: known_leaf_abs [OF wf] abs_topo_def abs_leaves_def)
      with t'(1) Inl show False by (auto simp: AddLeafToSpine_def Let_def returned)
    qed
    ultimately show ?thesis using abs Inl t'(2) by (auto simp: Let_def)
  next
    case (Inr l)
    with t' AddLeafToSpine_effect [OF wf] obtain sp ds us where eff: "leaf_added ?t t' li sp ds us l" by blast
    then have par: "nParent (node t' l) = Some sp" and "gm_load (tSpines ?t) ?p = Some sp"
      "gm_load (tLeaves ?t) (ucast (liId li)) = None" by (simp_all add: leaf_added_def)
    then have "abs_topo ?t ?p \<noteq> None" "\<not> known_leaf (ucast (liId li)) (abs_topo ?t)"
      by (simp_all add: known_leaf_abs [OF wf] abs_topo_def)
    moreover have "a = status ''OK''" using run t' Inr par by (auto simp: central_AddLeaf_def Let_def)
    ultimately show ?thesis using abs Inr t'(2) by (simp add: Let_def)
  qed
qed

lemma FailLeaf_simulates:
  assumes ok: "sys_ok (ceTopology s) (ceVcm s)" and ord: "is_order ord" and run: "central_FailLeaf ord li s = Some (Ret (s', a))"
  shows "spec_request (ReqFailLeaf li, a) (abs_topo (ceTopology s)) = Some (abs_topo (ceTopology s'))"
proof (cases "gm_load (tLeaves (ceTopology s)) (ucast (liId li))")
  case None
  with run known_leaf_abs [OF sys_okD(1) [OF ok]] show ?thesis by (auto simp: central_FailLeaf_def Let_def)
next
  case (Some l)
  from FailLeaf_run [OF ok ord Some] obtain m' t' and ys zs :: "nref list" where r:
    "DetachLeaf ord (ceTopology s) (ucast (liId li)) (ceVcm s) = Ret (m', True)"
    "RemoveLeaf (ucast (liId li)) (ceTopology s) = Some (Ret (t', int (length ys), zs))" by blast
  with run Some have "a = status ''OK''" "ceTopology s' = t'" by (auto simp: central_FailLeaf_def Let_def)
  with RemoveLeaf_refines [OF sys_okD(1) [OF ok] r(2)] Some known_leaf_abs [OF sys_okD(1) [OF ok]] show ?thesis
    by (simp add: Let_def)
qed

lemma AddServer_simulates:
  assumes wf: "wf_topo (ceTopology s)" and run: "central_AddServer si s = Ret (s', a)"
  shows "spec_request (ReqAddServer si, a) (abs_topo (ceTopology s)) = Some (abs_topo (ceTopology s'))"
proof -
  let ?t = "ceTopology s" and ?l = "ucast (siLeafID si) :: u16"
  from run obtain t' res where t': "AddServerToLeaf si ?l ?t = Ret (t', res)" "ceTopology s' = t'"
    by (auto simp: central_AddServer_def Let_def returned)
  note abs = AddServer_refines [OF wf t'(1)]
  show ?thesis
  proof (cases res)
    case (Inl e)
    with run t' have "a = status ''FAILED''" by (auto simp: central_AddServer_def Let_def)
    moreover have "gm_load (tLeaves ?t) ?l = None \<or> gm_load (tServers ?t) (ucast (siId si)) \<noteq> None"
      using t'(1) Inl by (auto simp: AddServerToLeaf_def Let_def returned)
    ultimately show ?thesis using abs Inl t'(2) by (auto simp: Let_def known_leaf_abs [OF wf] known_server_abs [OF wf])
  next
    case (Inr r)
    with t' AddServerToLeaf_effect [OF wf] obtain l p w where eff: "server_added ?t t' si ?l l p w r" by blast
    then have l: "gm_load (tLeaves ?t) ?l = Some l" "gm_load (tServers ?t) (ucast (siId si)) = None"
      "nParent (node t' r) = Some l" "nParent (node t' l) = nParent (node ?t l)" by (simp_all add: server_added_def)
    from wf_leaf_parent [OF wf l(1)] l(3,4) obtain sp where "grandparent t' r = Some sp" by (auto simp: grandparent_def)
    then have "a = status ''OK''" using run t' Inr by (auto simp: central_AddServer_def Let_def)
    with l abs Inr t'(2) show ?thesis by (simp add: Let_def known_leaf_abs [OF wf] known_server_abs [OF wf])
  qed
qed

lemma FailServer_simulates:
  assumes ok: "sys_ok (ceTopology s) (ceVcm s)" and ord: "is_order ord" and run: "central_FailServer ord si s = Ret (s', a)"
  shows "spec_request (ReqFailServer si, a) (abs_topo (ceTopology s)) = Some (abs_topo (ceTopology s'))"
proof (cases "gm_load (tServers (ceTopology s)) (ucast (siId si))")
  case None
  with run known_server_abs [OF sys_okD(1) [OF ok]] show ?thesis by (auto simp: central_FailServer_def Let_def)
next
  case (Some r)
  from fail_server_run [OF ok ord Some] obtain m' b t' l ys zs where r:
    "DetachServer ord (ceTopology s) (ucast (siId si)) (ceVcm s) = Ret (m', b)"
    "RemoveServer (ucast (siId si)) (ceTopology s) = Ret (t', True, zs)" by blast
  with run Some have "a = status ''OK''" "ceTopology s' = t'" by (cases b; auto simp: central_FailServer_def Let_def)+
  with RemoveServer_refines [OF sys_okD(1) [OF ok] r(2)] Some known_server_abs [OF sys_okD(1) [OF ok]] show ?thesis
    by (simp add: Let_def)
qed

lemma central_event_simulates:
  assumes ok: "central_ok s" and step: "central_event s e t"
  shows "spec_request e (abs_topo (ceTopology s)) = Some (abs_topo (ceTopology t))"
proof -
  from ok have sys: "sys_ok (ceTopology s) (ceVcm s)" by (simp add: central_ok_def)
  from step show ?thesis
  proof cases
    case (AddLeaf li a)
    then show ?thesis using AddLeaf_simulates [OF sys_okD(1) [OF sys]] by blast
  next
    case (FailLeaf ord li a)
    then show ?thesis using FailLeaf_simulates [OF sys] by blast
  next
    case (AddServer si a)
    then show ?thesis using AddServer_simulates [OF sys_okD(1) [OF sys]] by blast
  next
    case (FailServer ord si a)
    then show ?thesis using FailServer_simulates [OF sys] by blast
  next
    case (AddVC ord vi a)
    then have "ceTopology t = ceTopology s" by (auto simp: central_AddVC_def Let_def returned)
    with AddVC(1) show ?thesis by simp
  next
    case (RemoveVC ord vi a)
    then have "ceTopology t = ceTopology s" by (auto simp: central_RemoveVC_def Let_def split: option.splits)
    with RemoveVC(1) show ?thesis by simp
  qed
qed

interpretation cs: simulation central_ok central_event "\<lambda>s. abs_topo (ceTopology s)" spec_request
proof
  show "central_ok t" if "central_ok s" "\<exists>e. central_event s e t" for s t
    using that central_event_step central_step_ok by blast
qed (rule central_event_simulates)

section \<open>Copies that agree\<close>

text \<open>
  A leaf of one copy has a counterpart in the other, at the same position under a spine of the same ID and
  with the same servers; a server then has one too.
\<close>

lemma leaf_counterpart:
  assumes wf: "wf_topo s" "wf_topo s'" and ix: "indices_ok s" "indices_ok s'"
    and eq: "abs_topo s = abs_topo s'" and l: "gm_load (tLeaves s) k = Some l"
  obtains l' where "gm_load (tLeaves s') k = Some l'" "abs_servers s' l' = abs_servers s l"
    "nIndex (node s' l') = nIndex (node s l)"
proof -
  from wf_leaf_parent [OF wf(1) l] obtain p where p: "gm_load (tSpines s) (nID (node s p)) = Some p"
    "l \<in> set (nChildren (node s p))" by blast
  define i where "i = nID (node s p)"
  from p(1) have pi: "gm_load (tSpines s) i = Some p" by (simp add: i_def)
  have "abs_topo s' i = Some (abs_leaves s p)" using fun_cong [OF eq, of i] pi by (simp add: abs_topo_def)
  then obtain p' where p': "gm_load (tSpines s') i = Some p'" "abs_leaves s' p' = abs_leaves s p"
    by (auto simp: abs_topo_def)
  from p(2) obtain n where n: "n < length (nChildren (node s p))" "l = nChildren (node s p) ! n"
    by (metis in_set_conv_nth)
  define l' where "l' = nChildren (node s' p') ! n"
  have n': "n < length (nChildren (node s' p'))"
  proof -
    have "length (nChildren (node s' p')) = length (nChildren (node s p))"
      using arg_cong [OF p'(2), of length] by (simp add: abs_leaves_def)
    with n(1) show ?thesis by simp
  qed
  have "abs_leaves s' p' ! n = abs_leaves s p ! n" using p'(2) by simp
  then have same: "nID (node s' l') = nID (node s l)" "abs_servers s' l' = abs_servers s l"
    using n n' by (simp_all add: abs_leaves_def l'_def)
  have "l' \<in> set (nChildren (node s' p'))" using n' by (simp add: l'_def)
  then have "gm_load (tLeaves s') (nID (node s' l')) = Some l'" by (rule leaf_under(1) [OF wf(2) p'(1)])
  moreover have "nID (node s l) = k" using wf_leaf [OF wf(1) l] by (simp add: leaf_ok_def)
  ultimately have "gm_load (tLeaves s') k = Some l'" using same(1) by simp
  moreover have "nIndex (node s' l') = nIndex (node s l)"
    using ix pi p'(1) n n' by (simp add: indices_ok_def l'_def)
  ultimately show ?thesis using that same(2) by blast
qed

lemma leaf_numbers:
  assumes "workers_ok s l" "workers_ok s' l'" and "abs_servers s' l' = abs_servers s l"
  shows "map (\<lambda>c. (nID (node s' c), nFirstWorkerID (node s' c), nLastWorkerID (node s' c))) (nChildren (node s' l')) =
      map (\<lambda>c. (nID (node s c), nFirstWorkerID (node s c), nLastWorkerID (node s c))) (nChildren (node s l))"
    and "nFirstWorkerID (node s' l') = nFirstWorkerID (node s l)"
    and "nLastWorkerID (node s' l') = nLastWorkerID (node s l)"
proof -
  let ?cs = "nChildren (node s l)" and ?cs' = "nChildren (node s' l')"
  have lay: "layout 0 (map (node s') ?cs')" "layout 0 (map (node s) ?cs)" using assms(1,2) by (simp_all add: workers_ok_def)
  have ids: "map (\<lambda>c. nID (node s' c)) ?cs' = map (\<lambda>c. nID (node s c)) ?cs"
    using arg_cong [OF assms(3), of "map fst"] by (simp add: abs_servers_def o_def)
  have cnt: "map (\<lambda>c. worker_count (node s' c)) ?cs' = map (\<lambda>c. worker_count (node s c)) ?cs"
    using arg_cong [OF assms(3), of "map snd"] by (simp add: abs_servers_def o_def)
  then have "map worker_count (map (node s') ?cs') = map worker_count (map (node s) ?cs)" by (simp add: o_def)
  from layout_determines [OF lay this]
  have nums: "map (\<lambda>c. (nFirstWorkerID (node s' c), nLastWorkerID (node s' c))) ?cs' =
      map (\<lambda>c. (nFirstWorkerID (node s c), nLastWorkerID (node s c))) ?cs" by (simp add: o_def)
  have "zip (map (\<lambda>c. nID (node s' c)) ?cs') (map (\<lambda>c. (nFirstWorkerID (node s' c), nLastWorkerID (node s' c))) ?cs') =
      zip (map (\<lambda>c. nID (node s c)) ?cs) (map (\<lambda>c. (nFirstWorkerID (node s c), nLastWorkerID (node s c))) ?cs)"
    by (simp only: ids nums)
  then show "map (\<lambda>c. (nID (node s' c), nFirstWorkerID (node s' c), nLastWorkerID (node s' c))) ?cs' =
      map (\<lambda>c. (nID (node s c), nFirstWorkerID (node s c), nLastWorkerID (node s c))) ?cs"
    by (simp add: zip_map_map zip_same_conv_map case_prod_unfold o_def)
  have "total_workers s' ?cs' = total_workers s ?cs" by (simp only: total_workers_def cnt)
  with assms(1,2) show "nFirstWorkerID (node s' l') = nFirstWorkerID (node s l)"
    "nLastWorkerID (node s' l') = nLastWorkerID (node s l)" by (simp_all add: workers_ok_def)
qed

lemma server_counterpart:
  assumes wf: "wf_topo s" "wf_topo s'" and ix: "indices_ok s" "indices_ok s'"
    and wk: "all_workers_ok s" "all_workers_ok s'"
    and eq: "abs_topo s = abs_topo s'" and r: "gm_load (tServers s) k = Some r"
  obtains r' where "gm_load (tServers s') k = Some r'"
    "nFirstWorkerID (node s' r') = nFirstWorkerID (node s r)" "nLastWorkerID (node s' r') = nLastWorkerID (node s r)"
proof -
  from wf_parent [OF wf(1) r] obtain j l where l: "gm_load (tLeaves s) j = Some l" "r \<in> set (nChildren (node s l))"
    by blast
  from leaf_counterpart [OF wf ix eq l(1)] obtain l' where l': "gm_load (tLeaves s') j = Some l'"
    "abs_servers s' l' = abs_servers s l" by blast
  have "workers_ok s l" "workers_ok s' l'" using wk l l' by (auto simp: all_workers_ok_def)
  note nums = leaf_numbers(1) [OF this l'(2)]
  have "nID (node s r) = k" using wf_server [OF wf(1) r] by (simp add: server_ok_def)
  with l(2) have "(k, nFirstWorkerID (node s r), nLastWorkerID (node s r)) \<in>
      set (map (\<lambda>c. (nID (node s c), nFirstWorkerID (node s c), nLastWorkerID (node s c))) (nChildren (node s l)))"
    by force
  then obtain r' where r': "r' \<in> set (nChildren (node s' l'))" "nID (node s' r') = k"
    "nFirstWorkerID (node s' r') = nFirstWorkerID (node s r)" "nLastWorkerID (node s' r') = nLastWorkerID (node s r)"
    unfolding nums [symmetric] by auto
  from wf_child(1) [OF wf(2) l'(1) r'(1)] r'(2) have "gm_load (tServers s') k = Some r'" by simp
  with r' show ?thesis using that by blast
qed

definition server_numbers :: "Topology \<Rightarrow> u16 \<Rightarrow> (u16 \<times> u16) option" where
  "server_numbers s k = map_option (\<lambda>r. (nFirstWorkerID (node s r), nLastWorkerID (node s r))) (gm_load (tServers s) k)"

definition leaf_index :: "Topology \<Rightarrow> u16 \<Rightarrow> u16 option" where
  "leaf_index s k = map_option (\<lambda>l. nIndex (node s l)) (gm_load (tLeaves s) k)"

definition topo_good :: "Topology \<Rightarrow> bool" where
  "topo_good s \<longleftrightarrow> wf_topo s \<and> indices_ok s \<and> all_workers_ok s"

lemma copies_agree:
  assumes good: "topo_good s" "topo_good s'" and eq: "abs_topo s = abs_topo s'"
  shows "server_numbers s = server_numbers s'" and "leaf_index s = leaf_index s'"
proof -
  have sub: "server_numbers t k = x \<Longrightarrow> x \<noteq> None \<Longrightarrow> server_numbers t' k = x"
    if "topo_good t" "topo_good t'" "abs_topo t = abs_topo t'" for t t' k x
    using that server_counterpart [of t t' k] by (fastforce simp: topo_good_def server_numbers_def)
  show "server_numbers s = server_numbers s'"
  proof
    fix k
    show "server_numbers s k = server_numbers s' k"
      using sub [OF good eq, of k] sub [OF good(2,1) eq [symmetric], of k]
      by (cases "server_numbers s k"; cases "server_numbers s' k") simp_all
  qed
  have sub: "leaf_index t k = x \<Longrightarrow> x \<noteq> None \<Longrightarrow> leaf_index t' k = x"
    if "topo_good t" "topo_good t'" "abs_topo t = abs_topo t'" for t t' k x
    using that leaf_counterpart [of t t' k] by (fastforce simp: topo_good_def leaf_index_def)
  show "leaf_index s = leaf_index s'"
  proof
    fix k
    show "leaf_index s k = leaf_index s' k"
      using sub [OF good eq, of k] sub [OF good(2,1) eq [symmetric], of k]
      by (cases "leaf_index s k"; cases "leaf_index s' k") simp_all
  qed
qed

end
