(* ===== verification/Replica_Correct.thy ===== *)
theory Replica_Correct
  imports Replicas Central_Correct
begin

text \<open>
  The properties of the topology and of the request handlers against the abstract data centre, and the
  agreement of the copies that the central, the spine and the leaf controllers keep.
\<close>

section \<open>Shared facts\<close>

text \<open>Whatever its answer, a handler has done to its topology what \<open>RemoveServer\<close> does.\<close>

lemma central_FailServer_topo:
  assumes ok: "sys_ok (ceTopology s) (ceVcm s)" and ord: "is_order ord"
  shows "\<exists>s' a b us. central_FailServer ord si s = Ret (s', a) \<and>
    RemoveServer (ucast (siId si)) (ceTopology s) = Ret (ceTopology s', b, us)"
proof (cases "gm_load (tServers (ceTopology s)) (ucast (siId si))")
  case None
  then show ?thesis by (intro exI [of _ s] exI [of _ "status ''FAILD''"] exI [of _ False] exI [of _ "[]"])
    (simp add: central_FailServer_def RemoveServer_def Let_def)
next
  case (Some r)
  from fail_server_run [OF ok ord Some] obtain m' b t' l ys zs where
    "DetachServer ord (ceTopology s) (ucast (siId si)) (ceVcm s) = Ret (m', b)"
    "RemoveServer (ucast (siId si)) (ceTopology s) = Ret (t', True, zs)" by blast
  with Some show ?thesis by (cases b) (auto simp: central_FailServer_def Let_def)
qed

lemma spine_FailServer_topo:
  assumes ok: "sys_ok (spTopology s) (spVcm s)" and ord: "is_order ord"
  shows "\<exists>s' a b us. spine_FailServer ord si s = Ret (s', a) \<and>
    RemoveServer (ucast (siId si)) (spTopology s) = Ret (spTopology s', b, us)"
proof (cases "gm_load (tServers (spTopology s)) (ucast (siId si))")
  case None
  then show ?thesis by (intro exI [of _ s] exI [of _ "status ''FAILD''"] exI [of _ False] exI [of _ "[]"])
    (simp add: spine_FailServer_def RemoveServer_def Let_def)
next
  case (Some r)
  from fail_server_run [OF ok ord Some] obtain m' b t' l ys zs where run:
    "DetachServer ord (spTopology s) (ucast (siId si)) (spVcm s) = Ret (m', b)"
    "RemoveServer (ucast (siId si)) (spTopology s) = Ret (t', True, zs)"
    and eff: "server_removed (spTopology s) t' (ucast (siId si)) r l ys zs" by blast
  have "nParent (node t' r) = Some l"
    using server_removed_tree [OF eff] eff by (auto simp: server_removed_def)
  with Some run show ?thesis by (cases b) (auto simp: spine_FailServer_def Let_def)
qed

lemma leaf_FailServer_topo:
  assumes ok: "sys_ok (leTopology s) (leVcm s)" and ord: "is_order ord"
  shows "\<exists>s' a b us. leaf_FailServer ord si s = Ret (s', a) \<and>
    RemoveServer (ucast (siId si)) (leTopology s) = Ret (leTopology s', b, us)"
proof (cases "gm_load (tServers (leTopology s)) (ucast (siId si))")
  case None
  then show ?thesis by (intro exI [of _ s] exI [of _ "status ''FAILD''"] exI [of _ False] exI [of _ "[]"])
    (simp add: leaf_FailServer_def RemoveServer_def Let_def)
next
  case (Some r)
  have "nID (node (leTopology s) r) = ucast (siId si)"
    using wf_server [OF sys_okD(1) [OF ok] Some] by (simp add: server_ok_def)
  moreover from fail_server_run [OF ok ord Some] obtain m' b t' l ys zs where
    "DetachServer ord (leTopology s) (ucast (siId si)) (leVcm s) = Ret (m', b)"
    "RemoveServer (ucast (siId si)) (leTopology s) = Ret (t', True, zs)" by blast
  ultimately show ?thesis using Some by (auto simp: leaf_FailServer_def Let_def)
qed

lemma topo_good_RemoveServer:
  assumes "topo_good s" and run: "RemoveServer k s = Ret (s', b, us)"
  shows "topo_good s'" and "abs_topo s' = spec_remove_server k (abs_topo s)"
proof -
  have g: "wf_topo s" "indices_ok s" "all_workers_ok s" using assms(1) by (simp_all add: topo_good_def)
  from topo_step_inv [OF topo_step.remove_server [OF run] g(1,2)] RemoveServer_workers [OF g(1,3) run]
  show "topo_good s'" by (simp add: topo_good_def)
  show "abs_topo s' = spec_remove_server k (abs_topo s)" by (rule RemoveServer_refines [OF g(1) run])
qed

section \<open>Refinement\<close>

text \<open>
  C4: The topology operations refine the abstract data centre. A successful addition appends the leaf to
  its spine, or the server with its number of workers to its leaf; a failed one changes nothing; the
  removals filter the ID out wherever it is, whether or not it was registered; and ClearLeaves empties
  every spine.
\<close>

theorem topology_refines_spec:
  assumes "wf_topo s"
  shows "(AddLeafToSpine li s = Ret (s1, res1) \<longrightarrow> abs_topo s1 = (case res1 of Inl _ \<Rightarrow> abs_topo s
      | Inr _ \<Rightarrow> spec_add_leaf (ucast (liSpineID li)) (ucast (liId li)) (abs_topo s))) \<and>
    (AddServerToLeaf si lid s = Ret (s2, res2) \<longrightarrow> abs_topo s2 = (case res2 of Inl _ \<Rightarrow> abs_topo s
      | Inr _ \<Rightarrow> spec_add_server lid (ucast (siId si)) (ucast (siWorkersCount si)) (abs_topo s))) \<and>
    (RemoveServer k s = Ret (s3, b, us) \<longrightarrow> abs_topo s3 = spec_remove_server k (abs_topo s)) \<and>
    (RemoveLeaf k s = Some (Ret (s4, i, vs)) \<longrightarrow> abs_topo s4 = spec_remove_leaf k (abs_topo s)) \<and>
    abs_topo (ClearLeaves s) = spec_clear (abs_topo s)"
  using AddLeaf_refines [OF assms] AddServer_refines [OF assms] RemoveServer_refines [OF assms]
    RemoveLeaf_refines [OF assms] abs_ClearLeaves [OF assms] by blast

lemma abs_sample: "abs_topo sample 0 = Some [(0, [(0, 4), (1, 2)]), (1, [(2, 3)])]"
  by (simp add: abs_topo_def abs_leaves_def abs_servers_def worker_count_def sample_eval)

theorem topology_refines_spec_witness:
  "\<exists>t us. RemoveServer 0 sample = Ret (t, True, us) \<and> abs_topo t 0 = Some [(0, [(1, 2)]), (1, [(2, 3)])]"
proof -
  obtain t where run: "RemoveServer 0 sample = Ret (t, True, [4])"
    using RemoveServer_removed [OF sample_wf sample_nodes(1,8), of "[]" "[4]"] by (auto simp: sample_nodes)
  with topology_refines_spec [OF sample_wf] have "abs_topo t = spec_remove_server 0 (abs_topo sample)" by blast
  with run show ?thesis by (simp add: spec_remove_server_def each_spine_def abs_sample)
qed

text \<open>
  C5: Whatever requests the central controller has answered, in any order, replaying them with their answers on the
  abstract data centre gives the data centre that it has in the end. So each request has the effect of its own
  kind on the nodes that it names: a known server that fails is taken away, and nothing else; a known leaf that fails is
  taken away with its servers; a server that is added hangs, with its number of workers, at the end of the leaf that
  the request names, if this leaf is known and the server is not; an added leaf is the last one of its spine. In
  all other cases the answer says that the request has failed and nothing changes; nor does it for requests about
  virtual clusters.
\<close>

theorem central_refines_spec:
  assumes "trace central_event s es t" and "central_ok s"
  shows "replay spec_request es (abs_topo (ceTopology s)) = Some (abs_topo (ceTopology t))"
  using cs.run [OF assms] by blast

text \<open>A server fails twice: the second request finds no server.\<close>

theorem central_refines_spec_witness:
  "\<exists>t a b. trace central_event sample_central [(ReqFailServer (fail_info 0), a), (ReqFailServer (fail_info 0), b)] t \<and>
     a = status ''OK'' \<and> b = status ''FAILD'' \<and> abs_topo (ceTopology t) 0 = Some [(0, [(1, 2)]), (1, [(2, 3)])]"
proof -
  have ok: "sys_ok (ceTopology sample_central) (ceVcm sample_central)" by (simp add: sample_sys_ok)
  from central_FailServer_topo [OF ok is_order_stored, of "fail_info 0"] obtain t1 a b us where
    1: "central_FailServer stored_order (fail_info 0) sample_central = Ret (t1, a)" by blast
  then have st: "central_event sample_central (ReqFailServer (fail_info 0), a) t1"
    by (rule central_event.FailServer [OF _ is_order_stored])
  then have "central_ok t1" using central_step_ok [OF central_event_step] sample_central_ok by blast
  then have "sys_ok (ceTopology t1) (ceVcm t1)" by (simp add: central_ok_def)
  from central_FailServer_topo [OF this is_order_stored, of "fail_info 0"] obtain t a' b' us' where
    2: "central_FailServer stored_order (fail_info 0) t1 = Ret (t, a')" by blast
  have run: "trace central_event sample_central [(ReqFailServer (fail_info 0), a), (ReqFailServer (fail_info 0), a')] t"
    by (rule trace_Cons, rule st, rule trace_Cons, rule central_event.FailServer [OF 2 is_order_stored], rule trace_Nil)
  let ?d = "abs_topo sample" and ?e = "spec_remove_server 0 (abs_topo sample)"
  have known: "known_server 0 ?d" unfolding known_server_abs [OF sample_wf] by (simp add: sample_nodes)
  have gone: "\<not> known_server 0 ?e"
    by (auto simp: known_server_def spec_remove_server_def each_spine_def)
  note rep = central_refines_spec [OF run sample_central_ok, simplified]
  then have "a = status ''OK''" using known by (auto split: if_splits option.splits)
  moreover from this rep known gone have "a' = status ''FAILD''" by (auto split: if_splits option.splits)
  ultimately have "abs_topo (ceTopology t) = ?e" using rep known gone by simp
  then have "abs_topo (ceTopology t) 0 = Some [(0, [(1, 2)]), (1, [(2, 3)])]"
    by (simp add: spec_remove_server_def each_spine_def abs_sample)
  with run \<open>a = status ''OK''\<close> \<open>a' = status ''FAILD''\<close> show ?thesis by blast
qed

section \<open>Agreement of the copies\<close>

text \<open>
  Two controllers whose topologies stand for the same abstract data centre and satisfy the invariants
  give every server the same worker IDs and every leaf the same index, however their nodes are stored, and
  they know the same servers and leaves.
\<close>

theorem replicas_agree:
  assumes "topo_good s" and "topo_good s'" and "abs_topo s = abs_topo s'"
  shows "server_numbers s = server_numbers s' \<and> leaf_index s = leaf_index s'"
  using copies_agree [OF assms] by blast

text \<open>The same data centre, stored in another order and with other addresses.\<close>

definition replica :: Topology where
  "replica = \<lparr>tHw = sample_hw,
     tNodes = [sample_server 2 4 0 2, sample_server 1 3 4 5, sample_server 0 3 0 3,
       (sample_leaf 0 0 [2, 1] 5)\<lparr>nParent := Some 5, nAddress := ''x''\<rparr>,
       (sample_leaf 1 1 [0] 2)\<lparr>nParent := Some 5\<rparr>,
       (NewSpine ''s'' 0 0)\<lparr>nParent := None, nChildren := [3, 4]\<rparr>],
     tRoot = None, tClients = [], tServers = [(2, 0), (1, 1), (0, 2)],
     tLeaves = [(1, 4), (0, 3)], tSpines = [(0, 5)], tCores = [],
     tAsicRegistry = [(''a'', 0)]\<rparr>"

lemma sample_good: "topo_good sample"
  by (simp add: topo_good_def sample_wf sample_indices sample_workers)

lemma replica_good: "topo_good replica"
proof -
  have "wf_topo replica"
    by (simp add: wf_topo_code server_ok_def leaf_ok_def spine_ok_def replica_def sample_eval)
  moreover have "indices_ok replica"
    by (auto simp: indices_ok_def replica_def sample_eval less_Suc_eq split: if_splits)
  moreover have "all_workers_ok replica"
    by (auto simp: all_workers_ok_def workers_ok_def total_workers_def worker_count_def
        last_worker_def replica_def sample_eval split: if_splits)
  ultimately show ?thesis by (simp add: topo_good_def)
qed

lemma replica_same: "abs_topo sample = abs_topo replica"
  by (auto simp: fun_eq_iff abs_topo_def abs_leaves_def abs_servers_def worker_count_def replica_def sample_eval)

theorem replicas_agree_witness:
  "server_numbers sample 1 = server_numbers replica 1 \<and> server_numbers replica 1 = Some (4, 5) \<and>
     leaf_index sample = leaf_index replica"
  using replicas_agree [OF sample_good replica_good replica_same]
  by (simp add: server_numbers_def replica_def sample_eval)

text \<open>
  The controllers do not keep the same copy: a spine controller follows what happens under its own spine, and a leaf
  controller knows one leaf. What matters for the worker IDs is that the servers of the leaf agree.
\<close>

lemma same_view_numbers:
  assumes good: "topo_good s" "topo_good s'" and view: "leaf_view s j = Some cs" "leaf_view s' j = Some cs"
    and k: "k \<in> fst ` set cs"
  shows "server_numbers s' k = server_numbers s k"
proof -
  have wf: "wf_topo s" "wf_topo s'" using good by (simp_all add: topo_good_def)
  from view obtain l l' where l: "gm_load (tLeaves s) j = Some l" "abs_servers s l = cs"
    and l': "gm_load (tLeaves s') j = Some l'" "abs_servers s' l' = cs" by (auto simp: leaf_view_def)
  have "workers_ok s l" "workers_ok s' l'" using good l(1) l'(1) by (auto simp: topo_good_def all_workers_ok_def)
  note nums = leaf_numbers(1) [OF this l'(2) [folded l(2)]]
  from k l(2) obtain r where r: "r \<in> set (nChildren (node s l))" "nID (node s r) = k" by (auto simp: abs_servers_def)
  then have "(k, nFirstWorkerID (node s r), nLastWorkerID (node s r)) \<in>
      set (map (\<lambda>c. (nID (node s c), nFirstWorkerID (node s c), nLastWorkerID (node s c))) (nChildren (node s l)))" by force
  then obtain r' where r': "r' \<in> set (nChildren (node s' l'))" "nID (node s' r') = k"
    "nFirstWorkerID (node s' r') = nFirstWorkerID (node s r)" "nLastWorkerID (node s' r') = nLastWorkerID (node s r)"
    unfolding nums [symmetric] by auto
  from wf_child(1) [OF wf(1) l(1) r(1)] wf_child(1) [OF wf(2) l'(1) r'(1)] r(2) r' show ?thesis
    by (simp add: server_numbers_def)
qed

lemma leaf_view_removed:
  assumes good: "topo_good s" and run: "RemoveServer k s = Ret (s', b, us)" and view: "leaf_view s j = Some cs"
  shows "leaf_view s' j = Some (filter (\<lambda>c. fst c \<noteq> k) cs)"
proof -
  note g = topo_good_RemoveServer [OF good run]
  have wf: "wf_topo s" "wf_topo s'" using good g(1) by (simp_all add: topo_good_def)
  from view obtain i ls where "abs_topo s i = Some ls" "(j, cs) \<in> set ls" unfolding leaf_view_abs [OF wf(1)] by blast
  then have "\<exists>ls'. abs_topo s' i = Some ls' \<and> (j, filter (\<lambda>c. fst c \<noteq> k) cs) \<in> set ls'"
    by (force simp: g(2) spec_remove_server_def each_spine_def)
  then show ?thesis unfolding leaf_view_abs [OF wf(2)] by blast
qed



end
