(* ===== verification/Worker_Ranges.thy ===== *)
theory Worker_Ranges
  imports Replica_Correct
begin

text \<open>
  The worker IDs of the servers of a leaf over the whole life of the central controller: whatever servers and leaves are
  added, fail and are added again, no two servers of a leaf share a worker ID, as long as no added server
  runs into the two cases that \<open>AddServerToLeaf\<close> gets wrong.
\<close>

section \<open>How many workers a leaf has\<close>

definition leaf_workers :: "Topology \<Rightarrow> nref \<Rightarrow> nat" where
  "leaf_workers t l = (\<Sum>c\<leftarrow>nChildren (node t l). unat (worker_count (node t c)))"

definition count_workers :: "servers \<Rightarrow> nat" where
  "count_workers cs = (\<Sum>c\<leftarrow>cs. unat (snd c))"

lemma count_workers_simps [simp]:
  "count_workers [] = 0" "count_workers (c # cs) = unat (snd c) + count_workers cs"
  "count_workers (cs @ ds) = count_workers cs + count_workers ds"
  by (simp_all add: count_workers_def)

lemma count_workers_filter: "count_workers (filter P cs) \<le> count_workers cs"
  by (induction cs) auto

lemma leaf_workers_abs: "leaf_workers t l = count_workers (abs_servers t l)"
  by (simp add: leaf_workers_def count_workers_def abs_servers_def o_def)

lemma total_of_workers: "total_workers t cs = of_nat (\<Sum>c\<leftarrow>cs. unat (worker_count (node t c)))"
  by (induction cs) (simp_all add: total_workers_def)

lemma leaf_total:
  assumes "leaf_workers t l < 2 ^ 16"
  shows "unat (total_workers t (nChildren (node t l))) = leaf_workers t l"
proof -
  have "total_workers t (nChildren (node t l)) = of_nat (leaf_workers t l)"
    by (simp add: total_of_workers leaf_workers_def)
  then show ?thesis using assms by (simp add: unat_of_nat)
qed

definition small_leaves :: "datacentre \<Rightarrow> bool" where
  "small_leaves d \<longleftrightarrow> (\<forall>i ls j cs. d i = Some ls \<longrightarrow> (j, cs) \<in> set ls \<longrightarrow> count_workers cs < 2 ^ 16)"

lemma small_leaves_abs:
  assumes wf: "wf_topo t"
  shows "small_leaves (abs_topo t) \<longleftrightarrow> (\<forall>j l. gm_load (tLeaves t) j = Some l \<longrightarrow> leaf_workers t l < 2 ^ 16)"
proof -
  have "small_leaves (abs_topo t) \<longleftrightarrow> (\<forall>j cs. leaf_view t j = Some cs \<longrightarrow> count_workers cs < 2 ^ 16)"
    by (auto simp: small_leaves_def leaf_view_abs [OF wf])
  then show ?thesis by (auto simp: leaf_view_def leaf_workers_abs)
qed

lemma small_removals:
  assumes "small_leaves d"
  shows "small_leaves (spec_remove_server k d)" "small_leaves (spec_remove_leaf k d)" "small_leaves (spec_add_leaf p k d)"
proof -
  have "count_workers (filter P cs) < 2 ^ 16" if "d i = Some ls" "(j, cs) \<in> set ls" for i ls j cs P
    using assms that count_workers_filter [of P cs] le_less_trans unfolding small_leaves_def by blast
  then show "small_leaves (spec_remove_server k d)"
    by (fastforce simp: small_leaves_def spec_remove_server_def each_spine_def)
  show "small_leaves (spec_remove_leaf k d)"
    using assms by (auto simp: small_leaves_def spec_remove_leaf_def each_spine_def)
  show "small_leaves (spec_add_leaf p k d)"
    using assms by (auto simp: small_leaves_def spec_add_leaf_def split: if_splits)
qed

lemma small_addition:
  assumes "small_leaves d"
    and "\<And>i ls cs. d i = Some ls \<Longrightarrow> (l, cs) \<in> set ls \<Longrightarrow> count_workers cs + unat n < 2 ^ 16"
  shows "small_leaves (spec_add_server l k n d)"
  using assms by (fastforce simp: small_leaves_def spec_add_server_def each_spine_def split: if_splits)

section \<open>Requests that fit\<close>

text \<open>
  The condition on an added server: with it the leaf has at least one worker and fewer than 65536, and the leaf did not
  have exactly one before. Nothing is asked of the other requests, nor of one that is refused.
\<close>

fun room_for :: "central_request \<Rightarrow> Topology \<Rightarrow> bool" where
  "room_for (ReqAddServer si) t =
     (case gm_load (tLeaves t) (ucast (siLeafID si)) of
        None \<Rightarrow> True
      | Some l \<Rightarrow> leaf_workers t l \<noteq> 1 \<and> 0 < leaf_workers t l + unat (ucast (siWorkersCount si) :: u16) \<and>
          leaf_workers t l + unat (ucast (siWorkersCount si) :: u16) < 2 ^ 16)"
| "room_for _ t = True"

inductive fitting_step :: "centralSrvServer \<Rightarrow> centralSrvServer \<Rightarrow> bool" where
  fits: "central_event s (q, a) t \<Longrightarrow> room_for q (ceTopology s) \<Longrightarrow> fitting_step s t"

definition ranges_ok :: "centralSrvServer \<Rightarrow> bool" where
  "ranges_ok s \<longleftrightarrow> central_ok s \<and> all_workers_ok (ceTopology s) \<and> small_leaves (abs_topo (ceTopology s))"

lemma AddServer_fits:
  assumes wf: "wf_topo t" and all: "all_workers_ok t" and small: "small_leaves (abs_topo t)"
    and run: "AddServerToLeaf si (ucast (siLeafID si)) t = Ret (t', res)" and room: "room_for (ReqAddServer si) t"
  shows "all_workers_ok t' \<and> small_leaves (abs_topo t')"
proof (cases res)
  case (Inl e)
  with run AddServerToLeaf_error have "t' = t" by blast
  with all small show ?thesis by simp
next
  case (Inr r)
  let ?k = "ucast (siLeafID si) :: u16" and ?n = "ucast (siWorkersCount si) :: u16"
  from Inr AddServerToLeaf_effect [OF wf] run obtain l p w where eff: "server_added t t' si ?k l p w r" by blast
  then have l: "gm_load (tLeaves t) ?k = Some l" by (simp add: server_added_def)
  with room have fit: "leaf_workers t l \<noteq> 1" "0 < leaf_workers t l + unat ?n" "leaf_workers t l + unat ?n < 2 ^ 16" by simp_all
  have un: "unat (total_workers t (nChildren (node t l))) = leaf_workers t l" using fit(3) by (intro leaf_total) simp
  have "unat (total_workers t (nChildren (node t l)) + ?n) = leaf_workers t l + unat ?n"
    using fit(3) un by (subst unat_add_lem [THEN iffD1]) simp_all
  then have "total_workers t (nChildren (node t l)) + ?n \<noteq> 0" using fit(2) by (metis unat_0 less_irrefl)
  moreover have "total_workers t (nChildren (node t l)) \<noteq> 1" using fit(1) un by (metis unat_1)
  ultimately have "all_workers_ok t'" by (intro server_added_layout [OF wf all eff])
  moreover have "small_leaves (abs_topo t')"
    unfolding abs_server_added [OF wf eff]
  proof (rule small_addition [OF small])
    fix i ls cs assume "abs_topo t i = Some ls" "(?k, cs) \<in> set ls"
    then have "leaf_view t ?k = Some cs" unfolding leaf_view_abs [OF wf] by blast
    with fit(3) l show "count_workers cs + unat ?n < 2 ^ 16" by (simp add: leaf_view_def leaf_workers_abs)
  qed
  ultimately show ?thesis ..
qed

lemma other_step_fits:
  assumes wf: "wf_topo t" and all: "all_workers_ok t" and small: "small_leaves (abs_topo t)"
  shows "RemoveServer k t = Ret (t', b, us) \<Longrightarrow> all_workers_ok t' \<and> small_leaves (abs_topo t')"
    and "RemoveLeaf k t = Some (Ret (t', i, vs)) \<Longrightarrow> all_workers_ok t' \<and> small_leaves (abs_topo t')"
    and "AddLeafToSpine li t = Ret (t', res) \<Longrightarrow> all_workers_ok t' \<and> small_leaves (abs_topo t')"
proof -
  show "all_workers_ok t' \<and> small_leaves (abs_topo t')" if "RemoveServer k t = Ret (t', b, us)"
    using RemoveServer_workers [OF wf all that] RemoveServer_refines [OF wf that] small_removals(1) [OF small] by simp
  show "all_workers_ok t' \<and> small_leaves (abs_topo t')" if "RemoveLeaf k t = Some (Ret (t', i, vs))"
    using RemoveLeaf_workers [OF wf all that] RemoveLeaf_refines [OF wf that] small_removals(2) [OF small] by simp
  show "all_workers_ok t' \<and> small_leaves (abs_topo t')" if "AddLeafToSpine li t = Ret (t', res)"
    using AddLeaf_workers [OF wf all that] AddLeaf_refines [OF wf that] small_removals(3) [OF small] small
    by (simp split: sum.splits)
qed

text \<open>What a request does to the topology is one operation, or nothing.\<close>

lemma central_event_topo:
  assumes "central_event s (q, a) s'" and ok: "sys_ok (ceTopology s) (ceVcm s)"
  obtains (same) "ceTopology s' = ceTopology s"
  | (add_leaf) li res where "AddLeafToSpine li (ceTopology s) = Ret (ceTopology s', res)"
  | (remove_leaf) k i us where "RemoveLeaf k (ceTopology s) = Some (Ret (ceTopology s', i, us))"
  | (add_server) si res where "q = ReqAddServer si"
      "AddServerToLeaf si (ucast (siLeafID si)) (ceTopology s) = Ret (ceTopology s', res)"
  | (remove_server) k b us where "RemoveServer k (ceTopology s) = Ret (ceTopology s', b, us)"
  using assms(1)
proof cases
  case (AddLeaf li)
  with add_leaf show ?thesis by (auto simp: central_AddLeaf_def Let_def returned)
next
  case (FailLeaf ord li)
  with same remove_leaf show ?thesis
    by (auto simp: central_FailLeaf_def Let_def returned split: option.splits go.splits)
next
  case (AddServer si)
  with add_server show ?thesis by (auto simp: central_AddServer_def Let_def returned)
next
  case (FailServer ord si)
  with same remove_server show ?thesis by (auto simp: central_FailServer_def Let_def returned)
next
  case (AddVC ord vi)
  with same show ?thesis by (auto simp: central_AddVC_def Let_def returned)
next
  case (RemoveVC ord vi)
  with same show ?thesis by (auto simp: central_RemoveVC_def Let_def split: option.splits)
qed

lemma fitting_step_ok:
  assumes step: "fitting_step s s'" and ok: "ranges_ok s"
  shows "ranges_ok s'"
  using step
proof cases
  case (fits q a)
  have c: "central_ok s'" using central_step_ok [OF central_event_step [OF fits(1)]] ok by (simp add: ranges_ok_def)
  have sys: "sys_ok (ceTopology s) (ceVcm s)" using ok by (simp add: ranges_ok_def central_ok_def)
  note inv = sys_okD(1) [OF sys] conjunct1 [OF conjunct2 [OF ok [unfolded ranges_ok_def]]]
    conjunct2 [OF conjunct2 [OF ok [unfolded ranges_ok_def]]]
  note other = other_step_fits [OF inv]
  from fits(1) sys have "all_workers_ok (ceTopology s') \<and> small_leaves (abs_topo (ceTopology s'))"
  proof (cases rule: central_event_topo)
    case same
    with inv show ?thesis by simp
  next
    case (add_server si res)
    with AddServer_fits [OF inv] fits(2) show ?thesis by simp
  qed (rule other; assumption)+
  with c show ?thesis by (simp add: ranges_ok_def)
qed

interpretation wr: invariant ranges_ok fitting_step
  by unfold_locales (rule fitting_step_ok)

section \<open>No two servers share a worker ID\<close>

lemma leaf_ids_apart:
  assumes "workers_ok t l" and "leaf_workers t l < 2 ^ 16"
  shows "pairwise (\<lambda>i j. worker_ids (node t (nChildren (node t l) ! i)) \<inter>
      worker_ids (node t (nChildren (node t l) ! j)) = {}) {..<length (nChildren (node t l))}"
    and "(\<Union>c \<in> set (nChildren (node t l)). worker_ids (node t c)) = {..<leaf_workers t l}"
proof -
  let ?ns = "map (node t) (nChildren (node t l))"
  have lay: "layout 0 ?ns" using assms(1) by (simp add: workers_ok_def)
  have sum: "unat (0 :: u16) + (\<Sum>n\<leftarrow>?ns. unat (worker_count n)) < 2 ^ 16"
    using assms(2) by (simp add: o_def leaf_workers_def)
  from layout_ids(1) [OF lay sum] show "pairwise (\<lambda>i j. worker_ids (node t (nChildren (node t l) ! i)) \<inter>
      worker_ids (node t (nChildren (node t l) ! j)) = {}) {..<length (nChildren (node t l))}"
    by (simp add: pairwise_def)
  from layout_ids(2) [OF lay sum] show "(\<Union>c \<in> set (nChildren (node t l)). worker_ids (node t c)) = {..<leaf_workers t l}"
    by (simp add: image_image o_def leaf_workers_def lessThan_atLeast0)
qed

text \<open>
  C30: Start the central controller from a topology whose leaves are laid out and have fewer than 65536 workers each,
  and let it answer any sequence of requests in which no server is added to a leaf with exactly one worker, to
  a leaf that would reach 65536 workers, or without workers to a leaf without any. Then the servers
  of a leaf never share a worker ID, and together they have the IDs from 0 on, without a gap: a leaf with n
  workers has exactly the IDs below n, and its own range of worker IDs ends with n - 1.
\<close>

theorem worker_ids_stay_apart:
  assumes "central_ok s" and "all_workers_ok (ceTopology s)"
    and "\<forall>j l. gm_load (tLeaves (ceTopology s)) j = Some l \<longrightarrow> leaf_workers (ceTopology s) l < 2 ^ 16"
    and "fitting_step\<^sup>*\<^sup>* s s'" and "gm_load (tLeaves (ceTopology s')) k = Some l"
  shows "pairwise (\<lambda>i j. worker_ids (node (ceTopology s') (nChildren (node (ceTopology s') l) ! i)) \<inter>
      worker_ids (node (ceTopology s') (nChildren (node (ceTopology s') l) ! j)) = {})
      {..<length (nChildren (node (ceTopology s') l))} \<and>
    (\<Union>c \<in> set (nChildren (node (ceTopology s') l)). worker_ids (node (ceTopology s') c)) =
      {..<leaf_workers (ceTopology s') l} \<and>
    unat (nLastWorkerID (node (ceTopology s') l)) = leaf_workers (ceTopology s') l - 1"
proof -
  let ?t = "ceTopology s'"
  have "wf_topo (ceTopology s)" using assms(1) by (simp add: central_ok_def sys_ok_def)
  with assms(1-3) have "ranges_ok s" by (simp add: ranges_ok_def small_leaves_abs)
  with wr.reachable [OF assms(4)] have ok: "ranges_ok s'" by blast
  then have "wf_topo ?t" by (simp add: ranges_ok_def central_ok_def sys_ok_def)
  with ok assms(5) have l: "workers_ok ?t l" "leaf_workers ?t l < 2 ^ 16"
    by (auto simp: ranges_ok_def all_workers_ok_def small_leaves_abs)
  have "unat (nLastWorkerID (node ?t l)) = leaf_workers ?t l - 1"
    using l leaf_total [OF l(2)] by (auto simp: workers_ok_def last_worker_def unat_minus_one)
  with leaf_ids_apart [OF l] show ?thesis by blast
qed

lemma sample_small: "small_leaves (abs_topo sample)"
  unfolding small_leaves_abs [OF sample_wf] by (auto simp: leaf_workers_def worker_count_def sample_eval split: if_splits)

text \<open>A server with two workers is added to the first leaf of \<open>sample\<close>, then its first server, which has four, fails.\<close>

theorem worker_ids_stay_apart_witness:
  "\<exists>s1 s2 a b l. central_AddServer sample_add sample_central = Ret (s1, a) \<and>
     central_FailServer stored_order (fail_info 0) s1 = Ret (s2, b) \<and>
     gm_load (tLeaves (ceTopology s2)) 0 = Some l \<and> length (nChildren (node (ceTopology s2) l)) = 2 \<and>
     (\<Union>c \<in> set (nChildren (node (ceTopology s2) l)). worker_ids (node (ceTopology s2) c)) = {..<4} \<and>
     unat (nLastWorkerID (node (ceTopology s2) l)) = 3"
proof -
  obtain t where t: "AddServerToLeaf sample_add 0 sample = Ret (t, Inr 7)" using sample_add_run by blast
  have lid: "ucast (siLeafID sample_add) = (0 :: u16)" by (simp add: sample_add_def)
  obtain s1 a where 1: "central_AddServer sample_add sample_central = Ret (s1, a)" "ceTopology s1 = t"
    using t by (cases "grandparent t 7") (auto simp: central_AddServer_def lid Let_def)
  have st1: "fitting_step sample_central s1"
    by (rule fits [OF central_event.AddServer [OF 1(1)]])
      (simp add: lid sample_nodes leaf_workers_def worker_count_def sample_eval, simp add: sample_add_def)
  have "central_ok s1"
    using central_step_ok [OF central_step.AddServer [OF 1(1)]] sample_central_ok by blast
  then have ok: "sys_ok (ceTopology s1) (ceVcm s1)" by (simp add: central_ok_def)
  from central_FailServer_topo [OF this is_order_stored, of "fail_info 0"] obtain s2 b c us where
    2: "central_FailServer stored_order (fail_info 0) s1 = Ret (s2, b)" "RemoveServer 0 t = Ret (ceTopology s2, c, us)"
    by (auto simp: 1(2))
  have st2: "fitting_step s1 s2" by (rule fits [OF central_event.FailServer [OF 2(1) is_order_stored]]) simp
  have run: "fitting_step\<^sup>*\<^sup>* sample_central s2" using st1 st2 by simp
  have "abs_topo t 0 = Some [(0, [(0, 4), (1, 2), (9, 2)]), (1, [(2, 3)])]"
    using AddServer_refines [OF sample_wf t] by (simp add: spec_add_server_def each_spine_def abs_sample sample_add_def)
  then have view: "abs_topo (ceTopology s2) 0 = Some [(0, [(1, 2), (9, 2)]), (1, [(2, 3)])]"
    using RemoveServer_refines [OF _ 2(2)] sys_okD(1) [OF ok] 1(2) by (simp add: spec_remove_server_def each_spine_def)
  have "central_ok s2" using central_step_ok [OF central_step.FailServer [OF 2(1) is_order_stored] \<open>central_ok s1\<close>] .
  then have wf: "wf_topo (ceTopology s2)" by (simp add: central_ok_def sys_ok_def)
  from view have "leaf_view (ceTopology s2) 0 = Some [(1, 2), (9, 2)]" unfolding leaf_view_abs [OF wf] by force
  then obtain l where l: "gm_load (tLeaves (ceTopology s2)) 0 = Some l" "abs_servers (ceTopology s2) l = [(1, 2), (9, 2)]"
    by (auto simp: leaf_view_def)
  have n: "leaf_workers (ceTopology s2) l = 4" by (simp add: leaf_workers_abs l(2))
  have len: "length (nChildren (node (ceTopology s2) l)) = 2" using arg_cong [OF l(2), of length] by (simp add: abs_servers_def)
  have "\<forall>j l. gm_load (tLeaves sample) j = Some l \<longrightarrow> leaf_workers sample l < 2 ^ 16"
    unfolding small_leaves_abs [OF sample_wf, symmetric] using sample_small .
  from worker_ids_stay_apart [OF sample_central_ok _ _ run l(1)] this show ?thesis
    using 1(1) 2(1) l(1) n len by (simp add: sample_workers)
qed

end
