(* ===== verification/Horus_Packet.thy ===== *)
theory Horus_Packet
  imports Horus_Prelude
begin

unbundle bit_operations_syntax

text \<open>
  The Horus packet header (core/net/horus\_pkt.go). The code runs inside gopacket, which is not part of
  the repository: its serialisation buffer and its packet builder are parameters. The buffer is given by
  its contents and the two operations the code calls, each together with the copy that fills the slice it
  returns.
\<close>

section \<open>Constants and the header\<close>

type_synonym bytes = "u8 list"

definition HORUS_UDP_PORT :: u16 where "HORUS_UDP_PORT = 1234"
definition PKT_TYPE_IDLE_SIGNAL :: u8 where "PKT_TYPE_IDLE_SIGNAL = 0x06"
definition PKT_TYPE_IDLE_REMOVE :: u8 where "PKT_TYPE_IDLE_REMOVE = 0x0A"
definition PKT_TYPE_KEEP_ALIVE :: u8 where "PKT_TYPE_KEEP_ALIVE = 0x0B"
definition PKT_TYPE_WORKER_ID :: u8 where "PKT_TYPE_WORKER_ID = 0x0C"
definition PKT_TYPE_WORKER_ID_ACK :: u8 where "PKT_TYPE_WORKER_ID_ACK = 0x0D"

text \<open>\<open>hpContents\<close> and \<open>hpPayload\<close> are the fields of the embedded base layer.\<close>

record HorusPacket =
  hpContents :: bytes
  hpPayload :: bytes
  hpPktType :: u8
  hpClusterID :: u16
  hpSrcID :: u16
  hpDstID :: u16
  hpQLen :: u16
  hpSeqNum :: u16
  hpRestOfData :: bytes

definition zero_HorusPacket :: HorusPacket where
  "zero_HorusPacket = \<lparr>hpContents = [], hpPayload = [], hpPktType = 0, hpClusterID = 0, hpSrcID = 0,
     hpDstID = 0, hpQLen = 0, hpSeqNum = 0, hpRestOfData = []\<rparr>"

text \<open>\<open>encoding/binary\<close> on two bytes.\<close>

definition BigEndian_PutUint16 :: "u16 \<Rightarrow> bytes" where
  "BigEndian_PutUint16 v = [ucast (drop_bit 8 v), ucast v]"

definition LittleEndian_Uint16 :: "u8 \<Rightarrow> u8 \<Rightarrow> u16" where
  "LittleEndian_Uint16 b0 b1 = ucast b0 OR push_bit 8 (ucast b1)"

section \<open>Writing\<close>

record 'b SerializeBuffer =
  sbBytes :: "'b \<Rightarrow> bytes"
  sbPrepend :: "bytes \<Rightarrow> 'b \<Rightarrow> go_error + 'b"
  sbAppend :: "bytes \<Rightarrow> 'b \<Rightarrow> go_error + 'b"

definition header_bytes :: "HorusPacket \<Rightarrow> bytes" where
  "header_bytes horus =
     [hpPktType horus] @ BigEndian_PutUint16 (hpClusterID horus) @ BigEndian_PutUint16 (hpSrcID horus) @
     BigEndian_PutUint16 (hpDstID horus) @ BigEndian_PutUint16 (hpQLen horus) @
     BigEndian_PutUint16 (hpSeqNum horus)"

definition SerializeTo :: "'b SerializeBuffer \<Rightarrow> HorusPacket \<Rightarrow> 'b \<Rightarrow> 'b \<times> go_error option" where
  "SerializeTo sb horus b =
     (case sbPrepend sb (header_bytes horus) b of
        Inl err \<Rightarrow> (b, Some err)
      | Inr b1 \<Rightarrow>
          (let len = length (sbBytes sb b1) in
           if len < 50 then
             (case sbAppend sb (replicate (50 - len) 0) b1 of
                Inl err \<Rightarrow> (b1, Some err)
              | Inr b2 \<Rightarrow> (b2, None))
           else (b1, None)))"

text \<open>What gopacket documents of its buffer.\<close>

definition buffer_ok :: "'b SerializeBuffer \<Rightarrow> bool" where
  "buffer_ok sb \<longleftrightarrow>
     (\<forall>cs b b'. sbPrepend sb cs b = Inr b' \<longrightarrow> sbBytes sb b' = cs @ sbBytes sb b) \<and>
     (\<forall>cs b b'. sbAppend sb cs b = Inr b' \<longrightarrow> sbBytes sb b' = sbBytes sb b @ cs)"

section \<open>Reading\<close>

definition DecodeFromBytes :: "bytes \<Rightarrow> HorusPacket \<Rightarrow> go_error + HorusPacket" where
  "DecodeFromBytes data horus =
     (if length data < 12 then Inl ErrPacketTooSmall
      else Inr (horus\<lparr>hpPktType := data ! 0,
        hpClusterID := LittleEndian_Uint16 (data ! 1) (data ! 2),
        hpSrcID := LittleEndian_Uint16 (data ! 3) (data ! 4),
        hpDstID := LittleEndian_Uint16 (data ! 5) (data ! 6),
        hpQLen := LittleEndian_Uint16 (data ! 7) (data ! 8),
        hpSeqNum := LittleEndian_Uint16 (data ! 9) (data ! 10),
        hpContents := take 11 data, hpPayload := drop 12 data\<rparr>))"

definition LayerPayload :: "HorusPacket \<Rightarrow> bytes" where
  "LayerPayload horus = hpRestOfData horus"

text \<open>The packet builder gets the decoded layer and goes on with the payload decoder.\<close>

definition decodeHorus ::
  "(HorusPacket \<Rightarrow> 'p \<Rightarrow> 'p) \<Rightarrow> ('p \<Rightarrow> 'p \<times> go_error option) \<Rightarrow> bytes \<Rightarrow> 'p \<Rightarrow> 'p \<times> go_error option" where
  "decodeHorus addLayer nextDecoder data p =
     (case DecodeFromBytes data zero_HorusPacket of
        Inl err \<Rightarrow> (p, Some err)
      | Inr horus \<Rightarrow> nextDecoder (addLayer horus p))"

section \<open>The whole frame\<close>

text \<open>
  The layers in the order in which they are handed to \<open>gopacket.SerializeLayers\<close>, with the fields that
  the code sets; the MAC addresses are the constants that \<open>net.ParseMAC\<close> reads from the two literals.
\<close>

datatype layer =
    Ethernet bytes bytes                  \<comment> \<open>source and destination MAC; type IPv4\<close>
  | IPv4 nat nat bytes bytes              \<comment> \<open>version, TTL, source and destination; protocol UDP\<close>
  | UDP u16 u16                           \<comment> \<open>source and destination port\<close>
  | Horus HorusPacket

definition CreateFullHorusPacket ::
  "(layer list \<Rightarrow> go_error + bytes) \<Rightarrow> HorusPacket \<Rightarrow> bytes \<Rightarrow> bytes \<Rightarrow> bytes \<times> go_error option" where
  "CreateFullHorusPacket serializeLayers horus srcIP dstIP =
     (let eth = Ethernet [0x00, 0x02, 0x00, 0x00, 0x03, 0x00] [0xa1, 0xb1, 0xc1, 0xd1, 0xe1, 0xf1];
          ip = IPv4 4 64 srcIP dstIP;
          udp = UDP HORUS_UDP_PORT HORUS_UDP_PORT
      in case serializeLayers [eth, ip, udp, Horus horus] of
           Inl err \<Rightarrow> ([], Some err)
         | Inr bs \<Rightarrow> (bs, None))"

section \<open>Properties\<close>

text \<open>The two bytes of a 16-bit field change places on the way.\<close>

definition swap16 :: "u16 \<Rightarrow> u16" where
  "swap16 v = LittleEndian_Uint16 (ucast (drop_bit 8 v)) (ucast v)"

lemma bit_swap16: "bit (swap16 v) n \<longleftrightarrow> (if n < 8 then bit v (n + 8) else n < 16 \<and> bit v (n - 8))"
  by (auto simp: swap16_def LittleEndian_Uint16_def bit_or_iff bit_push_bit_iff bit_ucast_iff bit_drop_bit_eq
      add.commute dest: bit_imp_le_length)

lemma swap16_swap16 [simp]: "swap16 (swap16 v) = v"
  by (rule bit_word_eqI) (auto simp: bit_swap16)

lemma swap16_eq_iff: "swap16 v = v \<longleftrightarrow> (ucast v :: u8) = ucast (drop_bit 8 v)"
proof
  assume eq: "swap16 v = v"
  show "(ucast v :: u8) = ucast (drop_bit 8 v)"
  proof (rule bit_word_eqI)
    fix n assume n: "n < LENGTH(8)"
    with eq bit_swap16 [of v n] show "bit (ucast v :: u8) n \<longleftrightarrow> bit (ucast (drop_bit 8 v) :: u8) n"
      by (simp add: bit_ucast_iff bit_drop_bit_eq add.commute)
  qed
next
  assume eq: "(ucast v :: u8) = ucast (drop_bit 8 v)"
  have low: "bit v n \<longleftrightarrow> bit v (n + 8)" if "n < 8" for n
    using arg_cong [OF eq, of "\<lambda>w. bit w n"] that by (simp add: bit_ucast_iff bit_drop_bit_eq add.commute)
  show "swap16 v = v"
  proof (rule bit_word_eqI)
    fix n assume "n < LENGTH(16)"
    then show "bit (swap16 v) n \<longleftrightarrow> bit v n"
      using low [of n] low [of "n - 8"] by (auto simp: bit_swap16)
  qed
qed

lemma length_header [simp]: "length (header_bytes h) = 11"
  by (simp add: header_bytes_def BigEndian_PutUint16_def)

lemma nth_header_append:
  "(header_bytes h @ cs) ! 0 = hpPktType h"
  "LittleEndian_Uint16 ((header_bytes h @ cs) ! 1) ((header_bytes h @ cs) ! 2) = swap16 (hpClusterID h)"
  "LittleEndian_Uint16 ((header_bytes h @ cs) ! 3) ((header_bytes h @ cs) ! 4) = swap16 (hpSrcID h)"
  "LittleEndian_Uint16 ((header_bytes h @ cs) ! 5) ((header_bytes h @ cs) ! 6) = swap16 (hpDstID h)"
  "LittleEndian_Uint16 ((header_bytes h @ cs) ! 7) ((header_bytes h @ cs) ! 8) = swap16 (hpQLen h)"
  "LittleEndian_Uint16 ((header_bytes h @ cs) ! 9) ((header_bytes h @ cs) ! 10) = swap16 (hpSeqNum h)"
  by (simp_all add: header_bytes_def BigEndian_PutUint16_def swap16_def)

lemma drop_header: "drop 12 (header_bytes h @ cs) = tl cs"
  by (simp add: header_bytes_def BigEndian_PutUint16_def drop_Suc)

lemma SerializeTo_bytes:
  assumes "buffer_ok sb" and "SerializeTo sb h b = (b', None)"
  shows "sbBytes sb b' = header_bytes h @ sbBytes sb b @ replicate (39 - length (sbBytes sb b)) 0"
proof -
  from assms(2) obtain b1 where b1: "sbPrepend sb (header_bytes h) b = Inr b1"
    by (auto simp: SerializeTo_def Let_def split: sum.splits)
  with assms(1) have bytes: "sbBytes sb b1 = header_bytes h @ sbBytes sb b" by (simp add: buffer_ok_def)
  show ?thesis
  proof (cases "length (sbBytes sb b1) < 50")
    case True
    with assms(2) b1 obtain b2 where "sbAppend sb (replicate (50 - length (sbBytes sb b1)) 0) b1 = Inr b2" "b2 = b'"
      by (auto simp: SerializeTo_def Let_def split: sum.splits)
    with assms(1) bytes show ?thesis by (simp add: buffer_ok_def)
  next
    case False
    with assms(2) b1 bytes show ?thesis by (auto simp: SerializeTo_def Let_def)
  qed
qed

text \<open>
  C36: A header that has been written is at least 50 bytes long with what it was put in front of, reads
  back without an error, keeps the packet type, and has every 16-bit field byte-swapped: the fields are
  written big endian and read little endian. A field survives only if its two bytes are equal. The payload
  read back lacks the first byte behind the header, and the data of the packet itself is never written.
\<close>

theorem header_roundtrip_swaps:
  assumes "buffer_ok sb" and "SerializeTo sb h b = (b', None)"
  shows "length (sbBytes sb b') \<ge> 50 \<and>
    (\<exists>h'. DecodeFromBytes (sbBytes sb b') zero_HorusPacket = Inr h' \<and>
      hpPktType h' = hpPktType h \<and>
      hpClusterID h' = swap16 (hpClusterID h) \<and> hpSrcID h' = swap16 (hpSrcID h) \<and>
      hpDstID h' = swap16 (hpDstID h) \<and> hpQLen h' = swap16 (hpQLen h) \<and> hpSeqNum h' = swap16 (hpSeqNum h) \<and>
      (hpDstID h' = hpDstID h \<longleftrightarrow> (ucast (hpDstID h) :: u8) = ucast (drop_bit 8 (hpDstID h))) \<and>
      hpContents h' = header_bytes h \<and>
      hpPayload h' = tl (sbBytes sb b @ replicate (39 - length (sbBytes sb b)) 0) \<and> LayerPayload h' = [])"
proof -
  define rest where "rest = sbBytes sb b @ replicate (39 - length (sbBytes sb b)) 0"
  have b': "sbBytes sb b' = header_bytes h @ rest" by (simp add: SerializeTo_bytes [OF assms] rest_def)
  have len: "39 \<le> length rest" "rest \<noteq> []" by (auto simp: rest_def)
  show ?thesis using len unfolding rest_def [symmetric]
    by (simp add: DecodeFromBytes_def zero_HorusPacket_def LayerPayload_def b' nth_header_append [unfolded One_nat_def]
        swap16_eq_iff drop_header del: drop_append)
qed

text \<open>A buffer that is a list of bytes.\<close>

definition list_buffer :: "bytes SerializeBuffer" where
  "list_buffer = \<lparr>sbBytes = \<lambda>b. b, sbPrepend = \<lambda>cs b. Inr (cs @ b), sbAppend = \<lambda>cs b. Inr (b @ cs)\<rparr>"

definition ping :: HorusPacket where
  "ping = zero_HorusPacket\<lparr>hpPktType := PKT_TYPE_KEEP_ALIVE, hpSrcID := 12, hpDstID := 0x1010, hpRestOfData := [1, 2]\<rparr>"

theorem header_roundtrip_swaps_witness:
  "\<exists>h'. DecodeFromBytes (fst (SerializeTo list_buffer ping [7, 8])) zero_HorusPacket = Inr h' \<and>
     hpPktType h' = PKT_TYPE_KEEP_ALIVE \<and> hpSrcID h' = 0x0C00 \<and> hpDstID h' = 0x1010"
proof -
  have ok: "buffer_ok list_buffer" by (simp add: buffer_ok_def list_buffer_def)
  have "snd (SerializeTo list_buffer ping [7, 8]) = None" by (simp add: SerializeTo_def list_buffer_def)
  then have run: "SerializeTo list_buffer ping [7, 8] = (fst (SerializeTo list_buffer ping [7, 8]), None)"
    by (metis prod.collapse)
  have sw: "swap16 12 = 0x0C00" "swap16 0x1010 = 0x1010"
    by (simp_all add: swap16_def LittleEndian_Uint16_def)
  have f: "hpPktType ping = PKT_TYPE_KEEP_ALIVE" "hpSrcID ping = 12" "hpDstID ping = 0x1010"
    by (simp_all add: ping_def)
  have bytes: "sbBytes list_buffer b = b" for b by (simp add: list_buffer_def)
  from header_roundtrip_swaps [OF ok run] obtain h' where
    "DecodeFromBytes (sbBytes list_buffer (fst (SerializeTo list_buffer ping [7, 8]))) zero_HorusPacket = Inr h'"
    "hpPktType h' = hpPktType ping" "hpSrcID h' = swap16 (hpSrcID ping)" "hpDstID h' = swap16 (hpDstID ping)" by blast
  then show ?thesis by (intro exI [of _ h']) (simp add: bytes f sw)
qed

end
