(* ===== verification/Rpc_Endpoints.thy ===== *)
theory Rpc_Endpoints
  imports Node_Servers
begin

text \<open>
  The RPC end points of the central and of the spine controller (core/net/rpc\_endpoint\_central.go,
  rpc\_endpoint\_spine.go) and the fetching of clusters by the spine and the leaf
  (rpc\_endpoint\_leaf.go): the loops that take the messages of the gRPC servers and call the other
  controllers.

  gRPC and its connection pools are outside the repository. They are a parameter: how a pool is made for an
  address, and what the attempt number n to call a peer through a pool comes to. An end point keeps the
  number of its attempts and the list of the calls that went out.
\<close>

section \<open>gRPC\<close>

datatype rpc_call =
    Call_AddLeaf LeafInfo
  | Call_FailLeaf LeafInfo
  | Call_AddServer ServerInfo
  | Call_FailServer ServerInfo
  | Call_AddVC VCInfo
  | Call_RemoveVC VCInfo

datatype outcome =
    NoConn go_error               \<comment> \<open>\<open>pool.Get\<close> failed\<close>
  | Answered "go_error option"    \<comment> \<open>the call went out; its error\<close>

record 'p grpc =
  grNew :: "string \<Rightarrow> 'p"
  grCall :: "nat \<Rightarrow> 'p \<Rightarrow> rpc_call \<Rightarrow> outcome"

record 'p link =
  lkTries :: nat
  lkSent :: "('p \<times> rpc_call) list"

definition invoke :: "'p grpc \<Rightarrow> 'p \<Rightarrow> rpc_call \<Rightarrow> 'p link \<Rightarrow> 'p link \<times> go_error option" where
  "invoke g pool c lk =
     (let lk1 = lk\<lparr>lkTries := Suc (lkTries lk)\<rparr> in
      case grCall g (lkTries lk) pool c of
        NoConn err \<Rightarrow> (lk1, Some err)
      | Answered err \<Rightarrow> (lk1\<lparr>lkSent := lkSent lk @ [(pool, c)]\<rparr>, err))"

section \<open>The end point of the central controller\<close>

record 'p CentralRpcEndpoint =
  crTopology :: Topology
  crSpineConnPool :: "(u16, 'p) gomap"
  crLink :: "'p link"

definition NewCentralRpcEndpoint :: "Topology \<Rightarrow> 'p CentralRpcEndpoint" where
  "NewCentralRpcEndpoint topology =
     \<lparr>crTopology = topology, crSpineConnPool = gm_empty, crLink = \<lparr>lkTries = 0, lkSent = []\<rparr>\<rparr>"

text \<open>A call to the spine with the given ID, where its pool exists.\<close>

definition call_spine ::
  "'p grpc \<Rightarrow> u16 \<Rightarrow> rpc_call \<Rightarrow> 'p CentralRpcEndpoint \<Rightarrow> 'p CentralRpcEndpoint \<times> go_error option" where
  "call_spine g spineID c s =
     (case gm_load (crSpineConnPool s) spineID of
        None \<Rightarrow> (s, Some (ErrNoPool spineID))
      | Some pool \<Rightarrow>
          (case invoke g pool c (crLink s) of (lk, err) \<Rightarrow> (s\<lparr>crLink := lk\<rparr>, err)))"

definition central_sendFailedLeafEvent ::
  "'p grpc \<Rightarrow> LeafInfo \<Rightarrow> nref \<Rightarrow> 'p CentralRpcEndpoint \<Rightarrow> 'p CentralRpcEndpoint \<times> go_error option" where
  "central_sendFailedLeafEvent g e dst s = call_spine g (nID (node (crTopology s) dst)) (Call_FailLeaf e) s"

definition central_sendFailedServerEvent ::
  "'p grpc \<Rightarrow> ServerInfo \<Rightarrow> nref \<Rightarrow> 'p CentralRpcEndpoint \<Rightarrow> 'p CentralRpcEndpoint \<times> go_error option" where
  "central_sendFailedServerEvent g e dst s = call_spine g (nID (node (crTopology s) dst)) (Call_FailServer e) s"

definition central_sendAddLeafEvent ::
  "'p grpc \<Rightarrow> LeafAddedMessage \<Rightarrow> 'p CentralRpcEndpoint \<Rightarrow> 'p CentralRpcEndpoint \<times> go_error option" where
  "central_sendAddLeafEvent g msg s =
     (case laDst msg of
        None \<Rightarrow> (s, Some (ErrMsg ''spine doesn't exist''))
      | Some spine \<Rightarrow> call_spine g (nID (node (crTopology s) spine)) (Call_AddLeaf (laLeaf msg)) s)"

definition central_sendAddServerEvent ::
  "'p grpc \<Rightarrow> ServerAddedMessage \<Rightarrow> 'p CentralRpcEndpoint \<Rightarrow> 'p CentralRpcEndpoint \<times> go_error option" where
  "central_sendAddServerEvent g msg s =
     (case saDst msg of
        None \<Rightarrow> (s, Some (ErrMsg ''spine doesn't exist''))
      | Some spine \<Rightarrow> call_spine g (nID (node (crTopology s) spine)) (Call_AddServer (saServer msg)) s)"

definition sendAddVCToSpine ::
  "'p grpc \<Rightarrow> VCInfo \<Rightarrow> VCUpdateType \<Rightarrow> nref option \<Rightarrow> 'p CentralRpcEndpoint
    \<Rightarrow> 'p CentralRpcEndpoint \<times> go_error option" where
  "sendAddVCToSpine g vcInfo vcType spine s =
     (case spine of
        None \<Rightarrow> (s, Some (ErrMsg ''spine doesn't exist''))
      | Some sp \<Rightarrow>
          call_spine g (nID (node (crTopology s) sp))
            (case vcType of VCUpdateAdd \<Rightarrow> Call_AddVC vcInfo | VCUpdateRem \<Rightarrow> Call_RemoveVC vcInfo) s)"

text \<open>Calls in a row; the first error ends the row. Or errors are only logged and the row goes on.\<close>

fun until_error :: "('x \<Rightarrow> 's \<Rightarrow> 's \<times> go_error option) \<Rightarrow> 'x list \<Rightarrow> 's \<Rightarrow> 's \<times> go_error option" where
  "until_error f [] s = (s, None)"
| "until_error f (x # xs) s =
     (case f x s of
        (s1, Some err) \<Rightarrow> (s1, Some err)
      | (s1, None) \<Rightarrow> until_error f xs s1)"

definition broadcastAddVCToSpines ::
  "'p grpc \<Rightarrow> VCUpdatedMessage \<Rightarrow> 'p CentralRpcEndpoint \<Rightarrow> 'p CentralRpcEndpoint \<times> go_error option" where
  "broadcastAddVCToSpines g msg s =
     (if length (vuDsts msg) = 0 then (s, Some (ErrMsg ''spines don't exist''))
      else until_error (\<lambda>spine. sendAddVCToSpine g (vuVCInfo msg) (vuType msg) (Some spine)) (vuDsts msg) s)"

text \<open>The destinations of a message; ranging over a nil slice does nothing.\<close>

definition dsts :: "nref list option \<Rightarrow> nref list" where
  "dsts ds = (case ds of None \<Rightarrow> [] | Some ns \<Rightarrow> ns)"

datatype central_event =
    CEvFailedLeaf LeafFailedMessage
  | CEvFailedServer ServerFailedMessage
  | CEvNewLeaf LeafAddedMessage
  | CEvNewServer ServerAddedMessage
  | CEvNewVC VCUpdatedMessage

definition central_processEvent ::
  "'p grpc \<Rightarrow> central_event \<Rightarrow> 'p CentralRpcEndpoint \<Rightarrow> 'p CentralRpcEndpoint" where
  "central_processEvent g ev s =
     (case ev of
        CEvFailedLeaf msg \<Rightarrow>
          fold (\<lambda>dst s. fst (central_sendFailedLeafEvent g (lfLeaf msg) dst s)) (dsts (lfDsts msg)) s
      | CEvFailedServer msg \<Rightarrow>
          fold (\<lambda>dst s. fst (central_sendFailedServerEvent g (sfServer msg) dst s)) (dsts (sfDsts msg)) s
      | CEvNewLeaf msg \<Rightarrow> fst (central_sendAddLeafEvent g msg s)
      | CEvNewServer msg \<Rightarrow> fst (central_sendAddServerEvent g msg s)
      | CEvNewVC msg \<Rightarrow> fst (broadcastAddVCToSpines g msg s))"

text \<open>The loop, on the messages in the order in which \<open>select\<close> takes them.\<close>

definition central_processEvents ::
  "'p grpc \<Rightarrow> central_event list \<Rightarrow> 'p CentralRpcEndpoint \<Rightarrow> 'p CentralRpcEndpoint" where
  "central_processEvents g evs s = fold (central_processEvent g) evs s"

definition createSpineConnPool :: "'p grpc \<Rightarrow> string \<Rightarrow> 'p" where
  "createSpineConnPool g spineAddr = grNew g spineAddr"

definition central_Start :: "'p grpc \<Rightarrow> order \<Rightarrow> 'p CentralRpcEndpoint \<Rightarrow> 'p CentralRpcEndpoint" where
  "central_Start g ord s =
     (let t = crTopology s in
      fold (\<lambda>(_, spine) s. s\<lparr>crSpineConnPool := gm_store (nID (node t spine))
                                 (createSpineConnPool g (nAddress (node t spine))) (crSpineConnPool s)\<rparr>)
        (go_range ord (tSpines t)) s)"

section \<open>The end point of the spine controller\<close>

record 'p SpineRpcEndpoint =
  srTopology :: Topology
  srFailedLeavesEgExt :: "LeafFailedMessage list"
  srFailedServersEgExt :: "ServerFailedMessage list"
  srNewLeavesEgExt :: "LeafAddedMessage list"
  srNewServersEgExt :: "ServerAddedMessage list"
  srNewVCsEgExt :: "VCUpdatedMessage list"
  srMgConnPool :: "(string, 'p) gomap"
  srLeafConnPool :: "(string, 'p) gomap"
  srLink :: "'p link"

definition NewSpineRpcEndpoint :: "Topology \<Rightarrow> 'p SpineRpcEndpoint" where
  "NewSpineRpcEndpoint topology =
     \<lparr>srTopology = topology, srFailedLeavesEgExt = [], srFailedServersEgExt = [], srNewLeavesEgExt = [],
      srNewServersEgExt = [], srNewVCsEgExt = [], srMgConnPool = gm_empty, srLeafConnPool = gm_empty,
      srLink = \<lparr>lkTries = 0, lkSent = []\<rparr>\<rparr>"

definition createMgrConnPool :: "'p grpc \<Rightarrow> order \<Rightarrow> 'p SpineRpcEndpoint \<Rightarrow> 'p SpineRpcEndpoint" where
  "createMgrConnPool g ord s =
     fold (\<lambda>(_, leaf) s.
       let addr = nMgmtAddress (node (srTopology s) leaf) in
       if gm_load (srMgConnPool s) addr = None
       then s\<lparr>srMgConnPool := gm_store addr (grNew g addr) (srMgConnPool s)\<rparr> else s)
       (go_range ord (tLeaves (srTopology s))) s"

definition createLeafConnPool :: "'p grpc \<Rightarrow> order \<Rightarrow> 'p SpineRpcEndpoint \<Rightarrow> 'p SpineRpcEndpoint" where
  "createLeafConnPool g ord s =
     fold (\<lambda>(_, leaf) s.
       let addr = nAddress (node (srTopology s) leaf) in
       if gm_load (srLeafConnPool s) addr = None
       then s\<lparr>srLeafConnPool := gm_store addr (grNew g addr) (srLeafConnPool s)\<rparr> else s)
       (go_range ord (tLeaves (srTopology s))) s"

text \<open>A call to the leaf controller, or to the manager, at an address.\<close>

definition no_pool :: go_error where
  "no_pool = ErrMsg ''connection pool isn't found''"

definition call_leaf ::
  "'p grpc \<Rightarrow> string \<Rightarrow> go_error \<Rightarrow> rpc_call \<Rightarrow> 'p SpineRpcEndpoint \<Rightarrow> 'p SpineRpcEndpoint \<times> go_error option" where
  "call_leaf g addr nopool c s =
     (case gm_load (srLeafConnPool s) addr of
        None \<Rightarrow> (s, Some nopool)
      | Some pool \<Rightarrow> (case invoke g pool c (srLink s) of (lk, err) \<Rightarrow> (s\<lparr>srLink := lk\<rparr>, err)))"

definition call_mgr ::
  "'p grpc \<Rightarrow> string \<Rightarrow> rpc_call \<Rightarrow> 'p SpineRpcEndpoint \<Rightarrow> 'p SpineRpcEndpoint \<times> go_error option" where
  "call_mgr g addr c s =
     (case gm_load (srMgConnPool s) addr of
        None \<Rightarrow> (s, Some no_pool)
      | Some pool \<Rightarrow> (case invoke g pool c (srLink s) of (lk, err) \<Rightarrow> (s\<lparr>srLink := lk\<rparr>, err)))"

text \<open>The literal that gives only the ID and the index of a leaf.\<close>

definition leaf_update_info :: "Node \<Rightarrow> LeafInfo" where
  "leaf_update_info updated =
     \<lparr>liId = ucast (nID updated), liIndex = ucast (nIndex updated), liAddress = [], liMgmtAddress = [],
      liServers = [], liSpineID = 0, liAsic = None, liDsPort = None, liUsPort = None\<rparr>"

definition sendLeafUpdate ::
  "'p grpc \<Rightarrow> nref option \<Rightarrow> 'p SpineRpcEndpoint \<Rightarrow> 'p SpineRpcEndpoint \<times> go_error option" where
  "sendLeafUpdate g updated s =
     (case updated of
        None \<Rightarrow> (s, Some (ErrMsg ''updated leaf doesn't exist''))
      | Some l \<Rightarrow>
          (let n = node (srTopology s) l
           in call_leaf g (nAddress n) no_pool (Call_FailLeaf (leaf_update_info n)) s))"

text \<open>The first destination; indexing an empty slice panics.\<close>

definition first_dst :: "nref list \<Rightarrow> (nref \<Rightarrow> 'a go) \<Rightarrow> 'a go" where
  "first_dst ds f = (case ds of [] \<Rightarrow> Panic | d # _ \<Rightarrow> f d)"

definition sendLeafFailed ::
  "'p grpc \<Rightarrow> LeafFailedMessage \<Rightarrow> 'p SpineRpcEndpoint \<Rightarrow> ('p SpineRpcEndpoint \<times> go_error option) go" where
  "sendLeafFailed g failed s =
     (case lfDsts failed of
        None \<Rightarrow> Ret (s, Some (ErrMsg ''failed leaf doesn't exist''))
      | Some ds \<Rightarrow> first_dst ds (\<lambda>d.
          Ret (call_mgr g (nMgmtAddress (node (srTopology s) d)) (Call_FailLeaf (lfLeaf failed)) s)))"

definition sendServerFailed ::
  "'p grpc \<Rightarrow> ServerFailedMessage \<Rightarrow> 'p SpineRpcEndpoint \<Rightarrow> ('p SpineRpcEndpoint \<times> go_error option) go" where
  "sendServerFailed g failed s =
     (case sfDsts failed of
        None \<Rightarrow> Ret (s, Some (ErrMsg ''failed leaf doesn't exist''))
      | Some ds \<Rightarrow> first_dst ds (\<lambda>d.
          Ret (call_leaf g (nAddress (node (srTopology s) d)) no_pool (Call_FailServer (sfServer failed)) s)))"

definition sendLeafAdded ::
  "'p grpc \<Rightarrow> LeafAddedMessage \<Rightarrow> 'p SpineRpcEndpoint \<Rightarrow> 'p SpineRpcEndpoint \<times> go_error option" where
  "sendLeafAdded g newLeaf s =
     (case laDst newLeaf of
        None \<Rightarrow> (s, Some (ErrMsg ''added leaf doesn't exist''))
      | Some d \<Rightarrow> call_mgr g (nMgmtAddress (node (srTopology s) d)) (Call_AddLeaf (laLeaf newLeaf)) s)"

definition sendServerAdded ::
  "'p grpc \<Rightarrow> ServerAddedMessage \<Rightarrow> 'p SpineRpcEndpoint \<Rightarrow> 'p SpineRpcEndpoint \<times> go_error option" where
  "sendServerAdded g newServer s =
     (case saDst newServer of
        None \<Rightarrow> (s, Some (ErrMsg ''added server doesn't exist''))
      | Some d \<Rightarrow>
          call_leaf g (nAddress (node (srTopology s) d)) no_pool (Call_AddServer (saServer newServer)) s)"

definition sendAddVCToLeaf ::
  "'p grpc \<Rightarrow> VCInfo \<Rightarrow> VCUpdateType \<Rightarrow> nref option \<Rightarrow> 'p SpineRpcEndpoint
    \<Rightarrow> 'p SpineRpcEndpoint \<times> go_error option" where
  "sendAddVCToLeaf g vcInfo vcType leaf s =
     (case leaf of
        None \<Rightarrow> (s, Some (ErrMsg ''leaf doesn't exist''))
      | Some l \<Rightarrow>
          (let n = node (srTopology s) l
           in call_leaf g (nAddress n) (ErrNoPool (nID n))
                (case vcType of VCUpdateAdd \<Rightarrow> Call_AddVC vcInfo | VCUpdateRem \<Rightarrow> Call_RemoveVC vcInfo) s))"

text \<open>The part of a cluster at one leaf: the listed servers that the topology has under a leaf of that ID.\<close>

definition at_leaf :: "Topology \<Rightarrow> u16 \<Rightarrow> VCServerInfo \<Rightarrow> VCServerInfo option" where
  "at_leaf t leafID serverInfo =
     (case gm_load (tServers t) (ucast (vsId serverInfo)) of
        None \<Rightarrow> None
      | Some r \<Rightarrow>
          (case nParent (node t r) of
             None \<Rightarrow> None
           | Some p \<Rightarrow> if nID (node t p) = leafID then Some \<lparr>vsId = ucast (nID (node t r)), vsWorkersIDs = []\<rparr>
                       else None))"

definition vc_at_leaf :: "Topology \<Rightarrow> u16 \<Rightarrow> VCInfo \<Rightarrow> VCInfo" where
  "vc_at_leaf t leafID info =
     \<lparr>viId = viId info, viSpines = viSpines info, viServers = List.map_filter (at_leaf t leafID) (viServers info)\<rparr>"

definition broadcastAddVCToLeaves ::
  "'p grpc \<Rightarrow> VCUpdatedMessage \<Rightarrow> 'p SpineRpcEndpoint \<Rightarrow> 'p SpineRpcEndpoint \<times> go_error option" where
  "broadcastAddVCToLeaves g msg s =
     (if length (vuDsts msg) = 0 then (s, Some (ErrMsg ''leaves don't exist''))
      else until_error (\<lambda>leaf s.
             sendAddVCToLeaf g (vc_at_leaf (srTopology s) (nID (node (srTopology s) leaf)) (vuVCInfo msg))
               (vuType msg) (Some leaf) s) (vuDsts msg) s)"

datatype spine_event =
    SEvUpdatedLeaves LeafUpdatedMessage
  | SEvFailedLeaf LeafFailedMessage
  | SEvFailedServer ServerFailedMessage
  | SEvNewLeaf LeafAddedMessage
  | SEvNewServer ServerAddedMessage
  | SEvNewVC VCUpdatedMessage

definition spine_processEvent ::
  "'p grpc \<Rightarrow> order \<Rightarrow> spine_event \<Rightarrow> 'p SpineRpcEndpoint \<Rightarrow> 'p SpineRpcEndpoint go" where
  "spine_processEvent g ord ev s =
     (case ev of
        SEvUpdatedLeaves msg \<Rightarrow> Ret (fold (\<lambda>ul s. fst (sendLeafUpdate g (Some ul) s)) (luLeaves msg) s)
      | SEvFailedLeaf failed \<Rightarrow>
          go_bind (sendLeafFailed g failed s) (\<lambda>(s1, _).
            Ret (s1\<lparr>srFailedLeavesEgExt := srFailedLeavesEgExt s1 @ [NewLeafFailedMessage (lfLeaf failed) None]\<rparr>))
      | SEvFailedServer failed \<Rightarrow>
          go_bind (sendServerFailed g failed s) (\<lambda>(s1, _).
            Ret (s1\<lparr>srFailedServersEgExt := srFailedServersEgExt s1 @
                      [NewServerFailedMessage (sfServer failed) None]\<rparr>))
      | SEvNewLeaf newLeaf \<Rightarrow>
          (let s1 = createLeafConnPool g ord s; s2 = fst (sendLeafAdded g newLeaf s1)
           in Ret (s2\<lparr>srNewLeavesEgExt := srNewLeavesEgExt s2 @
                        [NewLeafAddedMessage (laLeaf newLeaf) (laDst newLeaf)]\<rparr>))
      | SEvNewServer newServer \<Rightarrow>
          (let s1 = fst (sendServerAdded g newServer s)
           in Ret (s1\<lparr>srNewServersEgExt := srNewServersEgExt s1 @
                        [NewServerAddedMessage (saServer newServer) (saDst newServer)]\<rparr>))
      | SEvNewVC newVC \<Rightarrow>
          (let s1 = fst (broadcastAddVCToLeaves g newVC s)
           in Ret (s1\<lparr>srNewVCsEgExt := srNewVCsEgExt s1 @
                        [NewVCUpdatedMessage (vuVCInfo newVC) (vuType newVC) (vuDsts newVC)]\<rparr>)))"

definition spine_processEvents ::
  "'p grpc \<Rightarrow> (order \<times> spine_event) list \<Rightarrow> 'p SpineRpcEndpoint \<Rightarrow> 'p SpineRpcEndpoint go" where
  "spine_processEvents g evs s = go_fold (\<lambda>(ord, ev). spine_processEvent g ord ev) evs s"

definition spine_Start :: "'p grpc \<Rightarrow> order \<Rightarrow> order \<Rightarrow> 'p SpineRpcEndpoint \<Rightarrow> 'p SpineRpcEndpoint" where
  "spine_Start g o1 o2 s = createLeafConnPool g o2 (createMgrConnPool g o1 s)"

section \<open>Fetching the virtual clusters\<close>

text \<open>
  What the central controller's end answers, as the generated client returns it: a response that is nil
  when there is an error, and the error. \<open>pool.Get\<close> may fail before.
\<close>

type_synonym vcs_reply = "go_error + VCsResponse option \<times> go_error option"

definition spine_GetVCs_fetch :: "vcs_reply \<Rightarrow> (VCInfo list \<times> go_error option) go" where
  "spine_GetVCs_fetch reply =
     (case reply of
        Inl err \<Rightarrow> Ret ([], Some err)
      | Inr (resp, err) \<Rightarrow> deref resp (\<lambda>r. Ret (Vcs r, err)))"

definition leaf_GetVCs_fetch :: "vcs_reply \<Rightarrow> (VCInfo list \<times> go_error option) go" where
  "leaf_GetVCs_fetch reply =
     (case reply of
        Inl err \<Rightarrow> Ret ([], Some err)
      | Inr (resp, Some _) \<Rightarrow> Ret ([], None)
      | Inr (resp, None) \<Rightarrow> deref resp (\<lambda>r. Ret (Vcs r, None)))"

end
