(* ===== verification/Rpc_Correct.thy ===== *)
theory Rpc_Correct
  imports Rpc_Endpoints Replica_Correct
begin

text \<open>
  What the RPC end points send: the calls that a failure or a new cluster at one controller leads to at
  the controllers below it.
\<close>

section \<open>Calls\<close>

text \<open>The network works: every attempt to call a peer goes out. The peer may still answer with an error.\<close>

definition network_up :: "'p grpc \<Rightarrow> bool" where
  "network_up g \<longleftrightarrow> (\<forall>n p c. \<exists>e. grCall g n p c = Answered e)"

lemma invoke_up: "network_up g \<Longrightarrow> lkSent (fst (invoke g p c lk)) = lkSent lk @ [(p, c)]"
  unfolding network_up_def invoke_def by (metis (no_types, lifting) fst_conv link.select_convs(2)
      link.surjective link.update_convs(1) link.update_convs(2) outcome.simps(6))

lemma invoke_cases:
  obtains (sent) "lkSent (fst (invoke g p c lk)) = lkSent lk @ [(p, c)]"
  | (unsent) "lkSent (fst (invoke g p c lk)) = lkSent lk" "snd (invoke g p c lk) \<noteq> None"
  by (cases "grCall g (lkTries lk) p c") (auto simp: invoke_def Let_def)

lemma call_spine_frame [simp]:
  "crTopology (fst (call_spine g k c s)) = crTopology s"
  "crSpineConnPool (fst (call_spine g k c s)) = crSpineConnPool s"
  by (simp_all add: call_spine_def split: option.split prod.split)

lemma call_leaf_frame [simp]:
  "srTopology (fst (call_leaf g a e c s)) = srTopology s"
  "srLeafConnPool (fst (call_leaf g a e c s)) = srLeafConnPool s"
  "srMgConnPool (fst (call_leaf g a e c s)) = srMgConnPool s"
  by (simp_all add: call_leaf_def split: option.split prod.split)

lemma call_mgr_frame [simp]:
  "srTopology (fst (call_mgr g a c s)) = srTopology s"
  "srLeafConnPool (fst (call_mgr g a c s)) = srLeafConnPool s"
  "srMgConnPool (fst (call_mgr g a c s)) = srMgConnPool s"
  by (simp_all add: call_mgr_def split: option.split prod.split)

lemma call_spine_sent:
  assumes "network_up g" and "gm_load (crSpineConnPool s) k = Some pool"
  shows "lkSent (crLink (fst (call_spine g k c s))) = lkSent (crLink s) @ [(pool, c)]"
  using invoke_up [OF assms(1), of pool c "crLink s"] assms(2) by (simp add: call_spine_def case_prod_unfold)

lemma call_leaf_sent:
  assumes "network_up g" and "gm_load (srLeafConnPool s) a = Some pool"
  shows "lkSent (srLink (fst (call_leaf g a e c s))) = lkSent (srLink s) @ [(pool, c)]"
  using invoke_up [OF assms(1), of pool c "srLink s"] assms(2) by (simp add: call_leaf_def case_prod_unfold)

text \<open>A row of calls to spines, errors only logged.\<close>

lemma call_spines_sent:
  assumes "network_up g" and "\<And>d. d \<in> set ds \<Longrightarrow> gm_load (crSpineConnPool s) (nID (node (crTopology s) d)) = Some (pl d)"
  shows "lkSent (crLink (fold (\<lambda>dst s. fst (call_spine g (nID (node (crTopology s) dst)) c s)) ds s)) =
    lkSent (crLink s) @ map (\<lambda>d. (pl d, c)) ds"
  using assms(2)
proof (induction ds arbitrary: s)
  case (Cons d ds)
  have "gm_load (crSpineConnPool s) (nID (node (crTopology s) d)) = Some (pl d)" using Cons.prems by simp
  with Cons show ?case using call_spine_sent [OF assms(1), of s "nID (node (crTopology s) d)" "pl d" c] by simp
qed simp

text \<open>Likewise to leaves.\<close>

lemma leaf_updates_sent:
  assumes "network_up g" and "\<And>d. d \<in> set ds \<Longrightarrow> gm_load (srLeafConnPool s) (nAddress (node (srTopology s) d)) = Some (pl d)"
  shows "lkSent (srLink (fold (\<lambda>ul s. fst (sendLeafUpdate g (Some ul) s)) ds s)) =
    lkSent (srLink s) @ map (\<lambda>d. (pl d, Call_FailLeaf (leaf_update_info (node (srTopology s) d)))) ds"
  using assms(2)
proof (induction ds arbitrary: s)
  case (Cons d ds)
  have "gm_load (srLeafConnPool s) (nAddress (node (srTopology s) d)) = Some (pl d)" using Cons.prems by simp
  with Cons show ?case
    using call_leaf_sent [OF assms(1), of s "nAddress (node (srTopology s) d)" "pl d"]
    by (simp add: sendLeafUpdate_def Let_def)
qed simp

section \<open>The pools after the start\<close>

lemma central_Start_frame:
  fixes s :: "'p CentralRpcEndpoint"
  shows "crTopology (central_Start g ord s) = crTopology s" "crLink (central_Start g ord s) = crLink s"
proof -
  let ?f = "\<lambda>t (_ :: u16, spine) (s :: 'p CentralRpcEndpoint). s\<lparr>crSpineConnPool := gm_store (nID (node t spine))
      (createSpineConnPool g (nAddress (node t spine))) (crSpineConnPool s)\<rparr>"
  have "crTopology (fold (?f t) xs s) = crTopology s \<and> crLink (fold (?f t) xs s) = crLink s" for t xs s
    by (induction xs arbitrary: s) auto
  then show "crTopology (central_Start g ord s) = crTopology s" "crLink (central_Start g ord s) = crLink s"
    by (simp_all add: central_Start_def Let_def)
qed

lemma central_Start_pools:
  fixes s :: "'p CentralRpcEndpoint"
  assumes wf: "wf_topo (crTopology s)" and ord: "is_order ord" and p: "gm_load (tSpines (crTopology s)) k = Some p"
  shows "gm_load (crSpineConnPool (central_Start g ord s)) k = Some (grNew g (nAddress (node (crTopology s) p)))"
proof -
  let ?t = "crTopology s"
  let ?f = "\<lambda>(_ :: u16, spine) (s :: 'p CentralRpcEndpoint). s\<lparr>crSpineConnPool := gm_store (nID (node ?t spine))
      (createSpineConnPool g (nAddress (node ?t spine))) (crSpineConnPool s)\<rparr>"
  have keep: "gm_load (crSpineConnPool (fold ?f xs s)) k = Some (grNew g (nAddress (node ?t p)))"
    if "gm_load (crSpineConnPool s) k = Some (grNew g (nAddress (node ?t p))) \<or> (k, p) \<in> set xs"
      "\<forall>(j, q) \<in> set xs. gm_load (tSpines ?t) j = Some q" for xs and s :: "'p CentralRpcEndpoint"
    using that
  proof (induction xs arbitrary: s)
    case (Cons x xs)
    obtain j q where x: "x = (j, q)" by fastforce
    with Cons.prems have q: "gm_load (tSpines ?t) j = Some q" by simp
    then have "nID (node ?t q) = j" using wf_spine [OF wf] by (auto simp: spine_ok_def)
    moreover from q p have "j = k \<Longrightarrow> q = p" by simp
    ultimately have "gm_load (crSpineConnPool (?f x s)) k = Some (grNew g (nAddress (node ?t p))) \<or> (k, p) \<in> set xs"
      using Cons.prems(1) x by (auto simp: createSpineConnPool_def)
    then show ?case using Cons.IH [of "?f x s"] Cons.prems(2) by simp
  qed simp
  have "(k, p) \<in> set (go_range ord (tSpines ?t))" "\<forall>(j, q) \<in> set (go_range ord (tSpines ?t)). gm_load (tSpines ?t) j = Some q"
    using gm_range_load [OF ord wf_maps(3) [OF wf]] p by blast+
  then show ?thesis unfolding central_Start_def Let_def by (intro keep) simp_all
qed

lemma createLeafConnPool_frame:
  fixes s :: "'p SpineRpcEndpoint"
  shows "srTopology (createLeafConnPool g ord s) = srTopology s" "srLink (createLeafConnPool g ord s) = srLink s"
  "srMgConnPool (createLeafConnPool g ord s) = srMgConnPool s"
  "srNewLeavesEgExt (createLeafConnPool g ord s) = srNewLeavesEgExt s"
proof -
  let ?f = "\<lambda>(_ :: u16, leaf) (s :: 'p SpineRpcEndpoint). let addr = nAddress (node (srTopology s) leaf) in
       if gm_load (srLeafConnPool s) addr = None
       then s\<lparr>srLeafConnPool := gm_store addr (grNew g addr) (srLeafConnPool s)\<rparr> else s"
  have "srTopology (fold ?f xs s) = srTopology s \<and> srLink (fold ?f xs s) = srLink s \<and>
     srMgConnPool (fold ?f xs s) = srMgConnPool s \<and> srNewLeavesEgExt (fold ?f xs s) = srNewLeavesEgExt s" for xs s
    by (induction xs arbitrary: s) (auto simp: Let_def)
  then show "srTopology (createLeafConnPool g ord s) = srTopology s" "srLink (createLeafConnPool g ord s) = srLink s"
    "srMgConnPool (createLeafConnPool g ord s) = srMgConnPool s"
    "srNewLeavesEgExt (createLeafConnPool g ord s) = srNewLeavesEgExt s"
    by (simp_all add: createLeafConnPool_def)
qed

lemma createMgrConnPool_frame:
  fixes s :: "'p SpineRpcEndpoint"
  shows "srTopology (createMgrConnPool g ord s) = srTopology s" "srLink (createMgrConnPool g ord s) = srLink s"
  "srLeafConnPool (createMgrConnPool g ord s) = srLeafConnPool s"
proof -
  let ?f = "\<lambda>(_ :: u16, leaf) (s :: 'p SpineRpcEndpoint). let addr = nMgmtAddress (node (srTopology s) leaf) in
       if gm_load (srMgConnPool s) addr = None
       then s\<lparr>srMgConnPool := gm_store addr (grNew g addr) (srMgConnPool s)\<rparr> else s"
  have "srTopology (fold ?f xs s) = srTopology s \<and> srLink (fold ?f xs s) = srLink s \<and>
     srLeafConnPool (fold ?f xs s) = srLeafConnPool s" for xs s
    by (induction xs arbitrary: s) (auto simp: Let_def)
  then show "srTopology (createMgrConnPool g ord s) = srTopology s" "srLink (createMgrConnPool g ord s) = srLink s"
    "srLeafConnPool (createMgrConnPool g ord s) = srLeafConnPool s"
    by (simp_all add: createMgrConnPool_def)
qed

text \<open>Every leaf has a pool for its address; a pool that exists stays.\<close>

lemma createLeafConnPool_pools:
  fixes s :: "'p SpineRpcEndpoint"
  assumes wf: "wf_topo (srTopology s)" and ord: "is_order ord" and l: "gm_load (tLeaves (srTopology s)) k = Some l"
    and old: "\<And>a p. gm_load (srLeafConnPool s) a = Some p \<Longrightarrow> p = grNew g a"
  shows "gm_load (srLeafConnPool (createLeafConnPool g ord s)) (nAddress (node (srTopology s) l)) =
    Some (grNew g (nAddress (node (srTopology s) l)))"
proof -
  let ?f = "\<lambda>(_ :: u16, leaf) (s :: 'p SpineRpcEndpoint). let addr = nAddress (node (srTopology s) leaf) in
       if gm_load (srLeafConnPool s) addr = None
       then s\<lparr>srLeafConnPool := gm_store addr (grNew g addr) (srLeafConnPool s)\<rparr> else s"
  let ?a = "nAddress (node (srTopology s) l)"
  have "gm_load (srLeafConnPool (fold ?f xs e)) ?a = Some (grNew g ?a)"
    if "gm_load (srLeafConnPool e) ?a = Some (grNew g ?a) \<or> (k, l) \<in> set xs" "srTopology e = srTopology s"
      "\<forall>a p. gm_load (srLeafConnPool e) a = Some p \<longrightarrow> p = grNew g a" for xs e
    using that
  proof (induction xs arbitrary: e)
    case Nil
    from Nil.prems(1) show ?case by simp
  next
    case (Cons x xs)
    obtain j q where x: "x = (j, q)" by fastforce
    have 1: "srTopology (?f x e) = srTopology s" using Cons.prems(2) by (simp add: x Let_def)
    have 2: "\<forall>a p. gm_load (srLeafConnPool (?f x e)) a = Some p \<longrightarrow> p = grNew g a"
      using Cons.prems(3) by (auto simp: x Let_def)
    have 3: "gm_load (srLeafConnPool (?f x e)) ?a = Some (grNew g ?a) \<or> (k, l) \<in> set xs"
    proof (cases "(k, l) \<in> set xs")
      case False
      with Cons.prems(1) x consider "gm_load (srLeafConnPool e) ?a = Some (grNew g ?a)" | "q = l" by auto
      then show ?thesis
      proof cases
        case 2
        then show ?thesis using Cons.prems(2,3) by (cases "gm_load (srLeafConnPool e) ?a") (auto simp: x Let_def)
      qed (auto simp: x Let_def)
    qed simp
    from Cons.IH [OF 3 1 2] show ?case by simp
  qed
  moreover have "(k, l) \<in> set (go_range ord (tLeaves (srTopology s)))"
    using gm_range_load [OF ord wf_maps(2) [OF wf]] l by blast
  ultimately show ?thesis unfolding createLeafConnPool_def using old by blast
qed

lemma spine_Start_pools:
  assumes "wf_topo t" and "is_order o1" and "is_order o2" and "gm_load (tLeaves t) k = Some l"
  shows "gm_load (srLeafConnPool (spine_Start g o1 o2 (NewSpineRpcEndpoint t))) (nAddress (node t l)) =
    Some (grNew g (nAddress (node t l)))"
proof -
  have t: "srTopology (createMgrConnPool g o1 (NewSpineRpcEndpoint t)) = t"
    by (simp add: createMgrConnPool_frame NewSpineRpcEndpoint_def)
  have "gm_load (srLeafConnPool (createMgrConnPool g o1 (NewSpineRpcEndpoint t))) a = None" for a
    by (simp add: createMgrConnPool_frame NewSpineRpcEndpoint_def)
  then show ?thesis
    using createLeafConnPool_pools [of "createMgrConnPool g o1 (NewSpineRpcEndpoint t)" o2 k l g] assms
    by (simp add: spine_Start_def t)
qed

section \<open>Failures reach the controllers below\<close>

lemma spine_registered:
  assumes ok: "sys_ok t m" and r: "gm_load (tServers t) k = Some r"
    and "grandparent t r = Some p \<or> (\<exists>v j. registered m v \<and> gm_load (vcServers (vc_at m v)) k \<noteq> None \<and>
      gm_load (vcSpines (vc_at m v)) j = Some p)"
  obtains j where "gm_load (tSpines t) j = Some p"
proof -
  have vok: "vc_members_ok t (vc_at m v)" if "registered m v" for v
    using registered_ok(2) [OF _ that] sys_okD(2) [OF ok] by (simp add: vcm_inv_def vc_ok_def)
  from assms(3) show ?thesis
  proof
    assume "grandparent t r = Some p"
    with wf_grandparent [OF sys_okD(1) [OF ok] r] that show ?thesis by (metis option.inject)
  next
    assume "\<exists>v j. registered m v \<and> gm_load (vcServers (vc_at m v)) k \<noteq> None \<and> gm_load (vcSpines (vc_at m v)) j = Some p"
    then obtain v j where "registered m v" "gm_load (vcSpines (vc_at m v)) j = Some p" by blast
    with vok [of v] have "gm_load (tSpines t) j = Some p" by (simp add: vc_members_ok_def)
    then show ?thesis by (rule that)
  qed
qed

text \<open>
  C20: When a server of some virtual cluster fails, the message that the central controller's server queues
  makes its end point, started on the same topology, call FailServer at exactly the spine of the server and
  the spines of its clusters, each at its own address, when the network works.
\<close>

theorem server_failure_reaches_spines:
  assumes "central_ok s" and "is_order ord" and "is_order ord'" and "network_up g"
    and "gm_load (tServers (ceTopology s)) (ucast (siId si)) = Some r" and "\<not> server_unused (ceVcm s) (ucast (siId si))"
  shows "\<exists>s' msg. central_FailServer ord si s = Ret (s', status ''OK'') \<and>
    ceFailedServers s' = ceFailedServers s @ [msg] \<and>
    set (lkSent (crLink (central_processEvent g (CEvFailedServer msg)
        ((central_Start g ord' (NewCentralRpcEndpoint (ceTopology s)))\<lparr>crTopology := ceTopology s'\<rparr>)))) =
      {(grNew g (nAddress (node (ceTopology s) p)), Call_FailServer si) | p.
         grandparent (ceTopology s) r = Some p \<or>
         (\<exists>v j. registered (ceVcm s) v \<and> gm_load (vcServers (vc_at (ceVcm s) v)) (ucast (siId si)) \<noteq> None \<and>
                gm_load (vcSpines (vc_at (ceVcm s) v)) j = Some p)}"
proof -
  let ?t = "ceTopology s" and ?m = "ceVcm s" and ?k = "ucast (siId si) :: u16"
  have ok: "sys_ok ?t ?m" using assms(1) by (simp add: central_ok_def)
  note wf = sys_okD(1) [OF ok]
  from central_FailServer_run [OF assms(1,2,5)] assms(6) obtain s' ds where
    run: "central_FailServer ord si s = Ret (s', status ''OK'')"
    and msg: "ceFailedServers s' = ceFailedServers s @ [NewServerFailedMessage si (Some ds)]"
    and ids: "\<And>p. nID (node (ceTopology s') p) = nID (node ?t p)"
    and ds: "set ds = {p. grandparent ?t r = Some p \<or> (\<exists>v j. registered ?m v \<and>
      gm_load (vcServers (vc_at ?m v)) ?k \<noteq> None \<and> gm_load (vcSpines (vc_at ?m v)) j = Some p)}"
    by auto
  define e where "e = (central_Start g ord' (NewCentralRpcEndpoint ?t))\<lparr>crTopology := ceTopology s'\<rparr>"
  have pool: "gm_load (crSpineConnPool e) (nID (node (crTopology e) d)) = Some (grNew g (nAddress (node ?t d)))"
    if "d \<in> set ds" for d
  proof -
    from that ds have "grandparent ?t r = Some d \<or> (\<exists>v j. registered ?m v \<and>
      gm_load (vcServers (vc_at ?m v)) ?k \<noteq> None \<and> gm_load (vcSpines (vc_at ?m v)) j = Some d)" by blast
    from spine_registered [OF ok assms(5) this] obtain j where j: "gm_load (tSpines ?t) j = Some d" .
    then have "nID (node ?t d) = j" using wf_spine [OF wf] by (auto simp: spine_ok_def)
    moreover have "gm_load (crSpineConnPool (central_Start g ord' (NewCentralRpcEndpoint ?t))) j =
        Some (grNew g (nAddress (node ?t d)))"
      using central_Start_pools [of "NewCentralRpcEndpoint ?t" ord' j d g] wf assms(3) j
      by (simp add: NewCentralRpcEndpoint_def)
    ultimately show ?thesis by (simp add: e_def ids)
  qed
  have "lkSent (crLink e) = []" by (simp add: e_def central_Start_frame NewCentralRpcEndpoint_def)
  with call_spines_sent [OF assms(4) pool, where c = "Call_FailServer si"]
  have "lkSent (crLink (central_processEvent g (CEvFailedServer (NewServerFailedMessage si (Some ds))) e)) =
      map (\<lambda>d. (grNew g (nAddress (node ?t d)), Call_FailServer si)) ds"
    by (simp add: central_processEvent_def NewServerFailedMessage_def dsts_def central_sendFailedServerEvent_def)
  then have "set (lkSent (crLink (central_processEvent g (CEvFailedServer (NewServerFailedMessage si (Some ds))) e))) =
      (\<lambda>d. (grNew g (nAddress (node ?t d)), Call_FailServer si)) ` set ds" by simp
  with run msg show ?thesis unfolding ds e_def by (intro exI conjI) (auto simp: image_Collect)
qed

text \<open>Pools that are their addresses, on a network that always answers without an error.\<close>

definition good_net :: "string grpc" where
  "good_net = \<lparr>grNew = \<lambda>a. a, grCall = \<lambda>_ _ _. Answered None\<rparr>"

lemma good_net_up: "network_up good_net"
  by (simp add: network_up_def good_net_def)

theorem server_failure_reaches_spines_witness:
  "\<exists>s' msg. central_FailServer stored_order (fail_info 0) sample_central = Ret (s', status ''OK'') \<and>
     (''s'', Call_FailServer (fail_info 0)) \<in> set (lkSent (crLink (central_processEvent good_net (CEvFailedServer msg)
        ((central_Start good_net stored_order (NewCentralRpcEndpoint sample))\<lparr>crTopology := ceTopology s'\<rparr>))))"
proof -
  have used: "\<not> server_unused sample_vcm 0" using sample_members(1,2) by (auto simp: server_unused_def)
  have r: "gm_load (tServers (ceTopology sample_central)) (ucast (siId (fail_info 0))) = Some 3"
    by (simp add: sample_nodes fail_info_def)
  have un: "\<not> server_unused (ceVcm sample_central) (ucast (siId (fail_info 0)))" using used by (simp add: fail_info_def)
  have gp: "grandparent sample 3 = Some 1" "nAddress (node sample 1) = ''s''" by (simp_all add: grandparent_def sample_eval)
  have net: "grNew good_net a = a" for a by (simp add: good_net_def)
  from server_failure_reaches_spines [OF sample_central_ok is_order_stored is_order_stored good_net_up r un]
  obtain s' msg where run: "central_FailServer stored_order (fail_info 0) sample_central = Ret (s', status ''OK'')"
    and calls: "set (lkSent (crLink (central_processEvent good_net (CEvFailedServer msg)
        ((central_Start good_net stored_order (NewCentralRpcEndpoint (ceTopology sample_central)))\<lparr>crTopology := ceTopology s'\<rparr>)))) =
      {(grNew good_net (nAddress (node (ceTopology sample_central) p)), Call_FailServer (fail_info 0)) | p.
         grandparent (ceTopology sample_central) 3 = Some p \<or>
         (\<exists>v j. registered (ceVcm sample_central) v \<and>
           gm_load (vcServers (vc_at (ceVcm sample_central) v)) (ucast (siId (fail_info 0))) \<noteq> None \<and>
           gm_load (vcSpines (vc_at (ceVcm sample_central) v)) j = Some p)}" by blast
  have "(''s'', Call_FailServer (fail_info 0)) \<in> set (lkSent (crLink (central_processEvent good_net (CEvFailedServer msg)
        ((central_Start good_net stored_order (NewCentralRpcEndpoint (ceTopology sample_central)))\<lparr>crTopology := ceTopology s'\<rparr>))))"
    unfolding calls net by (rule CollectI, rule exI [of _ 1]) (simp add: gp [unfolded One_nat_def])
  with run show ?thesis by (intro exI [of _ s'] exI [of _ msg]) (simp only: sample_central_fields)
qed

text \<open>
  C21: When a leaf fails at the spine controller, the leaves behind it under the same spine move down one
  index, and the end point calls each of them, in order, with its ID and the new index; a leaf controller
  that gets such a call takes over exactly the index that the spine has.
\<close>

theorem leaf_failure_moves_indices:
  assumes "sys_ok (spTopology s) (spVcm s)" and "is_order ord" and "is_order o1" and "is_order o2" and "network_up g"
    and "gm_load (tLeaves (spTopology s)) (ucast (liId li)) = Some l"
    and "nParent (node (spTopology s) l) = Some p" and "nChildren (node (spTopology s) p) = ys @ l # zs" and "zs \<noteq> []"
  shows "\<exists>s' msg. spine_FailLeaf ord li s = Some (Ret (s', status ''OK'')) \<and>
    spUpdatedLeavesToRPC s' = spUpdatedLeavesToRPC s @ [msg] \<and>
    (\<exists>e. spine_processEvent g o1 (SEvUpdatedLeaves msg)
        ((spine_Start g o1 o2 (NewSpineRpcEndpoint (spTopology s)))\<lparr>srTopology := spTopology s'\<rparr>) = Ret e \<and>
      lkSent (srLink e) = map (\<lambda>c. (grNew g (nAddress (node (spTopology s) c)),
        Call_FailLeaf (leaf_update_info (node (spTopology s') c)))) zs) \<and>
    (\<forall>c \<in> set zs. nIndex (node (spTopology s') c) = nIndex (node (spTopology s) c) - 1 \<and>
      (\<forall>sl l'. valid_node (leTopology sl) l' \<and> gm_load (tLeaves (leTopology sl)) (nID (node (spTopology s') c)) = Some l' \<longrightarrow>
        (\<exists>sl'. leaf_FailLeaf (leaf_update_info (node (spTopology s') c)) sl = Ret (sl', status ''OK'') \<and>
          nIndex (node (leTopology sl') l') = nIndex (node (spTopology s') c))))"
proof -
  let ?t = "spTopology s"
  note wf = sys_okD(1) [OF assms(1)]
  from spine_FailLeaf_run [OF assms(1,2,6-8)] assms(9) obtain s' where
    run: "spine_FailLeaf ord li s = Some (Ret (s', status ''OK''))"
    and msg: "spUpdatedLeavesToRPC s' = spUpdatedLeavesToRPC s @ [NewLeafUpdatedMessage zs]"
    and zs: "\<And>c. c \<in> set zs \<Longrightarrow> node (spTopology s') c = (node ?t c)\<lparr>nIndex := nIndex (node ?t c) - 1\<rparr>" by auto
  define e0 where "e0 = (spine_Start g o1 o2 (NewSpineRpcEndpoint ?t))\<lparr>srTopology := spTopology s'\<rparr>"
  from wf_leaf_parent [OF wf assms(6)] assms(7) have sp: "gm_load (tSpines ?t) (nID (node ?t p)) = Some p" by auto
  have pool: "gm_load (srLeafConnPool e0) (nAddress (node (srTopology e0) c)) = Some (grNew g (nAddress (node ?t c)))"
    if "c \<in> set zs" for c
  proof -
    have "gm_load (tLeaves ?t) (nID (node ?t c)) = Some c" using wf_leaf_child(1) [OF wf sp, of c] that assms(8) by simp
    from spine_Start_pools [OF wf assms(3,4) this] zs [OF that] show ?thesis by (simp add: e0_def)
  qed
  have "lkSent (srLink e0) = []"
    by (simp add: e0_def spine_Start_def createLeafConnPool_frame createMgrConnPool_frame NewSpineRpcEndpoint_def)
  with leaf_updates_sent [OF assms(5) pool]
  have sent: "\<exists>e. spine_processEvent g o1 (SEvUpdatedLeaves (NewLeafUpdatedMessage zs)) e0 = Ret e \<and>
      lkSent (srLink e) = map (\<lambda>c. (grNew g (nAddress (node ?t c)),
        Call_FailLeaf (leaf_update_info (node (spTopology s') c)))) zs"
    by (simp add: spine_processEvent_def NewLeafUpdatedMessage_def) (simp add: e0_def)
  have told: "\<exists>sl'. leaf_FailLeaf (leaf_update_info n) sl = Ret (sl', status ''OK'') \<and>
      nIndex (node (leTopology sl') l') = nIndex n"
    if "valid_node (leTopology sl) l'" "gm_load (tLeaves (leTopology sl)) (nID n) = Some l'" for sl l' n
  proof -
    have fits: "ucast (ucast (w :: u16) :: u32) = w" for w by (rule bit_word_eqI) (simp add: bit_ucast_iff)
    from that show ?thesis
      by (simp add: leaf_FailLeaf_def leaf_update_info_def fits ns.get_upd_same)
  qed
  have moved: "nIndex (node (spTopology s') c) = nIndex (node ?t c) - 1" if "c \<in> set zs" for c
    using zs [OF that] by simp
  have "\<forall>c \<in> set zs. nIndex (node (spTopology s') c) = nIndex (node ?t c) - 1 \<and>
      (\<forall>sl l'. valid_node (leTopology sl) l' \<and> gm_load (tLeaves (leTopology sl)) (nID (node (spTopology s') c)) = Some l' \<longrightarrow>
        (\<exists>sl'. leaf_FailLeaf (leaf_update_info (node (spTopology s') c)) sl = Ret (sl', status ''OK'') \<and>
          nIndex (node (leTopology sl') l') = nIndex (node (spTopology s') c)))"
    using moved told by blast
  with run msg sent [unfolded e0_def] show ?thesis
    by (intro exI [of _ s'] exI [of _ "NewLeafUpdatedMessage zs"] conjI)
qed

theorem leaf_failure_moves_indices_witness:
  "\<exists>s' msg e. spine_FailLeaf stored_order (fail_leaf_info 0) sample_spine = Some (Ret (s', status ''OK'')) \<and>
     spine_processEvent good_net stored_order (SEvUpdatedLeaves msg)
        ((spine_Start good_net stored_order stored_order (NewSpineRpcEndpoint sample))\<lparr>srTopology := spTopology s'\<rparr>) = Ret e \<and>
     lkSent (srLink e) = [(''l'', Call_FailLeaf (leaf_update_info (node (spTopology s') 5)))] \<and>
     nIndex (node (spTopology s') 5) = 0"
proof -
  have ok: "sys_ok (spTopology sample_spine) (spVcm sample_spine)" by (simp add: sample_sys_ok)
  have hyps: "gm_load (tLeaves (spTopology sample_spine)) (ucast (liId (fail_leaf_info 0))) = Some 2"
    "nParent (node (spTopology sample_spine) 2) = Some 1"
    "nChildren (node (spTopology sample_spine) 1) = [] @ 2 # [5]" "[5] \<noteq> ([] :: nref list)"
    by (simp_all add: sample_eval fail_leaf_info_def)
  have smp: "nIndex (node sample 5) = 1" "nAddress (node sample 5) = ''l''" by (simp_all add: sample_eval)
  have net: "grNew good_net = (\<lambda>a. a)" by (simp add: good_net_def)
  from leaf_failure_moves_indices [OF ok is_order_stored is_order_stored is_order_stored good_net_up hyps]
  obtain s' msg e where
    "spine_FailLeaf stored_order (fail_leaf_info 0) sample_spine = Some (Ret (s', status ''OK''))"
    "spine_processEvent good_net stored_order (SEvUpdatedLeaves msg)
      ((spine_Start good_net stored_order stored_order (NewSpineRpcEndpoint (spTopology sample_spine)))
        \<lparr>srTopology := spTopology s'\<rparr>) = Ret e"
    "lkSent (srLink e) = map (\<lambda>c. (grNew good_net (nAddress (node (spTopology sample_spine) c)),
        Call_FailLeaf (leaf_update_info (node (spTopology s') c)))) [5]"
    "\<forall>c \<in> set [5]. nIndex (node (spTopology s') c) = nIndex (node (spTopology sample_spine) c) - 1" by blast
  then show ?thesis using smp net by (intro exI [of _ s'] exI [of _ msg] exI [of _ e]) simp
qed

end
