(* ===== verification/Rpc_Broadcast.thy ===== *)
theory Rpc_Broadcast
  imports Rpc_Correct
begin

text \<open>
  How a new or removed virtual cluster reaches the controllers below: the row of calls that the first error
  ends, and the split of a cluster into its parts at the leaves; and what a new leaf on a new manager meets.
\<close>

section \<open>A row of calls ended by the first error\<close>

text \<open>
  In a row of calls each of which is sent or fails, the calls that went out are those of a prefix, up to the
  failing destination, which may or may not have got its call.
\<close>

lemma until_error_prefix:
  assumes one: "\<And>d s. d \<in> set ds \<Longrightarrow> (log (fst (f d s)) = log s @ [c d] \<or> log (fst (f d s)) = log s \<and> snd (f d s) \<noteq> None)"
    and run: "until_error f ds s = (s', res)"
  shows "res = None \<and> log s' = log s @ map c ds \<or>
    (\<exists>ys d zs. res \<noteq> None \<and> ds = ys @ d # zs \<and> (log s' = log s @ map c ys \<or> log s' = log s @ map c (ys @ [d])))"
  using assms
proof (induction ds arbitrary: s)
  case (Cons d ds)
  obtain s1 r where d: "f d s = (s1, r)" by fastforce
  show ?case
  proof (cases r)
    case None
    with d Cons.prems(1) [of d s] have log1: "log s1 = log s @ [c d]" by auto
    from None d Cons.prems(2) have "until_error f ds s1 = (s', res)" by simp
    with Cons.IH [of s1] Cons.prems(1) consider "res = None" "log s' = log s1 @ map c ds"
      | ys e zs where "res \<noteq> None" "ds = ys @ e # zs" "log s' = log s1 @ map c ys \<or> log s' = log s1 @ map c (ys @ [e])"
      by (metis list.set_intros(2))
    then show ?thesis
    proof cases
      case 1
      then show ?thesis by (simp add: log1)
    next
      case (2 ys e zs)
      then have "d # ds = (d # ys) @ e # zs" "log s' = log s @ map c (d # ys) \<or> log s' = log s @ map c ((d # ys) @ [e])"
        by (auto simp: log1)
      with 2(1) show ?thesis by blast
    qed
  next
    case (Some e)
    with d Cons.prems(2) have "s' = s1" "res = Some e" by auto
    moreover have "log s1 = log s @ map c ([] @ [d]) \<or> log s1 = log s @ map c []" using Cons.prems(1) [of d s] d by auto
    ultimately have "res \<noteq> None \<and> d # ds = [] @ d # ds \<and> (log s' = log s @ map c [] \<or> log s' = log s @ map c ([] @ [d]))"
      by simp blast
    then show ?thesis by blast
  qed
qed simp

text \<open>The pools and the topology stay the same along the row.\<close>

lemma until_error_cong:
  assumes "P s" and "\<And>d s. P s \<Longrightarrow> P (fst (f d s))" and "\<And>d s. d \<in> set ds \<Longrightarrow> P s \<Longrightarrow> f d s = h d s"
  shows "until_error f ds s = until_error h ds s"
  using assms(1,3)
proof (induction ds arbitrary: s)
  case (Cons d ds)
  have "f d s = h d s" using Cons.prems by simp
  moreover have "P (fst (f d s))" using assms(2) Cons.prems(1) .
  then have "until_error f ds (fst (f d s)) = until_error h ds (fst (f d s))"
    using Cons.IH Cons.prems(2) by simp
  ultimately show ?case by (cases "h d s") (auto split: option.split)
qed simp

lemma call_spine_log:
  assumes "gm_load (crSpineConnPool s) k = Some pool \<or> gm_load (crSpineConnPool s) k = None"
  shows "lkSent (crLink (fst (call_spine g k c s))) = lkSent (crLink s) @ [(pool, c)] \<or>
    lkSent (crLink (fst (call_spine g k c s))) = lkSent (crLink s) \<and> snd (call_spine g k c s) \<noteq> None"
proof (cases "gm_load (crSpineConnPool s) k")
  case (Some p)
  then show ?thesis using assms
    by (cases rule: invoke_cases [of g p c "crLink s"]) (auto simp: call_spine_def case_prod_unfold)
qed (simp add: call_spine_def)

section \<open>Clusters to the spines\<close>

text \<open>The call that a spine of a cluster is due.\<close>

definition vc_call :: "VCUpdatedMessage \<Rightarrow> rpc_call" where
  "vc_call msg = (case vuType msg of VCUpdateAdd \<Rightarrow> Call_AddVC (vuVCInfo msg) | VCUpdateRem \<Rightarrow> Call_RemoveVC (vuVCInfo msg))"

definition pool_of :: "'p CentralRpcEndpoint \<Rightarrow> nref \<Rightarrow> 'p" where
  "pool_of s d = the (gm_load (crSpineConnPool s) (nID (node (crTopology s) d)))"

text \<open>
  Announcing a new or removed cluster to its spines either reports no error, and then every spine of the
  message has been called, in order; or it reports an error, and then the spines behind the one that failed
  have not been called at all, though only that one was unreachable.
\<close>

theorem vc_broadcast_stops_at_error:
  assumes "vuDsts msg \<noteq> []" and "broadcastAddVCToSpines g msg s = (s', res)"
  shows "case res of
      None \<Rightarrow> lkSent (crLink s') = lkSent (crLink s) @ map (\<lambda>d. (pool_of s d, vc_call msg)) (vuDsts msg)
    | Some _ \<Rightarrow> \<exists>ys d zs. vuDsts msg = ys @ d # zs \<and>
        (lkSent (crLink s') = lkSent (crLink s) @ map (\<lambda>d. (pool_of s d, vc_call msg)) ys \<or>
         lkSent (crLink s') = lkSent (crLink s) @ map (\<lambda>d. (pool_of s d, vc_call msg)) (ys @ [d]))"
proof -
  let ?f = "\<lambda>spine. sendAddVCToSpine g (vuVCInfo msg) (vuType msg) (Some spine)"
  let ?h = "\<lambda>d e. if crTopology e = crTopology s \<and> crSpineConnPool e = crSpineConnPool s then ?f d e
    else (e, Some (ErrMsg ''''))"
  have run: "until_error ?f (vuDsts msg) s = (s', res)"
    using assms by (simp add: broadcastAddVCToSpines_def)
  have f: "?f d e = call_spine g (nID (node (crTopology e) d)) (vc_call msg) e" for d and e :: "'a CentralRpcEndpoint"
    by (simp add: sendAddVCToSpine_def vc_call_def)
  have "until_error ?f (vuDsts msg) s = until_error ?h (vuDsts msg) s"
    by (rule until_error_cong [where P = "\<lambda>e. crTopology e = crTopology s \<and> crSpineConnPool e = crSpineConnPool s"])
      (simp_all add: f)
  with run have run': "until_error ?h (vuDsts msg) s = (s', res)" by simp
  have one: "lkSent (crLink (fst (?h d e))) = lkSent (crLink e) @ [(pool_of s d, vc_call msg)] \<or>
      lkSent (crLink (fst (?h d e))) = lkSent (crLink e) \<and> snd (?h d e) \<noteq> None" for d e
  proof (cases "crTopology e = crTopology s \<and> crSpineConnPool e = crSpineConnPool s")
    case True
    have "gm_load (crSpineConnPool e) (nID (node (crTopology e) d)) = Some (pool_of s d) \<or>
        gm_load (crSpineConnPool e) (nID (node (crTopology e) d)) = None"
      using True by (auto simp: pool_of_def)
    from call_spine_log [OF this, of g "vc_call msg"] True show ?thesis by (simp add: f)
  next
    case False
    then have "?h d e = (e, Some (ErrMsg ''''))" by (rule if_not_P)
    then show ?thesis by (simp only: fst_conv snd_conv) simp
  qed
  from until_error_prefix [where log = "\<lambda>e. lkSent (crLink e)" and c = "\<lambda>d. (pool_of s d, vc_call msg)", OF one run']
  show ?thesis by (cases res) auto
qed

text \<open>Two spines, the first of which is unknown.\<close>

definition two_spines :: "string CentralRpcEndpoint" where
  "two_spines = \<lparr>crTopology = sample, crSpineConnPool = [(0, ''s'')], crLink = \<lparr>lkTries = 0, lkSent = []\<rparr>\<rparr>"

definition new_vc_msg :: VCUpdatedMessage where
  "new_vc_msg = NewVCUpdatedMessage \<lparr>viId = 7, viSpines = [], viServers = []\<rparr> VCUpdateAdd [5, 1]"

theorem vc_broadcast_stops_at_error_witness:
  "\<exists>s'. broadcastAddVCToSpines good_net new_vc_msg two_spines = (s', Some (ErrNoPool 1)) \<and>
     lkSent (crLink s') \<in> {[], [(pool_of two_spines 5, vc_call new_vc_msg)]} \<and>
     gm_load (crSpineConnPool two_spines) (nID (node sample 1)) \<noteq> None"
proof -
  have ne: "vuDsts new_vc_msg \<noteq> []" by (simp add: new_vc_msg_def NewVCUpdatedMessage_def)
  obtain s' where run: "broadcastAddVCToSpines good_net new_vc_msg two_spines = (s', Some (ErrNoPool 1))"
    by (simp add: broadcastAddVCToSpines_def new_vc_msg_def NewVCUpdatedMessage_def sendAddVCToSpine_def
        call_spine_def two_spines_def sample_eval)
  have split: "ys = [] \<and> d = 5 \<or> ys = [5]" if "[5, 1] = ys @ d # zs" for ys zs and d :: nref
    using that by (cases ys) (auto simp: append_eq_Cons_conv Cons_eq_append_conv)
  have snd1: "s' = two_spines"
    using run by (simp add: broadcastAddVCToSpines_def new_vc_msg_def NewVCUpdatedMessage_def sendAddVCToSpine_def
        call_spine_def two_spines_def sample_eval)
  from vc_broadcast_stops_at_error [OF ne run] obtain ys d zs where
    "lkSent (crLink s') = lkSent (crLink two_spines) @ map (\<lambda>d. (pool_of two_spines d, vc_call new_vc_msg)) ys \<or>
     lkSent (crLink s') = lkSent (crLink two_spines) @ map (\<lambda>d. (pool_of two_spines d, vc_call new_vc_msg)) (ys @ [d])"
    by auto
  moreover have "lkSent (crLink s') = []" by (simp add: snd1 two_spines_def)
  moreover have "gm_load (crSpineConnPool two_spines) (nID (node sample 1)) \<noteq> None"
    by (simp add: two_spines_def sample_eval)
  ultimately show ?thesis using run by blast
qed

section \<open>Clusters to the leaves\<close>

lemma at_leaf_Some:
  "at_leaf t k x = Some y \<longleftrightarrow> (\<exists>r p. gm_load (tServers t) (ucast (vsId x)) = Some r \<and> nParent (node t r) = Some p \<and>
     nID (node t p) = k \<and> y = \<lparr>vsId = ucast (nID (node t r)), vsWorkersIDs = []\<rparr>)"
  by (auto simp: at_leaf_def split: option.splits)

lemma vc_at_leaf_servers:
  assumes wf: "wf_topo t"
  shows "vsId ` set (viServers (vc_at_leaf t k info)) = {ucast j |j :: u16. \<exists>x \<in> set (viServers info). j = ucast (vsId x) \<and>
    (\<exists>r p. gm_load (tServers t) j = Some r \<and> nParent (node t r) = Some p \<and> nID (node t p) = k)}"
proof -
  have id: "nID (node t r) = j" if "gm_load (tServers t) j = Some r" for j r
    using wf_server [OF wf that] by (simp add: server_ok_def)
  have "set (viServers (vc_at_leaf t k info)) = {y. \<exists>x \<in> set (viServers info). at_leaf t k x = Some y}"
    by (auto simp: vc_at_leaf_def map_filter_def image_iff) (metis option.sel)
  then show ?thesis unfolding at_leaf_Some by (force simp: id)
qed

lemma ucast_32_inj:
  assumes "ucast (a :: u16) = (ucast b :: u32)"
  shows "a = b"
proof -
  have w16: "ucast (ucast (w :: u16) :: u32) = w" for w by (rule bit_word_eqI) (simp add: bit_ucast_iff)
  from assms have "ucast (ucast a :: u32) = (ucast (ucast b :: u32) :: u16)" by simp
  then show ?thesis unfolding w16 .
qed

text \<open>
  C37: When the spine controller registers a cluster, every server of it is in the part that one of the
  leaves of the queued message will be told, and in the part of no other leaf of the message.
\<close>

theorem vc_parts_partition:
  assumes "sys_ok (spTopology s) (spVcm s)" and "is_order ord" and "spine_AddVC ord vi s = Ret (s', Inr resp)"
    and "x \<in> set (viServers vi)"
  shows "\<exists>msg. spNewVCs s' = spNewVCs s @ [msg] \<and> vuVCInfo msg = vi \<and>
    (\<exists>!l. l \<in> set (vuDsts msg) \<and>
      ucast (ucast (vsId x) :: u16) \<in> vsId ` set (viServers (vc_at_leaf (spTopology s') (nID (node (spTopology s') l)) vi)))"
proof -
  let ?t = "spTopology s" and ?k = "ucast (vsId x) :: u16"
  note wf = sys_okD(1) [OF assms(1)]
  from assms(3) obtain m vc where reg: "register_vc ord vi ?t (spVcm s) = Ret (m, Inr vc)"
    and s': "spTopology s' = ?t"
      "spNewVCs s' = spNewVCs s @ [NewVCUpdatedMessage vi VCUpdateAdd (map snd (go_range ord (vcLeaves vc)))]"
    by (auto simp: spine_AddVC_def Let_def returned)
  from reg have new: "NewVC vi ?t = Ret (Inr vc)"
    by (auto simp: register_vc_def returned split: prod.splits sum.splits)
  note vok = NewVC_ok [OF wf new]
  have mem: "gm_load (vcServers vc) ?k \<noteq> None" using vok(3) [of ?k] assms(4) by blast
  then obtain r where r: "gm_load (vcServers vc) ?k = Some r" by blast
  then have tr: "gm_load (tServers ?t) ?k = Some r" using vok(1) by (simp add: vc_ok_def vc_members_ok_def)
  from wf_parent [OF wf tr] obtain l where l: "nParent (node ?t r) = Some l"
    "gm_load (tLeaves ?t) (nID (node ?t l)) = Some l" by blast
  have leaves: "gm_load (vcLeaves vc) j = Some q \<longleftrightarrow> (\<exists>k r. gm_load (vcServers vc) k = Some r \<and>
      nParent (node ?t r) = Some q \<and> nID (node ?t q) = j)" for j q
    using vok(1) by (simp add: vc_ok_def vc_leaves_ok_def)
  have lv: "gm_wf (vcLeaves vc)" using vok(1) by (simp add: vc_ok_def vc_members_ok_def)
  have in_dsts: "q \<in> set (map snd (go_range ord (vcLeaves vc))) \<longleftrightarrow> (\<exists>j. gm_load (vcLeaves vc) j = Some q)" for q
    using gm_range_load [OF assms(2) lv] by force
  have part: "ucast ?k \<in> vsId ` set (viServers (vc_at_leaf ?t (nID (node ?t q)) vi)) \<longleftrightarrow> nID (node ?t l) = nID (node ?t q)" for q
    unfolding vc_at_leaf_servers [OF wf] using assms(4) tr l(1) by (auto dest: ucast_32_inj)
  have "l \<in> set (map snd (go_range ord (vcLeaves vc)))" unfolding in_dsts leaves using r l(1) by blast
  moreover have "q = l" if "q \<in> set (map snd (go_range ord (vcLeaves vc)))" "nID (node ?t l) = nID (node ?t q)" for q
  proof -
    from that(1) obtain k r' where "gm_load (vcServers vc) k = Some r'" "nParent (node ?t r') = Some q"
      unfolding in_dsts leaves by blast
    then have "gm_load (tServers ?t) k = Some r'" using vok(1) by (simp add: vc_ok_def vc_members_ok_def)
    from wf_parent [OF wf this] \<open>nParent (node ?t r') = Some q\<close>
    have "gm_load (tLeaves ?t) (nID (node ?t q)) = Some q" by (metis option.inject)
    with l(2) that(2) show ?thesis by simp
  qed
  ultimately have "\<exists>!q. q \<in> set (map snd (go_range ord (vcLeaves vc))) \<and>
      ucast ?k \<in> vsId ` set (viServers (vc_at_leaf ?t (nID (node ?t q)) vi))" unfolding part by blast
  then show ?thesis by (simp add: s' NewVCUpdatedMessage_def)
qed

theorem vc_parts_partition_witness:
  "\<exists>s' msg. spine_AddVC stored_order sample_vcinfo (NewSpineSrvServer sample NewVCManager) = Ret (s', status ''OK'') \<and>
     spNewVCs s' = [msg] \<and> (\<exists>!l. l \<in> set (vuDsts msg) \<and>
      0 \<in> vsId ` set (viServers (vc_at_leaf (spTopology s') (nID (node (spTopology s') l)) sample_vcinfo)))"
proof -
  let ?s = "NewSpineSrvServer sample NewVCManager"
  have ok: "sys_ok (spTopology ?s) (spVcm ?s)"
    by (simp add: NewSpineSrvServer_def sys_ok_def sample_wf NewVCManager_wf)
  have "\<exists>m. register_vc stored_order sample_vcinfo sample NewVCManager = Ret (m, Inr sample_vc1)"
    by (simp add: register_vc_def sample_NewVC new_vc_def AddVC_def NewVCManager_def vc_at_def gm_eval Let_def)
  then obtain s' where run: "spine_AddVC stored_order sample_vcinfo ?s = Ret (s', status ''OK'')"
    by (auto simp: spine_AddVC_def NewSpineSrvServer_def)
  have x: "\<lparr>vsId = 0, vsWorkersIDs = []\<rparr> \<in> set (viServers sample_vcinfo)" by (simp add: sample_vcinfo_def)
  from vc_parts_partition [OF ok is_order_stored run x] obtain msg where
    "spNewVCs s' = spNewVCs ?s @ [msg]"
    "\<exists>!l. l \<in> set (vuDsts msg) \<and> ucast (ucast (vsId \<lparr>vsId = 0, vsWorkersIDs = []\<rparr>) :: u16) \<in>
       vsId ` set (viServers (vc_at_leaf (spTopology s') (nID (node (spTopology s') l)) sample_vcinfo))" by blast
  then show ?thesis using run by (intro exI [of _ s'] exI [of _ msg] conjI) (simp_all add: NewSpineSrvServer_def)
qed

section \<open>A new leaf on a new manager\<close>

text \<open>
  The pools of managers are made once, at the start. A leaf that is added on a switch whose manager has
  no leaf yet is never announced to that manager: the end point reports that the pool is missing, makes no
  call, and still has no pool afterwards, although it does make one for the leaf itself.
\<close>

theorem new_manager_not_told:
  assumes "wf_topo (srTopology e)" and "is_order ord" and "laDst msg = Some l"
    and "gm_load (tLeaves (srTopology e)) k = Some l"
    and "gm_load (srMgConnPool e) (nMgmtAddress (node (srTopology e) l)) = None"
    and "\<And>a p. gm_load (srLeafConnPool e) a = Some p \<Longrightarrow> p = grNew g a"
  shows "\<exists>e'. spine_processEvent g ord (SEvNewLeaf msg) e = Ret e' \<and> lkSent (srLink e') = lkSent (srLink e) \<and>
    gm_load (srMgConnPool e') (nMgmtAddress (node (srTopology e') l)) = None \<and>
    gm_load (srLeafConnPool e') (nAddress (node (srTopology e') l)) \<noteq> None \<and>
    srNewLeavesEgExt e' = srNewLeavesEgExt e @ [msg]"
proof -
  define e1 where "e1 = createLeafConnPool g ord e"
  note fr = createLeafConnPool_frame [of g ord e, folded e1_def]
  have "sendLeafAdded g msg e1 = (e1, Some no_pool)"
    using assms(3,5) by (simp add: sendLeafAdded_def call_mgr_def fr)
  moreover have "gm_load (srLeafConnPool e1) (nAddress (node (srTopology e1) l)) \<noteq> None"
    using createLeafConnPool_pools [OF assms(1,2,4,6)] by (simp add: fr) (simp add: e1_def)
  moreover have "NewLeafAddedMessage (laLeaf msg) (laDst msg) = msg" by (simp add: NewLeafAddedMessage_def)
  ultimately show ?thesis using assms(5)
    by (simp add: spine_processEvent_def Let_def e1_def [symmetric] fr)
qed

theorem new_manager_not_told_witness:
  "\<exists>e'. spine_processEvent good_net stored_order (SEvNewLeaf (NewLeafAddedMessage (fail_leaf_info 0) (Some 2)))
      (NewSpineRpcEndpoint sample) = Ret e' \<and> lkSent (srLink e') = []"
proof -
  have t: "srTopology (NewSpineRpcEndpoint sample) = sample" "srMgConnPool (NewSpineRpcEndpoint sample) = gm_empty"
    "srLeafConnPool (NewSpineRpcEndpoint sample) = gm_empty" "lkSent (srLink (NewSpineRpcEndpoint sample)) = []"
    by (simp_all add: NewSpineRpcEndpoint_def)
  have hyps: "wf_topo (srTopology (NewSpineRpcEndpoint sample))"
    "laDst (NewLeafAddedMessage (fail_leaf_info 0) (Some 2)) = Some 2"
    "gm_load (tLeaves (srTopology (NewSpineRpcEndpoint sample))) 0 = Some 2"
    "gm_load (srMgConnPool (NewSpineRpcEndpoint sample)) (nMgmtAddress (node (srTopology (NewSpineRpcEndpoint sample)) 2)) = None"
    "\<And>a p. gm_load (srLeafConnPool (NewSpineRpcEndpoint sample)) a = Some p \<Longrightarrow> p = grNew good_net a"
    by (simp_all add: t sample_wf sample_nodes NewLeafAddedMessage_def)
  from new_manager_not_told [OF hyps(1) is_order_stored hyps(2-5)] show ?thesis using t(4) by auto
qed

end
