(* ===== verification/Bfrt_Client.thy ===== *)
theory Bfrt_Client
  imports Nodes
begin

text \<open>
  What the control planes (ctrl\_mgr/cp.go, ctrl\_central/cp.go) share: the client of the switch, the
  helper \<open>updateOrInsert\<close>, the loop over the worker IDs of a server, and the address of a server as a number.

  The BfRt client is not part of the repository. It is a parameter: a record of the operations that the
  code calls, on a client state of any type. What the code relies on, that the operations do on the switch
  what their names say, is the predicate \<open>bfrt_ok\<close>; it is stated through a view of the tables and registers.
  It assumes tables that are large enough. A write to a register is assumed to succeed at 16-bit indices only,
  which is what the IDs and the positions of nodes are; beyond, it may fail, but does not do anything else when
  it does not fail.
\<close>

section \<open>The client\<close>

datatype key_field = ExactKey string u64

datatype data_field =
    BytesData string u64
  | StrData string string
  | BoolData string bool

datatype table_entry =
    TableEntry string "key_field list" string "data_field list"
  | RegisterEntry string u64 u64

record 'c bfrt =
  bfInsert :: "table_entry \<Rightarrow> 'c \<Rightarrow> 'c \<times> go_error option"
  bfModify :: "table_entry \<Rightarrow> 'c \<Rightarrow> 'c \<times> go_error option"
  bfRead :: "string \<Rightarrow> key_field list \<Rightarrow> 'c \<Rightarrow> table_entry option"
  bfReadReg :: "string \<Rightarrow> u64 \<Rightarrow> 'c \<Rightarrow> u64 \<times> go_error option"

definition updateOrInsert ::
  "'c bfrt \<Rightarrow> string \<Rightarrow> key_field list \<Rightarrow> string \<Rightarrow> data_field list \<Rightarrow> 'c \<Rightarrow> 'c \<times> go_error option" where
  "updateOrInsert cl table ks action ds c =
     (let entry = TableEntry table ks action ds;
          bfrtFn = (if bfRead cl table ks c \<noteq> None then bfModify cl else bfInsert cl)
      in case bfrtFn entry c of (c', err) \<Rightarrow> (c', map_option (ErrTable table) err))"

text \<open>The callers answer every error with \<open>logrus.Fatal\<close>.\<close>

definition must :: "'c \<times> go_error option \<Rightarrow> 'c go" where
  "must r = (case r of (c, None) \<Rightarrow> Ret c | (_, Some _) \<Rightarrow> Fatal)"

definition put_table ::
  "'c bfrt \<Rightarrow> string \<Rightarrow> key_field list \<Rightarrow> string \<Rightarrow> data_field list \<Rightarrow> 'c \<Rightarrow> 'c go" where
  "put_table cl table ks action ds c = must (updateOrInsert cl table ks action ds c)"

definition add_table ::
  "'c bfrt \<Rightarrow> string \<Rightarrow> key_field list \<Rightarrow> string \<Rightarrow> data_field list \<Rightarrow> 'c \<Rightarrow> 'c go" where
  "add_table cl table ks action ds c = must (bfInsert cl (TableEntry table ks action ds) c)"

definition put_reg :: "'c bfrt \<Rightarrow> string \<Rightarrow> u64 \<Rightarrow> u64 \<Rightarrow> 'c \<Rightarrow> 'c go" where
  "put_reg cl reg i v c = must (bfInsert cl (RegisterEntry reg i v) c)"

definition get_reg :: "'c bfrt \<Rightarrow> string \<Rightarrow> u64 \<Rightarrow> 'c \<Rightarrow> u64" where
  "get_reg cl reg i c = fst (bfReadReg cl reg i c)"

section \<open>What the code relies on\<close>

record 'c switch_view =
  svTable :: "'c \<Rightarrow> string \<Rightarrow> key_field list \<Rightarrow> (string \<times> data_field list) option"
  svReg :: "'c \<Rightarrow> string \<Rightarrow> u64 \<Rightarrow> u64"

definition table_upd ::
  "(string \<Rightarrow> key_field list \<Rightarrow> (string \<times> data_field list) option) \<Rightarrow> string \<Rightarrow> key_field list \<Rightarrow> string \<times> data_field list \<Rightarrow>
    string \<Rightarrow> key_field list \<Rightarrow> (string \<times> data_field list) option" where
  "table_upd T table ks x = T(table := (T table)(ks := Some x))"

definition reg_upd :: "(string \<Rightarrow> u64 \<Rightarrow> u64) \<Rightarrow> string \<Rightarrow> u64 \<Rightarrow> u64 \<Rightarrow> string \<Rightarrow> u64 \<Rightarrow> u64" where
  "reg_upd R reg i v = R(reg := (R reg)(i := v))"

definition bfrt_ok :: "'c bfrt \<Rightarrow> 'c switch_view \<Rightarrow> bool" where
  "bfrt_ok cl vw \<longleftrightarrow>
     (\<forall>table ks c. bfRead cl table ks c \<noteq> None \<longleftrightarrow> svTable vw c table ks \<noteq> None) \<and>
     (\<forall>table ks a ds c. svTable vw c table ks = None \<longrightarrow>
        (\<exists>c'. bfInsert cl (TableEntry table ks a ds) c = (c', None) \<and>
              svTable vw c' = table_upd (svTable vw c) table ks (a, ds) \<and> svReg vw c' = svReg vw c)) \<and>
     (\<forall>table ks a ds c. svTable vw c table ks \<noteq> None \<longrightarrow>
        (\<exists>c'. bfModify cl (TableEntry table ks a ds) c = (c', None) \<and>
              svTable vw c' = table_upd (svTable vw c) table ks (a, ds) \<and> svReg vw c' = svReg vw c)) \<and>
     (\<forall>reg i v c. (i < 2 ^ 16 \<longrightarrow> snd (bfInsert cl (RegisterEntry reg i v) c) = None) \<and>
        (\<forall>c'. bfInsert cl (RegisterEntry reg i v) c = (c', None) \<longrightarrow>
           svTable vw c' = svTable vw c \<and> svReg vw c' = reg_upd (svReg vw c) reg i v)) \<and>
     (\<forall>reg i c. bfReadReg cl reg i c = (svReg vw c reg i, None))"

lemma bfrt_okD:
  assumes "bfrt_ok cl vw"
  shows "bfRead cl table ks c = None \<longleftrightarrow> svTable vw c table ks = None"
    and "svTable vw c table ks = None \<Longrightarrow> \<exists>c'. bfInsert cl (TableEntry table ks a ds) c = (c', None) \<and>
      svTable vw c' = table_upd (svTable vw c) table ks (a, ds) \<and> svReg vw c' = svReg vw c"
    and "svTable vw c table ks \<noteq> None \<Longrightarrow> \<exists>c'. bfModify cl (TableEntry table ks a ds) c = (c', None) \<and>
      svTable vw c' = table_upd (svTable vw c) table ks (a, ds) \<and> svReg vw c' = svReg vw c"
    and "i < 2 ^ 16 \<Longrightarrow> snd (bfInsert cl (RegisterEntry reg i v) c) = None"
    and "bfInsert cl (RegisterEntry reg i v) c = (c', None) \<Longrightarrow>
      svTable vw c' = svTable vw c \<and> svReg vw c' = reg_upd (svReg vw c) reg i v"
proof -
  note ok = assms [unfolded bfrt_ok_def]
  show "bfRead cl table ks c = None \<longleftrightarrow> svTable vw c table ks = None"
    using ok [THEN conjunct1, rule_format, of table ks c] by blast
  show "svTable vw c table ks = None \<Longrightarrow> \<exists>c'. bfInsert cl (TableEntry table ks a ds) c = (c', None) \<and>
      svTable vw c' = table_upd (svTable vw c) table ks (a, ds) \<and> svReg vw c' = svReg vw c"
    by (rule ok [THEN conjunct2, THEN conjunct1, rule_format])
  show "svTable vw c table ks \<noteq> None \<Longrightarrow> \<exists>c'. bfModify cl (TableEntry table ks a ds) c = (c', None) \<and>
      svTable vw c' = table_upd (svTable vw c) table ks (a, ds) \<and> svReg vw c' = svReg vw c"
    by (rule ok [THEN conjunct2, THEN conjunct2, THEN conjunct1, rule_format])
  note reg = ok [THEN conjunct2, THEN conjunct2, THEN conjunct2, THEN conjunct1, THEN spec [of _ reg], THEN spec [of _ i],
      THEN spec [of _ v], THEN spec [of _ c]]
  show "i < 2 ^ 16 \<Longrightarrow> snd (bfInsert cl (RegisterEntry reg i v) c) = None"
    by (rule reg [THEN conjunct1, THEN mp])
  show "bfInsert cl (RegisterEntry reg i v) c = (c', None) \<Longrightarrow>
      svTable vw c' = svTable vw c \<and> svReg vw c' = reg_upd (svReg vw c) reg i v"
    by (rule reg [THEN conjunct2, THEN spec, THEN mp])
qed

lemma put_table_ok:
  assumes "bfrt_ok cl vw"
  obtains c' where "put_table cl table ks a ds c = Ret c'"
    "svTable vw c' = table_upd (svTable vw c) table ks (a, ds)" "svReg vw c' = svReg vw c"
proof (cases "svTable vw c table ks")
  case None
  from bfrt_okD(2) [OF assms None, of a ds] obtain c' where "bfInsert cl (TableEntry table ks a ds) c = (c', None)"
    "svTable vw c' = table_upd (svTable vw c) table ks (a, ds)" "svReg vw c' = svReg vw c" by (elim exE conjE)
  moreover have "bfRead cl table ks c = None" using bfrt_okD(1) [OF assms] None by metis
  ultimately show ?thesis using that by (simp add: put_table_def must_def updateOrInsert_def Let_def)
next
  case (Some x)
  then have "svTable vw c table ks \<noteq> None" by simp
  from bfrt_okD(3) [OF assms this, of a ds] obtain c' where "bfModify cl (TableEntry table ks a ds) c = (c', None)"
    "svTable vw c' = table_upd (svTable vw c) table ks (a, ds)" "svReg vw c' = svReg vw c" by (elim exE conjE)
  moreover have "bfRead cl table ks c \<noteq> None" using bfrt_okD(1) [OF assms] Some by (metis option.distinct(1))
  ultimately show ?thesis using that by (simp add: put_table_def must_def updateOrInsert_def Let_def)
qed

lemma add_table_ok:
  assumes "bfrt_ok cl vw" and "svTable vw c table ks = None"
  obtains c' where "add_table cl table ks a ds c = Ret c'"
    "svTable vw c' = table_upd (svTable vw c) table ks (a, ds)" "svReg vw c' = svReg vw c"
proof -
  from bfrt_okD(2) [OF assms, of a ds] obtain c' where "bfInsert cl (TableEntry table ks a ds) c = (c', None)"
    "svTable vw c' = table_upd (svTable vw c) table ks (a, ds)" "svReg vw c' = svReg vw c" by (elim exE conjE)
  then show ?thesis using that by (simp add: add_table_def must_def)
qed

text \<open>The index of a register cell is small when it is an ID or the position of a node.\<close>

lemma small_position:
  assumes "i < 2 ^ 16"
  shows "(of_nat i :: u64) < 2 ^ 16"
proof -
  have "take_bit 64 i < 2 ^ 16" using take_bit_nat_less_eq_self [of 64 i] assms by (rule le_less_trans)
  then show ?thesis by (simp add: word_less_nat_alt unsigned_of_nat)
qed

lemma small_index: "(ucast (i :: u16) :: u64) < 2 ^ 16" "(0 :: u64) < 2 ^ 16"
proof -
  have "(of_nat (unat i) :: u64) < 2 ^ 16" by (rule small_position) (use unsigned_less [of i] in simp)
  then show "(ucast i :: u64) < 2 ^ 16" by simp
qed simp

lemma put_reg_effect:
  assumes "bfrt_ok cl vw" and "put_reg cl reg i v c = Ret c'"
  shows "svTable vw c' = svTable vw c" "svReg vw c' = reg_upd (svReg vw c) reg i v"
proof -
  have "bfInsert cl (RegisterEntry reg i v) c = (c', None)"
    using assms(2) by (auto simp: put_reg_def must_def split: prod.splits option.splits)
  from bfrt_okD(5) [OF assms(1) this] show "svTable vw c' = svTable vw c" "svReg vw c' = reg_upd (svReg vw c) reg i v"
    by blast+
qed

lemma put_reg_ok:
  assumes "bfrt_ok cl vw" and "i < 2 ^ 16"
  obtains c' where "put_reg cl reg i v c = Ret c'" "svTable vw c' = svTable vw c"
    "svReg vw c' = reg_upd (svReg vw c) reg i v"
proof -
  obtain c' where "bfInsert cl (RegisterEntry reg i v) c = (c', None)"
    using bfrt_okD(4) [OF assms, of reg v c] by (cases "bfInsert cl (RegisterEntry reg i v) c") auto
  then have "put_reg cl reg i v c = Ret c'" by (simp add: put_reg_def must_def)
  from that [OF this put_reg_effect [OF assms(1) this]] show ?thesis .
qed

lemma get_reg_ok: "bfrt_ok cl vw \<Longrightarrow> get_reg cl reg i c = svReg vw c reg i"
  by (simp add: bfrt_ok_def get_reg_def)

section \<open>The address of a server\<close>

text \<open>Go's \<open>net.ParseMAC\<close>: groups of two hexadecimal digits with colons or dashes, or of four with dots.\<close>

definition hex_val :: "char \<Rightarrow> nat option" where
  "hex_val ch =
     (let n = (of_char ch :: nat) in
      if 48 \<le> n \<and> n \<le> 57 then Some (n - 48)
      else if 97 \<le> n \<and> n \<le> 102 then Some (n - 87)
      else if 65 \<le> n \<and> n \<le> 70 then Some (n - 55) else None)"

definition xtoi2 :: "char \<Rightarrow> string \<Rightarrow> u8 option" where
  "xtoi2 e s =
     (if length s > 2 \<and> s ! 2 \<noteq> e then None
      else case s of
        a # b # _ \<Rightarrow>
          (case (hex_val a, hex_val b) of (Some x, Some y) \<Rightarrow> Some (of_nat (16 * x + y)) | _ \<Rightarrow> None)
      | _ \<Rightarrow> None)"

definition ParseMAC :: "string \<Rightarrow> u8 list option" where
  "ParseMAC s =
     (if length s < 14 then None
      else if s ! 2 = CHR '':'' \<or> s ! 2 = CHR ''-'' then
        (let n = (length s + 1) div 3 in
         if (length s + 1) mod 3 \<noteq> 0 \<or> n \<noteq> 6 \<and> n \<noteq> 8 \<and> n \<noteq> 20 then None
         else those (map (\<lambda>i. xtoi2 (s ! 2) (drop (3 * i) s)) [0..<n]))
      else if s ! 4 = CHR ''.'' then
        (let n = 2 * (length s + 1) div 5 in
         if (length s + 1) mod 5 \<noteq> 0 \<or> n \<noteq> 6 \<and> n \<noteq> 8 \<and> n \<noteq> 20 then None
         else those (concat (map (\<lambda>i. [xtoi2 (char_of (0 :: nat)) (take 2 (drop (5 * i) s)),
                                       xtoi2 (s ! 4) (drop (5 * i + 2) s)]) [0..<n div 2])))
      else None)"

definition BigEndian_Uint64 :: "u8 list \<Rightarrow> u64" where
  "BigEndian_Uint64 bs = foldl (\<lambda>a b. 256 * a + ucast b) 0 bs"

text \<open>
  The address is extended to eight bytes, which panics for one of twenty, before the error of parsing it
  ends the process.
\<close>

definition mac_data :: "string \<Rightarrow> u64 go" where
  "mac_data address =
     (case ParseMAC address of
        None \<Rightarrow> Fatal
      | Some hw \<Rightarrow> if length hw > 8 then Panic
                   else Ret (BigEndian_Uint64 (replicate (8 - length hw) 0 @ hw)))"

section \<open>The loop over worker IDs\<close>

text \<open>
  \<open>for wid := first; wid <= last; wid++\<close> on 16-bit integers; a body that fails ends it, and it may never
  end, which is the value \<open>None\<close>.
\<close>

partial_function (option) for_wid :: "(u16 \<Rightarrow> 's \<Rightarrow> 's go) \<Rightarrow> u16 \<Rightarrow> u16 \<Rightarrow> 's \<Rightarrow> 's go option" where
  "for_wid body wid lst s =
     (if wid \<le> lst then
        (case body wid s of
           Ret s' \<Rightarrow> for_wid body (wid + 1) lst s'
         | Panic \<Rightarrow> Some Panic
         | Fatal \<Rightarrow> Some Fatal)
      else Some (Ret s))"

text \<open>Loops over lists whose body may not return.\<close>

fun opt_fold :: "('x \<Rightarrow> 's \<Rightarrow> 's go option) \<Rightarrow> 'x list \<Rightarrow> 's \<Rightarrow> 's go option" where
  "opt_fold f [] s = Some (Ret s)"
| "opt_fold f (x # xs) s =
     (case f x s of
        None \<Rightarrow> None
      | Some (Ret s') \<Rightarrow> opt_fold f xs s'
      | Some Panic \<Rightarrow> Some Panic
      | Some Fatal \<Rightarrow> Some Fatal)"

definition opt_bind :: "'a go option \<Rightarrow> ('a \<Rightarrow> 'b go option) \<Rightarrow> 'b go option" where
  "opt_bind m f =
     (case m of None \<Rightarrow> None | Some (Ret x) \<Rightarrow> f x | Some Panic \<Rightarrow> Some Panic | Some Fatal \<Rightarrow> Some Fatal)"

lemma opt_bind_simps [simp]:
  "opt_bind None f = None" "opt_bind (Some (Ret x)) f = f x"
  "opt_bind (Some Panic) f = Some Panic" "opt_bind (Some Fatal) f = Some Fatal"
  by (simp_all add: opt_bind_def)

text \<open>The IDs of a range, in order.\<close>

definition wids :: "u16 \<Rightarrow> u16 \<Rightarrow> u16 list" where
  "wids a b = map of_nat [unat a ..< Suc (unat b)]"

lemma wids_empty: "b < a \<Longrightarrow> wids a b = []"
  by (simp add: wids_def word_less_nat_alt)

lemma wids_step:
  assumes "a \<le> b" and "b \<noteq> - 1"
  shows "wids a b = a # wids (a + 1) b"
proof -
  have ab: "unat a \<le> unat b" using assms(1) by (simp add: word_le_nat_alt)
  have "unat b < 2 ^ 16 - 1"
  proof -
    have "unat b \<noteq> 2 ^ 16 - 1"
    proof
      assume "unat b = 2 ^ 16 - 1"
      then have "of_nat (unat b) = (- 1 :: u16)" by simp
      with assms(2) show False by simp
    qed
    moreover have "unat b < 2 ^ 16" using unsigned_less [of b] by simp
    ultimately show ?thesis by simp
  qed
  with ab have "unat (a + 1) = Suc (unat a)" by (simp add: unat_plus_if_size word_size)
  then show ?thesis using ab by (simp add: wids_def upt_conv_Cons del: upt_Suc)
qed

lemma set_wids: "w \<in> set (wids a b) \<longleftrightarrow> a \<le> w \<and> w \<le> b"
proof -
  have "\<exists>n. unat a \<le> n \<and> n \<le> unat b \<and> w = of_nat n" if "unat a \<le> unat w" "unat w \<le> unat b"
    using that by (intro exI [of _ "unat w"]) simp
  moreover have "unat (of_nat n :: u16) = n" if "n \<le> unat b" for n
  proof -
    have "unat b < 2 ^ 16" using unsigned_less [of b] by simp
    with that show ?thesis by (simp add: unat_of_nat)
  qed
  moreover have "w \<in> set (wids a b) \<longleftrightarrow> (\<exists>n. unat a \<le> n \<and> n \<le> unat b \<and> w = of_nat n)"
    by (auto simp: wids_def image_iff less_Suc_eq_le simp del: upt_Suc)
  ultimately show ?thesis by (auto simp: word_le_nat_alt)
qed

text \<open>The loop ends, as a fold over the range, unless the last ID is the largest there is.\<close>

lemma for_wid_fold:
  assumes "lst \<noteq> - 1"
  shows "for_wid body wid lst s = Some (go_fold body (wids wid lst) s)"
proof (induction "Suc (unat lst) - unat wid" arbitrary: wid s)
  case 0
  then have "lst < wid" "\<not> wid \<le> lst" by (simp_all add: word_less_nat_alt word_le_nat_alt)
  then show ?case by (subst for_wid.simps) (simp only: if_False wids_empty go_fold.simps)
next
  case (Suc n)
  then have le: "wid \<le> lst" by (simp add: word_le_nat_alt)
  note step = wids_step [OF le assms]
  have "length (wids wid lst) = Suc (length (wids (wid + 1) lst))" by (simp add: step)
  then have "Suc (unat lst) - unat (wid + 1) = n" using Suc(2) by (simp add: wids_def del: upt_Suc)
  with Suc(1) [of "wid + 1"] le show ?case
    by (subst for_wid.simps) (cases "body wid s"; simp add: step)
qed

lemma for_wid_endless:
  assumes body: "\<And>w t. P t \<Longrightarrow> \<exists>t'. body w t = Ret t' \<and> P t'" and "P s"
  shows "for_wid body wid (- 1) s = None"
proof (rule ccontr)
  assume "for_wid body wid (- 1) s \<noteq> None"
  then obtain y where "for_wid body wid (- 1) s = Some y" by blast
  then have "body = body \<longrightarrow> (- 1 :: u16) = - 1 \<longrightarrow> \<not> P s"
  proof (rule for_wid.raw_induct [where P = "\<lambda>b w l t _. b = body \<longrightarrow> l = - 1 \<longrightarrow> \<not> P t", rotated])
    fix f b w l t z
    assume IH: "\<And>b w l t z. f b w l t = Some z \<Longrightarrow> b = body \<longrightarrow> l = - 1 \<longrightarrow> \<not> P t"
      and run: "(if w \<le> l then (case b w t of Ret s' \<Rightarrow> f b (w + 1) l s' | Panic \<Rightarrow> Some Panic | Fatal \<Rightarrow> Some Fatal)
        else Some (Ret t)) = Some z"
    show "b = body \<longrightarrow> l = - 1 \<longrightarrow> \<not> P t"
    proof (intro impI notI)
      assume eq: "b = body" "l = - 1" and "P t"
      from body [OF \<open>P t\<close>, of w] obtain t' where t': "body w t = Ret t'" "P t'" by blast
      have "w \<le> - 1" by (rule word_n1_ge)
      with run eq t' have "f b (w + 1) l t' = Some z" by simp
      with IH eq t'(2) show False by blast
    qed
  qed
  with assms(2) show False by blast
qed

end
