(* ===== verification/Leaf_CP.thy ===== *)
theory Leaf_CP
  imports Bfrt_Client
begin

text \<open>
  The control planes of a leaf and of the manager (ctrl\_mgr/cp.go): what they write into the tables and
  registers of the switch at the start and when the servers of a leaf change. Log output is left out. A
  step that the code checks with \<open>logrus.Fatal\<close> ends in \<open>Fatal\<close>.
\<close>

section \<open>Constants\<close>

definition MAX_VCLUSTER_WORKERS :: u16 where "MAX_VCLUSTER_WORKERS = 16"

definition INVALID_VAL_16bit :: u64 where "INVALID_VAL_16bit = 0x7FFF"

text \<open>A Go map lookup of an absent key yields zero.\<close>

definition WorkerQlenUnitMap :: "u16 \<Rightarrow> u16" where
  "WorkerQlenUnitMap n = (if n = 4 then 8 else if n = 8 then 4 else if n = 16 then 2 else if n = 32 then 1 else 0)"

record SpineConfig =
  scID :: u16
  scPipeID :: u32

section \<open>Initialisation, all versions\<close>

definition leaf_worker_count :: "Topology \<Rightarrow> nref \<Rightarrow> u16" where
  "leaf_worker_count t leaf =
     foldl (\<lambda>n server. n + (nLastWorkerID (node t server) - nFirstWorkerID (node t server) + 1)) 0
       (nChildren (node t leaf))"

text \<open>The index of a worker; the multiplication and the addition are on 16 bits.\<close>

definition worker_index :: "Topology \<Rightarrow> nref \<Rightarrow> u16 \<Rightarrow> u16" where
  "worker_index t leaf wid = nID (node t leaf) * MAX_VCLUSTER_WORKERS + wid"

definition fwd_table :: string where "fwd_table = ''pipe_leaf.LeafIngress.forward_horus_switch_dst''"
definition fwd_action :: string where "fwd_action = ''LeafIngress.act_forward_horus''"

text \<open>The keys of the forwarding entry of a worker.\<close>

definition worker_keys :: "Topology \<Rightarrow> nref \<Rightarrow> u16 \<Rightarrow> key_field list" where
  "worker_keys t leaf wid =
     [ExactKey ''hdr.horus.dst_id'' (ucast (worker_index t leaf wid)),
      ExactKey ''hdr.horus.pool_id'' (ucast (nID (node t leaf)))]"

text \<open>The entry for one worker of a server.\<close>

definition map_worker :: "'c bfrt \<Rightarrow> Topology \<Rightarrow> nref \<Rightarrow> nref \<Rightarrow> u16 \<Rightarrow> 'c \<Rightarrow> 'c go" where
  "map_worker cl t leaf server wid c =
     go_bind (mac_data (nAddress (node t server))) (\<lambda>mac.
     deref (nPort (node t server)) (\<lambda>p.
       put_table cl fwd_table (worker_keys t leaf wid) fwd_action
         [BytesData ''port'' (GetDevPort (port (tHw t) p)), BytesData ''dst_mac'' mac] c))"

definition init_worker :: "'c bfrt \<Rightarrow> Topology \<Rightarrow> nref \<Rightarrow> nref \<Rightarrow> u16 \<Rightarrow> 'c \<Rightarrow> 'c go" where
  "init_worker cl t leaf server wid c =
     (let index = worker_index t leaf wid in
      go_bind (put_reg cl ''pipe_leaf.LeafIngress.idle_list'' (ucast index) (ucast index) c)
        (map_worker cl t leaf server wid))"

definition init_server :: "'c bfrt \<Rightarrow> Topology \<Rightarrow> nref \<Rightarrow> nref \<Rightarrow> 'c \<Rightarrow> 'c go option" where
  "init_server cl t leaf server =
     for_wid (init_worker cl t leaf server) (nFirstWorkerID (node t server)) (nLastWorkerID (node t server))"

text \<open>The mirror session and the forwarding entry of an upstream ID.\<close>

definition init_upstream :: "'c bfrt \<Rightarrow> Topology \<Rightarrow> nref \<Rightarrow> u16 \<Rightarrow> 'c \<Rightarrow> 'c go" where
  "init_upstream cl t leaf uid c =
     deref (nUsPort (node t leaf)) (\<lambda>p.
       let usPort = GetDevPort (port (tHw t) p) in
       go_bind (put_table cl ''$mirror.cfg''
           [ExactKey ''$sid'' (ucast uid + ucast (nIndex (node t leaf)))] ''$normal''
           [StrData ''$direction'' ''INGRESS'', BytesData ''$ucast_egress_port'' usPort,
            BoolData ''$ucast_egress_port_valid'' True, BoolData ''$session_enable'' True] c)
         (put_table cl fwd_table
           [ExactKey ''hdr.horus.dst_id'' (ucast uid),
            ExactKey ''hdr.horus.pool_id'' (ucast (nIndex (node t leaf)))] fwd_action
           [BytesData ''port'' usPort, BytesData ''dst_mac'' 100]))"

definition put_num_valid :: "'c bfrt \<Rightarrow> Topology \<Rightarrow> nref \<Rightarrow> u16 \<Rightarrow> u64 \<Rightarrow> 'c \<Rightarrow> 'c go" where
  "put_num_valid cl t leaf workers spines =
     put_table cl ''pipe_leaf.LeafIngress.get_cluster_num_valid''
       [ExactKey ''hdr.horus.pool_id'' (ucast (nID (node t leaf)))]
       ''LeafIngress.act_get_cluster_num_valid''
       [BytesData ''num_ds_elements'' (ucast workers), BytesData ''num_us_elements'' spines]"

definition put_qlen_unit :: "'c bfrt \<Rightarrow> Topology \<Rightarrow> nref \<Rightarrow> u16 \<Rightarrow> 'c \<Rightarrow> 'c go" where
  "put_qlen_unit cl t leaf workers =
     put_table cl ''pipe_leaf.LeafIngress.set_queue_len_unit''
       [ExactKey ''hdr.horus.pool_id'' (ucast (nID (node t leaf)))]
       ''LeafIngress.act_set_queue_len_unit''
       [BytesData ''cluster_unit'' (ucast (WorkerQlenUnitMap workers))]"

text \<open>Every pair of a random bit and the leaf leads to the first configured spine.\<close>

definition put_spine_dst :: "'c bfrt \<Rightarrow> Topology \<Rightarrow> nref \<Rightarrow> SpineConfig list \<Rightarrow> nat \<Rightarrow> 'c \<Rightarrow> 'c go" where
  "put_spine_dst cl t leaf spines spine_idx c =
     (case spines of
        [] \<Rightarrow> Panic
      | sp # _ \<Rightarrow>
          put_table cl ''pipe_leaf.LeafIngress.get_spine_dst_id''
            [ExactKey ''horus_md.random_id_1'' (of_nat spine_idx),
             ExactKey ''hdr.horus.pool_id'' (ucast (nID (node t leaf)))]
            ''LeafIngress.act_get_spine_dst_id''
            [BytesData ''spine_dst_id'' (ucast (scID sp))] c)"

definition LeafCPInitAllVer ::
  "'c bfrt \<Rightarrow> order \<Rightarrow> order \<Rightarrow> nref \<Rightarrow> SpineConfig list \<Rightarrow> Topology \<Rightarrow> 'c \<Rightarrow> 'c go option" where
  "LeafCPInitAllVer cl o1 o2 leaf spines t c =
     (case nParent (node t leaf) of
        None \<Rightarrow> Some Fatal
      | Some spine \<Rightarrow>
          (let upstreamIDs = map (\<lambda>(_, sp). nID (node t sp)) (go_range o1 (tSpines t)) @
                             map (\<lambda>(_, cn). nID (node t cn)) (go_range o2 (tClients t));
               worker_count = leaf_worker_count t leaf;
               num_spines = max (length spines) 2;
               leafID = ucast (nID (node t leaf)) :: u64;
               spineID = ucast (nID (node t spine)) :: u64
           in opt_bind (opt_fold (init_server cl t leaf) (nChildren (node t leaf)) c) (\<lambda>c.
              Some (go_bind (go_fold (init_upstream cl t leaf) upstreamIDs c) (\<lambda>c.
              go_bind (put_reg cl ''pipe_leaf.LeafIngress.idle_count'' leafID (ucast worker_count) c) (\<lambda>c.
              go_bind (put_num_valid cl t leaf worker_count (of_nat num_spines) c) (\<lambda>c.
              go_bind (go_fold (put_spine_dst cl t leaf spines) [0..<num_spines] c) (\<lambda>c.
              go_bind (put_qlen_unit cl t leaf worker_count c) (\<lambda>c.
              go_bind (put_reg cl ''pipe_leaf.LeafIngress.linked_iq_sched'' leafID spineID c) (\<lambda>c.
                put_reg cl ''pipe_leaf.LeafIngress.linked_sq_sched'' leafID spineID c))))))))))"

section \<open>Server changes, all versions\<close>

text \<open>An updated server; a nil pointer panics.\<close>

definition remap_server :: "'c bfrt \<Rightarrow> Topology \<Rightarrow> nref \<Rightarrow> nref option \<Rightarrow> 'c \<Rightarrow> 'c go option" where
  "remap_server cl t leaf server c =
     (case server of
        None \<Rightarrow> Some Panic
      | Some r \<Rightarrow> for_wid (map_worker cl t leaf r) (nFirstWorkerID (node t r)) (nLastWorkerID (node t r)) c)"

text \<open>A worker joins the idle list: the register at its index gets the running idle count.\<close>

definition idle_worker :: "'c bfrt \<Rightarrow> Topology \<Rightarrow> nref \<Rightarrow> u16 \<Rightarrow> 'c \<times> u64 \<Rightarrow> ('c \<times> u64) go" where
  "idle_worker cl t leaf wid st =
     (case st of (c, idleCount) \<Rightarrow>
       go_bind (put_reg cl ''pipe_leaf.LeafIngress.idle_list'' (ucast (worker_index t leaf wid)) idleCount c) (\<lambda>c.
         Ret (c, idleCount + 1)))"

definition idle_server :: "'c bfrt \<Rightarrow> Topology \<Rightarrow> nref \<Rightarrow> nref option \<Rightarrow> 'c \<times> u64 \<Rightarrow> ('c \<times> u64) go option" where
  "idle_server cl t leaf server st =
     (case server of
        None \<Rightarrow> Some Panic
      | Some r \<Rightarrow> for_wid (idle_worker cl t leaf) (nFirstWorkerID (node t r)) (nLastWorkerID (node t r)) st)"

text \<open>The entry with the new idle count is built but never inserted.\<close>

definition add_idle :: "'c bfrt \<Rightarrow> Topology \<Rightarrow> nref \<Rightarrow> nref option list \<Rightarrow> 'c \<Rightarrow> 'c go option" where
  "add_idle cl t leaf updated c =
     (case bfReadReg cl ''pipe_leaf.LeafIngress.idle_count'' (ucast (nID (node t leaf))) c of
        (_, Some _) \<Rightarrow> Some Fatal
      | (idleCount, None) \<Rightarrow>
          opt_bind (opt_fold (idle_server cl t leaf) updated (c, idleCount)) (\<lambda>(c, _). Some (Ret c)))"

definition OnServerChangeAllVer ::
  "'c bfrt \<Rightarrow> nref \<Rightarrow> nref option list \<Rightarrow> bool \<Rightarrow> Topology \<Rightarrow> 'c \<Rightarrow> 'c go option" where
  "OnServerChangeAllVer cl leaf updated added t c =
     (let worker_count = leaf_worker_count t leaf in
      opt_bind (Some (go_bind (put_num_valid cl t leaf worker_count 2 c) (put_qlen_unit cl t leaf worker_count))) (\<lambda>c.
      opt_bind (opt_fold (remap_server cl t leaf) updated c) (\<lambda>c.
        if added then add_idle cl t leaf updated c else Some (Ret c))))"

section \<open>The leaf control planes\<close>

text \<open>\<open>cp.leaf\<close> may be nil; the topology is the one the pointer leads to at the time of the call.\<close>

record BfrtLeafCP =
  lcLeaf :: "nref option"
  lcSpines :: "SpineConfig list"

definition NewBfrtLeafCP_V1 :: "nref option \<Rightarrow> SpineConfig list \<Rightarrow> BfrtLeafCP" where
  "NewBfrtLeafCP_V1 leaf spines = \<lparr>lcLeaf = leaf, lcSpines = spines\<rparr>"

definition NewBfrtLeafCP_V2 :: "nref option \<Rightarrow> SpineConfig list \<Rightarrow> BfrtLeafCP" where
  "NewBfrtLeafCP_V2 leaf spines = \<lparr>lcLeaf = leaf, lcSpines = spines\<rparr>"

definition LeafCP_V1_Init :: "'c bfrt \<Rightarrow> order \<Rightarrow> order \<Rightarrow> Topology \<Rightarrow> BfrtLeafCP \<Rightarrow> 'c \<Rightarrow> 'c go option" where
  "LeafCP_V1_Init cl o1 o2 t cp c =
     (case lcLeaf cp of
        None \<Rightarrow> Some Fatal
      | Some leaf \<Rightarrow> LeafCPInitAllVer cl o1 o2 leaf (lcSpines cp) t c)"

text \<open>\<open>leaf.Children[i]\<close>, which panics on an empty list.\<close>

definition first_child :: "Topology \<Rightarrow> nref \<Rightarrow> (nref \<Rightarrow> 'a go) \<Rightarrow> 'a go" where
  "first_child t n f = (case nChildren (node t n) of [] \<Rightarrow> Panic | ch # _ \<Rightarrow> f ch)"

definition last_child :: "Topology \<Rightarrow> nref \<Rightarrow> (nref \<Rightarrow> 'a go) \<Rightarrow> 'a go" where
  "last_child t n f = (case nChildren (node t n) of [] \<Rightarrow> Panic | ch # chs \<Rightarrow> f (last (ch # chs)))"

definition LeafCP_V2_Init :: "'c bfrt \<Rightarrow> order \<Rightarrow> order \<Rightarrow> Topology \<Rightarrow> BfrtLeafCP \<Rightarrow> 'c \<Rightarrow> 'c go option" where
  "LeafCP_V2_Init cl o1 o2 t cp c =
     (case lcLeaf cp of
        None \<Rightarrow> Some Fatal
      | Some leaf \<Rightarrow>
          opt_bind (LeafCPInitAllVer cl o1 o2 leaf (lcSpines cp) t c) (\<lambda>c.
            let i = ucast (nIndex (node t leaf)) in
            Some (first_child t leaf (\<lambda>s0.
              go_bind (put_reg cl ''pipe_leaf.LeafIngress.worker_id_map_1'' i (ucast (nFirstWorkerID (node t s0))) c) (\<lambda>c.
              go_bind (put_reg cl ''pipe_leaf.LeafIngress.worker_id_map_2'' i (ucast (nLastWorkerID (node t s0))) c) (\<lambda>c.
              go_bind (put_reg cl ''pipe_leaf.LeafIngress.queue_len_list_low'' i 1 c)
                (put_reg cl ''pipe_leaf.LeafIngress.queue_len_list_high'' i 1)))))))"

definition LeafCP_Cleanup :: "'c bfrt \<Rightarrow> u16 \<Rightarrow> 'c \<Rightarrow> 'c go" where
  "LeafCP_Cleanup cl leafID c =
     go_bind (put_reg cl ''pipe_leaf.LeafIngress.linked_iq_sched'' (ucast leafID) INVALID_VAL_16bit c) (\<lambda>c.
     go_bind (put_reg cl ''pipe_leaf.LeafIngress.linked_sq_sched'' (ucast leafID) INVALID_VAL_16bit c)
       (put_reg cl ''pipe_leaf.LeafIngress.aggregate_queue_len_list'' (ucast leafID) 0))"

definition LeafCP_V1_OnServerChange ::
  "'c bfrt \<Rightarrow> Topology \<Rightarrow> BfrtLeafCP \<Rightarrow> nref option list \<Rightarrow> bool \<Rightarrow> 'c \<Rightarrow> 'c go option" where
  "LeafCP_V1_OnServerChange cl t cp updated added c =
     (case lcLeaf cp of
        None \<Rightarrow> Some Panic
      | Some leaf \<Rightarrow> OnServerChangeAllVer cl leaf updated added t c)"

definition LeafCP_V2_OnServerChange ::
  "'c bfrt \<Rightarrow> Topology \<Rightarrow> BfrtLeafCP \<Rightarrow> nref option list \<Rightarrow> bool \<Rightarrow> 'c \<Rightarrow> 'c go option" where
  "LeafCP_V2_OnServerChange cl t cp updated added c =
     (case lcLeaf cp of
        None \<Rightarrow> Some Panic
      | Some leaf \<Rightarrow>
          opt_bind (OnServerChangeAllVer cl leaf updated added t c) (\<lambda>c.
            let k = ucast (nID (node t leaf)) in
            if added then Some (Ret c)
            else Some (first_child t leaf (\<lambda>s0.
              go_bind (put_reg cl ''pipe_leaf.LeafIngress.worker_id_map_1'' k (ucast (nFirstWorkerID (node t s0))) c) (\<lambda>c.
              last_child t leaf (\<lambda>s1.
              go_bind (put_reg cl ''pipe_leaf.LeafIngress.worker_id_map_2'' k (ucast (nLastWorkerID (node t s1))) c) (\<lambda>c.
              go_bind (put_reg cl ''pipe_leaf.LeafIngress.queue_len_list_low'' k 100 c)
                (put_reg cl ''pipe_leaf.LeafIngress.queue_len_list_high'' k 100))))))))"

section \<open>The manager control planes\<close>

text \<open>\<open>ManagerInitAllVer\<close> writes nothing: its code is commented out.\<close>

definition adjust_action :: "nat \<Rightarrow> string" where
  "adjust_action i = ''LeafIngress.adjust_random_worker_range_'' @ fmt_d i"

definition ManagerCP_V1_InitRandomAdjustTables :: "'c bfrt \<Rightarrow> 'c \<Rightarrow> 'c go" where
  "ManagerCP_V1_InitRandomAdjustTables cl =
     go_fold (\<lambda>i c.
       go_bind (add_table cl ''pipe_leaf.LeafIngress.adjust_random_range_ds''
           [ExactKey ''horus_md.cluster_num_valid_ds'' (2 ^ i)] (adjust_action i) [] c)
         (add_table cl ''pipe_leaf.LeafIngress.adjust_random_range_us''
           [ExactKey ''horus_md.cluster_num_valid_us'' (2 ^ i)] (adjust_action i) [])) [1, 2, 3, 4, 5]"

definition ManagerCP_V2_InitRandomAdjustTables :: "'c bfrt \<Rightarrow> 'c \<Rightarrow> 'c go" where
  "ManagerCP_V2_InitRandomAdjustTables cl =
     go_fold (\<lambda>i. add_table cl ''pipe_leaf.LeafIngress.adjust_random_range_us''
           [ExactKey ''horus_md.cluster_num_valid_us'' (2 ^ i)] (adjust_action i) []) [1, 2, 3, 4, 5]"

definition ManagerCP_V1_Init :: "'c bfrt \<Rightarrow> 'c \<Rightarrow> 'c go" where
  "ManagerCP_V1_Init cl c = ManagerCP_V1_InitRandomAdjustTables cl c"

definition ManagerCP_V2_Init :: "'c bfrt \<Rightarrow> 'c \<Rightarrow> 'c go" where
  "ManagerCP_V2_Init cl c = ManagerCP_V2_InitRandomAdjustTables cl c"

record StatsObject =
  soTotalTaskCount :: u64
  soTotalResubLeaf :: u64
  soTotalMsgIdle :: u64
  soTotalMsgLoad :: u64
  soTotalStateUpdateMessages :: u64

definition fetchStats :: "'c bfrt \<Rightarrow> 'c \<Rightarrow> StatsObject" where
  "fetchStats cl c =
     (let sum = \<lambda>reg. (\<Sum>i\<leftarrow>[0, 1, 2, 3]. get_reg cl reg i c);
          resub = sum ''pipe_leaf.LeafIngress.stat_count_resub'';
          load = sum ''pipe_leaf.LeafIngress.stat_count_load_signal'';
          idle = sum ''pipe_leaf.LeafIngress.stat_count_idle_signal''
      in \<lparr>soTotalTaskCount = get_reg cl ''pipe_leaf.LeafIngress.stat_count_task'' 0 c,
          soTotalResubLeaf = resub, soTotalMsgIdle = idle, soTotalMsgLoad = load,
          soTotalStateUpdateMessages = idle + load\<rparr>)"

end
