(* ===== verification/Leaf_CP_Props.thy ===== *)
theory Leaf_CP_Props
  imports Leaf_CP Health_Correct
begin

text \<open>
  What the control plane of a leaf does to the switch, when the client works as \<open>bfrt_ok\<close> says: the
  forwarding entries of the workers, the entries with the number of workers, the idle list. The first part
  is about one server, the second about a list of updated servers, the third about new servers.
\<close>

section \<open>The entries of one server\<close>

definition server_mac :: "string \<Rightarrow> u64" where
  "server_mac address = (case mac_data address of Ret mac \<Rightarrow> mac | Panic \<Rightarrow> 0 | Fatal \<Rightarrow> 0)"

definition entry_of :: "Topology \<Rightarrow> nref \<Rightarrow> string \<times> data_field list" where
  "entry_of t s = (fwd_action, [BytesData ''port'' (GetDevPort (port (tHw t) (the (nPort (node t s))))),
     BytesData ''dst_mac'' (server_mac (nAddress (node t s)))])"

definition keys_of :: "Topology \<Rightarrow> nref \<Rightarrow> nref \<Rightarrow> key_field list set" where
  "keys_of t leaf s = worker_keys t leaf ` {nFirstWorkerID (node t s)..nLastWorkerID (node t s)}"

text \<open>A server that the code can enter: it has a port and a MAC address.\<close>

definition reachable_server :: "Topology \<Rightarrow> nref \<Rightarrow> bool" where
  "reachable_server t s \<longleftrightarrow> nPort (node t s) \<noteq> None \<and> (\<exists>mac. mac_data (nAddress (node t s)) = Ret mac)"

definition route ::
  "(string \<Rightarrow> key_field list \<Rightarrow> (string \<times> data_field list) option) \<Rightarrow> key_field list set \<Rightarrow> string \<times> data_field list \<Rightarrow>
    string \<Rightarrow> key_field list \<Rightarrow> (string \<times> data_field list) option" where
  "route T K e = (\<lambda>tb ks. if tb = fwd_table \<and> ks \<in> K then Some e else T tb ks)"

lemma worker_index_inj: "worker_index t leaf w = worker_index t leaf w' \<longleftrightarrow> w = w'"
  by (simp add: worker_index_def)

lemma ucast_64_inj: "(ucast (a :: u16) :: u64) = ucast b \<longleftrightarrow> a = b"
proof -
  have "unat (ucast a :: u64) = unat a" for a :: u16
  proof -
    have "unat a < 2 ^ 16" using unsigned_less [of a] by simp
    then show ?thesis by (simp add: unsigned_ucast_eq take_bit_nat_eq_self)
  qed
  then show ?thesis by (metis word_unat_eq_iff)
qed

lemma worker_keys_inj: "worker_keys t leaf w = worker_keys t leaf w' \<longleftrightarrow> w = w'"
  by (simp add: worker_keys_def ucast_64_inj worker_index_inj)

lemma map_worker_ok:
  assumes "bfrt_ok cl vw" and "reachable_server t s"
  obtains c' where "map_worker cl t leaf s w c = Ret c'"
    "svTable vw c' = route (svTable vw c) {worker_keys t leaf w} (entry_of t s)" "svReg vw c' = svReg vw c"
proof -
  from assms(2) obtain p mac where p: "nPort (node t s) = Some p" and mac: "mac_data (nAddress (node t s)) = Ret mac"
    by (auto simp: reachable_server_def)
  obtain c' where "put_table cl fwd_table (worker_keys t leaf w) fwd_action
      [BytesData ''port'' (GetDevPort (port (tHw t) p)), BytesData ''dst_mac'' mac] c = Ret c'"
    "svTable vw c' = table_upd (svTable vw c) fwd_table (worker_keys t leaf w) (entry_of t s)"
    "svReg vw c' = svReg vw c"
    by (rule put_table_ok [OF assms(1)]) (simp add: entry_of_def p server_mac_def mac)
  then show ?thesis using that p mac
    by (simp add: map_worker_def route_def table_upd_def fun_eq_iff)
qed

lemma map_workers_ok:
  assumes "bfrt_ok cl vw" and "reachable_server t s"
  obtains c' where "go_fold (map_worker cl t leaf s) ws c = Ret c'"
    "svTable vw c' = route (svTable vw c) (worker_keys t leaf ` set ws) (entry_of t s)" "svReg vw c' = svReg vw c"
proof -
  have "\<exists>c'. go_fold (map_worker cl t leaf s) ws c = Ret c' \<and>
    svTable vw c' = route (svTable vw c) (worker_keys t leaf ` set ws) (entry_of t s) \<and> svReg vw c' = svReg vw c"
  proof (induction ws arbitrary: c)
    case Nil
    then show ?case by (simp add: route_def)
  next
    case (Cons w ws)
    obtain c1 where 1: "map_worker cl t leaf s w c = Ret c1"
      "svTable vw c1 = route (svTable vw c) {worker_keys t leaf w} (entry_of t s)" "svReg vw c1 = svReg vw c"
      by (rule map_worker_ok [OF assms])
    from Cons [of c1] obtain c' where "go_fold (map_worker cl t leaf s) ws c1 = Ret c'"
      "svTable vw c' = route (svTable vw c1) (worker_keys t leaf ` set ws) (entry_of t s)" "svReg vw c' = svReg vw c1"
      by blast
    with 1 show ?case by (auto simp: route_def fun_eq_iff)
  qed
  then show ?thesis using that by blast
qed

lemma remap_server_ok:
  assumes "bfrt_ok cl vw" and "reachable_server t s" and "nLastWorkerID (node t s) \<noteq> - 1"
  obtains c' where "remap_server cl t leaf (Some s) c = Some (Ret c')"
    "svTable vw c' = route (svTable vw c) (keys_of t leaf s) (entry_of t s)" "svReg vw c' = svReg vw c"
proof -
  have set: "set (wids (nFirstWorkerID (node t s)) (nLastWorkerID (node t s))) =
      {nFirstWorkerID (node t s)..nLastWorkerID (node t s)}" by (auto simp: set_wids)
  obtain c' where "go_fold (map_worker cl t leaf s) (wids (nFirstWorkerID (node t s)) (nLastWorkerID (node t s))) c = Ret c'"
    "svTable vw c' = route (svTable vw c) (keys_of t leaf s) (entry_of t s)" "svReg vw c' = svReg vw c"
    by (rule map_workers_ok [OF assms(1,2), of leaf "wids (nFirstWorkerID (node t s)) (nLastWorkerID (node t s))" c])
      (simp add: keys_of_def set)
  then show ?thesis using that by (simp add: remap_server_def for_wid_fold [OF assms(3)])
qed

section \<open>The updated servers\<close>

text \<open>
  All their workers are entered, each with its own server, and nothing else of the forwarding table is
  touched, by any function that enters one server; \<open>P\<close> is what it keeps besides.
\<close>

lemma route_servers:
  assumes step: "\<And>s c. s \<in> set us \<Longrightarrow> P c \<Longrightarrow> \<exists>c'. f s c = Some (Ret c') \<and> P c' \<and>
      svTable vw c' = route (svTable vw c) (keys_of t leaf s) (entry_of t s)"
    and disj: "\<forall>s \<in> set us. \<forall>s' \<in> set us. s \<noteq> s' \<longrightarrow> keys_of t leaf s \<inter> keys_of t leaf s' = {}" and "P c"
  shows "\<exists>c'. opt_fold f us c = Some (Ret c') \<and> P c' \<and>
    (\<forall>s \<in> set us. \<forall>ks \<in> keys_of t leaf s. svTable vw c' fwd_table ks = Some (entry_of t s)) \<and>
    (\<forall>tb ks. tb \<noteq> fwd_table \<or> ks \<notin> \<Union> (keys_of t leaf ` set us) \<longrightarrow> svTable vw c' tb ks = svTable vw c tb ks)"
  using assms
proof (induction us arbitrary: c)
  case (Cons u us)
  from Cons.prems(1) [of u c] Cons.prems(3) obtain c1 where 1: "f u c = Some (Ret c1)" "P c1"
    "svTable vw c1 = route (svTable vw c) (keys_of t leaf u) (entry_of t u)" by auto
  have "\<exists>c'. opt_fold f us c1 = Some (Ret c') \<and> P c' \<and>
    (\<forall>s \<in> set us. \<forall>ks \<in> keys_of t leaf s. svTable vw c' fwd_table ks = Some (entry_of t s)) \<and>
    (\<forall>tb ks. tb \<noteq> fwd_table \<or> ks \<notin> \<Union> (keys_of t leaf ` set us) \<longrightarrow> svTable vw c' tb ks = svTable vw c1 tb ks)"
    by (rule Cons.IH [OF _ _ 1(2)]) (use Cons.prems(1,2) in auto)
  then obtain c' where c': "opt_fold f us c1 = Some (Ret c')" "P c'"
    "\<forall>s \<in> set us. \<forall>ks \<in> keys_of t leaf s. svTable vw c' fwd_table ks = Some (entry_of t s)"
    "\<forall>tb ks. tb \<noteq> fwd_table \<or> ks \<notin> \<Union> (keys_of t leaf ` set us) \<longrightarrow> svTable vw c' tb ks = svTable vw c1 tb ks"
    by blast
  have "svTable vw c' fwd_table ks = Some (entry_of t u)" if "ks \<in> keys_of t leaf u" for ks
  proof (cases "ks \<in> \<Union> (keys_of t leaf ` set us)")
    case True
    then obtain d where d: "d \<in> set us" "ks \<in> keys_of t leaf d" by blast
    then have "d = u" using Cons.prems(2) that by fastforce
    with d c'(3) show ?thesis by blast
  next
    case False
    with c'(4) 1(3) that show ?thesis by (simp add: route_def)
  qed
  moreover have "svTable vw c' tb ks = svTable vw c tb ks"
    if "tb \<noteq> fwd_table \<or> ks \<notin> \<Union> (keys_of t leaf ` set (u # us))" for tb ks
  proof -
    from that have "tb \<noteq> fwd_table \<or> ks \<notin> \<Union> (keys_of t leaf ` set us)" by auto
    with c'(4) have "svTable vw c' tb ks = svTable vw c1 tb ks" by blast
    with that 1(3) show ?thesis by (auto simp: route_def)
  qed
  ultimately show ?case using 1 c' by (intro exI [of _ c']) auto
qed simp

lemma opt_fold_map: "opt_fold f (map g xs) s = opt_fold (\<lambda>x. f (g x)) xs s"
  by (induction xs arbitrary: s) (auto split: option.split go.split)

lemma remap_servers_ok:
  assumes bf: "bfrt_ok cl vw" and us: "\<forall>s \<in> set us. reachable_server t s \<and> nLastWorkerID (node t s) \<noteq> - 1"
    and disj: "\<forall>s \<in> set us. \<forall>s' \<in> set us. s \<noteq> s' \<longrightarrow> keys_of t leaf s \<inter> keys_of t leaf s' = {}"
  obtains c' where "opt_fold (remap_server cl t leaf) (map Some us) c = Some (Ret c')"
    "svReg vw c' = svReg vw c" "\<forall>s \<in> set us. \<forall>ks \<in> keys_of t leaf s. svTable vw c' fwd_table ks = Some (entry_of t s)"
    "\<forall>tb ks. tb \<noteq> fwd_table \<or> ks \<notin> \<Union> (keys_of t leaf ` set us) \<longrightarrow> svTable vw c' tb ks = svTable vw c tb ks"
proof -
  have "\<exists>c2. remap_server cl t leaf (Some s) c1 = Some (Ret c2) \<and> svReg vw c2 = svReg vw c \<and>
      svTable vw c2 = route (svTable vw c1) (keys_of t leaf s) (entry_of t s)"
    if "s \<in> set us" "svReg vw c1 = svReg vw c" for s c1
    by (rule remap_server_ok [OF bf, of t s leaf c1]) (use us that in auto)
  from route_servers [where f = "\<lambda>s. remap_server cl t leaf (Some s)" and P = "\<lambda>c1. svReg vw c1 = svReg vw c",
      OF this disj refl] show ?thesis using that unfolding opt_fold_map by blast
qed

lemma leaf_worker_count_eq: "leaf_worker_count t leaf = total_workers t (nChildren (node t leaf))"
proof -
  have "foldl (\<lambda>n s. n + (nLastWorkerID (node t s) - nFirstWorkerID (node t s) + 1)) a cs = a + total_workers t cs"
    for a cs by (induction cs arbitrary: a) (simp_all add: total_workers_def worker_count_def algebra_simps)
  then show ?thesis by (simp add: leaf_worker_count_def)
qed

text \<open>The two entries about the whole leaf.\<close>

definition num_valid_entry :: "u16 \<Rightarrow> string \<times> data_field list" where
  "num_valid_entry n = (''LeafIngress.act_get_cluster_num_valid'',
     [BytesData ''num_ds_elements'' (ucast n), BytesData ''num_us_elements'' 2])"

definition leaf_keys :: "Topology \<Rightarrow> nref \<Rightarrow> key_field list" where
  "leaf_keys t leaf = [ExactKey ''hdr.horus.pool_id'' (ucast (nID (node t leaf)))]"

lemma tables_differ [simp]:
  "''pipe_leaf.LeafIngress.get_cluster_num_valid'' \<noteq> fwd_table"
  "''pipe_leaf.LeafIngress.set_queue_len_unit'' \<noteq> fwd_table"
  "fwd_table \<noteq> ''pipe_leaf.LeafIngress.get_cluster_num_valid''"
  "fwd_table \<noteq> ''pipe_leaf.LeafIngress.set_queue_len_unit''"
  by (simp_all add: fwd_table_def)

lemma server_change_head:
  assumes bf: "bfrt_ok cl vw"
  obtains c' where "go_bind (put_num_valid cl t leaf n 2 c) (put_qlen_unit cl t leaf n) = Ret c'"
    "svReg vw c' = svReg vw c" "svTable vw c' fwd_table = svTable vw c fwd_table"
    "svTable vw c' ''pipe_leaf.LeafIngress.get_cluster_num_valid'' (leaf_keys t leaf) = Some (num_valid_entry n)"
proof -
  obtain c1 where 1: "put_num_valid cl t leaf n 2 c = Ret c1" "svReg vw c1 = svReg vw c"
    "svTable vw c1 = table_upd (svTable vw c) ''pipe_leaf.LeafIngress.get_cluster_num_valid'' (leaf_keys t leaf)
      (num_valid_entry n)"
    unfolding put_num_valid_def leaf_keys_def num_valid_entry_def by (rule put_table_ok [OF bf])
  obtain c2 where 2: "put_qlen_unit cl t leaf n c1 = Ret c2" "svReg vw c2 = svReg vw c1"
    "svTable vw c2 = table_upd (svTable vw c1) ''pipe_leaf.LeafIngress.set_queue_len_unit'' (leaf_keys t leaf)
      (''LeafIngress.act_set_queue_len_unit'', [BytesData ''cluster_unit'' (ucast (WorkerQlenUnitMap n))])"
    unfolding put_qlen_unit_def leaf_keys_def by (rule put_table_ok [OF bf])
  show ?thesis by (rule that [of c2]) (use 1 2 in \<open>simp_all add: table_upd_def\<close>)
qed

text \<open>The blocks of the servers of a leaf do not share keys.\<close>

definition few_workers :: "Topology \<Rightarrow> nref \<Rightarrow> bool" where
  "few_workers t leaf \<longleftrightarrow> (\<Sum>s\<leftarrow>nChildren (node t leaf). unat (worker_count (node t s))) < 2 ^ 16 \<and>
     (\<forall>s \<in> set (nChildren (node t leaf)). worker_count (node t s) \<noteq> 0)"

lemma block_ids:
  assumes "unat (nFirstWorkerID n) + unat (worker_count n) < 2 ^ 16" and "worker_count n \<noteq> 0"
  shows "nLastWorkerID n \<noteq> - 1" and "unat ` {nFirstWorkerID n..nLastWorkerID n} = worker_ids n"
proof -
  have "0 < unat (worker_count n)" using assms(2) by (simp add: unat_gt_0)
  have "unat (nFirstWorkerID n + worker_count n) = unat (nFirstWorkerID n) + unat (worker_count n)"
    using assms(1) by (subst unat_plus_simple [THEN iffD1]) (auto simp: no_olen_add_nat)
  moreover have nxt: "nLastWorkerID n + 1 = nFirstWorkerID n + worker_count n" by (simp add: worker_count_def)
  ultimately have "unat (nLastWorkerID n + 1) = unat (nFirstWorkerID n) + unat (worker_count n)" by simp
  moreover from this \<open>0 < unat (worker_count n)\<close> have "nLastWorkerID n + 1 \<noteq> 0" by (metis add_gr_0 not_gr_zero unat_0)
  then show "nLastWorkerID n \<noteq> - 1" by auto
  then have "unat (nLastWorkerID n + 1) = Suc (unat (nLastWorkerID n))"
    using \<open>nLastWorkerID n + 1 \<noteq> 0\<close> by (metis Suc_eq_plus1 unatSuc add.commute)
  ultimately have lst: "Suc (unat (nLastWorkerID n)) = unat (nFirstWorkerID n) + unat (worker_count n)" by simp
  show "unat ` {nFirstWorkerID n..nLastWorkerID n} = worker_ids n"
  proof (intro set_eqI iffI)
    fix k assume "k \<in> unat ` {nFirstWorkerID n..nLastWorkerID n}"
    with lst show "k \<in> worker_ids n" by (auto simp: worker_ids_def word_le_nat_alt)
  next
    fix k assume k: "k \<in> worker_ids n"
    then have "k < 2 ^ 16" using assms(1) by (auto simp: worker_ids_def)
    then have "unat (of_nat k :: u16) = k" by (simp add: unat_of_nat)
    with k lst show "k \<in> unat ` {nFirstWorkerID n..nLastWorkerID n}"
      by (intro image_eqI [of _ _ "of_nat k"]) (auto simp: worker_ids_def word_le_nat_alt)
  qed
qed

lemma leaf_blocks:
  assumes wk: "workers_ok t leaf" and few: "few_workers t leaf" and s: "s \<in> set (nChildren (node t leaf))"
  shows "nLastWorkerID (node t s) \<noteq> - 1" and "unat ` {nFirstWorkerID (node t s)..nLastWorkerID (node t s)} = worker_ids (node t s)"
proof -
  let ?ns = "map (node t) (nChildren (node t leaf))"
  have lay: "layout 0 ?ns" using wk by (simp add: workers_ok_def)
  have small: "unat (0 :: u16) + (\<Sum>n\<leftarrow>?ns. unat (worker_count n)) < 2 ^ 16"
    using few by (simp add: few_workers_def comp_def)
  have nz: "worker_count (node t s) \<noteq> 0" using few s by (simp add: few_workers_def)
  have "worker_ids (node t s) \<subseteq> {0 ..< (\<Sum>n\<leftarrow>?ns. unat (worker_count n))}"
    using layout_ids(2) [OF lay small] s by auto
  moreover have "0 < unat (worker_count (node t s))" using nz by (simp add: unat_gt_0)
  ultimately have "unat (nFirstWorkerID (node t s)) + unat (worker_count (node t s)) < 2 ^ 16"
    using small by (auto simp: worker_ids_def subset_eq Ball_def dest!: spec [of _ "unat (nFirstWorkerID (node t s)) + unat (worker_count (node t s)) - 1"])
  from block_ids [OF this nz] show "nLastWorkerID (node t s) \<noteq> - 1"
    and "unat ` {nFirstWorkerID (node t s)..nLastWorkerID (node t s)} = worker_ids (node t s)" by blast+
qed

lemma leaf_keys_disjoint:
  assumes wk: "workers_ok t leaf" and few: "few_workers t leaf" and dist: "distinct (nChildren (node t leaf))"
    and s: "s \<in> set (nChildren (node t leaf))" "s' \<in> set (nChildren (node t leaf))" "s \<noteq> s'"
  shows "keys_of t leaf s \<inter> keys_of t leaf s' = {}"
proof -
  let ?cs = "nChildren (node t leaf)"
  let ?ns = "map (node t) ?cs"
  have lay: "layout 0 ?ns" using wk by (simp add: workers_ok_def)
  have small: "unat (0 :: u16) + (\<Sum>n\<leftarrow>?ns. unat (worker_count n)) < 2 ^ 16"
    using few by (simp add: few_workers_def comp_def)
  from s obtain i j where "i < length ?cs" "?cs ! i = s" "j < length ?cs" "?cs ! j = s'" "i \<noteq> j"
    by (metis in_set_conv_nth)
  then have "worker_ids (node t s) \<inter> worker_ids (node t s') = {}"
    using layout_ids(1) [OF lay small] by (auto simp: pairwise_def)
  then have "unat ` {nFirstWorkerID (node t s)..nLastWorkerID (node t s)} \<inter>
      unat ` {nFirstWorkerID (node t s')..nLastWorkerID (node t s')} = {}"
    by (simp only: leaf_blocks(2) [OF wk few s(1)] leaf_blocks(2) [OF wk few s(2)])
  then show ?thesis by (auto simp: keys_of_def worker_keys_inj)
qed

end
