(* ===== verification/Spine_CP.thy ===== *)
theory Spine_CP
  imports Leaf_CP Topology_Ops
begin

text \<open>
  The control planes of a spine (ctrl\_mgr/cp.go): what they write at the start and when a leaf has been
  added or has failed.
\<close>

section \<open>All versions\<close>

definition spine_fwd :: "'c bfrt \<Rightarrow> u16 \<Rightarrow> u64 \<Rightarrow> 'c \<Rightarrow> 'c go" where
  "spine_fwd cl dst devPort =
     add_table cl ''pipe_spine.SpineIngress.forward_horus_switch_dst''
       [ExactKey ''hdr.horus.dst_id'' (ucast dst)] ''SpineIngress.act_forward_horus'' [BytesData ''port'' devPort]"

definition spine_init_leaf :: "'c bfrt \<Rightarrow> Topology \<Rightarrow> nat \<times> nref \<Rightarrow> 'c \<Rightarrow> 'c go" where
  "spine_init_leaf cl t ileaf c =
     (case ileaf of (i, leaf) \<Rightarrow>
       let leafID = nID (node t leaf) in
       go_bind (put_reg cl ''pipe_spine.SpineIngress.idle_list'' (of_nat i) (ucast leafID) c) (\<lambda>c.
       go_bind (put_reg cl ''pipe_spine.SpineIngress.idle_list_idx_mapping'' (ucast leafID) (of_nat i) c) (\<lambda>c.
       deref (nDsPort (node t leaf)) (\<lambda>p. spine_fwd cl leafID (GetDevPort (port (tHw t) p)) c))))"

definition SpineCPInitAllVer :: "'c bfrt \<Rightarrow> order \<Rightarrow> nref \<Rightarrow> Topology \<Rightarrow> 'c \<Rightarrow> 'c go" where
  "SpineCPInitAllVer cl ord spine t c =
     (let leaves = nChildren (node t spine) in
      go_bind (go_fold (spine_init_leaf cl t) (enumerate 0 leaves) c) (\<lambda>c.
      go_bind (put_reg cl ''pipe_spine.SpineIngress.idle_count'' 0 (of_nat (length leaves)) c)
        (go_fold (\<lambda>(_, cn) c.
           deref (nPort (node t cn)) (\<lambda>p. spine_fwd cl (nID (node t cn)) (GetDevPort (port (tHw t) p)) c))
           (go_range ord (tClients t)))))"

text \<open>Only an added leaf is entered; the part for a failed leaf is commented out.\<close>

definition SpineCPOnLeafChangeAllVer :: "'c bfrt \<Rightarrow> u64 \<Rightarrow> bool \<Rightarrow> Topology \<Rightarrow> 'c \<Rightarrow> 'c go" where
  "SpineCPOnLeafChangeAllVer cl leafID added t c =
     (if added then
        go_bind (GetNode t (ucast leafID) NodeType_Leaf) (\<lambda>leaf.
        deref leaf (\<lambda>l.
        deref (nDsPort (node t l)) (\<lambda>p.
          put_table cl ''pipe_spine.SpineIngress.forward_horus_switch_dst''
            [ExactKey ''hdr.horus.dst_id'' leafID] ''SpineIngress.act_forward_horus''
            [BytesData ''port'' (GetDevPort (port (tHw t) p))] c)))
      else Ret c)"

record BfrtSpineCP =
  scpSpine :: "nref option"

definition NewBfrtSpineCP_V1 :: "nref option \<Rightarrow> BfrtSpineCP" where
  "NewBfrtSpineCP_V1 spine = \<lparr>scpSpine = spine\<rparr>"

definition NewBfrtSpineCP_V2 :: "nref option \<Rightarrow> BfrtSpineCP" where
  "NewBfrtSpineCP_V2 spine = \<lparr>scpSpine = spine\<rparr>"

section \<open>Version 1\<close>

text \<open>The number of bits that count to \<open>i\<close>, which is the ceiling of the binary logarithm.\<close>

fun ceil_log2 :: "nat \<Rightarrow> nat" where
  "ceil_log2 n = (if n \<le> 1 then 0 else Suc (ceil_log2 ((n + 1) div 2)))"

declare ceil_log2.simps [simp del]

definition SpineCP_V1_InitRandomAdjustTables :: "'c bfrt \<Rightarrow> 'c \<Rightarrow> 'c go" where
  "SpineCP_V1_InitRandomAdjustTables cl =
     go_fold (\<lambda>i. add_table cl ''pipe_spine.SpineIngress.adjust_random_range_sq_leafs''
       [ExactKey ''horus_md.cluster_num_valid_queue_signals'' (of_nat i)]
       (''SpineIngress.adjust_random_leaf_index_'' @ fmt_d (ceil_log2 i)) []) [2..<33]"

definition pool_key :: key_field where
  "pool_key = ExactKey ''hdr.horus.pool_id'' 0"

definition spine_V1_init_leaf :: "'c bfrt \<Rightarrow> Topology \<Rightarrow> nat \<times> nref \<Rightarrow> 'c \<Rightarrow> 'c go" where
  "spine_V1_init_leaf cl t ileaf c =
     (case ileaf of (i, leaf) \<Rightarrow>
       let leafID = ucast (nID (node t leaf));
           unit = [BytesData ''cluster_unit'' (ucast (WorkerQlenUnitMap (leaf_worker_count t leaf)))] in
       go_bind (add_table cl ''pipe_spine.SpineIngress.set_queue_len_unit_1''
         [ExactKey ''horus_md.random_id_1'' leafID, pool_key] ''SpineIngress.act_set_queue_len_unit_1'' unit c) (\<lambda>c.
       go_bind (add_table cl ''pipe_spine.SpineIngress.set_queue_len_unit_2''
         [ExactKey ''horus_md.random_id_2'' leafID, pool_key] ''SpineIngress.act_set_queue_len_unit_2'' unit c) (\<lambda>c.
       go_bind (add_table cl ''pipe_spine.SpineIngress.set_queue_len_unit_resub''
         [ExactKey ''horus_md.selected_ds_index'' leafID, pool_key] ''SpineIngress.act_set_queue_len_unit_resub'' unit c) (\<lambda>c.
       go_bind (add_table cl ''pipe_spine.SpineIngress.get_rand_leaf_id_1''
         [ExactKey ''horus_md.random_ds_index_1'' (of_nat i), pool_key] ''SpineIngress.act_get_rand_leaf_id_1''
         [BytesData ''leaf_id'' leafID] c) (\<lambda>c.
       go_bind (add_table cl ''pipe_spine.SpineIngress.get_rand_leaf_id_2''
         [ExactKey ''horus_md.random_ds_index_2'' (of_nat i), pool_key] ''SpineIngress.act_get_rand_leaf_id_2''
         [BytesData ''leaf_id'' leafID] c)
       (add_table cl ''pipe_spine.SpineIngress.get_switch_index''
         [pool_key, ExactKey ''hdr.horus.src_id'' leafID] ''SpineIngress.act_get_switch_index''
         [BytesData ''switch_index'' (of_nat i)]))))))"

definition SpineCP_V1_Init :: "'c bfrt \<Rightarrow> order \<Rightarrow> Topology \<Rightarrow> BfrtSpineCP \<Rightarrow> 'c \<Rightarrow> 'c go" where
  "SpineCP_V1_Init cl ord t cp c =
     (case scpSpine cp of
        None \<Rightarrow> Fatal
      | Some spine \<Rightarrow>
          go_bind (SpineCPInitAllVer cl ord spine t c) (\<lambda>c.
          go_bind (go_fold (spine_V1_init_leaf cl t) (enumerate 0 (nChildren (node t spine))) c) (\<lambda>c.
          go_bind (add_table cl ''pipe_spine.SpineIngress.get_cluster_num_valid_leafs'' [pool_key]
            ''SpineIngress.act_get_cluster_num_valid_leafs''
            [BytesData ''num_leafs'' (of_nat (length (nChildren (node t spine))))] c)
            (SpineCP_V1_InitRandomAdjustTables cl))))"

text \<open>The entries of a leaf in the two mappings between leaf IDs and indices.\<close>

definition switch_index_keys :: "u64 \<Rightarrow> key_field list" where
  "switch_index_keys leafID = [pool_key, ExactKey ''hdr.horus.src_id'' leafID]"

definition rand_leaf_keys :: "string \<Rightarrow> u64 \<Rightarrow> key_field list" where
  "rand_leaf_keys k i = [ExactKey k i, pool_key]"

definition spine_V1_map_leaf :: "'c bfrt \<Rightarrow> Topology \<Rightarrow> nref \<Rightarrow> 'c \<Rightarrow> 'c go" where
  "spine_V1_map_leaf cl t leaf c =
     (let leafID = ucast (nID (node t leaf)); i = ucast (nIndex (node t leaf)) in
      go_bind (put_table cl ''pipe_spine.SpineIngress.get_switch_index'' (switch_index_keys leafID)
        ''SpineIngress.act_get_switch_index'' [BytesData ''switch_index'' i] c) (\<lambda>c.
      go_bind (put_table cl ''pipe_spine.SpineIngress.get_rand_leaf_id_1''
        (rand_leaf_keys ''horus_md.random_ds_index_1'' i)
        ''SpineIngress.act_get_rand_leaf_id_1'' [BytesData ''leaf_id'' leafID] c)
      (put_table cl ''pipe_spine.SpineIngress.get_rand_leaf_id_2''
        (rand_leaf_keys ''horus_md.random_ds_index_2'' i)
        ''SpineIngress.act_get_rand_leaf_id_2'' [BytesData ''leaf_id'' leafID])))"

text \<open>
  After the mappings, the number of leaves; then the queue cells of the last slot are set to zero. With no
  leaf left the slot is the 64-bit wrap-around of -1.
\<close>

definition SpineCP_V1_OnLeafChange ::
  "'c bfrt \<Rightarrow> Topology \<Rightarrow> BfrtSpineCP \<Rightarrow> u64 \<Rightarrow> u64 \<Rightarrow> bool \<Rightarrow> 'c \<Rightarrow> 'c go" where
  "SpineCP_V1_OnLeafChange cl t cp leafID index added c =
     deref (scpSpine cp) (\<lambda>spine.
       go_bind (SpineCPOnLeafChangeAllVer cl leafID added t c) (\<lambda>c.
       let leaves = nChildren (node t spine); slot = of_nat (length leaves) - 1 in
       go_bind (go_fold (spine_V1_map_leaf cl t) leaves c) (\<lambda>c.
       go_bind (put_table cl ''pipe_spine.SpineIngress.get_cluster_num_valid_leafs'' [pool_key]
         ''SpineIngress.act_get_cluster_num_valid_leafs'' [BytesData ''num_leafs'' (of_nat (length leaves))] c) (\<lambda>c.
       go_bind (put_reg cl ''pipe_spine.SpineIngress.queue_len_list_1'' slot 0 c) (\<lambda>c.
       go_bind (put_reg cl ''pipe_spine.SpineIngress.queue_len_list_2'' slot 0 c) (\<lambda>c.
       go_bind (put_reg cl ''pipe_spine.SpineIngress.deferred_queue_len_list_1'' slot 0 c)
         (put_reg cl ''pipe_spine.SpineIngress.deferred_queue_len_list_2'' slot 0)))))))"

section \<open>Version 2\<close>

definition SpineCP_V2_Init :: "'c bfrt \<Rightarrow> order \<Rightarrow> Topology \<Rightarrow> BfrtSpineCP \<Rightarrow> 'c \<Rightarrow> 'c go" where
  "SpineCP_V2_Init cl ord t cp c =
     (case scpSpine cp of
        None \<Rightarrow> Fatal
      | Some spine \<Rightarrow>
          go_bind (SpineCPInitAllVer cl ord spine t c) (\<lambda>c.
          go_bind (go_fold (\<lambda>leaf. add_table cl ''pipe_spine.SpineIngress.set_queue_len_unit_1''
              [ExactKey ''horus_md.low_ds_id'' (ucast (nID (node t leaf))), pool_key]
              ''SpineIngress.act_set_queue_len_unit_1''
              [BytesData ''cluster_unit'' (ucast (WorkerQlenUnitMap (leaf_worker_count t leaf)))])
            (nChildren (node t spine)) c) (\<lambda>c.
          first_child t spine (\<lambda>l0.
          go_bind (put_reg cl ''pipe_spine.SpineIngress.leaf_id_map_1'' 0 (ucast (nID (node t l0))) c) (\<lambda>c.
          last_child t spine (\<lambda>l1.
          go_bind (put_reg cl ''pipe_spine.SpineIngress.leaf_id_map_2'' 0 (ucast (nID (node t l1))) c) (\<lambda>c.
          go_bind (put_reg cl ''pipe_spine.SpineIngress.queue_len_list_low'' 0 1 c)
            (put_reg cl ''pipe_spine.SpineIngress.queue_len_list_high'' 0 1))))))))"

definition SpineCP_V2_OnLeafChange ::
  "'c bfrt \<Rightarrow> Topology \<Rightarrow> BfrtSpineCP \<Rightarrow> u64 \<Rightarrow> u64 \<Rightarrow> bool \<Rightarrow> 'c \<Rightarrow> 'c go" where
  "SpineCP_V2_OnLeafChange cl t cp leafID index added c =
     deref (scpSpine cp) (\<lambda>spine.
       go_bind (SpineCPOnLeafChangeAllVer cl leafID added t c) (\<lambda>c.
       if added then Ret c
       else
         (let leafID1 = get_reg cl ''pipe_spine.SpineIngress.leaf_id_map_1'' 0 c;
              leafID2 = get_reg cl ''pipe_spine.SpineIngress.leaf_id_map_2'' 0 c;
              leafhighQlen = get_reg cl ''pipe_spine.SpineIngress.queue_len_list_high'' 0 c
          in if leafID \<noteq> leafID1 \<and> leafID \<noteq> leafID2 then Ret c
             else
               go_bind (if leafID1 = leafID
                        then go_bind (put_reg cl ''pipe_spine.SpineIngress.leaf_id_map_1'' 0 leafID2 c)
                               (put_reg cl ''pipe_spine.SpineIngress.queue_len_list_low'' 0 leafhighQlen)
                        else Ret c) (\<lambda>c.
               go_bind (put_reg cl ''pipe_spine.SpineIngress.queue_len_list_high'' 0 100 c) (\<lambda>c.
               first_child t spine (\<lambda>l0.
                 put_reg cl ''pipe_spine.SpineIngress.leaf_id_map_2'' 0 (ucast (nID (node t l0))) c))))))"

text \<open>\<open>MonitorStats\<close> only reads and logs; in version 2 it ends the process when the idle count cannot be read.\<close>

definition SpineCP_V2_MonitorStats :: "'c bfrt \<Rightarrow> 'c \<Rightarrow> unit go" where
  "SpineCP_V2_MonitorStats cl c =
     (case bfReadReg cl ''pipe_spine.SpineIngress.idle_count'' 0 c of (_, Some _) \<Rightarrow> Fatal | (_, None) \<Rightarrow> Ret ())"

end
