(* ===== verification/Control_Planes.thy ===== *)
theory Control_Planes
  imports Spine_CP
begin

text \<open>
  The interfaces \<open>LeafCP\<close>, \<open>SpineCP\<close> and \<open>ManagerCP\<close> (ctrl\_mgr/cp.go) and the types that implement them.
  A value of an interface type is the record of its methods on the client state. The topology that a
  control plane points to is an argument of the methods: it is read when they run.
\<close>

section \<open>Interfaces\<close>

record 'c LeafCP =
  lcpInit :: "order \<Rightarrow> order \<Rightarrow> Topology \<Rightarrow> 'c \<Rightarrow> 'c go option"
  lcpOnServerChange :: "Topology \<Rightarrow> nref option list \<Rightarrow> bool \<Rightarrow> 'c \<Rightarrow> 'c go option"
  lcpCleanup :: "u16 \<Rightarrow> 'c \<Rightarrow> 'c go"

record 'c SpineCP =
  spcpInit :: "order \<Rightarrow> Topology \<Rightarrow> 'c \<Rightarrow> 'c go"
  spcpInitRandomAdjustTables :: "'c \<Rightarrow> 'c go"
  spcpOnLeafChange :: "Topology \<Rightarrow> u64 \<Rightarrow> u64 \<Rightarrow> bool \<Rightarrow> 'c \<Rightarrow> 'c go"
  spcpMonitorStats :: "'c \<Rightarrow> 'c go"

record 'c ManagerCP =
  mcpInit :: "'c \<Rightarrow> 'c go"
  mcpInitRandomAdjustTables :: "'c \<Rightarrow> 'c go"

section \<open>Fake control planes\<close>

text \<open>They only log; the leaf's two log lines read the ID of the leaf, which may be nil.\<close>

definition FakeLeafCP_Init :: "nref option \<Rightarrow> 'c \<Rightarrow> 'c go" where
  "FakeLeafCP_Init leaf c = deref leaf (\<lambda>_. Ret c)"

definition FakeLeafCP_OnServerChange :: "nref option \<Rightarrow> nref option list \<Rightarrow> bool \<Rightarrow> 'c \<Rightarrow> 'c go" where
  "FakeLeafCP_OnServerChange leaf updated added c = deref leaf (\<lambda>_. Ret c)"

definition NewFakeLeafCP :: "nref option \<Rightarrow> 'c LeafCP" where
  "NewFakeLeafCP leaf =
     \<lparr>lcpInit = \<lambda>o1 o2 t c. Some (FakeLeafCP_Init leaf c),
      lcpOnServerChange = \<lambda>t updated added c. Some (FakeLeafCP_OnServerChange leaf updated added c),
      lcpCleanup = \<lambda>leafID c. Ret c\<rparr>"

definition NewFakeSpineCP :: "'c SpineCP" where
  "NewFakeSpineCP =
     \<lparr>spcpInit = \<lambda>ord t c. Ret c, spcpInitRandomAdjustTables = Ret,
      spcpOnLeafChange = \<lambda>t leafID index added c. Ret c, spcpMonitorStats = Ret\<rparr>"

definition NewFakeManagerCP :: "'c ManagerCP" where
  "NewFakeManagerCP = \<lparr>mcpInit = Ret, mcpInitRandomAdjustTables = Ret\<rparr>"

section \<open>Versions\<close>

definition LeafCP_of_V1 :: "'c bfrt \<Rightarrow> BfrtLeafCP \<Rightarrow> 'c LeafCP" where
  "LeafCP_of_V1 cl cp =
     \<lparr>lcpInit = \<lambda>o1 o2 t. LeafCP_V1_Init cl o1 o2 t cp,
      lcpOnServerChange = \<lambda>t. LeafCP_V1_OnServerChange cl t cp, lcpCleanup = LeafCP_Cleanup cl\<rparr>"

definition LeafCP_of_V2 :: "'c bfrt \<Rightarrow> BfrtLeafCP \<Rightarrow> 'c LeafCP" where
  "LeafCP_of_V2 cl cp =
     \<lparr>lcpInit = \<lambda>o1 o2 t. LeafCP_V2_Init cl o1 o2 t cp,
      lcpOnServerChange = \<lambda>t. LeafCP_V2_OnServerChange cl t cp, lcpCleanup = LeafCP_Cleanup cl\<rparr>"

definition SpineCP_of_V1 :: "'c bfrt \<Rightarrow> BfrtSpineCP \<Rightarrow> 'c SpineCP" where
  "SpineCP_of_V1 cl cp =
     \<lparr>spcpInit = \<lambda>ord t. SpineCP_V1_Init cl ord t cp,
      spcpInitRandomAdjustTables = SpineCP_V1_InitRandomAdjustTables cl,
      spcpOnLeafChange = \<lambda>t. SpineCP_V1_OnLeafChange cl t cp, spcpMonitorStats = Ret\<rparr>"

definition SpineCP_of_V2 :: "'c bfrt \<Rightarrow> BfrtSpineCP \<Rightarrow> 'c SpineCP" where
  "SpineCP_of_V2 cl cp =
     \<lparr>spcpInit = \<lambda>ord t. SpineCP_V2_Init cl ord t cp, spcpInitRandomAdjustTables = Ret,
      spcpOnLeafChange = \<lambda>t. SpineCP_V2_OnLeafChange cl t cp,
      spcpMonitorStats = \<lambda>c. go_bind (SpineCP_V2_MonitorStats cl c) (\<lambda>_. Ret c)\<rparr>"

definition ManagerCP_of_V1 :: "'c bfrt \<Rightarrow> 'c ManagerCP" where
  "ManagerCP_of_V1 cl =
     \<lparr>mcpInit = ManagerCP_V1_Init cl, mcpInitRandomAdjustTables = ManagerCP_V1_InitRandomAdjustTables cl\<rparr>"

definition ManagerCP_of_V2 :: "'c bfrt \<Rightarrow> 'c ManagerCP" where
  "ManagerCP_of_V2 cl =
     \<lparr>mcpInit = ManagerCP_V2_Init cl, mcpInitRandomAdjustTables = ManagerCP_V2_InitRandomAdjustTables cl\<rparr>"

text \<open>The controllers choose one by the configured \<open>ControlAPI\<close>; any other value ends the process.\<close>

definition leaf_cp :: "string \<Rightarrow> 'c bfrt \<Rightarrow> nref option \<Rightarrow> SpineConfig list \<Rightarrow> 'c LeafCP go" where
  "leaf_cp controlAPI cl leaf spines =
     (if controlAPI = ''fake'' then Ret (NewFakeLeafCP leaf)
      else if controlAPI = ''v1'' then Ret (LeafCP_of_V1 cl (NewBfrtLeafCP_V1 leaf spines))
      else if controlAPI = ''v2'' then Ret (LeafCP_of_V2 cl (NewBfrtLeafCP_V2 leaf spines))
      else Fatal)"

definition spine_cp :: "string \<Rightarrow> 'c bfrt \<Rightarrow> nref option \<Rightarrow> 'c SpineCP go" where
  "spine_cp controlAPI cl spine =
     (if controlAPI = ''fake'' then Ret NewFakeSpineCP
      else if controlAPI = ''v1'' then Ret (SpineCP_of_V1 cl (NewBfrtSpineCP_V1 spine))
      else if controlAPI = ''v2'' then Ret (SpineCP_of_V2 cl (NewBfrtSpineCP_V2 spine))
      else Fatal)"

definition manager_cp :: "string \<Rightarrow> 'c bfrt \<Rightarrow> 'c ManagerCP go" where
  "manager_cp controlAPI cl =
     (if controlAPI = ''fake'' then Ret NewFakeManagerCP
      else if controlAPI = ''v1'' then Ret (ManagerCP_of_V1 cl)
      else if controlAPI = ''v2'' then Ret (ManagerCP_of_V2 cl)
      else Fatal)"

end
