(* ===== verification/Event_Buses.thy ===== *)
theory Event_Buses
  imports Control_Planes Node_Servers Horus_Packet
begin

text \<open>
  The event loops of the controllers: \<open>LeafBus\<close> (ctrl\_mgr/leafBus.go) and \<open>SpineBus\<close>
  (ctrl\_mgr/spineBus.go). Each takes messages from its channels and handles every message in a goroutine
  of its own. A handler is one step here; a run is a list of events in the order in which they are handled,
  each with the topology the handler finds. The bus and the control plane point to the same topology.
\<close>

section \<open>The leaf bus\<close>

text \<open>
  What the handlers of one leaf share: its health manager, with the topology and the clusters, the packets
  on the channel \<open>asicEgress\<close>, and the client of the switch.
\<close>

record 'c LeafBus =
  lbCtrlID :: u16
  lbCp :: "'c LeafCP"
  lbHealth :: LeafHealthManager
  lbEgress :: "bytes list"
  lbClient :: 'c

definition NewBareLeafBus :: "u16 \<Rightarrow> 'c LeafCP \<Rightarrow> LeafHealthManager \<Rightarrow> 'c \<Rightarrow> 'c LeafBus" where
  "NewBareLeafBus ctrlID cp hm c =
     \<lparr>lbCtrlID = ctrlID, lbCp = cp, lbHealth = hm, lbEgress = [], lbClient = c\<rparr>"

abbreviation lbTopology :: "'c LeafBus \<Rightarrow> Topology" where
  "lbTopology b \<equiv> hmTopology (lbHealth b)"

text \<open>A packet goes to the switch if it can be serialised.\<close>

definition send_packet :: "(layer list \<Rightarrow> go_error + bytes) \<Rightarrow> HorusPacket \<Rightarrow> 'c LeafBus \<Rightarrow> 'c LeafBus" where
  "send_packet ser pkt b =
     (case CreateFullHorusPacket ser pkt [1, 1, 1, 1] [2, 2, 2, 2] of
        (pktBytes, None) \<Rightarrow> b\<lparr>lbEgress := lbEgress b @ [pktBytes]\<rparr>
      | (_, Some _) \<Rightarrow> b)"

definition idle_packet :: "u8 \<Rightarrow> u16 \<Rightarrow> HorusPacket" where
  "idle_packet pktType ctrlID =
     zero_HorusPacket\<lparr>hpPktType := pktType, hpClusterID := 0, hpQLen := 0, hpSrcID := ctrlID,
       hpDstID := 100, hpSeqNum := 0, hpRestOfData := [0]\<rparr>"

definition worker_packet :: "Topology \<Rightarrow> nref \<Rightarrow> nref \<Rightarrow> HorusPacket" where
  "worker_packet t leaf server =
     (let firstDstId = nIndex (node t leaf) * MAX_VCLUSTER_WORKERS + nFirstWorkerID (node t server)
      in zero_HorusPacket\<lparr>hpPktType := PKT_TYPE_WORKER_ID, hpClusterID := nIndex (node t leaf),
           hpQLen := firstDstId, hpSrcID := nIndex (node t leaf), hpDstID := firstDstId, hpSeqNum := 0,
           hpRestOfData := [0]\<rparr>)"

text \<open>A server has been added.\<close>

definition leafBus_newServer ::
  "(layer list \<Rightarrow> go_error + bytes) \<Rightarrow> ServerAddedMessage \<Rightarrow> 'c LeafBus \<Rightarrow> 'c LeafBus go option" where
  "leafBus_newServer ser message b =
     opt_bind (Some (GetNode (lbTopology b) (ucast (siId (saServer message))) NodeType_Server)) (\<lambda>serverNode.
     opt_bind (lcpOnServerChange (lbCp b) (lbTopology b) [serverNode] True (lbClient b)) (\<lambda>c.
       Some (Ret (send_packet ser (idle_packet PKT_TYPE_IDLE_SIGNAL (lbCtrlID b)) (b\<lparr>lbClient := c\<rparr>)))))"

text \<open>
  Servers have new worker IDs, from the health manager or the RPC server. The leaf may be gone: the code
  only warns, and then reads its index for every packet.
\<close>

definition leafBus_updated ::
  "(layer list \<Rightarrow> go_error + bytes) \<Rightarrow> LeafHealthMsg \<Rightarrow> 'c LeafBus \<Rightarrow> 'c LeafBus go option" where
  "leafBus_updated ser hmMsg b =
     (let t = lbTopology b in
      opt_bind (Some (GetNode t (lbCtrlID b) NodeType_Leaf)) (\<lambda>leaf.
      opt_bind (case leaf of
                  None \<Rightarrow> Some (Ret (lbClient b))
                | Some _ \<Rightarrow> lcpOnServerChange (lbCp b) t (map Some (lhUpdated hmMsg)) False (lbClient b)) (\<lambda>c.
        Some (go_fold (\<lambda>server b. deref leaf (\<lambda>l. Ret (send_packet ser (worker_packet t l server) b)))
          (lhUpdated hmMsg) (b\<lparr>lbClient := c\<rparr>)))))"

text \<open>
  A packet from the switch. Finding the Horus layer is gopacket's work, the function \<open>parse\<close>. Only a ping
  of a server counts.
\<close>

definition leafBus_packet ::
  "(bytes \<Rightarrow> HorusPacket option) \<Rightarrow> int \<Rightarrow> bytes \<Rightarrow> 'c LeafBus \<Rightarrow> 'c LeafBus" where
  "leafBus_packet parse now dpMsg b =
     (case parse dpMsg of
        None \<Rightarrow> b
      | Some horusPkt \<Rightarrow>
          if hpPktType horusPkt = PKT_TYPE_KEEP_ALIVE
          then b\<lparr>lbHealth := OnNodePingRecv now (hpSrcID horusPkt) 0 (lbHealth b)\<rparr>
          else b)"

text \<open>The bus is shut down: the spine learns that the leaf has no idle workers, the switch forgets the leaf.\<close>

definition leafBus_Shutdown :: "(layer list \<Rightarrow> go_error + bytes) \<Rightarrow> 'c LeafBus \<Rightarrow> 'c LeafBus go" where
  "leafBus_Shutdown ser b =
     (let b1 = send_packet ser (idle_packet PKT_TYPE_IDLE_REMOVE (lbCtrlID b)) b
      in go_bind (lcpCleanup (lbCp b) (lbCtrlID b) (lbClient b1)) (\<lambda>c. Ret (b1\<lparr>lbClient := c\<rparr>)))"

text \<open>A new cluster is only logged.\<close>

datatype leaf_bus_event =
    LBNewServer ServerAddedMessage
  | LBNewVC VCUpdatedMessage
  | LBUpdated LeafHealthMsg
  | LBPacket int bytes

definition leafBus_step ::
  "(layer list \<Rightarrow> go_error + bytes) \<Rightarrow> (bytes \<Rightarrow> HorusPacket option) \<Rightarrow> leaf_bus_event \<Rightarrow> 'c LeafBus \<Rightarrow>
    'c LeafBus go option" where
  "leafBus_step ser parse ev b =
     (case ev of
        LBNewServer message \<Rightarrow> leafBus_newServer ser message b
      | LBNewVC message \<Rightarrow> Some (Ret b)
      | LBUpdated hmMsg \<Rightarrow> leafBus_updated ser hmMsg b
      | LBPacket now dpMsg \<Rightarrow> Some (Ret (leafBus_packet parse now dpMsg b)))"

section \<open>The spine bus\<close>

text \<open>\<open>pending\_leaves\<close> is a Go map to \<open>int\<close> in which only 1 is stored; an absent key reads as 0.\<close>

record 'c SpineBus =
  sbCtrlID :: u16
  sbCp :: "'c SpineCP"
  sbPending :: "u16 \<rightharpoonup> nat"
  sbClient :: 'c

definition NewSpineBus :: "u16 \<Rightarrow> 'c SpineCP \<Rightarrow> 'c \<Rightarrow> 'c SpineBus" where
  "NewSpineBus ctrlID cp c = \<lparr>sbCtrlID = ctrlID, sbCp = cp, sbPending = Map.empty, sbClient = c\<rparr>"

definition pending :: "'c SpineBus \<Rightarrow> u16 \<Rightarrow> nat" where
  "pending b k = (case sbPending b k of None \<Rightarrow> 0 | Some n \<Rightarrow> n)"

definition leaf_change :: "Topology \<Rightarrow> u64 \<Rightarrow> u64 \<Rightarrow> bool \<Rightarrow> 'c SpineBus \<Rightarrow> 'c SpineBus go" where
  "leaf_change t leafID index added b =
     go_bind (spcpOnLeafChange (sbCp b) t leafID index added (sbClient b)) (\<lambda>c. Ret (b\<lparr>sbClient := c\<rparr>))"

definition spineBus_failedLeaf :: "Topology option \<Rightarrow> LeafFailedMessage \<Rightarrow> 'c SpineBus \<Rightarrow> 'c SpineBus go" where
  "spineBus_failedLeaf topology message b =
     (case topology of
        None \<Rightarrow> Ret b
      | Some t \<Rightarrow> leaf_change t (ucast (liId (lfLeaf message))) (ucast (liIndex (lfLeaf message))) False b)"

text \<open>A leaf without servers waits for its first one.\<close>

definition spineBus_newLeaf :: "Topology option \<Rightarrow> LeafAddedMessage \<Rightarrow> 'c SpineBus \<Rightarrow> 'c SpineBus go" where
  "spineBus_newLeaf topology message b =
     (case topology of
        None \<Rightarrow> Ret b
      | Some t \<Rightarrow>
          go_bind (GetNode t (ucast (liId (laLeaf message))) NodeType_Leaf) (\<lambda>leaf.
          deref leaf (\<lambda>l.
            if length (nChildren (node t l)) > 0
            then leaf_change t (ucast (liId (laLeaf message))) (ucast (liIndex (laLeaf message))) True b
            else Ret (b\<lparr>sbPending := (sbPending b)(ucast (liId (laLeaf message)) \<mapsto> 1)\<rparr>))))"

definition spineBus_newServer :: "Topology option \<Rightarrow> ServerAddedMessage \<Rightarrow> 'c SpineBus \<Rightarrow> 'c SpineBus go" where
  "spineBus_newServer topology message b =
     (case topology of
        None \<Rightarrow> Ret b
      | Some t \<Rightarrow>
          go_bind (GetNode t (ucast (siId (saServer message))) NodeType_Server) (\<lambda>server.
          deref server (\<lambda>s.
          deref (nParent (node t s)) (\<lambda>leaf.
            if pending b (nID (node t leaf)) \<noteq> 0
            then go_bind (leaf_change t (ucast (nID (node t leaf))) (ucast (nIndex (node t leaf))) True b) (\<lambda>b'.
                   Ret (b'\<lparr>sbPending := (sbPending b')(nID (node t leaf) := None)\<rparr>))
            else Ret b))))"

text \<open>
  A failed server and a new cluster are only logged. When no message is there, the statistics are read if
  the last time was ten seconds ago.
\<close>

datatype spine_bus_event =
    SBFailedLeaf LeafFailedMessage
  | SBFailedServer ServerFailedMessage
  | SBNewLeaf LeafAddedMessage
  | SBNewServer ServerAddedMessage
  | SBNewVC VCUpdatedMessage
  | SBIdle bool

definition spineBus_step :: "Topology option \<Rightarrow> spine_bus_event \<Rightarrow> 'c SpineBus \<Rightarrow> 'c SpineBus go" where
  "spineBus_step topology ev b =
     (case ev of
        SBFailedLeaf message \<Rightarrow> spineBus_failedLeaf topology message b
      | SBFailedServer message \<Rightarrow> Ret b
      | SBNewLeaf message \<Rightarrow> spineBus_newLeaf topology message b
      | SBNewServer message \<Rightarrow> spineBus_newServer topology message b
      | SBNewVC message \<Rightarrow> Ret b
      | SBIdle due \<Rightarrow>
          if due then go_bind (spcpMonitorStats (sbCp b) (sbClient b)) (\<lambda>c. Ret (b\<lparr>sbClient := c\<rparr>)) else Ret b)"

definition spineBus_run :: "(Topology option \<times> spine_bus_event) list \<Rightarrow> 'c SpineBus \<Rightarrow> 'c SpineBus go" where
  "spineBus_run evs b = go_fold (\<lambda>(topology, ev). spineBus_step topology ev) evs b"

end
