(* ===== verification/Leaf_CP_Idle.thy ===== *)
theory Leaf_CP_Idle
  imports Leaf_CP_Correct
begin

text \<open>
  Two more properties of a server change on a leaf: it returns unless a server ends at worker ID 65535, and
  the workers of an added server join the idle list.
\<close>

section \<open>Does it return?\<close>

lemma go_fold_total:
  assumes "\<And>x s. \<exists>s'. f x s = Ret s'"
  shows "\<exists>s'. go_fold f xs s = Ret s'"
proof (induction xs arbitrary: s)
  case (Cons x xs)
  from assms obtain s1 where "f x s = Ret s1" by blast
  with Cons [of s1] show ?case by auto
qed simp

lemma map_worker_total:
  assumes "bfrt_ok cl vw" and "reachable_server t s"
  shows "\<exists>c'. map_worker cl t leaf s w c = Ret c'"
proof -
  obtain c' where "map_worker cl t leaf s w c = Ret c'" by (rule map_worker_ok [OF assms])
  then show ?thesis by blast
qed

lemma idle_worker_total:
  assumes "bfrt_ok cl vw"
  shows "\<exists>st'. idle_worker cl t leaf w st = Ret st'"
proof -
  obtain c n where st: "st = (c, n)" by (cases st)
  obtain c' where "put_reg cl ''pipe_leaf.LeafIngress.idle_list'' (ucast (worker_index t leaf w)) n c = Ret c'"
    by (rule put_reg_ok [OF assms small_index(1)])
  then show ?thesis by (simp add: st idle_worker_def)
qed

text \<open>A loop over worker IDs whose body always returns ends exactly if the last ID is not the largest.\<close>

lemma for_wid_ends:
  assumes "\<And>w s. \<exists>s'. body w s = Ret s'"
  shows "if lst = - 1 then for_wid body wid lst s = None else \<exists>s'. for_wid body wid lst s = Some (Ret s')"
proof (cases "lst = - 1")
  case True
  have "for_wid body wid (- 1) s = None" by (rule for_wid_endless [where P = "\<lambda>_. True"]) (use assms in auto)
  with True show ?thesis by simp
next
  case False
  with go_fold_total [of body, OF assms] show ?thesis by (simp add: for_wid_fold)
qed

text \<open>The same for a row of such loops.\<close>

lemma opt_fold_ends:
  assumes "\<And>x s. x \<in> set xs \<Longrightarrow> if P x then f x s = None else \<exists>s'. f x s = Some (Ret s')"
  shows "if \<exists>x \<in> set xs. P x then opt_fold f xs s = None else \<exists>s'. opt_fold f xs s = Some (Ret s')"
  using assms
proof (induction xs arbitrary: s)
  case (Cons x xs)
  show ?case
  proof (cases "P x")
    case True
    with Cons.prems [of x s] show ?thesis by simp
  next
    case False
    with Cons.prems [of x s] obtain s1 where "f x s = Some (Ret s1)" by auto
    with Cons.IH [of s1] Cons.prems False show ?thesis by (auto split: if_splits)
  qed
qed simp

lemma remap_servers_end:
  assumes "bfrt_ok cl vw" and "\<forall>s \<in> set us. reachable_server t s"
  shows "if \<exists>s \<in> set us. nLastWorkerID (node t s) = - 1 then opt_fold (remap_server cl t leaf) (map Some us) c = None
    else \<exists>c'. opt_fold (remap_server cl t leaf) (map Some us) c = Some (Ret c')"
proof -
  let ?P = "\<lambda>x. nLastWorkerID (node t (the x)) = - 1"
  have "if ?P x then remap_server cl t leaf x c = None else \<exists>c'. remap_server cl t leaf x c = Some (Ret c')"
    if "x \<in> set (map Some us)" for x c
  proof -
    from that obtain s where x: "x = Some s" "s \<in> set us" by auto
    with assms(2) have "\<exists>c'. map_worker cl t leaf s w c = Ret c'" for w c
      by (intro map_worker_total [OF assms(1)]) blast
    from for_wid_ends [where body = "map_worker cl t leaf s" and lst = "nLastWorkerID (node t s)" and
        wid = "nFirstWorkerID (node t s)" and s = c, OF this] x(1)
    show ?thesis by (simp only: remap_server_def option.case option.sel)
  qed
  from opt_fold_ends [of "map Some us" ?P, OF this] show ?thesis by simp
qed

lemma idle_servers_end:
  assumes "bfrt_ok cl vw" and "\<forall>s \<in> set us. nLastWorkerID (node t s) \<noteq> - 1"
  shows "\<exists>st'. opt_fold (idle_server cl t leaf) (map Some us) st = Some (Ret st')"
proof -
  have "if False then idle_server cl t leaf x st = None else \<exists>st'. idle_server cl t leaf x st = Some (Ret st')"
    if "x \<in> set (map Some us)" for x st
  proof -
    from that obtain s where x: "x = Some s" "s \<in> set us" by auto
    from for_wid_ends [where body = "idle_worker cl t leaf" and lst = "nLastWorkerID (node t s)" and
        wid = "nFirstWorkerID (node t s)" and s = st, OF idle_worker_total [OF assms(1)]] x assms(2) show ?thesis by (simp add: idle_server_def)
  qed
  from opt_fold_ends [where xs = "map Some us" and P = "\<lambda>_. False" and s = st, OF this] show ?thesis by simp
qed

text \<open>
  C38: Writing a server change returns if no updated server ends at the worker ID 65535, and otherwise never
  does: the loop counter of 16 bits wraps around before it can pass the last ID. A server that is built
  without workers at the front of its leaf ends there.
\<close>

theorem server_change_returns:
  assumes "bfrt_ok cl vw" and "\<forall>s \<in> set us. reachable_server t s"
  shows "if \<exists>s \<in> set us. nLastWorkerID (node t s) = 65535
    then OnServerChangeAllVer cl leaf (map Some us) added t c = None
    else \<exists>c'. OnServerChangeAllVer cl leaf (map Some us) added t c = Some (Ret c')"
proof -
  let ?n = "leaf_worker_count t leaf"
  have m1: "(65535 :: u16) = - 1" by simp
  obtain c1 where 1: "go_bind (put_num_valid cl t leaf ?n 2 c) (put_qlen_unit cl t leaf ?n) = Ret c1"
    by (rule server_change_head [OF assms(1), of t leaf ?n c])
  note remap = remap_servers_end [OF assms, of leaf c1]
  show ?thesis
  proof (cases "\<exists>s \<in> set us. nLastWorkerID (node t s) = - 1")
    case True
    then have "OnServerChangeAllVer cl leaf (map Some us) added t c = None"
      using remap unfolding OnServerChangeAllVer_def Let_def 1 by simp
    with True show ?thesis unfolding m1 by simp
  next
    case False
    with remap obtain c2 where 2: "opt_fold (remap_server cl t leaf) (map Some us) c1 = Some (Ret c2)" by auto
    have rd: "bfReadReg cl ''pipe_leaf.LeafIngress.idle_count'' (ucast (nID (node t leaf))) c2 =
        (svReg vw c2 ''pipe_leaf.LeafIngress.idle_count'' (ucast (nID (node t leaf))), None)"
      using assms(1) by (simp add: bfrt_ok_def)
    have "\<exists>c'. add_idle cl t leaf (map Some us) c2 = Some (Ret c')"
      using idle_servers_end [OF assms(1), of us t leaf "(c2, svReg vw c2 ''pipe_leaf.LeafIngress.idle_count''
        (ucast (nID (node t leaf))))"] False unfolding add_idle_def rd by auto
    then have "\<exists>c'. OnServerChangeAllVer cl leaf (map Some us) added t c = Some (Ret c')"
      unfolding OnServerChangeAllVer_def Let_def 1 by (simp add: 2)
    with False show ?thesis unfolding m1 by (simp only: if_False)
  qed
qed

theorem server_change_returns_witness:
  "OnServerChangeAllVer sw_client 2 [Some 3] False (upd_node 3 (\<lambda>n. n\<lparr>nLastWorkerID := 65535\<rparr>) sample_mac) empty_sw = None"
proof -
  let ?t = "upd_node 3 (\<lambda>n. n\<lparr>nLastWorkerID := 65535\<rparr>) sample_mac"
  have "valid_node sample_mac 3" by (simp add: sample_mac_def sample_eval)
  then have n: "node ?t 3 = (node sample 3)\<lparr>nAddress := ''02:00:00:00:00:03'', nLastWorkerID := 65535\<rparr>"
    by (simp add: ns.get_upd sample_mac_nodes)
  then have "\<forall>s \<in> set [3]. reachable_server ?t s" by (simp add: reachable_server_def sample_servers sample_macs)
  from server_change_returns [OF sw_ok this, of 2 False empty_sw] n show ?thesis by simp
qed

section \<open>The idle list\<close>

definition idle_index :: "Topology \<Rightarrow> nref \<Rightarrow> u16 \<Rightarrow> u64" where
  "idle_index t leaf w = ucast (worker_index t leaf w)"

lemma idle_index_inj: "idle_index t leaf w = idle_index t leaf w' \<longleftrightarrow> w = w'"
  by (simp add: idle_index_def ucast_64_inj worker_index_inj)

lemma idle_workers_ok:
  assumes bf: "bfrt_ok cl vw" and "distinct ws"
  shows "\<exists>c'. go_fold (idle_worker cl t leaf) ws (c, n) = Ret (c', n + of_nat (length ws)) \<and>
    svTable vw c' = svTable vw c \<and>
    (\<forall>reg. reg \<noteq> ''pipe_leaf.LeafIngress.idle_list'' \<longrightarrow> svReg vw c' reg = svReg vw c reg) \<and>
    (\<forall>i < length ws. svReg vw c' ''pipe_leaf.LeafIngress.idle_list'' (idle_index t leaf (ws ! i)) = n + of_nat i) \<and>
    (\<forall>k. k \<notin> idle_index t leaf ` set ws \<longrightarrow>
       svReg vw c' ''pipe_leaf.LeafIngress.idle_list'' k = svReg vw c ''pipe_leaf.LeafIngress.idle_list'' k)"
  using assms(2)
proof (induction ws arbitrary: c n)
  case (Cons w ws)
  obtain c1 where 1: "put_reg cl ''pipe_leaf.LeafIngress.idle_list'' (idle_index t leaf w) n c = Ret c1"
    "svTable vw c1 = svTable vw c"
    "svReg vw c1 = reg_upd (svReg vw c) ''pipe_leaf.LeafIngress.idle_list'' (idle_index t leaf w) n"
    by (rule put_reg_ok [OF bf small_index(1) [of "worker_index t leaf w", folded idle_index_def]])
  from Cons.prems have "distinct ws" by simp
  from Cons.IH [OF this, of c1 "n + 1"] obtain c' where IH: "go_fold (idle_worker cl t leaf) ws (c1, n + 1) = Ret (c', n + 1 + of_nat (length ws))"
    "svTable vw c' = svTable vw c1"
    "\<forall>reg. reg \<noteq> ''pipe_leaf.LeafIngress.idle_list'' \<longrightarrow> svReg vw c' reg = svReg vw c1 reg"
    "\<forall>i < length ws. svReg vw c' ''pipe_leaf.LeafIngress.idle_list'' (idle_index t leaf (ws ! i)) = n + 1 + of_nat i"
    "\<forall>k. k \<notin> idle_index t leaf ` set ws \<longrightarrow>
       svReg vw c' ''pipe_leaf.LeafIngress.idle_list'' k = svReg vw c1 ''pipe_leaf.LeafIngress.idle_list'' k"
    by blast
  have "idle_worker cl t leaf w (c, n) = Ret (c1, n + 1)"
    using 1(1) by (simp add: idle_worker_def idle_index_def)
  with IH(1) have run: "go_fold (idle_worker cl t leaf) (w # ws) (c, n) = Ret (c', n + of_nat (length (w # ws)))"
    by (simp add: algebra_simps)
  have w: "idle_index t leaf w \<notin> idle_index t leaf ` set ws" using Cons.prems by (auto simp: idle_index_inj)
  have cells: "svReg vw c' ''pipe_leaf.LeafIngress.idle_list'' (idle_index t leaf ((w # ws) ! i)) = n + of_nat i"
    if "i < length (w # ws)" for i
    by (cases i) (use that IH(4,5) w 1(3) in \<open>simp_all add: reg_upd_def algebra_simps\<close>)
  have "\<forall>k. k \<notin> idle_index t leaf ` set (w # ws) \<longrightarrow>
       svReg vw c' ''pipe_leaf.LeafIngress.idle_list'' k = svReg vw c ''pipe_leaf.LeafIngress.idle_list'' k"
    using IH(5) 1(3) by (simp add: reg_upd_def)
  with run cells IH(2,3) 1(2,3) show ?case by (intro exI [of _ c']) (simp add: reg_upd_def)
qed simp

lemma distinct_wids: "distinct (wids a b)"
proof -
  have "unat b < 2 ^ 16" using unsigned_less [of b] by simp
  then have "unat (of_nat k :: u16) = k" if "k < Suc (unat b)" for k using that by (simp add: unat_of_nat)
  then have "inj_on (of_nat :: nat \<Rightarrow> u16) {unat a ..< Suc (unat b)}"
    by (intro inj_on_inverseI [where g = unat]) simp
  then show ?thesis by (simp add: wids_def distinct_map del: upt_Suc)
qed

text \<open>
  C39: When a server is added, each of its workers is entered with the server's port and address, and the cell
  of the idle list at the index of the i-th worker gets the idle count plus i. The idle count itself keeps its
  old value: the entry with the new one is built but not sent. So the workers are in the list, but not counted.
\<close>

theorem added_server_idle:
  assumes "bfrt_ok cl vw" and "reachable_server t s" and "nLastWorkerID (node t s) \<noteq> 65535"
  shows "\<exists>c'. OnServerChangeAllVer cl leaf [Some s] True t c = Some (Ret c') \<and>
    (\<forall>ks \<in> keys_of t leaf s. svTable vw c' fwd_table ks = Some (entry_of t s)) \<and>
    (\<forall>i < length (wids (nFirstWorkerID (node t s)) (nLastWorkerID (node t s))).
       svReg vw c' ''pipe_leaf.LeafIngress.idle_list''
         (idle_index t leaf (wids (nFirstWorkerID (node t s)) (nLastWorkerID (node t s)) ! i)) =
       svReg vw c ''pipe_leaf.LeafIngress.idle_count'' (ucast (nID (node t leaf))) + of_nat i) \<and>
    svReg vw c' ''pipe_leaf.LeafIngress.idle_count'' = svReg vw c ''pipe_leaf.LeafIngress.idle_count''"
proof -
  let ?n = "leaf_worker_count t leaf" and ?ws = "wids (nFirstWorkerID (node t s)) (nLastWorkerID (node t s))"
  have "(65535 :: u16) = - 1" by simp
  with assms(3) have lst: "nLastWorkerID (node t s) \<noteq> - 1" by (simp only: not_False_eq_True)
  obtain c1 where 1: "go_bind (put_num_valid cl t leaf ?n 2 c) (put_qlen_unit cl t leaf ?n) = Ret c1"
    "svReg vw c1 = svReg vw c" by (rule server_change_head [OF assms(1), of t leaf ?n c])
  obtain c2 where 2: "remap_server cl t leaf (Some s) c1 = Some (Ret c2)"
    "svTable vw c2 = route (svTable vw c1) (keys_of t leaf s) (entry_of t s)" "svReg vw c2 = svReg vw c1"
    by (rule remap_server_ok [OF assms(1,2) lst])
  define n where "n = svReg vw c2 ''pipe_leaf.LeafIngress.idle_count'' (ucast (nID (node t leaf)))"
  have rd: "bfReadReg cl ''pipe_leaf.LeafIngress.idle_count'' (ucast (nID (node t leaf))) c2 = (n, None)"
    using assms(1) by (simp add: bfrt_ok_def n_def)
  from idle_workers_ok [OF assms(1) distinct_wids, of t leaf "nFirstWorkerID (node t s)" "nLastWorkerID (node t s)" c2 n]
  obtain c3 where 3: "go_fold (idle_worker cl t leaf) ?ws (c2, n) = Ret (c3, n + of_nat (length ?ws))"
    "svTable vw c3 = svTable vw c2"
    "\<forall>reg. reg \<noteq> ''pipe_leaf.LeafIngress.idle_list'' \<longrightarrow> svReg vw c3 reg = svReg vw c2 reg"
    "\<forall>i < length ?ws. svReg vw c3 ''pipe_leaf.LeafIngress.idle_list'' (idle_index t leaf (?ws ! i)) = n + of_nat i"
    by blast
  have "idle_server cl t leaf (Some s) (c2, n) = Some (Ret (c3, n + of_nat (length ?ws)))"
    by (simp add: idle_server_def for_wid_fold [OF lst] 3(1))
  then have "OnServerChangeAllVer cl leaf [Some s] True t c = Some (Ret c3)"
    unfolding OnServerChangeAllVer_def Let_def 1(1) by (simp add: 2(1) add_idle_def rd)
  then show ?thesis using 1(2) 2(2,3) 3(2-4) by (intro exI [of _ c3]) (simp add: route_def n_def)
qed

theorem added_server_idle_witness:
  "\<exists>c'. OnServerChangeAllVer sw_client 2 [Some 4] True sample_mac empty_sw = Some (Ret c') \<and>
     snd c' ''pipe_leaf.LeafIngress.idle_list'' 5 = 1 \<and> snd c' ''pipe_leaf.LeafIngress.idle_count'' 0 = 0"
proof -
  have r: "reachable_server sample_mac 4" "nLastWorkerID (node sample_mac 4) \<noteq> 65535"
    using sample_mac_ready by (simp_all add: leaf_ready_def sample_mac_nodes sample_nodes sample_servers)
  have w: "wids 4 5 = [4, 5 :: u16]" by (simp add: wids_def)
  have i: "idle_index sample_mac 2 5 = 5"
    by (simp add: idle_index_def worker_index_def sample_mac_nodes sample_servers)
  from added_server_idle [OF sw_ok r, of 2 empty_sw] obtain c' where
    "OnServerChangeAllVer sw_client 2 [Some 4] True sample_mac empty_sw = Some (Ret c')"
    "\<forall>i < 2. snd c' ''pipe_leaf.LeafIngress.idle_list'' (idle_index sample_mac 2 ([4, 5] ! i)) = of_nat i"
    "snd c' ''pipe_leaf.LeafIngress.idle_count'' = (\<lambda>_. 0)"
    by (auto simp: sample_mac_nodes sample_servers w sw_view_def empty_sw_def)
  moreover from this(2) [rule_format, of 1] have "snd c' ''pipe_leaf.LeafIngress.idle_list'' 5 = 1" by (simp add: i)
  ultimately show ?thesis by simp
qed

end
