(* ===== verification/Leaf_Bus_Correct.thy ===== *)
theory Leaf_Bus_Correct
  imports Leaf_CP_Correct
begin

text \<open>
  The leaf controller as a whole: its health manager, its event loop and the version 1 control plane. The
  invariant \<open>bus_ok\<close> says that the topology is consistent and that the switch forwards to it; the steps are
  packets from the switch and rounds of the health manager, each followed by the handling of the message it
  sends. That the message is handled before the next round is an assumption of the step relation: the
  code handles it in a goroutine.
\<close>

section \<open>The invariant\<close>

definition bus_ok :: "'c bfrt \<Rightarrow> 'c switch_view \<Rightarrow> u16 \<Rightarrow> SpineConfig list \<Rightarrow> 'c LeafBus \<Rightarrow> bool" where
  "bus_ok cl vw k spines b \<longleftrightarrow> lbCtrlID b = k \<and> hm_ok k (lbHealth b) \<and>
     lbCp b = LeafCP_of_V1 cl (NewBfrtLeafCP_V1 (Some (hmLeaf (lbHealth b))) spines) \<and>
     leaf_ready (lbTopology b) (hmLeaf (lbHealth b)) \<and>
     routes_ok vw (lbClient b) (lbTopology b) (hmLeaf (lbHealth b))"

inductive leaf_step ::
  "(layer list \<Rightarrow> go_error + bytes) \<Rightarrow> (bytes \<Rightarrow> HorusPacket option) \<Rightarrow> 'c LeafBus \<Rightarrow> 'c LeafBus \<Rightarrow> bool"
  for ser parse where
  packet: "leaf_step ser parse b (leafBus_packet parse now dpMsg b)"
| round: "leaf_step ser parse b b'"
  if "processNodes_round ord clock (lbHealth b) = Ret hm'" and "is_order ord"
    and "hmEgress hm' = hmEgress (lbHealth b) @ msgs"
    and "opt_fold (leafBus_updated ser) msgs (b\<lparr>lbHealth := hm'\<rparr>) = Some (Ret b')"

inductive_cases leaf_stepE: "leaf_step ser parse b b'"

section \<open>Packets\<close>

text \<open>A ping changes nothing that the switch or the layout of the workers depends on.\<close>

lemma same_routes:
  assumes "tHw t' = tHw t" and "nChildren (node t' l) = nChildren (node t l)" and "nID (node t' l) = nID (node t l)"
    and "\<And>s. s \<in> set (nChildren (node t l)) \<Longrightarrow> nAddress (node t' s) = nAddress (node t s) \<and>
      nPort (node t' s) = nPort (node t s) \<and> nFirstWorkerID (node t' s) = nFirstWorkerID (node t s) \<and>
      nLastWorkerID (node t' s) = nLastWorkerID (node t s)"
  shows "routes_ok vw c t' l \<longleftrightarrow> routes_ok vw c t l"
proof -
  have "keys_of t' l s = keys_of t l s \<and> entry_of t' s = entry_of t s" if "s \<in> set (nChildren (node t l))" for s
    using assms(1,3) assms(4) [OF that]
    by (simp add: keys_of_def worker_keys_def worker_index_def entry_of_def)
  then show ?thesis by (simp add: routes_ok_def assms(2))
qed

lemma ready_from:
  assumes ready: "leaf_ready t l" and wk: "workers_ok t' l"
    and ch: "nChildren (node t' l) = filter P (nChildren (node t l))"
    and same: "\<And>s. s \<in> set (nChildren (node t' l)) \<Longrightarrow> nAddress (node t' s) = nAddress (node t s) \<and>
      nPort (node t' s) = nPort (node t s) \<and> worker_count (node t' s) = worker_count (node t s)"
  shows "leaf_ready t' l"
proof -
  let ?n = "\<lambda>t s. unat (worker_count (node t s))"
  note rd = ready [unfolded leaf_ready_def few_workers_def]
  have "(\<Sum>s\<leftarrow>filter P cs. f s) \<le> (\<Sum>s\<leftarrow>cs. f s)" for cs and f :: "nref \<Rightarrow> nat" by (induction cs) auto
  then have "(\<Sum>s\<leftarrow>nChildren (node t' l). ?n t s) \<le> (\<Sum>s\<leftarrow>nChildren (node t l). ?n t s)" by (simp add: ch)
  also have "\<dots> < 2 ^ 16" using rd by simp
  also have "(\<Sum>s\<leftarrow>nChildren (node t' l). ?n t s) = (\<Sum>s\<leftarrow>nChildren (node t' l). ?n t' s)"
    by (rule arg_cong [where f = sum_list]) (use same in simp)
  finally have "(\<Sum>s\<leftarrow>nChildren (node t' l). ?n t' s) < 2 ^ 16" .
  moreover have "worker_count (node t' s) \<noteq> 0 \<and> reachable_server t' s" if "s \<in> set (nChildren (node t' l))" for s
    using same [OF that] that rd by (auto simp: ch reachable_server_def)
  moreover have "distinct (nChildren (node t' l))" using rd by (simp add: ch)
  ultimately show ?thesis using wk by (simp add: leaf_ready_def few_workers_def)
qed

lemma packet_ok:
  assumes ok: "bus_ok cl vw k spines b"
  shows "bus_ok cl vw k spines (leafBus_packet parse now dpMsg b)"
proof -
  let ?h = "lbHealth b"
  note b = ok [unfolded bus_ok_def]
  have "bus_ok cl vw k spines (b\<lparr>lbHealth := OnNodePingRecv now j p ?h\<rparr>)" for j p
  proof (cases "gm_load (tServers (hmTopology ?h)) j")
    case None
    then have "OnNodePingRecv now j p ?h = ?h" by (simp add: OnNodePingRecv_def)
    with ok show ?thesis by (simp add: bus_ok_def)
  next
    case (Some r)
    let ?h' = "OnNodePingRecv now j p ?h"
    note nd = ping_node [OF conjunct1 [OF conjunct2 [OF b]] Some, of now p]
    have hm': "hm_ok k ?h'" using b by (blast intro: ping_ok)
    have hw: "tHw (hmTopology ?h') = tHw (hmTopology ?h)" by (simp add: OnNodePingRecv_def split: option.split)
    have "leaf_ready (hmTopology ?h') (hmLeaf ?h)"
      by (rule ready_from [where P = "\<lambda>_. True", OF conjunct1 [OF conjunct2 [OF conjunct2 [OF conjunct2 [OF b]]]]])
        (use hm' nd in \<open>auto simp: hm_ok_def worker_count_def\<close>)
    moreover have "routes_ok vw (lbClient b) (hmTopology ?h') (hmLeaf ?h) \<longleftrightarrow>
        routes_ok vw (lbClient b) (hmTopology ?h) (hmLeaf ?h)"
      by (rule same_routes) (use hw nd in auto)
    ultimately show ?thesis using b hm' by (simp add: bus_ok_def)
  qed
  with ok show ?thesis by (simp add: leafBus_packet_def split: option.split)
qed

section \<open>Rounds\<close>

lemma send_packet_frame [simp]:
  "lbCtrlID (send_packet ser pkt b) = lbCtrlID b" "lbCp (send_packet ser pkt b) = lbCp b"
  "lbHealth (send_packet ser pkt b) = lbHealth b" "lbClient (send_packet ser pkt b) = lbClient b"
  by (simp_all add: send_packet_def split: prod.split option.split)

lemma send_packets_run:
  "go_fold (\<lambda>s b. Ret (send_packet ser (pkt s) b)) us b = Ret (fold (\<lambda>s. send_packet ser (pkt s)) us b)"
  by (induction us arbitrary: b) auto

lemma send_packets_frame [simp]:
  "lbCtrlID (fold (\<lambda>s. send_packet ser (pkt s)) us b) = lbCtrlID b"
  "lbCp (fold (\<lambda>s. send_packet ser (pkt s)) us b) = lbCp b"
  "lbHealth (fold (\<lambda>s. send_packet ser (pkt s)) us b) = lbHealth b"
  "lbClient (fold (\<lambda>s. send_packet ser (pkt s)) us b) = lbClient b"
  by (induction us arbitrary: b) auto

text \<open>
  What a round and the handling of its messages did: the servers that fell silent are gone and the others are
  in their order, no other entry of the forwarding table than those of the remaining workers was touched, and
  the number of workers in the switch is the new one when a message was sent. Without a message nothing
  in the switch changed.
\<close>

definition round_handled ::
  "'c switch_view \<Rightarrow> (nref \<Rightarrow> int) \<Rightarrow> 'c LeafBus \<Rightarrow> LeafHealthMsg list \<Rightarrow> 'c LeafBus \<Rightarrow> bool" where
  "round_handled vw clock b msgs b' \<longleftrightarrow> (let l = hmLeaf (lbHealth b); t' = lbTopology b' in
     nChildren (node t' l) = filter (\<lambda>s. \<not> timed_out (hmTimeOut (lbHealth b)) (clock s) (node (lbTopology b) s))
       (nChildren (node (lbTopology b) l)) \<and>
     routes_ok vw (lbClient b') t' l \<and>
     (\<forall>ks. ks \<notin> \<Union> (keys_of t' l ` set (nChildren (node t' l))) \<longrightarrow>
        svTable vw (lbClient b') fwd_table ks = svTable vw (lbClient b) fwd_table ks) \<and>
     (if msgs = [] then lbClient b' = lbClient b
      else svTable vw (lbClient b') ''pipe_leaf.LeafIngress.get_cluster_num_valid'' (leaf_keys t' l) =
        Some (num_valid_entry (total_workers t' (nChildren (node t' l))))))"

text \<open>
  A round, whatever it finds, and the handling of the message it sends, if it sends one: both return and
  the invariant holds again.
\<close>

lemma round_message_ok:
  assumes bf: "bfrt_ok cl vw" and ok: "bus_ok cl vw k spines b" and ord: "is_order ord"
  obtains hm' msgs b' where "processNodes_round ord clock (lbHealth b) = Ret hm'"
    "hmEgress hm' = hmEgress (lbHealth b) @ msgs"
    "opt_fold (leafBus_updated ser) msgs (b\<lparr>lbHealth := hm'\<rparr>) = Some (Ret b')" "bus_ok cl vw k spines b'"
    "round_handled vw clock b msgs b'"
proof -
  let ?h = "lbHealth b" and ?l = "hmLeaf (lbHealth b)"
  note b = ok [unfolded bus_ok_def]
  have h: "sys_ok (hmTopology ?h) (hmVcMgr ?h)" "gm_load (tLeaves (hmTopology ?h)) k = Some ?l"
    "workers_ok (hmTopology ?h) ?l" using b by (simp_all add: hm_ok_def)
  obtain t' m' us where run: "processNodes_round ord clock ?h = Ret (?h\<lparr>hmTopology := t', hmVcMgr := m',
      hmEgress := hmEgress ?h @ (if us = [] then [] else [NewLeafHealthMsg True us])\<rparr>)"
    and sys: "sys_ok t' m'" and wk: "workers_ok t' ?l" and lv: "gm_load (tLeaves t') k = Some ?l"
    and us: "set us \<subseteq> set (nChildren (node t' ?l))"
    and ch: "nChildren (node t' ?l) = filter (\<lambda>c. \<not> timed_out (hmTimeOut ?h) (clock c)
      (node (hmTopology ?h) c)) (nChildren (node (hmTopology ?h) ?l))"
    and same: "\<And>c. c \<in> set (nChildren (node t' ?l)) \<Longrightarrow> c \<notin> set us \<Longrightarrow> node t' c = node (hmTopology ?h) c"
    and hw: "tHw t' = tHw (hmTopology ?h)"
    and fields: "\<And>c. c \<in> set (nChildren (node t' ?l)) \<Longrightarrow> nAddress (node t' c) = nAddress (node (hmTopology ?h) c) \<and>
      nPort (node t' c) = nPort (node (hmTopology ?h) c) \<and> worker_count (node t' c) = worker_count (node (hmTopology ?h) c)"
    and nid: "nID (node t' ?l) = k"
    by (rule round_message [OF h ord, of clock]) (rule that; assumption)
  define hm' where "hm' = ?h\<lparr>hmTopology := t', hmVcMgr := m',
      hmEgress := hmEgress ?h @ (if us = [] then [] else [NewLeafHealthMsg True us])\<rparr>"
  have hok: "hm_ok k hm'" using sys wk lv by (simp add: hm_ok_def hm'_def)
  have ready: "leaf_ready t' ?l" by (rule ready_from [OF _ wk ch fields]) (use b in simp)
  have nid0: "nID (node (hmTopology ?h) ?l) = k" using wf_leaf [OF sys_okD(1) [OF h(1)] h(2)] by (simp add: leaf_ok_def)
  have old: "svTable vw (lbClient b) fwd_table ks = Some (entry_of t' s)"
    if "s \<in> set (nChildren (node t' ?l))" "s \<notin> set us" "ks \<in> keys_of t' ?l s" for s ks
  proof -
    have "keys_of t' ?l s = keys_of (hmTopology ?h) ?l s" "entry_of t' s = entry_of (hmTopology ?h) s"
      using same [OF that(1,2)] hw nid nid0 by (simp_all add: keys_of_def worker_keys_def worker_index_def entry_of_def)
    with b that ch show ?thesis by (simp add: routes_ok_def)
  qed
  show ?thesis
  proof (cases "us = []")
    case True
    have "bus_ok cl vw k spines (b\<lparr>lbHealth := hm'\<rparr>)"
      using b hok ready old True by (simp add: bus_ok_def hm'_def routes_ok_def)
    moreover have "round_handled vw clock b [] (b\<lparr>lbHealth := hm'\<rparr>)"
      using ch old True by (simp add: round_handled_def hm'_def routes_ok_def)
    moreover have "hmEgress hm' = hmEgress ?h @ []" by (simp add: hm'_def True)
    ultimately show ?thesis using that [of hm' "[]"] run by (simp add: hm'_def)
  next
    case False
    obtain c' where c': "OnServerChangeAllVer cl ?l (map Some us) False t' (lbClient b) = Some (Ret c')"
      "\<And>s ks. s \<in> set us \<Longrightarrow> ks \<in> keys_of t' ?l s \<Longrightarrow> svTable vw c' fwd_table ks = Some (entry_of t' s)"
      "\<And>ks. ks \<notin> \<Union> (keys_of t' ?l ` set us) \<Longrightarrow> svTable vw c' fwd_table ks = svTable vw (lbClient b) fwd_table ks"
      "svTable vw c' ''pipe_leaf.LeafIngress.get_cluster_num_valid'' (leaf_keys t' ?l) =
        Some (num_valid_entry (total_workers t' (nChildren (node t' ?l))))"
      by (rule server_change_run [OF bf ready us, of "lbClient b"]) (rule that; assumption)
    define b' where "b' = fold (\<lambda>s. send_packet ser (worker_packet t' ?l s)) us (b\<lparr>lbHealth := hm', lbClient := c'\<rparr>)"
    have b': "lbCtrlID b' = lbCtrlID b" "lbCp b' = lbCp b" "lbHealth b' = hm'" "lbClient b' = c'"
      by (simp_all add: b'_def)
    have "leafBus_updated ser (NewLeafHealthMsg True us) (b\<lparr>lbHealth := hm'\<rparr>) = Some (Ret b')"
      using b lv c'(1)
      by (simp add: b'_def send_packets_run leafBus_updated_def Let_def hm'_def NewLeafHealthMsg_def LeafCP_of_V1_def LeafCP_V1_OnServerChange_def
          NewBfrtLeafCP_V1_def)
    moreover have routes: "routes_ok vw c' t' ?l"
      unfolding routes_ok_def
    proof (intro ballI)
      fix s ks assume s: "s \<in> set (nChildren (node t' ?l))" "ks \<in> keys_of t' ?l s"
      show "svTable vw c' fwd_table ks = Some (entry_of t' s)"
      proof (cases "s \<in> set us")
        case True
        with c'(2) s show ?thesis by blast
      next
        case out: False
        note rd = ready [unfolded leaf_ready_def]
        have "ks \<notin> \<Union> (keys_of t' ?l ` set us)"
        proof
          assume "ks \<in> \<Union> (keys_of t' ?l ` set us)"
          then obtain s' where s': "s' \<in> set us" "ks \<in> keys_of t' ?l s'" by blast
          then have "s \<noteq> s'" "s' \<in> set (nChildren (node t' ?l))" using out us by auto
          with leaf_keys_disjoint [of t' ?l s s'] rd s s'(2) show False by blast
        qed
        with c'(3) old [OF s(1) out s(2)] show ?thesis by metis
      qed
    qed
    then have "bus_ok cl vw k spines b'" using b b' hok ready by (simp add: bus_ok_def hm'_def)
    moreover have "round_handled vw clock b [NewLeafHealthMsg True us] b'"
      using ch us routes c'(3,4) b' by (auto simp: round_handled_def hm'_def subset_iff)
    moreover have "hmEgress hm' = hmEgress ?h @ [NewLeafHealthMsg True us]" by (simp add: hm'_def False)
    moreover have "processNodes_round ord clock ?h = Ret hm'" using run by (simp add: hm'_def)
    ultimately show ?thesis using that [of hm' "[NewLeafHealthMsg True us]" b'] by simp
  qed
qed

lemma leaf_step_ok:
  assumes "bfrt_ok cl vw" and "leaf_step ser parse b b'" and ok: "bus_ok cl vw k spines b"
  shows "bus_ok cl vw k spines b'"
  using assms(2)
proof (cases rule: leaf_step.cases)
  case (round ord clock hm' msgs)
  obtain h ms d where "processNodes_round ord clock (lbHealth b) = Ret h" "hmEgress h = hmEgress (lbHealth b) @ ms"
    "opt_fold (leafBus_updated ser) ms (b\<lparr>lbHealth := h\<rparr>) = Some (Ret d)" "bus_ok cl vw k spines d"
    by (rule round_message_ok [OF assms(1) ok round(2), of clock ser]) (rule that; assumption)
  with round show ?thesis by auto
qed (simp add: packet_ok [OF ok])

interpretation bi: invariant "\<lambda>b. bfrt_ok cl vw \<and> bus_ok cl vw k spines b" "leaf_step ser parse"
  for cl :: "'c bfrt" and vw k spines ser parse
  by unfold_locales (use leaf_step_ok in blast)

text \<open>
  C8: Whatever pings arrive and whatever servers fall silent, the switch of a leaf controller keeps forwarding
  the tasks of every worker to the port and the address of the server that has the worker now, although the
  IDs move when a server fails: after any sequence of packets and rounds, each with its message handled, every
  worker of the current topology has its entry. The next round and its message are handled without a crash: the
  servers that fell silent are gone, every worker of a remaining server has its entry under its new ID, the
  number of workers in the switch is that of the remaining servers if a message was sent, and nothing in the
  switch changed if none was. It is a statement on the workers that are left: no round deletes an
  entry, so those of IDs that nobody has any more stay as they were, and when only the last servers of
  the leaf fail no message is sent and the old number of workers stays too.
\<close>

theorem health_round_reaches_switch:
  assumes "bfrt_ok cl vw" and "bus_ok cl vw k spines b" and "(leaf_step ser parse)\<^sup>*\<^sup>* b b'" and "is_order ord"
  shows "routes_ok vw (lbClient b') (lbTopology b') (hmLeaf (lbHealth b')) \<and> hm_ok k (lbHealth b') \<and>
    (\<exists>hm' msgs b''. processNodes_round ord clock (lbHealth b') = Ret hm' \<and>
       hmEgress hm' = hmEgress (lbHealth b') @ msgs \<and>
       opt_fold (leafBus_updated ser) msgs (b'\<lparr>lbHealth := hm'\<rparr>) = Some (Ret b'') \<and>
       round_handled vw clock b' msgs b'')"
proof -
  have ok: "bus_ok cl vw k spines b'" using bi.reachable [OF assms(3), of cl vw k spines] assms(1,2) by blast
  obtain hm' msgs b'' where "processNodes_round ord clock (lbHealth b') = Ret hm'"
    "hmEgress hm' = hmEgress (lbHealth b') @ msgs"
    "opt_fold (leafBus_updated ser) msgs (b'\<lparr>lbHealth := hm'\<rparr>) = Some (Ret b'')" "round_handled vw clock b' msgs b''"
    by (rule round_message_ok [OF assms(1) ok assms(4), of clock ser]) (rule that; assumption)
  with ok show ?thesis by (auto simp: bus_ok_def)
qed

text \<open>\<open>sample\<close> with MAC addresses and a healthy server, and a switch that forwards to it.\<close>

definition sample_live :: Topology where
  "sample_live = upd_node 3 (\<lambda>n. n\<lparr>nHealthy := True, nReady := True\<rparr>) sample_mac"

definition sample_routes :: sw where
  "sample_routes = (\<lambda>tb ks. if ks \<in> keys_of sample_live 2 3 then Some (entry_of sample_live 3)
     else Some (entry_of sample_live 4), \<lambda>_ _. 0)"

definition sample_bus :: "sw LeafBus" where
  "sample_bus = NewBareLeafBus 0 (LeafCP_of_V1 sw_client (NewBfrtLeafCP_V1 (Some 2) []))
     (sample_hm\<lparr>hmTopology := sample_live\<rparr>) sample_routes"

lemma sample_live_nodes:
  "node sample_live q = (if q = 3 then (node sample 3)\<lparr>nAddress := ''02:00:00:00:00:03'', nHealthy := True, nReady := True\<rparr>
     else if q = 4 then (node sample 4)\<lparr>nAddress := ''02:00:00:00:00:04''\<rparr> else node sample q)"
  "tServers sample_live = tServers sample" "tLeaves sample_live = tLeaves sample" "tSpines sample_live = tSpines sample"
  "valid_node sample_live q = valid_node sample q"
proof -
  have "valid_node sample 3" "valid_node sample 4" by (simp_all add: sample_eval)
  then show "node sample_live q = (if q = 3 then (node sample 3)\<lparr>nAddress := ''02:00:00:00:00:03'', nHealthy := True, nReady := True\<rparr>
     else if q = 4 then (node sample 4)\<lparr>nAddress := ''02:00:00:00:00:04''\<rparr> else node sample q)"
    "tServers sample_live = tServers sample" "tLeaves sample_live = tLeaves sample" "tSpines sample_live = tSpines sample"
    "valid_node sample_live q = valid_node sample q"
    by (simp_all add: sample_live_def sample_mac_def ns.get_upd)
qed

lemma sample_live_workers: "workers_ok sample_live 2"
  by (simp add: workers_ok_def sample_live_nodes sample_nodes sample_servers total_workers_def worker_count_def last_worker_def)

lemma sample_bus_ok: "bus_ok sw_client sw_view 0 [] sample_bus"
proof -
  have sys: "sys_ok sample_live sample_vcm"
    by (rule sys_ok_same_tree [OF sample_sys_ok]) (simp_all add: sample_live_nodes tree_eq_iff)
  have hm: "hm_ok 0 (sample_hm\<lparr>hmTopology := sample_live\<rparr>)"
    using sys sample_live_workers by (simp add: hm_ok_def sample_live_nodes(3) sample_nodes)
  have ready: "leaf_ready sample_live 2"
    by (rule ready_from [where P = "\<lambda>_. True", OF sample_mac_ready sample_live_workers])
      (auto simp: sample_live_nodes sample_mac_nodes sample_nodes worker_count_def)
  have "keys_of sample_live 2 4 \<inter> keys_of sample_live 2 3 = {}"
    by (rule leaf_keys_disjoint) (use ready in \<open>auto simp: leaf_ready_def sample_live_nodes sample_nodes\<close>)
  then have "routes_ok sw_view sample_routes sample_live 2"
    by (auto simp: routes_ok_def sample_live_nodes(1) [of 2] sample_nodes sw_view_def sample_routes_def)
  with hm ready show ?thesis by (simp add: bus_ok_def sample_bus_def NewBareLeafBus_def)
qed

theorem health_round_reaches_switch_witness:
  "\<exists>hm' msgs b. processNodes_round stored_order (\<lambda>_. 10000000000) (lbHealth sample_bus) = Ret hm' \<and>
     opt_fold (leafBus_updated (\<lambda>_. Inr [])) msgs (sample_bus\<lparr>lbHealth := hm'\<rparr>) = Some (Ret b) \<and>
     round_handled sw_view (\<lambda>_. 10000000000) sample_bus msgs b"
  using health_round_reaches_switch [OF sw_ok sample_bus_ok rtranclp.rtrancl_refl is_order_stored,
    where ser = "\<lambda>_. Inr []" and clock = "\<lambda>_. 10000000000"] by blast

end
