(* ===== verification/Spine_CP_Correct.thy ===== *)
theory Spine_CP_Correct
  imports Event_Buses Leaf_CP_Correct
begin

text \<open>
  Version 2 of the control plane of a spine: which leaves the switch tracks after a failure.
\<close>

section \<open>The tracked leaves\<close>

definition track1 :: string where "track1 = ''pipe_spine.SpineIngress.leaf_id_map_1''"
definition track2 :: string where "track2 = ''pipe_spine.SpineIngress.leaf_id_map_2''"
definition qlen1 :: string where "qlen1 = ''pipe_spine.SpineIngress.queue_len_list_low''"
definition qlen2 :: string where "qlen2 = ''pipe_spine.SpineIngress.queue_len_list_high''"

definition tracked :: "'c switch_view \<Rightarrow> 'c \<Rightarrow> u64 \<Rightarrow> bool" where
  "tracked vw c leafID \<longleftrightarrow> leafID = svReg vw c track1 0 \<or> leafID = svReg vw c track2 0"

text \<open>The registers after the failure: the second best leaf moves up, the first leaf of the spine comes behind it.\<close>

definition regs_after_failure :: "(string \<Rightarrow> u64 \<Rightarrow> u64) \<Rightarrow> u64 \<Rightarrow> u64 \<Rightarrow> string \<Rightarrow> u64 \<Rightarrow> u64" where
  "regs_after_failure R failed first_leaf =
     (let R1 = (if R track1 0 = failed then reg_upd (reg_upd R track1 0 (R track2 0)) qlen1 0 (R qlen2 0) else R)
      in reg_upd (reg_upd R1 qlen2 0 100) track2 0 first_leaf)"

lemma regs_differ [simp]:
  "track1 \<noteq> track2" "track2 \<noteq> track1" "track1 \<noteq> qlen1" "qlen1 \<noteq> track1" "track1 \<noteq> qlen2" "qlen2 \<noteq> track1"
  "track2 \<noteq> qlen1" "qlen1 \<noteq> track2" "track2 \<noteq> qlen2" "qlen2 \<noteq> track2" "qlen1 \<noteq> qlen2" "qlen2 \<noteq> qlen1"
  by (simp_all add: track1_def track2_def qlen1_def qlen2_def)

lemma regs_after_failure_cells:
  "regs_after_failure R failed l track1 0 = (if R track1 0 = failed then R track2 0 else R track1 0)"
  "regs_after_failure R failed l track2 0 = l"
  by (simp_all add: regs_after_failure_def reg_upd_def)

text \<open>The run of version 2 on a failed leaf, with its registers named.\<close>

lemma V2_failure_eq:
  assumes "bfrt_ok cl vw" and "scpSpine cp = Some spine"
  shows "SpineCP_V2_OnLeafChange cl t cp leafID index False c =
    (if \<not> tracked vw c leafID then Ret c
     else go_bind (if svReg vw c track1 0 = leafID
                   then go_bind (put_reg cl track1 0 (svReg vw c track2 0) c) (put_reg cl qlen1 0 (svReg vw c qlen2 0))
                   else Ret c) (\<lambda>c.
          go_bind (put_reg cl qlen2 0 100 c) (\<lambda>c.
          first_child t spine (\<lambda>l0. put_reg cl track2 0 (ucast (nID (node t l0))) c))))"
  by (simp add: SpineCP_V2_OnLeafChange_def SpineCPOnLeafChangeAllVer_def assms(2) get_reg_ok [OF assms(1)] tracked_def
      Let_def track1_def track2_def qlen1_def qlen2_def)

lemma V2_moves_up:
  assumes "bfrt_ok cl vw"
  obtains c' where "(if P then go_bind (put_reg cl track1 0 a c) (put_reg cl qlen1 0 q) else Ret c) = Ret c'"
    "svTable vw c' = svTable vw c"
    "svReg vw c' = (if P then reg_upd (reg_upd (svReg vw c) track1 0 a) qlen1 0 q else svReg vw c)"
proof (cases P)
  case True
  obtain c1 where 1: "put_reg cl track1 0 a c = Ret c1" "svTable vw c1 = svTable vw c"
    "svReg vw c1 = reg_upd (svReg vw c) track1 0 a" by (rule put_reg_ok [OF assms small_index(2)])
  obtain c2 where "put_reg cl qlen1 0 q c1 = Ret c2" "svTable vw c2 = svTable vw c1"
    "svReg vw c2 = reg_upd (svReg vw c1) qlen1 0 q" by (rule put_reg_ok [OF assms small_index(2)])
  with 1 True that show ?thesis by auto
qed (use that in auto)

text \<open>The run for a tracked leaf while the spine has a leaf left.\<close>

lemma V2_failure_run:
  assumes bf: "bfrt_ok cl vw" and cp: "scpSpine cp = Some spine" and tr: "tracked vw c leafID"
    and ch: "nChildren (node t spine) = l0 # ls"
  obtains c' where "SpineCP_V2_OnLeafChange cl t cp leafID index False c = Ret c'" "svTable vw c' = svTable vw c"
    "svReg vw c' = regs_after_failure (svReg vw c) leafID (ucast (nID (node t l0)))"
proof -
  obtain c1 where 1: "(if svReg vw c track1 0 = leafID then go_bind (put_reg cl track1 0 (svReg vw c track2 0) c)
    (put_reg cl qlen1 0 (svReg vw c qlen2 0)) else Ret c) = Ret c1" "svTable vw c1 = svTable vw c"
    "svReg vw c1 = (if svReg vw c track1 0 = leafID then reg_upd (reg_upd (svReg vw c) track1 0 (svReg vw c track2 0))
      qlen1 0 (svReg vw c qlen2 0) else svReg vw c)" by (rule V2_moves_up [OF bf])
  obtain c2 where 2: "put_reg cl qlen2 0 100 c1 = Ret c2" "svTable vw c2 = svTable vw c1"
    "svReg vw c2 = reg_upd (svReg vw c1) qlen2 0 100" by (rule put_reg_ok [OF bf small_index(2)])
  obtain c3 where 3: "put_reg cl track2 0 (ucast (nID (node t l0))) c2 = Ret c3" "svTable vw c3 = svTable vw c2"
    "svReg vw c3 = reg_upd (svReg vw c2) track2 0 (ucast (nID (node t l0)))" by (rule put_reg_ok [OF bf small_index(2)])
  have run: "SpineCP_V2_OnLeafChange cl t cp leafID index False c = Ret c3"
    unfolding V2_failure_eq [OF bf cp] 1(1) using tr by (simp add: 2 first_child_def ch 3)
  show ?thesis by (rule that [OF run]) (simp_all add: regs_after_failure_def 1 2 3 Let_def)
qed

text \<open>
  C25: After a leaf has failed, version 2 changes nothing if the switch does not track that leaf. If it does, the
  run panics when the spine has no leaf left, and otherwise ends with the registers of regs\_after\_failure,
  where the second best leaf has become the best one with its queue length. If no remaining leaf has the ID of
  the failed one, then that ID is tracked no more, except if both registers held it.
\<close>

theorem failed_leaf_untracked:
  assumes "bfrt_ok cl vw" and "scpSpine cp = Some spine"
  shows "(\<not> tracked vw c leafID \<longrightarrow> SpineCP_V2_OnLeafChange cl t cp leafID index False c = Ret c) \<and>
    (tracked vw c leafID \<and> nChildren (node t spine) = [] \<longrightarrow>
       SpineCP_V2_OnLeafChange cl t cp leafID index False c = Panic) \<and>
    (\<forall>l0 ls. tracked vw c leafID \<and> nChildren (node t spine) = l0 # ls \<longrightarrow>
       (\<exists>c'. SpineCP_V2_OnLeafChange cl t cp leafID index False c = Ret c' \<and> svTable vw c' = svTable vw c \<and>
          svReg vw c' = regs_after_failure (svReg vw c) leafID (ucast (nID (node t l0))) \<and>
          ((\<forall>l \<in> set (l0 # ls). leafID \<noteq> ucast (nID (node t l))) \<longrightarrow>
             (tracked vw c' leafID \<longleftrightarrow> svReg vw c track1 0 = leafID \<and> svReg vw c track2 0 = leafID))))"
proof (intro conjI allI impI; (elim conjE)?)
  assume "\<not> tracked vw c leafID"
  then show "SpineCP_V2_OnLeafChange cl t cp leafID index False c = Ret c" by (simp add: V2_failure_eq [OF assms])
next
  assume tr: "tracked vw c leafID" and ch: "nChildren (node t spine) = []"
  obtain c1 where 1: "(if svReg vw c track1 0 = leafID then go_bind (put_reg cl track1 0 (svReg vw c track2 0) c)
    (put_reg cl qlen1 0 (svReg vw c qlen2 0)) else Ret c) = Ret c1" by (rule V2_moves_up [OF assms(1)])
  obtain c2 where 2: "put_reg cl qlen2 0 100 c1 = Ret c2" by (rule put_reg_ok [OF assms(1) small_index(2)])
  show "SpineCP_V2_OnLeafChange cl t cp leafID index False c = Panic"
    unfolding V2_failure_eq [OF assms] 1 using tr by (simp add: 2 first_child_def ch)
next
  fix l0 ls
  assume tr: "tracked vw c leafID" and ch: "nChildren (node t spine) = l0 # ls"
  obtain c3 where run: "SpineCP_V2_OnLeafChange cl t cp leafID index False c = Ret c3" and tb: "svTable vw c3 = svTable vw c"
    and regs: "svReg vw c3 = regs_after_failure (svReg vw c) leafID (ucast (nID (node t l0)))"
    by (rule V2_failure_run [OF assms tr ch])
  have "tracked vw c3 leafID \<longleftrightarrow> svReg vw c track1 0 = leafID \<and> svReg vw c track2 0 = leafID"
    if "\<forall>l \<in> set (l0 # ls). leafID \<noteq> ucast (nID (node t l))"
    using that by (auto simp: tracked_def regs regs_after_failure_cells)
  with run regs show "\<exists>c'. SpineCP_V2_OnLeafChange cl t cp leafID index False c = Ret c' \<and> svTable vw c' = svTable vw c \<and>
      svReg vw c' = regs_after_failure (svReg vw c) leafID (ucast (nID (node t l0))) \<and>
      ((\<forall>l \<in> set (l0 # ls). leafID \<noteq> ucast (nID (node t l))) \<longrightarrow>
         (tracked vw c' leafID \<longleftrightarrow> svReg vw c track1 0 = leafID \<and> svReg vw c track2 0 = leafID))"
    by (intro exI [of _ c3] conjI impI) (simp_all add: tb)
qed

text \<open>Both registers hold the failed leaf 7: it is still tracked.\<close>

theorem failed_leaf_untracked_witness:
  "\<exists>c'. SpineCP_V2_OnLeafChange sw_client sample \<lparr>scpSpine = Some 1\<rparr> 7 0 False (fst empty_sw, \<lambda>_ _. 7) = Ret c' \<and>
     snd c' track1 0 = 7"
proof -
  let ?c = "(fst empty_sw, \<lambda>_ _. 7) :: sw"
  have ch: "nChildren (node sample 1) = [2, 5]" by (simp add: sample_eval)
  have tr: "tracked sw_view ?c 7" by (simp add: tracked_def sw_view_def)
  have cp: "scpSpine \<lparr>scpSpine = Some 1\<rparr> = Some 1" by simp
  from failed_leaf_untracked [OF sw_ok cp, of ?c 7 sample 0] ch tr obtain c' where
    "SpineCP_V2_OnLeafChange sw_client sample \<lparr>scpSpine = Some 1\<rparr> 7 0 False ?c = Ret c'"
    "svReg sw_view c' = regs_after_failure (svReg sw_view ?c) 7 (ucast (nID (node sample 2)))" by blast
  then show ?thesis by (intro exI [of _ c']) (simp add: sw_view_def regs_after_failure_cells)
qed

end
