(* ===== verification/Spine_Maps_Correct.thy ===== *)
theory Spine_Maps_Correct
  imports Spine_CP_Correct
begin

text \<open>
  The version 1 control plane of a spine: after every change of the leaves the data plane has exactly the leaves of
  the topology, each ID with its index and each index with its ID.
\<close>

section \<open>Rows of entries\<close>

type_synonym entry_write = "(string \<times> key_field list) \<times> string \<times> data_field list"

fun put :: "'c bfrt \<Rightarrow> entry_write \<Rightarrow> 'c \<Rightarrow> 'c go" where
  "put cl ((table, ks), a, ds) = put_table cl table ks a ds"

fun written :: "entry_write \<Rightarrow> (string \<Rightarrow> key_field list \<Rightarrow> (string \<times> data_field list) option) \<Rightarrow>
    string \<Rightarrow> key_field list \<Rightarrow> (string \<times> data_field list) option" where
  "written ((table, ks), e) T = table_upd T table ks e"

lemma puts_ok:
  assumes bf: "bfrt_ok cl vw"
  shows "\<exists>c'. go_fold (put cl) ws c = Ret c' \<and> svTable vw c' = fold written ws (svTable vw c)"
proof (induction ws arbitrary: c)
  case (Cons w ws)
  obtain table ks a ds where w: "w = ((table, ks), a, ds)" by (cases w) auto
  obtain c1 where "put_table cl table ks a ds c = Ret c1" "svTable vw c1 = table_upd (svTable vw c) table ks (a, ds)"
    by (rule put_table_ok [OF bf])
  with Cons [of c1] w show ?case by auto
qed simp

text \<open>No entry is written twice: then all of them are there at the end.\<close>

lemma written_other: "(table, ks) \<notin> fst ` set ws \<Longrightarrow> fold written ws T table ks = T table ks"
proof (induction ws arbitrary: T)
  case (Cons w ws)
  obtain tb k e where "w = ((tb, k), e)" by (cases w) auto
  with Cons show ?case by (auto simp: table_upd_def)
qed simp

lemma written_all:
  "distinct (map fst ws) \<Longrightarrow> ((table, ks), e) \<in> set ws \<Longrightarrow> fold written ws T table ks = Some e"
proof (induction ws arbitrary: T)
  case (Cons w ws)
  show ?case
  proof (cases "w = ((table, ks), e)")
    case True
    with Cons.prems(1) have "(table, ks) \<notin> fst ` set ws" by auto
    with True show ?thesis by (simp add: written_other table_upd_def)
  qed (use Cons in auto)
qed simp

section \<open>The entries of the leaves\<close>

definition leaf_writes :: "Topology \<Rightarrow> nref \<Rightarrow> entry_write list" where
  "leaf_writes t leaf =
     (let leafID = ucast (nID (node t leaf)); i = ucast (nIndex (node t leaf)) in
      [((''pipe_spine.SpineIngress.get_switch_index'', switch_index_keys leafID),
        ''SpineIngress.act_get_switch_index'', [BytesData ''switch_index'' i]),
       ((''pipe_spine.SpineIngress.get_rand_leaf_id_1'', rand_leaf_keys ''horus_md.random_ds_index_1'' i),
        ''SpineIngress.act_get_rand_leaf_id_1'', [BytesData ''leaf_id'' leafID]),
       ((''pipe_spine.SpineIngress.get_rand_leaf_id_2'', rand_leaf_keys ''horus_md.random_ds_index_2'' i),
        ''SpineIngress.act_get_rand_leaf_id_2'', [BytesData ''leaf_id'' leafID])])"

lemma go_fold_fun: "go_fold f [] = Ret" "go_fold f (x # xs) = (\<lambda>s. go_bind (f x s) (go_fold f xs))"
  by (simp_all add: fun_eq_iff)

lemma map_leaf_writes: "spine_V1_map_leaf cl t leaf = go_fold (put cl) (leaf_writes t leaf)"
proof -
  have "go_bind m Ret = m" for m :: "'a go" by (cases m) simp_all
  then show ?thesis unfolding go_fold_fun leaf_writes_def Let_def by (simp add: fun_eq_iff spine_V1_map_leaf_def Let_def)
qed

lemma map_leaves_writes:
  "go_fold (spine_V1_map_leaf cl t) leaves c = go_fold (put cl) (concat (map (leaf_writes t) leaves)) c"
  by (induction leaves arbitrary: c) (auto simp: go_fold_append map_leaf_writes intro!: go_bind_cong)

lemma leaf_writes_distinct:
  assumes "distinct (map (\<lambda>l. nID (node t l)) leaves)" and "distinct (map (\<lambda>l. nIndex (node t l)) leaves)"
  shows "distinct (map fst (concat (map (leaf_writes t) leaves)))"
  using assms
proof (induction leaves)
  case (Cons l leaves)
  have "\<not> (\<exists>w \<in> set (leaf_writes t l). \<exists>w' \<in> set (leaf_writes t l'). fst w = fst w')" if "l' \<in> set leaves" for l'
    using Cons.prems that
    by (auto simp: leaf_writes_def Let_def switch_index_keys_def rand_leaf_keys_def simp: ucast_64_inj)
  moreover have "distinct (map fst (leaf_writes t l))" by (simp add: leaf_writes_def Let_def)
  ultimately show ?case using Cons by fastforce
qed simp

text \<open>There are no more nodes than IDs.\<close>

lemma distinct_ids_few:
  assumes "distinct (map f xs :: u16 list)"
  shows "length xs \<le> 2 ^ 16"
proof -
  have "length xs = card (set (map f xs))" using distinct_card [OF assms] by simp
  also have "\<dots> \<le> card (UNIV :: u16 set)" by (rule card_mono) simp_all
  finally show ?thesis by (simp add: card_word)
qed

lemma spine_leaves_distinct:
  assumes wf: "wf_topo t" and p: "gm_load (tSpines t) k = Some p" and ix: "indices_ok t"
  shows "distinct (map (\<lambda>l. nID (node t l)) (nChildren (node t p)))"
    and "distinct (map (\<lambda>l. nIndex (node t l)) (nChildren (node t p)))"
proof -
  let ?ls = "nChildren (node t p)"
  have d: "distinct ?ls" using wf_spine [OF wf p] by (simp add: spine_ok_def)
  then show ids: "distinct (map (\<lambda>l. nID (node t l)) ?ls)"
    using wf_leaf_child_inj [OF wf p] by (simp add: distinct_map inj_on_def)
  note few = distinct_ids_few [OF ids]
  have idx: "nIndex (node t (?ls ! i)) = of_nat i" if "i < length ?ls" for i
    using ix p that by (simp add: indices_ok_def)
  have "i = j" if "i < length ?ls" "j < length ?ls" "(of_nat i :: u16) = of_nat j" for i j
  proof -
    have "unat (of_nat n :: u16) = n" if "n < length ?ls" for n
      using that few by (simp add: unsigned_of_nat take_bit_nat_eq_self_iff)
    with that show ?thesis by metis
  qed
  then show "distinct (map (\<lambda>l. nIndex (node t l)) ?ls)" using idx by (simp add: distinct_conv_nth) metis
qed

section \<open>A change of the leaves\<close>

lemma queue_cells_effect:
  assumes bf: "bfrt_ok cl vw" and "go_bind (put_reg cl r1 slot 0 c) (\<lambda>c. go_bind (put_reg cl r2 slot 0 c) (\<lambda>c.
    go_bind (put_reg cl r3 slot 0 c) (put_reg cl r4 slot 0))) = Ret c'"
  shows "svTable vw c' = svTable vw c"
  using assms(2) put_reg_effect(1) [OF bf] by auto

lemma put_reg_returns:
  assumes "\<forall>reg c. snd (bfInsert cl (RegisterEntry reg i 0) c) = None"
  shows "\<exists>c'. put_reg cl reg i 0 c = Ret c'"
  using spec [OF spec [OF assms], of reg c]
  by (cases "bfInsert cl (RegisterEntry reg i 0) c") (simp add: put_reg_def must_def)

lemma queue_cells_return:
  assumes "\<forall>reg c. snd (bfInsert cl (RegisterEntry reg slot 0) c) = None"
  shows "\<exists>c'. go_bind (put_reg cl r1 slot 0 c) (\<lambda>c. go_bind (put_reg cl r2 slot 0 c) (\<lambda>c.
    go_bind (put_reg cl r3 slot 0 c) (put_reg cl r4 slot 0))) = Ret c'"
proof -
  note w = put_reg_returns [OF assms]
  obtain c1 where 1: "put_reg cl r1 slot 0 c = Ret c1" using w by blast
  obtain c2 where 2: "put_reg cl r2 slot 0 c1 = Ret c2" using w by blast
  obtain c3 where 3: "put_reg cl r3 slot 0 c2 = Ret c3" using w by blast
  obtain c4 where 4: "put_reg cl r4 slot 0 c3 = Ret c4" using w by blast
  show ?thesis by (simp add: 1 2 3 4)
qed

text \<open>The last slot of the queue cells has a 16-bit index as long as there is a leaf.\<close>

lemma last_slot_small:
  assumes wf: "wf_topo t" and p: "gm_load (tSpines t) k = Some p" and ch: "nChildren (node t p) \<noteq> []"
  shows "(of_nat (length (nChildren (node t p))) - 1 :: u64) < 2 ^ 16"
proof -
  let ?ls = "nChildren (node t p)"
  have "distinct ?ls" using wf_spine [OF wf p] by (simp add: spine_ok_def)
  then have "distinct (map (\<lambda>l. nID (node t l)) ?ls)"
    using wf_leaf_child_inj [OF wf p] by (simp add: distinct_map inj_on_def)
  from distinct_ids_few [OF this] have "length ?ls - 1 < 2 ^ 16" by simp
  from small_position [OF this] show ?thesis using ch by (simp add: of_nat_diff Suc_le_eq)
qed

lemma last_slot_ok:
  assumes bf: "bfrt_ok cl vw" and wf: "wf_topo t" and p: "gm_load (tSpines t) k = Some p"
    and none: "nChildren (node t p) = [] \<Longrightarrow> \<forall>reg c. snd (bfInsert cl (RegisterEntry reg (- 1) 0) c) = None"
  shows "\<forall>reg c. snd (bfInsert cl (RegisterEntry reg (of_nat (length (nChildren (node t p))) - 1) 0) c) = None"
proof (cases "nChildren (node t p) = []")
  case True
  with none show ?thesis by simp
next
  case False
  from bfrt_okD(4) [OF bf last_slot_small [OF wf p this]] show ?thesis by blast
qed

text \<open>The forwarding entry of an added leaf.\<close>

abbreviation spine_fwd_table :: string where
  "spine_fwd_table \<equiv> ''pipe_spine.SpineIngress.forward_horus_switch_dst''"

definition fwd_entry :: "Topology \<Rightarrow> nref \<Rightarrow> string \<times> data_field list" where
  "fwd_entry t l = (''SpineIngress.act_forward_horus'',
     [BytesData ''port'' (GetDevPort (port (tHw t) (the (nDsPort (node t l)))))])"

lemma new_leaf_port_effect:
  assumes bf: "bfrt_ok cl vw" and run: "SpineCPOnLeafChangeAllVer cl leafID added t c = Ret c'"
  shows "svTable vw c' = (if added
    then table_upd (svTable vw c) spine_fwd_table [ExactKey ''hdr.horus.dst_id'' leafID] (fwd_entry t (the (gm_load (tLeaves t) (ucast leafID))))
    else svTable vw c)"
proof (cases added)
  case True
  with run obtain l q where l: "gm_load (tLeaves t) (ucast leafID) = Some l" "nDsPort (node t l) = Some q"
    by (auto simp: SpineCPOnLeafChangeAllVer_def returned)
  obtain c1 where c1: "put_table cl spine_fwd_table [ExactKey ''hdr.horus.dst_id'' leafID]
      (fst (fwd_entry t l)) (snd (fwd_entry t l)) c = Ret c1"
    "svTable vw c1 = table_upd (svTable vw c) spine_fwd_table [ExactKey ''hdr.horus.dst_id'' leafID]
      (fst (fwd_entry t l), snd (fwd_entry t l))"
    by (rule put_table_ok [OF bf])
  have "c' = c1" using run True l c1(1) by (simp add: SpineCPOnLeafChangeAllVer_def fwd_entry_def)
  with c1(2) True l(1) show ?thesis by simp
qed (use run in \<open>simp add: SpineCPOnLeafChangeAllVer_def\<close>)

lemma new_leaf_port_ok:
  assumes bf: "bfrt_ok cl vw" and wf: "wf_topo t" and "added \<Longrightarrow> gm_load (tLeaves t) (ucast leafID) \<noteq> None"
  shows "\<exists>c'. SpineCPOnLeafChangeAllVer cl leafID added t c = Ret c'"
proof (cases added)
  case True
  with assms(3) obtain l where l: "gm_load (tLeaves t) (ucast leafID) = Some l" by blast
  from wf_leaf [OF wf l] obtain q where q: "nDsPort (node t l) = Some q" by (auto simp: leaf_ok_def)
  obtain c' where "put_table cl spine_fwd_table [ExactKey ''hdr.horus.dst_id'' leafID]
      ''SpineIngress.act_forward_horus'' [BytesData ''port'' (GetDevPort (port (tHw t) q))] c = Ret c'"
    by (rule put_table_ok [OF bf])
  then show ?thesis using True l q by (simp add: SpineCPOnLeafChangeAllVer_def)
qed (simp add: SpineCPOnLeafChangeAllVer_def)

text \<open>All that version 1 writes to the tables, whenever it returns.\<close>

abbreviation num_leafs_table :: string where
  "num_leafs_table \<equiv> ''pipe_spine.SpineIngress.get_cluster_num_valid_leafs''"

definition num_entry :: "nat \<Rightarrow> string \<times> data_field list" where
  "num_entry n = (''SpineIngress.act_get_cluster_num_valid_leafs'', [BytesData ''num_leafs'' (of_nat n)])"

lemma V1_change_effect:
  assumes bf: "bfrt_ok cl vw" and cp: "scpSpine cp = Some p"
    and run: "SpineCP_V1_OnLeafChange cl t cp leafID index added c = Ret c'"
  shows "svTable vw c' = table_upd (fold written (concat (map (leaf_writes t) (nChildren (node t p))))
    (if added then table_upd (svTable vw c) spine_fwd_table [ExactKey ''hdr.horus.dst_id'' leafID]
       (fwd_entry t (the (gm_load (tLeaves t) (ucast leafID))))
     else svTable vw c)) num_leafs_table [pool_key] (num_entry (length (nChildren (node t p))))"
proof -
  let ?ls = "nChildren (node t p)"
  let ?slot = "of_nat (length ?ls) - 1 :: u64" and ?ws = "concat (map (leaf_writes t) ?ls)"
  from run obtain c1 where 1: "SpineCPOnLeafChangeAllVer cl leafID added t c = Ret c1"
    by (cases "SpineCPOnLeafChangeAllVer cl leafID added t c") (simp_all add: SpineCP_V1_OnLeafChange_def cp)
  obtain c2 where 2: "go_fold (spine_V1_map_leaf cl t) ?ls c1 = Ret c2" "svTable vw c2 = fold written ?ws (svTable vw c1)"
    using puts_ok [OF bf, of ?ws c1] by (auto simp: map_leaves_writes)
  let ?e = "num_entry (length ?ls)"
  obtain c3 where 3: "put_table cl num_leafs_table [pool_key] (fst ?e) (snd ?e) c2 = Ret c3"
    "svTable vw c3 = table_upd (svTable vw c2) num_leafs_table [pool_key] (fst ?e, snd ?e)" by (rule put_table_ok [OF bf])
  have "go_bind (put_reg cl ''pipe_spine.SpineIngress.queue_len_list_1'' ?slot 0 c3) (\<lambda>c.
       go_bind (put_reg cl ''pipe_spine.SpineIngress.queue_len_list_2'' ?slot 0 c) (\<lambda>c.
       go_bind (put_reg cl ''pipe_spine.SpineIngress.deferred_queue_len_list_1'' ?slot 0 c)
         (put_reg cl ''pipe_spine.SpineIngress.deferred_queue_len_list_2'' ?slot 0))) = Ret c'"
    using run 3(1) unfolding SpineCP_V1_OnLeafChange_def cp deref_simps 1 Let_def go_bind.simps 2(1)
    by (simp only: num_entry_def fst_conv snd_conv go_bind.simps)
  from queue_cells_effect [OF bf this] show ?thesis by (simp add: 3(2) 2(2) new_leaf_port_effect [OF bf 1])
qed

lemma V1_change_returns:
  assumes bf: "bfrt_ok cl vw" and wf: "wf_topo t" and p: "gm_load (tSpines t) k = Some p"
    and cp: "scpSpine cp = Some p" and new: "added \<Longrightarrow> gm_load (tLeaves t) (ucast leafID) \<noteq> None"
    and none: "nChildren (node t p) = [] \<Longrightarrow> \<forall>reg c. snd (bfInsert cl (RegisterEntry reg (- 1) 0) c) = None"
  shows "\<exists>c'. SpineCP_V1_OnLeafChange cl t cp leafID index added c = Ret c'"
proof -
  let ?ls = "nChildren (node t p)"
  let ?ws = "concat (map (leaf_writes t) ?ls)"
  obtain c1 where 1: "SpineCPOnLeafChangeAllVer cl leafID added t c = Ret c1" using new_leaf_port_ok [OF bf wf new] by blast
  obtain c2 where 2: "go_fold (spine_V1_map_leaf cl t) ?ls c1 = Ret c2"
    using puts_ok [OF bf, of ?ws c1] by (auto simp: map_leaves_writes)
  obtain c3 where 3: "put_table cl num_leafs_table [pool_key] ''SpineIngress.act_get_cluster_num_valid_leafs''
    [BytesData ''num_leafs'' (of_nat (length ?ls))] c2 = Ret c3" by (rule put_table_ok [OF bf])
  from queue_cells_return [OF last_slot_ok [OF bf wf p none]] show ?thesis
    unfolding SpineCP_V1_OnLeafChange_def cp deref_simps 1 Let_def go_bind.simps 2 3 by blast
qed

text \<open>What the tables hold for a list of leaves, each given by its ID and its index.\<close>

definition spine_leaves :: "Topology \<Rightarrow> nref \<Rightarrow> (u16 \<times> u16) list" where
  "spine_leaves t p = map (\<lambda>l. (nID (node t l), nIndex (node t l))) (nChildren (node t p))"

definition spine_maps :: "'c switch_view \<Rightarrow> 'c \<Rightarrow> (u16 \<times> u16) list \<Rightarrow> bool" where
  "spine_maps vw c ls \<longleftrightarrow>
     svTable vw c ''pipe_spine.SpineIngress.get_cluster_num_valid_leafs'' [pool_key] =
       Some (''SpineIngress.act_get_cluster_num_valid_leafs'', [BytesData ''num_leafs'' (of_nat (length ls))]) \<and>
     (\<forall>(leafID, i) \<in> set ls.
       svTable vw c ''pipe_spine.SpineIngress.get_switch_index'' (switch_index_keys (ucast leafID)) =
         Some (''SpineIngress.act_get_switch_index'', [BytesData ''switch_index'' (ucast i)]) \<and>
       svTable vw c ''pipe_spine.SpineIngress.get_rand_leaf_id_1'' (rand_leaf_keys ''horus_md.random_ds_index_1'' (ucast i)) =
         Some (''SpineIngress.act_get_rand_leaf_id_1'', [BytesData ''leaf_id'' (ucast leafID)]) \<and>
       svTable vw c ''pipe_spine.SpineIngress.get_rand_leaf_id_2'' (rand_leaf_keys ''horus_md.random_ds_index_2'' (ucast i)) =
         Some (''SpineIngress.act_get_rand_leaf_id_2'', [BytesData ''leaf_id'' (ucast leafID)]))"

lemma leaf_change_effect:
  assumes bf: "bfrt_ok cl vw" and wf: "wf_topo t" and p: "gm_load (tSpines t) k = Some p" and ix: "indices_ok t"
    and cp: "scpSpine cp = Some p" and run: "SpineCP_V1_OnLeafChange cl t cp leafID index added c = Ret c'"
  shows "spine_maps vw c' (spine_leaves t p)"
    and "svTable vw c tb ks \<noteq> None \<Longrightarrow> svTable vw c' tb ks \<noteq> None"
proof -
  let ?ls = "nChildren (node t p)"
  let ?ws = "concat (map (leaf_writes t) ?ls)"
  note eff = V1_change_effect [OF bf cp run]
  have "svTable vw c' tb ks = Some e" if "((tb, ks), e) \<in> set (leaf_writes t l)" "l \<in> set ?ls" for tb ks e l
  proof -
    have "((tb, ks), e) \<in> set ?ws" using that by auto
    note w = written_all [OF leaf_writes_distinct [OF spine_leaves_distinct [OF wf p ix]] this]
    have "tb \<noteq> num_leafs_table" using that(1) by (auto simp: leaf_writes_def Let_def)
    then show ?thesis by (simp add: eff w table_upd_def)
  qed
  then have "\<forall>(leafID, i) \<in> set (spine_leaves t p).
       svTable vw c' ''pipe_spine.SpineIngress.get_switch_index'' (switch_index_keys (ucast leafID)) =
         Some (''SpineIngress.act_get_switch_index'', [BytesData ''switch_index'' (ucast i)]) \<and>
       svTable vw c' ''pipe_spine.SpineIngress.get_rand_leaf_id_1'' (rand_leaf_keys ''horus_md.random_ds_index_1'' (ucast i)) =
         Some (''SpineIngress.act_get_rand_leaf_id_1'', [BytesData ''leaf_id'' (ucast leafID)]) \<and>
       svTable vw c' ''pipe_spine.SpineIngress.get_rand_leaf_id_2'' (rand_leaf_keys ''horus_md.random_ds_index_2'' (ucast i)) =
         Some (''SpineIngress.act_get_rand_leaf_id_2'', [BytesData ''leaf_id'' (ucast leafID)])"
    by (simp add: leaf_writes_def Let_def spine_leaves_def)
  moreover have "svTable vw c' num_leafs_table [pool_key] = Some (num_entry (length ?ls))" by (simp add: eff table_upd_def)
  ultimately show "spine_maps vw c' (spine_leaves t p)" by (simp add: spine_maps_def spine_leaves_def num_entry_def)
  have kept: "T tb ks \<noteq> None \<Longrightarrow> table_upd T a b x tb ks \<noteq> None" for T a b x by (auto simp: table_upd_def)
  have all: "T tb ks \<noteq> None \<Longrightarrow> fold written ws T tb ks \<noteq> None" for ws T
  proof (induction ws arbitrary: T)
    case (Cons w ws)
    obtain a b x where "w = ((a, b), x)" by (cases w) auto
    with Cons kept [of T a b x] show ?case by simp
  qed simp
  have opt: "T tb ks \<noteq> None \<Longrightarrow> (if P then table_upd T a b x else T) tb ks \<noteq> None" for P T a b x
    using kept [of T a b x] by (cases P) simp_all
  show "svTable vw c tb ks \<noteq> None \<Longrightarrow> svTable vw c' tb ks \<noteq> None"
    unfolding eff by (rule kept, rule all, rule opt)
qed

lemma leaf_change_maps:
  assumes bf: "bfrt_ok cl vw" and wf: "wf_topo t" and p: "gm_load (tSpines t) k = Some p" and ix: "indices_ok t"
    and cp: "scpSpine cp = Some p" and new: "added \<Longrightarrow> gm_load (tLeaves t) (ucast leafID) \<noteq> None"
    and none: "nChildren (node t p) = [] \<Longrightarrow> \<forall>reg c. snd (bfInsert cl (RegisterEntry reg (- 1) 0) c) = None"
  obtains c' where "SpineCP_V1_OnLeafChange cl t cp leafID index added c = Ret c'" "spine_maps vw c' (spine_leaves t p)"
  using V1_change_returns [OF bf wf p cp new none] leaf_change_effect(1) [OF bf wf p ix cp] by blast

text \<open>
  C26: The version 1 control plane of a spine follows every change of its leaves: when the topology is consistent and a
  new leaf is in it, the handler returns, and then the switch has the number of the leaves, maps the ID of each to its
  index, and maps each index, in both tables of the random choice, to the leaf with this index. When the spine has no
  leaf left, the handler writes four registers at index \<open>-1\<close>, and it returns if these writes succeed.
\<close>

theorem leaf_change_maps_exact:
  assumes bf: "bfrt_ok cl vw" and wf: "wf_topo t" and p: "gm_load (tSpines t) k = Some p" and ix: "indices_ok t"
    and cp: "scpSpine cp = Some p"
    and new: "added \<Longrightarrow> gm_load (tLeaves t) (ucast leafID) \<noteq> None"
    and none: "nChildren (node t p) = [] \<Longrightarrow> \<forall>reg c. snd (bfInsert cl (RegisterEntry reg (- 1) 0) c) = None"
  shows "\<exists>c'. SpineCP_V1_OnLeafChange cl t cp leafID index added c = Ret c' \<and>
    svTable vw c' ''pipe_spine.SpineIngress.get_cluster_num_valid_leafs'' [pool_key] =
      Some (''SpineIngress.act_get_cluster_num_valid_leafs'', [BytesData ''num_leafs'' (of_nat (length (nChildren (node t p))))]) \<and>
    (\<forall>l \<in> set (nChildren (node t p)).
      let leafID = ucast (nID (node t l)); i = ucast (nIndex (node t l)) in
      svTable vw c' ''pipe_spine.SpineIngress.get_switch_index'' (switch_index_keys leafID) =
        Some (''SpineIngress.act_get_switch_index'', [BytesData ''switch_index'' i]) \<and>
      svTable vw c' ''pipe_spine.SpineIngress.get_rand_leaf_id_1'' (rand_leaf_keys ''horus_md.random_ds_index_1'' i) =
        Some (''SpineIngress.act_get_rand_leaf_id_1'', [BytesData ''leaf_id'' leafID]) \<and>
      svTable vw c' ''pipe_spine.SpineIngress.get_rand_leaf_id_2'' (rand_leaf_keys ''horus_md.random_ds_index_2'' i) =
        Some (''SpineIngress.act_get_rand_leaf_id_2'', [BytesData ''leaf_id'' leafID]))"
proof (rule leaf_change_maps [OF assms])
  fix c' assume "SpineCP_V1_OnLeafChange cl t cp leafID index added c = Ret c'" "spine_maps vw c' (spine_leaves t p)"
  then show ?thesis by (intro exI [of _ c'] conjI) (simp_all add: spine_maps_def spine_leaves_def Let_def)
qed

theorem leaf_change_maps_exact_witness:
  "\<exists>c'. SpineCP_V1_OnLeafChange sw_client sample (NewBfrtSpineCP_V1 (Some 1)) 1 1 True empty_sw = Ret c' \<and>
     fst c' ''pipe_spine.SpineIngress.get_switch_index'' (switch_index_keys (ucast (nID (node sample 5)))) =
       Some (''SpineIngress.act_get_switch_index'', [BytesData ''switch_index'' (ucast (nIndex (node sample 5)))])"
proof -
  have "scpSpine (NewBfrtSpineCP_V1 (Some 1)) = Some 1"
    "gm_load (tLeaves sample) (ucast (1 :: u64)) \<noteq> None"
    unfolding sample_nodes NewBfrtSpineCP_V1_def by (simp_all add: sample_nodes)
  moreover have "\<forall>reg c. snd (bfInsert sw_client (RegisterEntry reg (- 1) 0) c) = None" by (simp add: sw_client_def)
  ultimately have "scpSpine (NewBfrtSpineCP_V1 (Some 1)) = Some 1" "gm_load (tLeaves sample) (ucast (1 :: u64)) \<noteq> None"
    "\<forall>reg c. snd (bfInsert sw_client (RegisterEntry reg (- 1) 0) c) = None" by blast+
  from leaf_change_maps_exact [OF sw_ok sample_wf sample_nodes(7) sample_indices this(1), of True 1 1 empty_sw] this(2,3)
  obtain c' where r: "SpineCP_V1_OnLeafChange sw_client sample (NewBfrtSpineCP_V1 (Some 1)) 1 1 True empty_sw = Ret c'"
    and all: "\<forall>l \<in> set (nChildren (node sample 1)).
      fst c' ''pipe_spine.SpineIngress.get_switch_index'' (switch_index_keys (ucast (nID (node sample l)))) =
        Some (''SpineIngress.act_get_switch_index'', [BytesData ''switch_index'' (ucast (nIndex (node sample l)))])"
    unfolding Let_def sw_view_def switch_view.simps by blast
  have "(5::nat) \<in> set (nChildren (node sample 1))" unfolding sample_nodes by simp
  from bspec [OF all this] r show ?thesis by blast
qed

end
