(* ===== verification/Spine_Bus_Correct.thy ===== *)
theory Spine_Bus_Correct
  imports Spine_Maps_Correct
begin

text \<open>
  The spine bus and leaves without servers: a leaf that is announced before it has a server waits, and its first
  server brings it into the forwarding table of the switch, with either version of the control plane.
\<close>

section \<open>A change of the leaves, with either version\<close>

definition switch_cps :: "'c bfrt \<Rightarrow> nref \<Rightarrow> 'c SpineCP set" where
  "switch_cps cl p = {SpineCP_of_V1 cl (NewBfrtSpineCP_V1 (Some p)), SpineCP_of_V2 cl (NewBfrtSpineCP_V2 (Some p))}"

text \<open>A consistent topology in which the spine has a leaf.\<close>

definition spine_ready :: "nref \<Rightarrow> Topology \<Rightarrow> bool" where
  "spine_ready p t \<longleftrightarrow> wf_topo t \<and> gm_load (tSpines t) (nID (node t p)) = Some p \<and> nChildren (node t p) \<noteq> []"

lemma leaf_writes_tables: "(spine_fwd_table, ks) \<notin> fst ` set (concat (map (leaf_writes t) leaves))"
  by (auto simp: leaf_writes_def Let_def)

lemma V1_change_fwd:
  assumes bf: "bfrt_ok cl vw" and t: "spine_ready p t" and cp: "scpSpine cp = Some p"
    and new: "added \<Longrightarrow> gm_load (tLeaves t) (ucast leafID) \<noteq> None"
  obtains c' where "SpineCP_V1_OnLeafChange cl t cp leafID index added c = Ret c'"
    "svTable vw c' spine_fwd_table = (if added
      then (svTable vw c spine_fwd_table)([ExactKey ''hdr.horus.dst_id'' leafID] \<mapsto> fwd_entry t (the (gm_load (tLeaves t) (ucast leafID))))
      else svTable vw c spine_fwd_table)"
proof -
  note r = t [unfolded spine_ready_def]
  have "\<exists>c'. SpineCP_V1_OnLeafChange cl t cp leafID index added c = Ret c'"
    by (rule V1_change_returns [OF bf _ _ cp new]) (use r in auto)
  then obtain c' where run: "SpineCP_V1_OnLeafChange cl t cp leafID index added c = Ret c'" by blast
  show ?thesis
    by (rule that [OF run], rule ext)
      (simp add: V1_change_effect [OF bf cp run] written_other [OF leaf_writes_tables] table_upd_def)
qed

lemma V2_change_fwd:
  assumes bf: "bfrt_ok cl vw" and t: "spine_ready p t" and cp: "scpSpine cp = Some p"
    and new: "added \<Longrightarrow> gm_load (tLeaves t) (ucast leafID) \<noteq> None"
  obtains c' where "SpineCP_V2_OnLeafChange cl t cp leafID index added c = Ret c'"
    "svTable vw c' spine_fwd_table = (if added
      then (svTable vw c spine_fwd_table)([ExactKey ''hdr.horus.dst_id'' leafID] \<mapsto> fwd_entry t (the (gm_load (tLeaves t) (ucast leafID))))
      else svTable vw c spine_fwd_table)"
proof (cases added)
  case True
  from t have wf: "wf_topo t" by (simp add: spine_ready_def)
  obtain c' where c': "SpineCPOnLeafChangeAllVer cl leafID added t c = Ret c'" using new_leaf_port_ok [OF bf wf new] by blast
  with True have "SpineCP_V2_OnLeafChange cl t cp leafID index added c = Ret c'" by (simp add: SpineCP_V2_OnLeafChange_def cp)
  then show ?thesis by (rule that) (simp add: new_leaf_port_effect [OF bf c'] True table_upd_def)
next
  case False
  from t obtain l0 ls where ch: "nChildren (node t p) = l0 # ls" by (cases "nChildren (node t p)") (simp_all add: spine_ready_def)
  show ?thesis
  proof (cases "tracked vw c leafID")
    case True
    obtain c' where "SpineCP_V2_OnLeafChange cl t cp leafID index False c = Ret c'" "svTable vw c' = svTable vw c"
      by (rule V2_failure_run [OF bf cp True ch])
    with False that show ?thesis by simp
  next
    case un: False
    from un have "SpineCP_V2_OnLeafChange cl t cp leafID index False c = Ret c" by (simp add: V2_failure_eq [OF bf cp])
    with False that [of c] show ?thesis by simp
  qed
qed

section \<open>The steps of the bus\<close>

definition fwd_keys :: "u16 \<Rightarrow> key_field list" where
  "fwd_keys k = [ExactKey ''hdr.horus.dst_id'' (ucast k)]"

text \<open>The leaf has the forwarding entry that one of the given topologies asks for.\<close>

definition entered :: "'c switch_view \<Rightarrow> Topology set \<Rightarrow> u16 \<Rightarrow> 'c \<Rightarrow> bool" where
  "entered vw T k c \<longleftrightarrow> (\<exists>t \<in> T. \<exists>l. gm_load (tLeaves t) k = Some l \<and>
     svTable vw c spine_fwd_table (fwd_keys k) = Some (fwd_entry t l))"

definition awaited :: "'c switch_view \<Rightarrow> Topology set \<Rightarrow> u16 \<Rightarrow> 'c SpineBus \<Rightarrow> bool" where
  "awaited vw T k b \<longleftrightarrow> pending b k \<noteq> 0 \<or> entered vw T k (sbClient b)"

lemma change_step:
  assumes bf: "bfrt_ok cl vw" and cp: "sbCp b \<in> switch_cps cl p" and t: "spine_ready p t" "t \<in> T"
    and new: "added \<Longrightarrow> gm_load (tLeaves t) (ucast leafID) \<noteq> None"
  obtains b' where "leaf_change t leafID index added b = Ret b'" "sbCp b' = sbCp b" "sbPending b' = sbPending b"
    "\<forall>k. entered vw T k (sbClient b) \<longrightarrow> entered vw T k (sbClient b')"
    "added \<Longrightarrow> \<forall>k. leafID = ucast k \<longrightarrow> entered vw T k (sbClient b')"
proof -
  have sel: "scpSpine (NewBfrtSpineCP_V1 (Some p)) = Some p" "scpSpine (NewBfrtSpineCP_V2 (Some p)) = Some p"
    by (simp_all add: NewBfrtSpineCP_V1_def NewBfrtSpineCP_V2_def)
  obtain c' where c': "spcpOnLeafChange (sbCp b) t leafID index added (sbClient b) = Ret c'"
    "svTable vw c' spine_fwd_table = (if added then (svTable vw (sbClient b) spine_fwd_table)
      ([ExactKey ''hdr.horus.dst_id'' leafID] \<mapsto> fwd_entry t (the (gm_load (tLeaves t) (ucast leafID))))
      else svTable vw (sbClient b) spine_fwd_table)"
  proof (cases "sbCp b = SpineCP_of_V1 cl (NewBfrtSpineCP_V1 (Some p))")
    case True
    show ?thesis
      by (rule V1_change_fwd [OF bf t(1) sel(1) new, where index = index and c = "sbClient b"]) (auto intro!: that simp: True SpineCP_of_V1_def)
  next
    case False
    with cp have v2: "sbCp b = SpineCP_of_V2 cl (NewBfrtSpineCP_V2 (Some p))" by (simp add: switch_cps_def)
    show ?thesis
      by (rule V2_change_fwd [OF bf t(1) sel(2) new, where index = index and c = "sbClient b"]) (auto intro!: that simp: v2 SpineCP_of_V2_def)
  qed
  have fits: "ucast (ucast (k :: u16) :: u64) = k" for k by (rule bit_word_eqI) (simp add: bit_ucast_iff)
  have fresh: "entered vw T k c'" if "added" "leafID = ucast k" for k
    unfolding entered_def using c'(2) that new t(2) by (intro bexI [of _ t]) (auto simp: fits fwd_keys_def)
  have old: "entered vw T k c'" if "entered vw T k (sbClient b)" for k
  proof (cases "added \<and> leafID = ucast k")
    case True
    with fresh show ?thesis by blast
  next
    case False
    then have "svTable vw c' spine_fwd_table (fwd_keys k) = svTable vw (sbClient b) spine_fwd_table (fwd_keys k)"
      using c'(2) by (auto simp: fwd_keys_def)
    with that show ?thesis by (simp add: entered_def)
  qed
  show ?thesis by (rule that [of "b\<lparr>sbClient := c'\<rparr>"]) (use c'(1) fresh old in \<open>simp_all add: leaf_change_def\<close>)
qed

text \<open>The handler of the event finds the nodes of its message.\<close>

definition event_ready :: "nref \<Rightarrow> Topology option \<times> spine_bus_event \<Rightarrow> bool" where
  "event_ready p ev =
     (case ev of
        (None, _) \<Rightarrow> True
      | (Some t, e) \<Rightarrow> spine_ready p t \<and>
          (case e of
             SBNewLeaf m \<Rightarrow> gm_load (tLeaves t) (ucast (liId (laLeaf m))) \<noteq> None
           | SBNewServer m \<Rightarrow> gm_load (tServers t) (ucast (siId (saServer m))) \<noteq> None
           | _ \<Rightarrow> True))"

lemma new_leaf_step:
  assumes bf: "bfrt_ok cl vw" and cp: "sbCp b \<in> switch_cps cl p" and t: "t \<in> T" and rd: "event_ready p (Some t, SBNewLeaf m)"
  obtains b' where "spineBus_newLeaf (Some t) m b = Ret b'" "sbCp b' = sbCp b"
    "\<forall>k. awaited vw T k b \<longrightarrow> awaited vw T k b'" "\<forall>k. liId (laLeaf m) = ucast k \<longrightarrow> awaited vw T k b'"
proof -
  from rd obtain l where l: "gm_load (tLeaves t) (ucast (liId (laLeaf m))) = Some l" and sr: "spine_ready p t"
    by (auto simp: event_ready_def)
  have fits: "ucast (ucast (k :: u16) :: u32) = k" for k by (rule bit_word_eqI) (simp add: bit_ucast_iff)
  show ?thesis
  proof (cases "nChildren (node t l)")
    case Nil
    let ?b = "b\<lparr>sbPending := (sbPending b)(ucast (liId (laLeaf m)) \<mapsto> 1)\<rparr>"
    have "spineBus_newLeaf (Some t) m b = Ret ?b" using Nil by (simp add: spineBus_newLeaf_def l)
    then show ?thesis by (rule that) (auto simp: awaited_def pending_def fits)
  next
    case (Cons s ss)
    have "ucast (ucast (w :: u32) :: u64) = (ucast w :: u16)" for w by (rule bit_word_eqI) (simp add: bit_ucast_iff)
    with l have known: "gm_load (tLeaves t) (ucast (ucast (liId (laLeaf m)) :: u64)) \<noteq> None" by simp
    obtain b' where b': "leaf_change t (ucast (liId (laLeaf m))) (ucast (liIndex (laLeaf m))) True b = Ret b'" "sbCp b' = sbCp b"
      "sbPending b' = sbPending b" "\<forall>k. entered vw T k (sbClient b) \<longrightarrow> entered vw T k (sbClient b')"
      "\<forall>k. ucast (liId (laLeaf m)) = (ucast k :: u64) \<longrightarrow> entered vw T k (sbClient b')"
      by (rule change_step [OF bf cp sr t known, where added = True and index = "ucast (liIndex (laLeaf m))"]) (rule that; simp)
    from Cons b'(1) have run: "spineBus_newLeaf (Some t) m b = Ret b'" by (simp add: spineBus_newLeaf_def l)
    have "ucast (ucast (k :: u16) :: u32) = (ucast k :: u64)" for k
      by (rule bit_word_eqI) (auto simp: bit_ucast_iff dest: bit_imp_le_length)
    with b'(5) have "\<forall>k. liId (laLeaf m) = ucast k \<longrightarrow> entered vw T k (sbClient b')" by simp
    with b'(3,4) show ?thesis by (intro that [OF run b'(2)]) (auto simp: awaited_def pending_def)
  qed
qed

lemma new_server_step:
  assumes bf: "bfrt_ok cl vw" and cp: "sbCp b \<in> switch_cps cl p" and t: "t \<in> T" and rd: "event_ready p (Some t, SBNewServer m)"
  obtains b' s l where "spineBus_newServer (Some t) m b = Ret b'" "sbCp b' = sbCp b"
    "\<forall>k. awaited vw T k b \<longrightarrow> awaited vw T k b'"
    "gm_load (tServers t) (ucast (siId (saServer m))) = Some s" "nParent (node t s) = Some l"
    "pending b' (nID (node t l)) = 0"
proof -
  from rd obtain s where s: "gm_load (tServers t) (ucast (siId (saServer m))) = Some s" and sr: "spine_ready p t"
    by (auto simp: event_ready_def)
  from sr have wf: "wf_topo t" by (simp add: spine_ready_def)
  from wf_parent [OF wf s] obtain l where l: "nParent (node t s) = Some l" "gm_load (tLeaves t) (nID (node t l)) = Some l" by blast
  show ?thesis
  proof (cases "pending b (nID (node t l)) = 0")
    case True
    then have run: "spineBus_newServer (Some t) m b = Ret b" by (simp add: spineBus_newServer_def s l)
    show ?thesis by (rule that [OF run refl _ s l(1) True]) simp
  next
    case False
    have "ucast (ucast (w :: u16) :: u64) = w" for w by (rule bit_word_eqI) (simp add: bit_ucast_iff)
    with l(2) have known: "gm_load (tLeaves t) (ucast (ucast (nID (node t l)) :: u64)) \<noteq> None" by simp
    obtain b' where b': "leaf_change t (ucast (nID (node t l))) (ucast (nIndex (node t l))) True b = Ret b'" "sbCp b' = sbCp b"
      "sbPending b' = sbPending b" "\<forall>k. entered vw T k (sbClient b) \<longrightarrow> entered vw T k (sbClient b')"
      "\<forall>k. ucast (nID (node t l)) = (ucast k :: u64) \<longrightarrow> entered vw T k (sbClient b')"
      by (rule change_step [OF bf cp sr t known, where added = True and index = "ucast (nIndex (node t l))"]) (rule that; simp)
    let ?b = "b'\<lparr>sbPending := (sbPending b')(nID (node t l) := None)\<rparr>"
    have run: "spineBus_newServer (Some t) m b = Ret ?b" using False by (simp add: spineBus_newServer_def s l b'(1))
    have kept: "\<forall>k. awaited vw T k b \<longrightarrow> awaited vw T k ?b"
      using b'(3-) by (auto simp: awaited_def pending_def)
    show ?thesis by (rule that [OF run _ kept s l(1)]) (simp_all add: pending_def b'(2))
  qed
qed

lemma bus_step_ok:
  assumes bf: "bfrt_ok cl vw" and cp: "sbCp b \<in> switch_cps cl p" and t: "\<And>t. topology = Some t \<Longrightarrow> t \<in> T"
    and rd: "event_ready p (topology, e)"
  obtains b' where "spineBus_step topology e b = Ret b'" "sbCp b' = sbCp b" "\<forall>k. awaited vw T k b \<longrightarrow> awaited vw T k b'"
proof -
  have monitor: "spcpMonitorStats (sbCp b) c = Ret c" for c
    using cp bf by (auto simp: switch_cps_def SpineCP_of_V1_def SpineCP_of_V2_def SpineCP_V2_MonitorStats_def bfrt_ok_def)
  show ?thesis
  proof (cases "\<exists>due. e = SBIdle due")
    case True
    with monitor that [of b] show ?thesis by (auto simp: spineBus_step_def)
  next
    case idle: False
    show ?thesis
    proof (cases topology)
      case None
      with idle that [of b] show ?thesis
        by (cases e) (auto simp: spineBus_step_def spineBus_failedLeaf_def spineBus_newLeaf_def spineBus_newServer_def)
    next
      case (Some u)
      note u = t [OF Some] and rd = rd [unfolded Some]
      show ?thesis
      proof (cases e)
        case (SBFailedLeaf m)
        with rd have sr: "spine_ready p u" by (simp add: event_ready_def)
        obtain b' where "leaf_change u (ucast (liId (lfLeaf m))) (ucast (liIndex (lfLeaf m))) False b = Ret b'" "sbCp b' = sbCp b"
          "sbPending b' = sbPending b" "\<forall>k. entered vw T k (sbClient b) \<longrightarrow> entered vw T k (sbClient b')"
          by (rule change_step [where added = False and leafID = "ucast (liId (lfLeaf m))"
            and index = "ucast (liIndex (lfLeaf m))", OF bf cp sr u FalseE]) (assumption, rule that, assumption+)
        with that [of b'] SBFailedLeaf Some show ?thesis
          by (simp add: spineBus_step_def spineBus_failedLeaf_def awaited_def pending_def)
      next
        case (SBNewLeaf m)
        with rd have "event_ready p (Some u, SBNewLeaf m)" by simp
        then obtain b' where "spineBus_newLeaf (Some u) m b = Ret b'" "sbCp b' = sbCp b"
          "\<forall>k. awaited vw T k b \<longrightarrow> awaited vw T k b'" by (rule new_leaf_step [OF bf cp u])
        with that [of b'] SBNewLeaf Some show ?thesis by (simp add: spineBus_step_def)
      next
        case (SBNewServer m)
        with rd have "event_ready p (Some u, SBNewServer m)" by simp
        then obtain b' where "spineBus_newServer (Some u) m b = Ret b'" "sbCp b' = sbCp b"
          "\<forall>k. awaited vw T k b \<longrightarrow> awaited vw T k b'" by (rule new_server_step [OF bf cp u])
        with that [of b'] SBNewServer Some show ?thesis by (simp add: spineBus_step_def)
      qed (use that [of b] idle in \<open>auto simp: spineBus_step_def\<close>)
    qed
  qed
qed

lemma bus_run_ok:
  assumes bf: "bfrt_ok cl vw" and "sbCp b \<in> switch_cps cl p" and "\<forall>ev \<in> set evs. event_ready p ev"
    and "\<And>t. Some t \<in> fst ` set evs \<Longrightarrow> t \<in> T"
  shows "\<exists>b'. spineBus_run evs b = Ret b' \<and> sbCp b' = sbCp b \<and> (\<forall>k. awaited vw T k b \<longrightarrow> awaited vw T k b')"
  using assms(2-)
proof (induction evs arbitrary: b)
  case Nil
  then show ?case by (simp add: spineBus_run_def)
next
  case (Cons ev evs)
  obtain topology e where ev: "ev = (topology, e)" by (cases ev)
  from Cons.prems(2) ev have rd: "event_ready p (topology, e)" by simp
  have t: "t \<in> T" if "topology = Some t" for t using Cons.prems(3) [of t] ev that by simp
  obtain b1 where 1: "spineBus_step topology e b = Ret b1" "sbCp b1 = sbCp b" "\<forall>k. awaited vw T k b \<longrightarrow> awaited vw T k b1"
    by (rule bus_step_ok [OF bf Cons.prems(1) t rd])
  have "\<exists>b'. spineBus_run evs b1 = Ret b' \<and> sbCp b' = sbCp b1 \<and> (\<forall>k. awaited vw T k b1 \<longrightarrow> awaited vw T k b')"
    by (rule Cons.IH) (use Cons.prems 1(2) in auto)
  then obtain b' where "spineBus_run evs b1 = Ret b'" "sbCp b' = sbCp b1" "\<forall>k. awaited vw T k b1 \<longrightarrow> awaited vw T k b'" by blast
  with 1 show ?case by (intro exI [of _ b']) (simp add: spineBus_run_def ev)
qed

lemma spineBus_run_append: "spineBus_run (evs @ evs') b = go_bind (spineBus_run evs b) (spineBus_run evs')"
  unfolding spineBus_run_def go_fold_append ..

section \<open>The first server of a leaf\<close>

text \<open>
  C27: With version 1 or version 2 of the control plane, a leaf is announced to the spine bus and, any number of events
  later, a server below it. If all handlers find a consistent topology in which the spine has a leaf, and the nodes of
  their messages, then they all return. In the end the leaf does not wait any more, and the switch forwards its ID to the
  port that the leaf has in the topology that one of the handlers found, whether the leaf had servers when it was
  announced or not.
\<close>

theorem new_leaf_entered:
  assumes "bfrt_ok cl vw"
    and "sbCp b = SpineCP_of_V1 cl (NewBfrtSpineCP_V1 (Some p)) \<or> sbCp b = SpineCP_of_V2 cl (NewBfrtSpineCP_V2 (Some p))"
    and "\<forall>ev \<in> set ((Some t1, SBNewLeaf m1) # evs @ [(Some t2, SBNewServer m2)]). event_ready p ev"
    and "liId (laLeaf m1) = ucast k"
    and "gm_load (tServers t2) (ucast (siId (saServer m2))) = Some s" and "nParent (node t2 s) = Some l" and "nID (node t2 l) = k"
  shows "\<exists>b'. spineBus_run ((Some t1, SBNewLeaf m1) # evs @ [(Some t2, SBNewServer m2)]) b = Ret b' \<and> pending b' k = 0 \<and>
    (\<exists>t leaf. Some t \<in> fst ` set ((Some t1, SBNewLeaf m1) # evs @ [(Some t2, SBNewServer m2)]) \<and>
       gm_load (tLeaves t) k = Some leaf \<and>
       svTable vw (sbClient b') ''pipe_spine.SpineIngress.forward_horus_switch_dst'' (fwd_keys k) = Some (fwd_entry t leaf))"
proof -
  let ?evs = "(Some t1, SBNewLeaf m1) # evs @ [(Some t2, SBNewServer m2)]"
  define T where "T = {t. Some t \<in> fst ` set ?evs}"
  have cp: "sbCp b \<in> switch_cps cl p" using assms(2) by (simp add: switch_cps_def)
  have rd: "event_ready p (Some t1, SBNewLeaf m1)" "event_ready p (Some t2, SBNewServer m2)"
    "\<forall>ev \<in> set evs. event_ready p ev" using assms(3) by simp_all
  have T: "t1 \<in> T" "t2 \<in> T" "\<And>t. Some t \<in> fst ` set evs \<Longrightarrow> t \<in> T" by (auto simp: T_def)
  obtain b1 where 1: "spineBus_newLeaf (Some t1) m1 b = Ret b1" "sbCp b1 = sbCp b" "\<forall>k. liId (laLeaf m1) = ucast k \<longrightarrow> awaited vw T k b1"
    by (rule new_leaf_step [OF assms(1) cp T(1) rd(1)])
  from bus_run_ok [OF assms(1) _ rd(3) T(3), of b1] 1(2) cp obtain b2 where
    2: "spineBus_run evs b1 = Ret b2" "sbCp b2 = sbCp b1" "awaited vw T k b1 \<longrightarrow> awaited vw T k b2" by auto
  have cp2: "sbCp b2 \<in> switch_cps cl p" using 1(2) 2(2) cp by simp
  obtain b3 s' l' where 3: "spineBus_newServer (Some t2) m2 b2 = Ret b3" "sbCp b3 = sbCp b2" "\<forall>k. awaited vw T k b2 \<longrightarrow> awaited vw T k b3"
    "gm_load (tServers t2) (ucast (siId (saServer m2))) = Some s'" "nParent (node t2 s') = Some l'" "pending b3 (nID (node t2 l')) = 0"
    by (rule new_server_step [OF assms(1) cp2 T(2) rd(2)])
  have done3: "pending b3 k = 0" using 3(4-6) assms(5-7) by simp
  have "awaited vw T k b3" using 1(3) 2(3) 3(3) assms(4) by blast
  with done3 have "entered vw T k (sbClient b3)" by (simp add: awaited_def)
  moreover have "spineBus_run ?evs b = Ret b3"
    using spineBus_run_append [of evs "[(Some t2, SBNewServer m2)]" b1] 1(1) 2(1) 3(1)
    by (simp add: spineBus_run_def spineBus_step_def)
  ultimately show ?thesis using done3 unfolding entered_def T_def by blast
qed

text \<open>In \<open>sample\<close> the leaf with ID 1 has lost its server; then it is back.\<close>

definition without_servers :: Topology where
  "without_servers = (upd_node 5 (\<lambda>n. n\<lparr>nChildren := []\<rparr>) sample)\<lparr>tServers := [(0, 3), (1, 4)]\<rparr>"

definition leaf1_msg :: LeafAddedMessage where
  "leaf1_msg = NewLeafAddedMessage \<lparr>liId = 1, liIndex = 1, liAddress = [], liMgmtAddress = [], liServers = [],
     liSpineID = 0, liAsic = None, liDsPort = None, liUsPort = None\<rparr> (Some 5)"

definition server2_msg :: ServerAddedMessage where
  "server2_msg = NewServerAddedMessage \<lparr>siId = 2, siAddress = [], siWorkersCount = 1, siLeafID = 1, siPort = None\<rparr> (Some 5)"

lemma without_servers_nodes: "tNodes without_servers = (tNodes sample)[5 := (node sample 5)\<lparr>nChildren := []\<rparr>]"
  "tLeaves without_servers = tLeaves sample" "tSpines without_servers = tSpines sample"
  by (simp_all add: without_servers_def upd_node_def node_def)

lemma without_servers_ready: "spine_ready 1 without_servers"
proof -
  have "wf_topo without_servers"
    by (simp add: wf_topo_code server_ok_def leaf_ok_def spine_ok_def without_servers_def upd_node_def sample_eval)
  then show ?thesis
    by (simp add: spine_ready_def) (simp add: without_servers_def upd_node_def sample_eval)
qed

theorem new_leaf_entered_witness:
  "\<exists>b'. spineBus_run [(Some without_servers, SBNewLeaf leaf1_msg), (Some sample, SBNewServer server2_msg)]
     (NewSpineBus 0 (SpineCP_of_V2 sw_client (NewBfrtSpineCP_V2 (Some 1))) empty_sw) = Ret b' \<and>
     fst (sbClient b') ''pipe_spine.SpineIngress.forward_horus_switch_dst'' (fwd_keys 1) \<noteq> None"
proof -
  let ?cp = "SpineCP_of_V2 sw_client (NewBfrtSpineCP_V2 (Some 1))"
  let ?b = "NewSpineBus 0 ?cp empty_sw"
  have cp: "sbCp ?b = SpineCP_of_V1 sw_client (NewBfrtSpineCP_V1 (Some 1)) \<or> sbCp ?b = ?cp" by (simp add: NewSpineBus_def)
  have sr: "spine_ready 1 sample" unfolding spine_ready_def by (simp add: sample_wf) (simp add: sample_eval)
  have ids: "liId (laLeaf leaf1_msg) = ucast (1 :: u16)" "siId (saServer server2_msg) = 2"
    by (simp_all add: leaf1_msg_def server2_msg_def NewLeafAddedMessage_def NewServerAddedMessage_def)
  have rd: "\<forall>ev \<in> set ((Some without_servers, SBNewLeaf leaf1_msg) # [] @ [(Some sample, SBNewServer server2_msg)]). event_ready 1 ev"
    using sr without_servers_ready by (simp add: event_ready_def ids without_servers_nodes sample_nodes)
  have s: "gm_load (tServers sample) (ucast (siId (saServer server2_msg))) = Some 6" "nParent (node sample 6) = Some 5"
    "nID (node sample 5) = 1" unfolding ids by (simp_all add: sample_eval)
  from new_leaf_entered [OF sw_ok cp rd ids(1) s] show ?thesis unfolding sw_view_def switch_view.simps append_Nil by blast
qed

end
