(* ===== verification/Central_Bus.thy ===== *)
theory Central_Bus
  imports Rpc_Endpoints
begin

text \<open>
  The central controller beside its gRPC server: the control planes that switch ports on and off
  (ctrl\_central/cp.go), the event loop that they serve (ctrl\_central/bus.go), and how the controller is
  put together and started (ctrl\_central/controller.go).

  The BfRt client is a parameter: a client is known by the switch and the program it was made for, and
  \<open>port_api\<close> holds its calls for ports, on a state of any type.
\<close>

section \<open>The client\<close>

record bfrt_target =
  btAddress :: string
  btProgram :: string
  btClientID :: u32
  btDeviceID :: u32
  btPipeID :: u32

record 'w port_api =
  paGetDevPort :: "bfrt_target \<Rightarrow> u64 \<Rightarrow> u64 \<Rightarrow> 'w \<Rightarrow> go_error + u32"
  paEnablePort :: "bfrt_target \<Rightarrow> u32 \<Rightarrow> string \<Rightarrow> string \<Rightarrow> string \<Rightarrow> 'w \<Rightarrow> 'w \<times> go_error option"
  paDisablePort :: "bfrt_target \<Rightarrow> u32 \<Rightarrow> 'w \<Rightarrow> 'w \<times> go_error option"

definition newClientMap :: "(string, bfrt_target) gomap" where
  "newClientMap = gm_empty"

definition clientMap_load :: "(string, bfrt_target) gomap \<Rightarrow> string \<Rightarrow> bfrt_target option" where
  "clientMap_load rm key = gm_load rm key"

definition clientMap_store :: "string \<Rightarrow> bfrt_target \<Rightarrow> (string, bfrt_target) gomap \<Rightarrow> (string, bfrt_target) gomap" where
  "clientMap_store key v rm = gm_store key v rm"

definition clientMap_delete :: "string \<Rightarrow> (string, bfrt_target) gomap \<Rightarrow> (string, bfrt_target) gomap" where
  "clientMap_delete key rm = gm_delete key rm"

section \<open>The control planes\<close>

text \<open>A value of the interface \<open>CentralizedCP\<close>: one of the two types that implement it.\<close>

datatype CentralizedCP =
    FakeCentralizedCP string
  | BfrtCentralizedCP string "(string, bfrt_target) gomap"

definition NewFakeCentralizedCP :: "string \<Rightarrow> CentralizedCP" where
  "NewFakeCentralizedCP asicStr = FakeCentralizedCP asicStr"

definition NewBfrtCentralizedCP :: "string \<Rightarrow> CentralizedCP" where
  "NewBfrtCentralizedCP asicStr = BfrtCentralizedCP asicStr newClientMap"

fun GetAsicStr :: "CentralizedCP \<Rightarrow> string" where
  "GetAsicStr (FakeCentralizedCP asicStr) = asicStr"
| "GetAsicStr (BfrtCentralizedCP asicStr _) = asicStr"

definition upd_port :: "pref \<Rightarrow> (Port \<Rightarrow> Port) \<Rightarrow> hw \<Rightarrow> hw" where
  "upd_port p f h = h\<lparr>hPorts := (hPorts h)[p := f (port h p)]\<rparr>"

definition port_asic_str :: "hw \<Rightarrow> pref \<Rightarrow> string" where
  "port_asic_str h p = asID (asic h (poAsic (port h p)))"

definition asic_target :: "Asic \<Rightarrow> bfrt_target" where
  "asic_target a = \<lparr>btAddress = asCtrlAddress a, btProgram = asProgram a, btClientID = 5000,
     btDeviceID = ucast (asDeviceID a), btPipeID = ucast (asPipeID a)\<rparr>"

text \<open>One port: its device number is asked for and kept, unless it has one, and the port is enabled.\<close>

definition init_port :: "'w port_api \<Rightarrow> bfrt_target \<Rightarrow> pref \<Rightarrow> hw \<times> 'w \<Rightarrow> (hw \<times> 'w) go" where
  "init_port api client p st =
     (case st of (h, w) \<Rightarrow>
       case paGetDevPort api client (psCage (poSpec (port h p))) (psLane (poSpec (port h p))) w of
         Inl _ \<Rightarrow> Fatal
       | Inr devPort \<Rightarrow>
           (let h' = upd_port p (SetDevPort (ucast devPort)) h; cfg = poConfig (port h' p)
            in case paEnablePort api client devPort (pcSpeed cfg) (pcFec cfg) (pcAn cfg) w of
                 (_, Some _) \<Rightarrow> Fatal
               | (w', None) \<Rightarrow> Ret (h', w')))"

definition init_asic ::
  "'w port_api \<Rightarrow> (string \<Rightarrow> order) \<Rightarrow> aref \<Rightarrow> (string, bfrt_target) gomap \<times> hw \<times> 'w \<Rightarrow>
    ((string, bfrt_target) gomap \<times> hw \<times> 'w) go" where
  "init_asic api oi a st =
     (case st of (cm, h, w) \<Rightarrow>
       let client = asic_target (asic h a) in
       go_bind (go_fold (\<lambda>(_, p). init_port api client p)
           (go_range (oi (asID (asic h a))) (prPortMap (asPortRegistry (asic h a)))) (h, w)) (\<lambda>(h', w').
         Ret (clientMap_store (asID (asic h a)) client cm, h', w')))"

text \<open>Every control plane of a real switch goes through all ASICs of the topology.\<close>

fun InitPorts ::
  "'w port_api \<Rightarrow> order \<Rightarrow> (string \<Rightarrow> order) \<Rightarrow> AsicRegistry \<Rightarrow> CentralizedCP \<Rightarrow> hw \<times> 'w \<Rightarrow>
    (CentralizedCP \<times> hw \<times> 'w) go" where
  "InitPorts api ord oi asicMap (FakeCentralizedCP asicStr) (h, w) = Ret (FakeCentralizedCP asicStr, h, w)"
| "InitPorts api ord oi asicMap (BfrtCentralizedCP asicStr cm) (h, w) =
     go_bind (go_fold (\<lambda>(_, a). init_asic api oi a) (go_range ord asicMap) (cm, h, w)) (\<lambda>(cm', h', w').
       Ret (BfrtCentralizedCP asicStr cm', h', w'))"

text \<open>A port always has an ASIC (\<open>NewPort\<close>), so the checks for a missing one never answer.\<close>

fun BringPortUp ::
  "'w port_api \<Rightarrow> hw \<Rightarrow> CentralizedCP \<Rightarrow> pref option \<Rightarrow> 'w \<Rightarrow> 'w \<times> go_error option" where
  "BringPortUp api h cp None w = (w, Some (ErrMsg ''invalid port to be enabled''))"
| "BringPortUp api h (FakeCentralizedCP _) (Some p) w = (w, None)"
| "BringPortUp api h (BfrtCentralizedCP _ cm) (Some p) w =
     (case clientMap_load cm (port_asic_str h p) of
        Some client \<Rightarrow>
          (let cfg = poConfig (port h p)
           in paEnablePort api client (ucast (GetDevPort (port h p))) (pcSpeed cfg) (pcFec cfg) (pcAn cfg) w)
      | None \<Rightarrow> (w, Some (ErrMsg ''bfrt client was not found during enabling the port'')))"

fun TakePortDown ::
  "'w port_api \<Rightarrow> hw \<Rightarrow> CentralizedCP \<Rightarrow> pref option \<Rightarrow> 'w \<Rightarrow> 'w \<times> go_error option" where
  "TakePortDown api h cp None w = (w, Some (ErrMsg ''invalid port to be disabled''))"
| "TakePortDown api h (FakeCentralizedCP _) (Some p) w = (w, None)"
| "TakePortDown api h (BfrtCentralizedCP _ cm) (Some p) w =
     (case clientMap_load cm (port_asic_str h p) of
        Some client \<Rightarrow> paDisablePort api client (ucast (GetDevPort (port h p))) w
      | None \<Rightarrow> (w, Some (ErrMsg ''bfrt client was not found during disabling the port'')))"

section \<open>The central bus\<close>

record 'w CentralBus =
  cbCps :: "CentralizedCP list"
  cbTopology :: Topology
  cbWorld :: 'w

definition NewCentralBus :: "Topology \<Rightarrow> CentralizedCP list \<Rightarrow> 'w \<Rightarrow> 'w CentralBus" where
  "NewCentralBus topology cps w = \<lparr>cbCps = cps, cbTopology = topology, cbWorld = w\<rparr>"

definition getCP :: "'w CentralBus \<Rightarrow> string \<Rightarrow> CentralizedCP option" where
  "getCP e asicStr = find (\<lambda>cp. GetAsicStr cp = asicStr) (cbCps e)"

text \<open>A message may be nil, and so may its port. The errors of the control planes are dropped.\<close>

datatype central_bus_event =
    CBEnabled "PortEnabledMessage option"
  | CBDisabled "PortDisabledMessage option"

definition port_event ::
  "(hw \<Rightarrow> CentralizedCP \<Rightarrow> pref option \<Rightarrow> 'w \<Rightarrow> 'w \<times> go_error option) \<Rightarrow> pref option \<Rightarrow> 'w CentralBus \<Rightarrow>
    'w CentralBus go" where
  "port_event call prt e =
     (case prt of
        None \<Rightarrow> Ret e
      | Some p \<Rightarrow>
          deref (getCP e (port_asic_str (tHw (cbTopology e)) p)) (\<lambda>cp.
            Ret (e\<lparr>cbWorld := fst (call (tHw (cbTopology e)) cp (Some p) (cbWorld e))\<rparr>)))"

definition centralBus_step :: "'w port_api \<Rightarrow> central_bus_event \<Rightarrow> 'w CentralBus \<Rightarrow> 'w CentralBus go" where
  "centralBus_step api ev e =
     (case ev of
        CBEnabled None \<Rightarrow> Ret e
      | CBEnabled (Some enabledPortMsg) \<Rightarrow> port_event (BringPortUp api) (pePort enabledPortMsg) e
      | CBDisabled None \<Rightarrow> Ret e
      | CBDisabled (Some disabledPortMsg) \<Rightarrow> port_event (TakePortDown api) (pdPort disabledPortMsg) e)"

definition centralBus_run :: "'w port_api \<Rightarrow> central_bus_event list \<Rightarrow> 'w CentralBus \<Rightarrow> 'w CentralBus go" where
  "centralBus_run api = go_fold (centralBus_step api)"

section \<open>The controller\<close>

text \<open>The configured clusters; one that cannot be created or filed is left out. \<open>AddVC\<close>'s error is dropped.\<close>

definition load_vc :: "order \<Rightarrow> Topology \<Rightarrow> VCInfo \<Rightarrow> VCManager \<Rightarrow> VCManager go" where
  "load_vc ord t vcConf m = go_bind (register_vc ord vcConf t m) (\<lambda>(m', _). Ret m')"

definition load_vcs :: "order \<Rightarrow> Topology \<Rightarrow> VCInfo list \<Rightarrow> VCManager \<Rightarrow> VCManager go" where
  "load_vcs ord t = go_fold (load_vc ord t)"

definition new_cp :: "asicConfig \<Rightarrow> CentralizedCP go" where
  "new_cp asicCfg =
     (if caCtrlAPI asicCfg = ''fake'' then Ret (NewFakeCentralizedCP (caID asicCfg))
      else if caCtrlAPI asicCfg = ''bfrt'' then Ret (NewBfrtCentralizedCP (caID asicCfg))
      else Fatal)"

definition new_cps :: "asicConfig list \<Rightarrow> CentralizedCP list go" where
  "new_cps asics = go_fold (\<lambda>asicCfg cps. go_bind (new_cp asicCfg) (\<lambda>cp. Ret (cps @ [cp]))) asics []"

record ('p, 'w) centralController =
  ccRpcEndPoint :: "'p CentralRpcEndpoint"
  ccServer :: centralSrvServer
  ccBus :: "'w CentralBus"

text \<open>The bus, the end point and its server share the topology and the clusters.\<close>

definition NewCentralController ::
  "order \<Rightarrow> topoRootConfig \<Rightarrow> VCInfo list \<Rightarrow> 'w \<Rightarrow> ('p, 'w) centralController go" where
  "NewCentralController ord topoCfg vcs w =
     go_bind (NewDCNFromConf topoCfg) (\<lambda>topology.
     go_bind (load_vcs ord topology vcs NewVCManager) (\<lambda>vcm.
     go_bind (new_cps (trAsics topoCfg)) (\<lambda>cps.
       Ret \<lparr>ccRpcEndPoint = NewCentralRpcEndpoint topology, ccServer = NewCentralSrvServer topology vcm,
            ccBus = NewCentralBus topology cps w\<rparr>)))"

text \<open>
  \<open>Run\<close> starts the end point in a goroutine, initialises the ports and starts the bus. The device numbers
  of the ports are set in the shared topology.
\<close>

definition init_cp ::
  "'w port_api \<Rightarrow> order \<Rightarrow> (string \<Rightarrow> order) \<Rightarrow> AsicRegistry \<Rightarrow> CentralizedCP \<Rightarrow> CentralizedCP list \<times> hw \<times> 'w \<Rightarrow>
    (CentralizedCP list \<times> hw \<times> 'w) go" where
  "init_cp api ord oi asicMap cp st =
     (case st of (cps, hw_w) \<Rightarrow>
       go_bind (InitPorts api ord oi asicMap cp hw_w) (\<lambda>(cp', hw_w'). Ret (cps @ [cp'], hw_w')))"

definition central_Run ::
  "'w port_api \<Rightarrow> order \<Rightarrow> (string \<Rightarrow> order) \<Rightarrow> 'w CentralBus \<Rightarrow> 'w CentralBus go" where
  "central_Run api ord oi e =
     go_bind (go_fold (init_cp api ord oi (tAsicRegistry (cbTopology e))) (cbCps e)
         ([], tHw (cbTopology e), cbWorld e)) (\<lambda>(cps, h, w).
       Ret \<lparr>cbCps = cps, cbTopology = (cbTopology e)\<lparr>tHw := h\<rparr>, cbWorld = w\<rparr>)"

end
