(* ===== verification/Node_Controllers.thy ===== *)
theory Node_Controllers
  imports Central_Bus Event_Buses
begin

text \<open>
  The controllers of the leaves and spines of a switch (ctrl\_mgr/controller.go) and the RPC end point that
  a leaf controller uses (core/net/rpc\_endpoint\_leaf.go): how a controller is made, fetches the topology
  and its clusters from the central controller, starts and shuts down.

  What the central controller answers is an argument, as the generated gRPC client returns it: a response that
  may be nil, and an error. Goroutines are steps of their own; the pauses before a request are left out.
\<close>

section \<open>Channels of bytes\<close>

text \<open>The channels of all controllers of a switch; a controller holds positions in the list.\<close>

record chan =
  chBuf :: "bytes list"
  chClosed :: bool

type_synonym cref = nat

definition make_chan :: "chan list \<Rightarrow> cref \<times> chan list" where
  "make_chan chans = (length chans, chans @ [\<lparr>chBuf = [], chClosed = False\<rparr>])"

text \<open>Sending on a closed channel panics, and so does closing it again.\<close>

definition chan_send :: "bytes \<Rightarrow> cref \<Rightarrow> chan list \<Rightarrow> chan list go" where
  "chan_send msg r chans =
     (if chClosed (chans ! r) then Panic
      else Ret (chans[r := (chans ! r)\<lparr>chBuf := chBuf (chans ! r) @ [msg]\<rparr>]))"

definition chan_close :: "cref \<Rightarrow> chan list \<Rightarrow> chan list go" where
  "chan_close r chans =
     (if chClosed (chans ! r) then Panic else Ret (chans[r := (chans ! r)\<lparr>chClosed := True\<rparr>]))"

section \<open>The configuration of a manager\<close>

record LeafConfig =
  lgID :: u16
  lgPipeID :: u32

record rootConfig =
  rcDeviceID :: u32
  rcP4Name :: string
  rcBfrtAddress :: string
  rcRemoteSrvServer :: string
  rcMgmtAddress :: string
  rcSpines :: "SpineConfig list"
  rcLeaves :: "LeafConfig list"
  rcTimeout :: u64
  rcControlAPI :: string
  rcLogLevel :: string
  rcAsicIntf :: string

definition ctrl_target :: "rootConfig \<Rightarrow> u32 \<Rightarrow> u32 \<Rightarrow> bfrt_target" where
  "ctrl_target cfg clientID pipeID =
     \<lparr>btAddress = rcBfrtAddress cfg, btProgram = rcP4Name cfg, btClientID = clientID,
      btDeviceID = rcDeviceID cfg, btPipeID = pipeID\<rparr>"

section \<open>The RPC end point of a leaf\<close>

record LeafRpcEndpoint =
  lrCtrlID :: u16
  lrSrvCentralAddr :: string
  lrSrvLAddr :: string
  lrTopology :: "Topology option"
  lrVcm :: "VCManager option"

definition NewLeafRpcEndpoint ::
  "string \<Rightarrow> string \<Rightarrow> Topology option \<Rightarrow> VCManager option \<Rightarrow> LeafRpcEndpoint" where
  "NewLeafRpcEndpoint srvLAddr srvCentralAddr topology vcm =
     \<lparr>lrCtrlID = 0, lrSrvCentralAddr = srvCentralAddr, lrSrvLAddr = srvLAddr, lrTopology = topology, lrVcm = vcm\<rparr>"

definition NewBareLeafRpcEndpoint :: "u16 \<Rightarrow> string \<Rightarrow> LeafRpcEndpoint" where
  "NewBareLeafRpcEndpoint ctrlID srvCentralAddr =
     \<lparr>lrCtrlID = ctrlID, lrSrvCentralAddr = srvCentralAddr, lrSrvLAddr = [], lrTopology = None, lrVcm = None\<rparr>"

text \<open>The setters write a field once.\<close>

definition SetLocalAddress :: "string \<Rightarrow> LeafRpcEndpoint \<Rightarrow> LeafRpcEndpoint" where
  "SetLocalAddress address s = (if length (lrSrvLAddr s) = 0 then s\<lparr>lrSrvLAddr := address\<rparr> else s)"

definition SetTopology :: "Topology \<Rightarrow> LeafRpcEndpoint \<Rightarrow> LeafRpcEndpoint" where
  "SetTopology topology s = (if lrTopology s = None then s\<lparr>lrTopology := Some topology\<rparr> else s)"

definition SetVCManager :: "VCManager \<Rightarrow> LeafRpcEndpoint \<Rightarrow> LeafRpcEndpoint" where
  "SetVCManager vcm s = (if lrVcm s = None then s\<lparr>lrVcm := Some vcm\<rparr> else s)"

text \<open>The server is made when its address can be listened at and everything is set; serving is gRPC's.\<close>

definition leaf_createServiceListener ::
  "(string \<Rightarrow> go_error option) \<Rightarrow> LeafRpcEndpoint \<Rightarrow> go_error + leafSrvServer" where
  "leaf_createServiceListener listen s =
     (case listen (lrSrvLAddr s) of
        Some err \<Rightarrow> Inl err
      | None \<Rightarrow>
          if length (lrSrvLAddr s) = 0 then Inl (ErrMsg ''leaf RPC serves has no local address'')
          else (case lrTopology s of
                  None \<Rightarrow> Inl (ErrMsg ''leaf RPC serves has no topology'')
                | Some t \<Rightarrow>
                    (case lrVcm s of
                       None \<Rightarrow> Inl (ErrMsg ''leaf RPC serves has no VC Manager'')
                     | Some m \<Rightarrow> Inr (NewLeafSrvServer t m))))"

section \<open>The servers of the other end points\<close>

text \<open>Where the address is free, the server is the one that the requests go to.\<close>

definition listener :: "(string \<Rightarrow> go_error option) \<Rightarrow> string \<Rightarrow> 's \<Rightarrow> go_error + 's" where
  "listener listen srvLAddr server = (case listen srvLAddr of Some err \<Rightarrow> Inl err | None \<Rightarrow> Inr server)"

definition central_createServiceListener ::
  "(string \<Rightarrow> go_error option) \<Rightarrow> string \<Rightarrow> VCManager \<Rightarrow> 'p CentralRpcEndpoint \<Rightarrow> go_error + centralSrvServer" where
  "central_createServiceListener listen srvLAddr vcm s = listener listen srvLAddr (NewCentralSrvServer (crTopology s) vcm)"

definition spine_createServiceListener ::
  "(string \<Rightarrow> go_error option) \<Rightarrow> string \<Rightarrow> VCManager \<Rightarrow> 'p SpineRpcEndpoint \<Rightarrow> go_error + spineSrvServer" where
  "spine_createServiceListener listen srvLAddr vcm s = listener listen srvLAddr (NewSpineSrvServer (srTopology s) vcm)"

text \<open>The end point of a manager has nothing but its address and its server.\<close>

datatype ManagerRpcEndpoint = ManagerRpcEndpoint (mrSrvLAddress: string)

definition NewManagerRpcEndpoint :: "string \<Rightarrow> ManagerRpcEndpoint" where
  "NewManagerRpcEndpoint srvLAddress = ManagerRpcEndpoint srvLAddress"

definition manager_createServiceListener ::
  "(string \<Rightarrow> go_error option) \<Rightarrow> ManagerRpcEndpoint \<Rightarrow> go_error + managerSrvServer" where
  "manager_createServiceListener listen s = listener listen (mrSrvLAddress s) NewManagerSrvServer"

section \<open>Fetching the topology\<close>

text \<open>\<open>pool.Get\<close> may fail before the call.\<close>

type_synonym topo_reply = "go_error + TopoInfo option \<times> go_error option"

definition leaf_GetTopology_fetch :: "topo_reply \<Rightarrow> TopoInfo option \<times> go_error option" where
  "leaf_GetTopology_fetch reply = (case reply of Inl err \<Rightarrow> (None, Some err) | Inr r \<Rightarrow> r)"

section \<open>Leaf controllers\<close>

record leafController =
  lcID :: u16
  lcCfg :: rootConfig
  lcPipeID :: u32
  lcTopology :: "Topology option"
  lcVcm :: "VCManager option"
  lcEndPoint :: LeafRpcEndpoint
  lcAsicIngress :: cref
  lcAsicEgress :: cref

definition NewBareLeafController :: "u16 \<Rightarrow> u32 \<Rightarrow> rootConfig \<Rightarrow> chan list \<Rightarrow> leafController \<times> chan list" where
  "NewBareLeafController ctrlID pipeID cfg chans =
     (let (asicEgress, chans1) = make_chan chans; (asicIngress, chans2) = make_chan chans1
      in (\<lparr>lcID = ctrlID, lcCfg = cfg, lcPipeID = pipeID, lcTopology = None, lcVcm = None,
           lcEndPoint = NewBareLeafRpcEndpoint ctrlID (rcRemoteSrvServer cfg),
           lcAsicIngress = asicIngress, lcAsicEgress = asicEgress\<rparr>, chans2))"

text \<open>
  A missing answer is only logged: the topology is then built from a nil pointer. A topology without the
  leaf ends the process.
\<close>

definition leaf_FetchTopology :: "topo_reply \<Rightarrow> leafController \<Rightarrow> leafController go" where
  "leaf_FetchTopology reply c =
     deref (fst (leaf_GetTopology_fetch reply)) (\<lambda>topoInfo.
     go_bind (NewDCNFromTopoInfo topoInfo) (\<lambda>topo.
       case NodeMap_Load (tLeaves topo) (lcID c) of
         None \<Rightarrow> Fatal
       | Some leaf \<Rightarrow>
           Ret (c\<lparr>lcTopology := Some topo, lcVcm := Some NewVCManager,
                  lcEndPoint := SetTopology topo (SetLocalAddress (nAddress (node topo leaf))
                    (SetVCManager NewVCManager (lcEndPoint c)))\<rparr>)))"

text \<open>The end point has the controller's pointer to the clusters.\<close>

definition leaf_FetchVCs :: "order \<Rightarrow> vcs_reply \<Rightarrow> leafController \<Rightarrow> (leafController \<times> go_error option) go" where
  "leaf_FetchVCs ord reply c =
     go_bind (leaf_GetVCs_fetch reply) (\<lambda>(vcs, err).
       case err of
         Some e \<Rightarrow> Ret (c, Some e)
       | None \<Rightarrow>
           if vcs = [] then Ret (c, None)
           else deref (lcTopology c) (\<lambda>t. deref (lcVcm c) (\<lambda>m.
             go_bind (load_vcs ord t vcs m) (\<lambda>m'.
               Ret (c\<lparr>lcVcm := Some m',
                      lcEndPoint := (lcEndPoint c)\<lparr>lrVcm := map_option (\<lambda>_. m') (lrVcm (lcEndPoint c))\<rparr>\<rparr>, None)))))"

definition CreateHealthManager :: "leafController \<Rightarrow> LeafHealthManager go" where
  "CreateHealthManager c =
     deref (lcTopology c) (\<lambda>t. deref (lcVcm c) (\<lambda>m.
       case NewLeafHealthManager (lcID c) t m (rcTimeout (lcCfg c)) of
         Inl _ \<Rightarrow> Fatal
       | Inr healthMgr \<Rightarrow> Ret healthMgr))"

text \<open>\<open>bfrtC.NewClient\<close>, the argument \<open>mk\<close>, makes a client for a target. The result is the bus with its parts.\<close>

definition leaf_StartBare ::
  "(bfrt_target \<Rightarrow> 'c bfrt) \<Rightarrow> order \<Rightarrow> order \<Rightarrow> order \<Rightarrow> bool \<Rightarrow> topo_reply \<Rightarrow> vcs_reply \<Rightarrow> leafController \<Rightarrow> 'c \<Rightarrow>
    (leafController \<times> 'c LeafBus) go option" where
  "leaf_StartBare mk ord o1 o2 fetchTopo topoReply vcsReply c w =
     opt_bind (Some (if fetchTopo then leaf_FetchTopology topoReply c else Ret c)) (\<lambda>c.
     opt_bind (Some (leaf_FetchVCs ord vcsReply c)) (\<lambda>(c, _).
     opt_bind (Some (deref (lcTopology c) (\<lambda>t. go_bind (GetNode t (lcID c) NodeType_Leaf) (\<lambda>leaf. Ret (t, leaf))))) (\<lambda>(t, leaf).
     opt_bind (Some (leaf_cp (rcControlAPI (lcCfg c)) (mk (ctrl_target (lcCfg c) (ucast (lcID c)) (lcPipeID c)))
         leaf (rcSpines (lcCfg c)))) (\<lambda>cp.
     opt_bind (Some (CreateHealthManager c)) (\<lambda>healthMgr.
     opt_bind (lcpInit cp o1 o2 t w) (\<lambda>w'.
       Some (Ret (c, NewBareLeafBus (lcID c) cp healthMgr w'))))))))"

text \<open>The bus says good-bye, then the channels to the switch are closed.\<close>

definition leaf_Shutdown ::
  "(layer list \<Rightarrow> go_error + bytes) \<Rightarrow> leafController \<Rightarrow> 'c LeafBus \<Rightarrow> chan list \<Rightarrow> ('c LeafBus \<times> chan list) go" where
  "leaf_Shutdown ser c b chans =
     go_bind (leafBus_Shutdown ser b) (\<lambda>b'.
     go_bind (chan_close (lcAsicEgress c) chans) (\<lambda>chans1.
     go_bind (chan_close (lcAsicIngress c) chans1) (\<lambda>chans2.
       Ret (b', chans2))))"

section \<open>Spine controllers\<close>

record ('p, 'c) spineController =
  scoID :: u16
  scoTopology :: Topology
  scoVcm :: VCManager
  scoEndPoint :: "'p SpineRpcEndpoint"
  scoBus :: "'c SpineBus"
  scoAsicIngress :: cref
  scoAsicEgress :: cref

definition spine_GetTopology_fetch :: "topo_reply \<Rightarrow> TopoInfo option \<times> go_error option" where
  "spine_GetTopology_fetch reply = (case reply of Inl err \<Rightarrow> (None, Some err) | Inr r \<Rightarrow> r)"

text \<open>The address of the spine is read although the spine may not be in the topology.\<close>

definition NewSpineController ::
  "(bfrt_target \<Rightarrow> 'c bfrt) \<Rightarrow> topo_reply \<Rightarrow> u16 \<Rightarrow> u32 \<Rightarrow> rootConfig \<Rightarrow> 'c \<Rightarrow> chan list \<Rightarrow>
    (('p, 'c) spineController \<times> chan list) go" where
  "NewSpineController mk reply ctrlID pipeID cfg w chans =
     (case spine_GetTopology_fetch reply of
        (_, Some _) \<Rightarrow> Fatal
      | (topoInfo, None) \<Rightarrow>
          deref topoInfo (\<lambda>ti.
          go_bind (NewDCNFromTopoInfo ti) (\<lambda>topology.
          go_bind (GetNode topology ctrlID NodeType_Spine) (\<lambda>spine.
          go_bind (spine_cp (rcControlAPI cfg) (mk (ctrl_target cfg (ucast ctrlID) pipeID)) spine) (\<lambda>cp.
          deref spine (\<lambda>_.
            let (asicEgress, chans1) = make_chan chans; (asicIngress, chans2) = make_chan chans1
            in Ret (\<lparr>scoID = ctrlID, scoTopology = topology, scoVcm = NewVCManager,
                     scoEndPoint = NewSpineRpcEndpoint topology, scoBus = NewSpineBus ctrlID cp w,
                     scoAsicIngress = asicIngress, scoAsicEgress = asicEgress\<rparr>, chans2)))))))"

text \<open>
  The source starts the initialisation of the control plane, the bus and the end point as goroutines, so a first event may be
  handled while the control plane is still being initialised. Here the initialisation is finished when the
  function returns, and the bus takes events afterwards.
\<close>

definition spine_ctrl_Start ::
  "order \<Rightarrow> order \<Rightarrow> vcs_reply \<Rightarrow> ('p, 'c) spineController \<Rightarrow> ('p, 'c) spineController go" where
  "spine_ctrl_Start ord oi reply c =
     go_bind (spine_GetVCs_fetch reply) (\<lambda>(vcs, err).
     go_bind (case err of Some _ \<Rightarrow> Ret (scoVcm c) | None \<Rightarrow> load_vcs ord (scoTopology c) vcs (scoVcm c)) (\<lambda>m.
     go_bind (spcpInit (sbCp (scoBus c)) oi (scoTopology c) (sbClient (scoBus c))) (\<lambda>w.
       Ret (c\<lparr>scoVcm := m, scoBus := (scoBus c)\<lparr>sbClient := w\<rparr>\<rparr>))))"

end
