(* ===== verification/Central_Start_Correct.thy ===== *)
theory Central_Start_Correct
  imports Central_Bus Ports_Correct Server_Correct
begin

text \<open>
  The start of the central controller: the topology of the configuration and the configured clusters establish the
  invariant that its requests keep. A cluster that is wrong is left out, whatever is wrong with it.
\<close>

section \<open>Loading the clusters\<close>

lemma vc_add_spines_total: "\<exists>r. vc_add_spines t ids vc = Ret r"
  by (induction ids arbitrary: vc) (auto split: option.split)

lemma vc_add_servers_total: "\<exists>r. vc_add_servers t cfgs vc = Ret r"
  by (induction cfgs arbitrary: vc) (auto split: option.split)

lemma NewVC_total: "\<exists>r. NewVC cfg t = Ret r"
proof -
  obtain r1 where r1: "vc_add_spines t (viSpines cfg) \<lparr>vcClusterID = ucast (viId cfg), vcSpines = gm_empty,
      vcLeaves = gm_empty, vcServers = gm_empty\<rparr> = Ret r1" using vc_add_spines_total by blast
  then show ?thesis by (cases r1) (use vc_add_servers_total in \<open>auto simp: NewVC_def\<close>)
qed

lemma register_vc_total: "\<exists>r. register_vc ord cfg t m = Ret r"
proof -
  obtain r where "NewVC cfg t = Ret r" using NewVC_total by blast
  then show ?thesis by (auto simp: register_vc_def Let_def case_prod_beta split: sum.split)
qed

lemma load_vcs_ok:
  assumes ord: "is_order ord"
  shows "sys_ok t m \<Longrightarrow> \<exists>m'. load_vcs ord t vcs m = Ret m' \<and> sys_ok t m'"
proof (induction vcs arbitrary: m)
  case (Cons v vcs)
  obtain m1 res where run: "register_vc ord v t m = Ret (m1, res)" using register_vc_total [of ord v t m] by auto
  from register_vc_inv [OF Cons.prems ord run] have "sys_ok t m1" .
  from Cons.IH [OF this] run show ?case by (simp add: load_vcs_def load_vc_def)
qed (simp add: load_vcs_def)

section \<open>The start\<close>

lemma new_cps_total:
  assumes "\<forall>a \<in> set asics. caCtrlAPI a \<in> {''fake'', ''bfrt''}"
  shows "\<exists>cps. new_cps asics = Ret cps"
proof -
  have "\<exists>cps'. go_fold (\<lambda>asicCfg cps. go_bind (new_cp asicCfg) (\<lambda>cp. Ret (cps @ [cp]))) asics cps = Ret cps'" for cps
    using assms by (induction asics arbitrary: cps) (auto simp: new_cp_def)
  then show ?thesis by (simp add: new_cps_def)
qed

text \<open>
  C10: A central controller that is configured with distinct IDs, with the position of every leaf as its index and with
  known control APIs comes up, whatever clusters it is configured with: its state is consistent, and no sequence of
  requests makes it inconsistent.
\<close>

theorem central_controller_starts:
  assumes built: "NewDCNFromConf topoCfg = Ret t"
    and dist: "distinct (map csID (tcSpines (trTopo topoCfg)))"
      "distinct (map (\<lambda>i. clID (tcLeaves (trTopo topoCfg) ! unat i)) (conf_leaf_ids (trTopo topoCfg)))"
      "distinct (map (\<lambda>i. cvID (tcServers (trTopo topoCfg) ! unat i)) (conf_server_ids (trTopo topoCfg)))"
    and "indices_ok t" and "\<forall>a \<in> set (trAsics topoCfg). caCtrlAPI a \<in> {''fake'', ''bfrt''}" and "is_order ord"
  shows "\<exists>cc :: ('p, 'w) centralController. NewCentralController ord topoCfg vcs w = Ret cc \<and> ceTopology (ccServer cc) = t \<and>
    (\<forall>s. central_step\<^sup>*\<^sup>* (ccServer cc) s \<longrightarrow> central_ok s)"
proof -
  have "tree_ok t" by (rule NewDCNFromConf_tree [OF built dist])
  then have "sys_ok t NewVCManager" by (simp add: sys_ok_def tree_ok_def NewVCManager_wf)
  then obtain m where m: "load_vcs ord t vcs NewVCManager = Ret m" "sys_ok t m" using load_vcs_ok [OF assms(7)] by blast
  obtain cps where cps: "new_cps (trAsics topoCfg) = Ret cps" using new_cps_total [OF assms(6)] by blast
  define cc :: "('p, 'w) centralController" where "cc = \<lparr>ccRpcEndPoint = NewCentralRpcEndpoint t, ccServer = NewCentralSrvServer t m,
    ccBus = NewCentralBus t cps w\<rparr>"
  have run: "NewCentralController ord topoCfg vcs w = Ret cc" by (simp add: NewCentralController_def built m(1) cps cc_def)
  have "central_ok (ccServer cc)" using m(2) assms(5) by (simp add: cc_def central_ok_def NewCentralSrvServer_def)
  then have "\<forall>s. central_step\<^sup>*\<^sup>* (ccServer cc) s \<longrightarrow> central_ok s" using ci.reachable by blast
  moreover have "ceTopology (ccServer cc) = t" by (simp add: cc_def NewCentralSrvServer_def)
  ultimately show ?thesis using run by blast
qed

lemma sample_conf_indices: "\<exists>s. NewDCNFromConf sample_conf = Ret s \<and> indices_ok s"
proof -
  obtain h where reg: "NewAsicRegistry (trAsics sample_conf) (trPortConfig sample_conf)
      (trPortGroup sample_conf) \<lparr>hPorts = [], hAsics = []\<rparr> = ([(''a'', 0)], h)"
    and ports: "prPortMap (asPortRegistry (asic h 0)) = [(''1/0'', 0), (''1/1'', 1), (''2/0'', 2)]"
    using sample_registry by blast
  show ?thesis
    by (simp add: NewDCNFromConf_def reg Let_def)
      (simp add: sample_conf_def build_client_def empty_topology_def FindPort_def FindAsic_def ports
         build_root_def build_spine_def conf_spine_def build_leaf_def conf_leaf_def conf_server_def
         go_nth_def build_server_def Let_def topo_eval gm_eval indices_ok_def NewSpine_def zero_Node_def)
qed

theorem central_controller_starts_witness:
  "\<exists>cc :: (unit, unit) centralController. NewCentralController stored_order sample_conf [sample_vcinfo] () = Ret cc \<and>
     central_ok (ccServer cc)"
proof -
  obtain t where t: "NewDCNFromConf sample_conf = Ret t" "indices_ok t" using sample_conf_indices by blast
  have dist: "distinct (map csID (tcSpines (trTopo sample_conf)))"
    "distinct (map (\<lambda>i. clID (tcLeaves (trTopo sample_conf) ! unat i)) (conf_leaf_ids (trTopo sample_conf)))"
    "distinct (map (\<lambda>i. cvID (tcServers (trTopo sample_conf) ! unat i)) (conf_server_ids (trTopo sample_conf)))"
    by (auto simp: sample_conf_def conf_leaf_ids_def conf_server_ids_def)
  have "\<forall>a \<in> set (trAsics sample_conf). caCtrlAPI a \<in> {''fake'', ''bfrt''}" by (simp add: sample_conf_def)
  from central_controller_starts [OF t(1) dist t(2) this is_order_stored, of "[sample_vcinfo]" "()"] show ?thesis by blast
qed

end
