(* ===== verification/Leaf_Start_Correct.thy ===== *)
theory Leaf_Start_Correct
  imports Leaf_Bus_Correct Node_Controllers Central_Start_Correct
begin

text \<open>
  The start of a leaf controller: the topology that it builds from the answer of the central controller,
  the clusters that it loads, and what its control plane writes to the switch establish the invariant
  \<open>bus_ok\<close> that its event loop keeps.
\<close>

section \<open>What the initialisation writes\<close>

text \<open>One worker, one server, all servers: the routes, and otherwise only registers.\<close>

lemma init_worker_ok:
  assumes "bfrt_ok cl vw" and "reachable_server t s"
  obtains c' where "init_worker cl t leaf s w c = Ret c'"
    "svTable vw c' = route (svTable vw c) {worker_keys t leaf w} (entry_of t s)"
proof -
  obtain c1 where 1: "put_reg cl ''pipe_leaf.LeafIngress.idle_list'' (ucast (worker_index t leaf w))
      (ucast (worker_index t leaf w)) c = Ret c1" "svTable vw c1 = svTable vw c" by (rule put_reg_ok [OF assms(1) small_index(1)])
  obtain c2 where "map_worker cl t leaf s w c1 = Ret c2"
    "svTable vw c2 = route (svTable vw c1) {worker_keys t leaf w} (entry_of t s)" by (rule map_worker_ok [OF assms])
  with 1 show ?thesis by (intro that [of c2]) (simp_all add: init_worker_def Let_def)
qed

lemma init_server_ok:
  assumes bf: "bfrt_ok cl vw" and s: "reachable_server t s" and lst: "nLastWorkerID (node t s) \<noteq> - 1"
  obtains c' where "init_server cl t leaf s c = Some (Ret c')"
    "svTable vw c' = route (svTable vw c) (keys_of t leaf s) (entry_of t s)"
proof -
  have "\<exists>c'. go_fold (init_worker cl t leaf s) ws c = Ret c' \<and>
    svTable vw c' = route (svTable vw c) (worker_keys t leaf ` set ws) (entry_of t s)" for ws c
  proof (induction ws arbitrary: c)
    case Nil
    then show ?case by (simp add: route_def)
  next
    case (Cons w ws)
    obtain c1 where 1: "init_worker cl t leaf s w c = Ret c1"
      "svTable vw c1 = route (svTable vw c) {worker_keys t leaf w} (entry_of t s)" by (rule init_worker_ok [OF bf s])
    from Cons [of c1] obtain c' where "go_fold (init_worker cl t leaf s) ws c1 = Ret c'"
      "svTable vw c' = route (svTable vw c1) (worker_keys t leaf ` set ws) (entry_of t s)" by blast
    with 1 show ?case by (auto simp: route_def fun_eq_iff)
  qed
  from this [of "wids (nFirstWorkerID (node t s)) (nLastWorkerID (node t s))" c] obtain c' where
    "go_fold (init_worker cl t leaf s) (wids (nFirstWorkerID (node t s)) (nLastWorkerID (node t s))) c = Ret c'"
    "svTable vw c' = route (svTable vw c) (worker_keys t leaf ` set (wids (nFirstWorkerID (node t s))
      (nLastWorkerID (node t s)))) (entry_of t s)" by blast
  moreover have "set (wids (nFirstWorkerID (node t s)) (nLastWorkerID (node t s))) =
      {nFirstWorkerID (node t s)..nLastWorkerID (node t s)}" by (auto simp: set_wids)
  ultimately show ?thesis using that by (simp add: init_server_def for_wid_fold [OF lst] keys_of_def)
qed

lemma init_servers_ok:
  assumes bf: "bfrt_ok cl vw" and us: "\<forall>s \<in> set us. reachable_server t s \<and> nLastWorkerID (node t s) \<noteq> - 1"
    and disj: "\<forall>s \<in> set us. \<forall>s' \<in> set us. s \<noteq> s' \<longrightarrow> keys_of t leaf s \<inter> keys_of t leaf s' = {}"
  obtains c' where "opt_fold (init_server cl t leaf) us c = Some (Ret c')"
    "\<forall>s \<in> set us. \<forall>ks \<in> keys_of t leaf s. svTable vw c' fwd_table ks = Some (entry_of t s)"
proof -
  have "\<exists>c2. init_server cl t leaf s c1 = Some (Ret c2) \<and> True \<and>
      svTable vw c2 = route (svTable vw c1) (keys_of t leaf s) (entry_of t s)" if "s \<in> set us" for s c1
    by (rule init_server_ok [OF bf, of t s leaf c1]) (use us that in auto)
  from route_servers [where f = "init_server cl t leaf" and P = "\<lambda>_. True", OF this disj] show ?thesis using that by blast
qed

text \<open>The rest of the initialisation keeps the entries of the workers, if no upstream ID has the key of one.\<close>

definition upstream_keys :: "Topology \<Rightarrow> nref \<Rightarrow> u16 \<Rightarrow> key_field list" where
  "upstream_keys t leaf uid = [ExactKey ''hdr.horus.dst_id'' (ucast uid), ExactKey ''hdr.horus.pool_id'' (ucast (nIndex (node t leaf)))]"

definition upstream_ids :: "Topology \<Rightarrow> u16 set" where
  "upstream_ids t = (nID \<circ> node t \<circ> snd) ` (set (tSpines t) \<union> set (tClients t))"

definition upstream_apart :: "Topology \<Rightarrow> nref \<Rightarrow> bool" where
  "upstream_apart t leaf \<longleftrightarrow> (\<forall>uid \<in> upstream_ids t. \<forall>s \<in> set (nChildren (node t leaf)). upstream_keys t leaf uid \<notin> keys_of t leaf s)"

lemma init_upstream_ok:
  assumes bf: "bfrt_ok cl vw" and p: "nUsPort (node t leaf) \<noteq> None"
  obtains c' where "init_upstream cl t leaf uid c = Ret c'"
    "\<forall>ks. ks \<noteq> upstream_keys t leaf uid \<longrightarrow> svTable vw c' fwd_table ks = svTable vw c fwd_table ks"
proof -
  from p obtain q where q: "nUsPort (node t leaf) = Some q" by blast
  let ?us = "GetDevPort (port (tHw t) q)"
  obtain c1 where 1: "put_table cl ''$mirror.cfg'' [ExactKey ''$sid'' (ucast uid + ucast (nIndex (node t leaf)))] ''$normal''
           [StrData ''$direction'' ''INGRESS'', BytesData ''$ucast_egress_port'' ?us,
            BoolData ''$ucast_egress_port_valid'' True, BoolData ''$session_enable'' True] c = Ret c1"
      "svTable vw c1 = table_upd (svTable vw c) ''$mirror.cfg'' [ExactKey ''$sid'' (ucast uid + ucast (nIndex (node t leaf)))]
        (''$normal'', [StrData ''$direction'' ''INGRESS'', BytesData ''$ucast_egress_port'' ?us,
            BoolData ''$ucast_egress_port_valid'' True, BoolData ''$session_enable'' True])"
    by (rule put_table_ok [OF bf])
  obtain c2 where 2: "put_table cl fwd_table (upstream_keys t leaf uid) fwd_action [BytesData ''port'' ?us, BytesData ''dst_mac'' 100] c1 = Ret c2"
      "svTable vw c2 = table_upd (svTable vw c1) fwd_table (upstream_keys t leaf uid)
        (fwd_action, [BytesData ''port'' ?us, BytesData ''dst_mac'' 100])" by (rule put_table_ok [OF bf])
  have "fwd_table \<noteq> ''$mirror.cfg''" by (simp add: fwd_table_def)
  then have "\<forall>ks. ks \<noteq> upstream_keys t leaf uid \<longrightarrow> svTable vw c2 fwd_table ks = svTable vw c fwd_table ks"
    by (simp add: 1(2) 2(2) table_upd_def)
  moreover have "init_upstream cl t leaf uid c = Ret c2"
    using 1(1) 2(1) by (simp add: init_upstream_def q Let_def upstream_keys_def)
  ultimately show ?thesis using that by blast
qed

text \<open>Steps that leave the forwarding table as it is.\<close>

lemma other_table_ok:
  assumes "bfrt_ok cl vw" and "table \<noteq> fwd_table"
  obtains c' where "put_table cl table ks a ds c = Ret c'" "svTable vw c' fwd_table = svTable vw c fwd_table"
proof -
  obtain c' where "put_table cl table ks a ds c = Ret c'" "svTable vw c' = table_upd (svTable vw c) table ks (a, ds)"
    by (rule put_table_ok [OF assms(1)])
  with assms(2) show ?thesis by (intro that [of c']) (simp_all add: table_upd_def)
qed

definition keeps_fwd :: "'c switch_view \<Rightarrow> ('c \<Rightarrow> 'c go) \<Rightarrow> bool" where
  "keeps_fwd vw f \<longleftrightarrow> (\<forall>c. \<exists>c'. f c = Ret c' \<and> svTable vw c' fwd_table = svTable vw c fwd_table)"

lemma keeps_fwd_bind:
  assumes "keeps_fwd vw f" and "keeps_fwd vw g"
  shows "keeps_fwd vw (\<lambda>c. go_bind (f c) g)"
  unfolding keeps_fwd_def
proof
  fix c
  from assms(1) obtain c1 where 1: "f c = Ret c1" "svTable vw c1 fwd_table = svTable vw c fwd_table"
    unfolding keeps_fwd_def by blast
  from assms(2) obtain c2 where "g c1 = Ret c2" "svTable vw c2 fwd_table = svTable vw c1 fwd_table"
    unfolding keeps_fwd_def by blast
  with 1 show "\<exists>c'. go_bind (f c) g = Ret c' \<and> svTable vw c' fwd_table = svTable vw c fwd_table" by simp
qed

lemma keeps_fwd_reg:
  assumes "bfrt_ok cl vw" and "i < 2 ^ 16"
  shows "keeps_fwd vw (put_reg cl reg i v)"
  unfolding keeps_fwd_def
proof
  fix c
  obtain c' where "put_reg cl reg i v c = Ret c'" "svTable vw c' = svTable vw c" by (rule put_reg_ok [OF assms])
  then show "\<exists>c'. put_reg cl reg i v c = Ret c' \<and> svTable vw c' fwd_table = svTable vw c fwd_table" by simp
qed

lemma keeps_fwd_table:
  assumes "bfrt_ok cl vw" and "table \<noteq> fwd_table"
  shows "keeps_fwd vw (put_table cl table ks a ds)"
  unfolding keeps_fwd_def
proof
  fix c
  obtain c' where "put_table cl table ks a ds c = Ret c'" "svTable vw c' fwd_table = svTable vw c fwd_table"
    by (rule other_table_ok [OF assms])
  then show "\<exists>c'. put_table cl table ks a ds c = Ret c' \<and> svTable vw c' fwd_table = svTable vw c fwd_table" by simp
qed

lemma keeps_fwd_fold: "(\<And>x. x \<in> set xs \<Longrightarrow> keeps_fwd vw (f x)) \<Longrightarrow> keeps_fwd vw (go_fold f xs)"
proof (induction xs)
  case (Cons x xs)
  then have "keeps_fwd vw (f x)" "keeps_fwd vw (go_fold f xs)" by auto
  from keeps_fwd_bind [OF this] show ?case by (simp add: keeps_fwd_def)
qed (simp add: keeps_fwd_def)

lemma init_tail_ok:
  assumes bf: "bfrt_ok cl vw" and sp: "spines \<noteq> []" and id: "leafID < 2 ^ 16"
  shows "keeps_fwd vw (\<lambda>c. go_bind (put_reg cl ''pipe_leaf.LeafIngress.idle_count'' leafID wc c) (\<lambda>c.
              go_bind (put_num_valid cl t leaf n num c) (\<lambda>c.
              go_bind (go_fold (put_spine_dst cl t leaf spines) xs c) (\<lambda>c.
              go_bind (put_qlen_unit cl t leaf n c) (\<lambda>c.
              go_bind (put_reg cl ''pipe_leaf.LeafIngress.linked_iq_sched'' leafID spineID c) (\<lambda>c.
                put_reg cl ''pipe_leaf.LeafIngress.linked_sq_sched'' leafID spineID c))))))"
proof -
  have "keeps_fwd vw (put_spine_dst cl t leaf spines i)" for i
    using sp keeps_fwd_table [OF bf, of "''pipe_leaf.LeafIngress.get_spine_dst_id''"]
    by (cases spines) (simp_all add: put_spine_dst_def fwd_table_def keeps_fwd_def)
  then show ?thesis
    by (intro keeps_fwd_bind keeps_fwd_reg keeps_fwd_fold bf id)
      (simp_all add: put_num_valid_def put_qlen_unit_def keeps_fwd_table [OF bf])
qed

lemma LeafCPInit_ok:
  assumes bf: "bfrt_ok cl vw" and ready: "leaf_ready t leaf" and up: "upstream_apart t leaf" and "nUsPort (node t leaf) \<noteq> None"
    and par: "nParent (node t leaf) \<noteq> None" and sp: "spines \<noteq> []" and ord: "is_order o1" "is_order o2"
  obtains c' where "LeafCPInitAllVer cl o1 o2 leaf spines t c = Some (Ret c')" "routes_ok vw c' t leaf"
proof -
  let ?chs = "nChildren (node t leaf)"
  note rd = ready [unfolded leaf_ready_def]
  have good: "\<forall>s \<in> set ?chs. reachable_server t s \<and> nLastWorkerID (node t s) \<noteq> - 1" using rd leaf_blocks(1) by blast
  have disj: "\<forall>s \<in> set ?chs. \<forall>s' \<in> set ?chs. s \<noteq> s' \<longrightarrow> keys_of t leaf s \<inter> keys_of t leaf s' = {}"
    using rd leaf_keys_disjoint by blast
  obtain c1 where 1: "opt_fold (init_server cl t leaf) ?chs c = Some (Ret c1)"
    "\<forall>s \<in> set ?chs. \<forall>ks \<in> keys_of t leaf s. svTable vw c1 fwd_table ks = Some (entry_of t s)"
    by (rule init_servers_ok [OF bf good disj])
  define ups where "ups = map (\<lambda>(_, sp). nID (node t sp)) (go_range o1 (tSpines t)) @
    map (\<lambda>(_, cn). nID (node t cn)) (go_range o2 (tClients t))"
  have "set ups \<subseteq> upstream_ids t"
    using ord by (force simp: ups_def upstream_ids_def)
  then have apart: "\<forall>uid \<in> set ups. \<forall>s \<in> set ?chs. upstream_keys t leaf uid \<notin> keys_of t leaf s"
    using up unfolding upstream_apart_def by blast
  have "\<exists>c2. go_fold (init_upstream cl t leaf) us c = Ret c2 \<and>
      (\<forall>s \<in> set ?chs. \<forall>ks \<in> keys_of t leaf s. svTable vw c2 fwd_table ks = svTable vw c fwd_table ks)"
    if "set us \<subseteq> set ups" for us c
    using that
  proof (induction us arbitrary: c)
    case (Cons u us)
    obtain c2 where 2: "init_upstream cl t leaf u c = Ret c2"
      "\<forall>ks. ks \<noteq> upstream_keys t leaf u \<longrightarrow> svTable vw c2 fwd_table ks = svTable vw c fwd_table ks"
      by (rule init_upstream_ok [OF bf assms(4)])
    from Cons obtain c3 where "go_fold (init_upstream cl t leaf) us c2 = Ret c3"
      "\<forall>s \<in> set ?chs. \<forall>ks \<in> keys_of t leaf s. svTable vw c3 fwd_table ks = svTable vw c2 fwd_table ks" by fastforce
    moreover have "\<forall>s \<in> set ?chs. \<forall>ks \<in> keys_of t leaf s. ks \<noteq> upstream_keys t leaf u"
      using Cons.prems apart by auto
    ultimately show ?case using 2 by (intro exI [of _ c3]) simp
  qed simp
  from this [OF subset_refl, of c1] obtain c2 where 2: "go_fold (init_upstream cl t leaf) ups c1 = Ret c2"
    "\<forall>s \<in> set ?chs. \<forall>ks \<in> keys_of t leaf s. svTable vw c2 fwd_table ks = svTable vw c1 fwd_table ks" by blast
  from par obtain spine where spine: "nParent (node t leaf) = Some spine" by blast
  let ?num = "max (length spines) 2"
  from init_tail_ok [OF bf sp small_index(1), of "nID (node t leaf)" "ucast (leaf_worker_count t leaf)" t leaf
      "leaf_worker_count t leaf" "of_nat ?num" "[0..<?num]" "ucast (nID (node t spine))", unfolded keeps_fwd_def, rule_format, of c2]
  obtain c3 where 3: "go_bind (put_reg cl ''pipe_leaf.LeafIngress.idle_count'' (ucast (nID (node t leaf))) (ucast (leaf_worker_count t leaf)) c2) (\<lambda>c.
              go_bind (put_num_valid cl t leaf (leaf_worker_count t leaf) (of_nat ?num) c) (\<lambda>c.
              go_bind (go_fold (put_spine_dst cl t leaf spines) [0..<?num] c) (\<lambda>c.
              go_bind (put_qlen_unit cl t leaf (leaf_worker_count t leaf) c) (\<lambda>c.
              go_bind (put_reg cl ''pipe_leaf.LeafIngress.linked_iq_sched'' (ucast (nID (node t leaf))) (ucast (nID (node t spine))) c) (\<lambda>c.
                put_reg cl ''pipe_leaf.LeafIngress.linked_sq_sched'' (ucast (nID (node t leaf))) (ucast (nID (node t spine))) c))))) = Ret c3"
    "svTable vw c3 fwd_table = svTable vw c2 fwd_table" by blast
  have "LeafCPInitAllVer cl o1 o2 leaf spines t c = Some (Ret c3)"
    unfolding LeafCPInitAllVer_def spine option.case Let_def 1(1) opt_bind_simps ups_def [symmetric] 2(1) go_bind.simps 3(1) ..
  moreover have "routes_ok vw c3 t leaf" using 1(2) 2(2) 3(2) by (simp add: routes_ok_def)
  ultimately show ?thesis by (rule that)
qed

section \<open>The start\<close>

lemma built_leaf_ready:
  assumes ok: "tree_ok t" and l: "gm_load (tLeaves t) k = Some l" and ch: "nChildren (node t l) \<noteq> []"
    and few: "few_workers t l" and up: "\<forall>s \<in> set (nChildren (node t l)). reachable_server t s"
  shows "leaf_ready t l"
proof -
  let ?cs = "nChildren (node t l)"
  have b: "built_workers t l" and wf: "wf_topo t" using ok l by (auto simp: tree_ok_def)
  have sum: "unat (total_workers t cs) = (\<Sum>s\<leftarrow>cs. unat (worker_count (node t s)))"
    if "(\<Sum>s\<leftarrow>cs. unat (worker_count (node t s))) < 2 ^ 16" for cs
    using that
  proof (induction cs)
    case (Cons a cs)
    then have "unat (worker_count (node t a) + total_workers t cs) = unat (worker_count (node t a)) + unat (total_workers t cs)"
      by (subst unat_plus_simple [THEN iffD1]) (auto simp: no_olen_add_nat)
    with Cons show ?case by (simp add: total_workers_def)
  qed (simp add: total_workers_def)
  from ch obtain a cs where cs: "?cs = a # cs" by (cases ?cs) auto
  have "unat (total_workers t ?cs) = (\<Sum>s\<leftarrow>?cs. unat (worker_count (node t s)))" using few by (intro sum) (simp add: few_workers_def)
  also have "\<dots> > 0" using few by (simp add: cs few_workers_def unat_gt_0)
  finally have "total_workers t ?cs \<noteq> 0" by auto
  then have "workers_ok t l" using b by (simp add: built_workers_def workers_ok_def last_worker_def)
  moreover have "distinct ?cs" using wf_leaf [OF wf l] by (simp add: leaf_ok_def)
  ultimately show ?thesis using few up by (simp add: leaf_ready_def)
qed

text \<open>The steps of \<open>StartBare\<close>, for a reply with a topology and any reply with clusters but a nil one.\<close>

lemma FetchVCs_ok:
  assumes "is_order ord" and t: "lcTopology c = Some t" and m: "lcVcm c = Some m" and ok: "sys_ok t m"
    and reply: "reply \<noteq> Inr (None, None)"
  obtains m' e where "leaf_FetchVCs ord reply c = Ret (c\<lparr>lcVcm := Some m',
      lcEndPoint := (lcEndPoint c)\<lparr>lrVcm := map_option (\<lambda>_. m') (lrVcm (lcEndPoint c))\<rparr>\<rparr>, e)"
    "sys_ok t m'" | e where "leaf_FetchVCs ord reply c = Ret (c, e)"
proof -
  obtain vcs e where "leaf_GetVCs_fetch reply = Ret (vcs, e)"
  proof (cases reply)
    case (Inr p)
    with reply that show ?thesis by (cases p; cases "fst p"; cases "snd p") (auto simp: leaf_GetVCs_fetch_def)
  qed (use that in \<open>simp add: leaf_GetVCs_fetch_def\<close>)
  note run = this leaf_FetchVCs_def t m
  obtain m' where m': "load_vcs ord t vcs m = Ret m'" "sys_ok t m'" using load_vcs_ok [OF assms(1) ok] by blast
  show ?thesis
  proof (cases "e = None \<and> vcs \<noteq> []")
    case True
    show ?thesis by (rule that(1) [OF _ m'(2), of None]) (simp add: run m'(1) True)
  next
    case False
    then have "leaf_FetchVCs ord reply c = Ret (c, e)" by (cases e) (simp_all add: run)
    then show ?thesis by (rule that(2))
  qed
qed

text \<open>
  C9: A leaf controller that is started comes up with a switch that forwards every task to the right server: if the
  central controller sends a topology with distinct IDs that has the leaf, with servers that have workers, ports and
  MAC addresses, then whatever clusters it sends, or none, the start returns, the controller has this topology, its
  bus satisfies the invariant of the event loop, and from then on, after whatever packets arrive and whatever servers
  fall silent, the switch forwards to the workers as the current topology has them.
\<close>

theorem leaf_controller_starts:
  assumes bf: "bfrt_ok (mk (ctrl_target (lcCfg c) (ucast (lcID c)) (lcPipeID c))) vw"
    and built: "NewDCNFromTopoInfo info = Ret t"
    and dist: "distinct (map (\<lambda>sp. ucast (spId sp) :: u16) (tiSpines info))"
      "distinct (map (\<lambda>li. ucast (liId li) :: u16) (info_leaves info))"
      "distinct (map (\<lambda>si. ucast (siId si) :: u16) (concat (map liServers (info_leaves info))))"
    and l: "gm_load (tLeaves t) (lcID c) = Some l" and ch: "nChildren (node t l) \<noteq> []" and few: "few_workers t l"
    and up: "\<forall>s \<in> set (nChildren (node t l)). reachable_server t s" "upstream_apart t l"
    and api: "rcControlAPI (lcCfg c) = ''v1''" and sp: "rcSpines (lcCfg c) \<noteq> []"
    and vcs: "reply \<noteq> Inr (None, None)" and ord: "is_order ord" "is_order o1" "is_order o2"
  shows "\<exists>c' b. leaf_StartBare mk ord o1 o2 True (Inr (Some info, None)) reply c w = Some (Ret (c', b)) \<and>
    lcTopology c' = Some t \<and> lbTopology b = t \<and> hmLeaf (lbHealth b) = l \<and>
    bus_ok (mk (ctrl_target (lcCfg c) (ucast (lcID c)) (lcPipeID c))) vw (lcID c) (rcSpines (lcCfg c)) b \<and>
    (\<forall>b'. (leaf_step ser parse)\<^sup>*\<^sup>* b b' \<longrightarrow> routes_ok vw (lbClient b') (lbTopology b') (hmLeaf (lbHealth b')))"
proof -
  let ?cl = "mk (ctrl_target (lcCfg c) (ucast (lcID c)) (lcPipeID c))" and ?sps = "rcSpines (lcCfg c)"
  have ok: "tree_ok t" by (rule NewDCNFromTopoInfo_tree [OF built dist])
  then have sys: "sys_ok t NewVCManager" by (simp add: sys_ok_def tree_ok_def NewVCManager_wf)
  have ready: "leaf_ready t l" by (rule built_leaf_ready [OF ok l ch few up(1)])
  define c1 where "c1 = c\<lparr>lcTopology := Some t, lcVcm := Some NewVCManager,
    lcEndPoint := SetTopology t (SetLocalAddress (nAddress (node t l)) (SetVCManager NewVCManager (lcEndPoint c)))\<rparr>"
  have 1: "leaf_FetchTopology (Inr (Some info, None)) c = Ret c1"
    by (simp add: leaf_FetchTopology_def leaf_GetTopology_fetch_def built l c1_def)
  obtain c2 e m where 2: "leaf_FetchVCs ord reply c1 = Ret (c2, e)" "lcTopology c2 = Some t" "lcVcm c2 = Some m"
    "sys_ok t m" "lcID c2 = lcID c" "lcCfg c2 = lcCfg c" "lcPipeID c2 = lcPipeID c"
    by (rule FetchVCs_ok [OF ord(1) _ _ sys vcs, of c1]) (use sys in \<open>auto simp: c1_def\<close>)
  obtain w' where w': "LeafCPInitAllVer ?cl o1 o2 l ?sps t w = Some (Ret w')" "routes_ok vw w' t l"
  proof (rule LeafCPInit_ok [OF bf ready up(2) _ _ sp ord(2,3)])
    show "nUsPort (node t l) \<noteq> None" "nParent (node t l) \<noteq> None"
      using wf_leaf [OF _ l] ok by (auto simp: tree_ok_def leaf_ok_def)
  qed
  let ?cp = "LeafCP_of_V1 ?cl (NewBfrtLeafCP_V1 (Some l) ?sps)"
  let ?hm = "\<lparr>hmEgress = [], hmLeaf = l, hmTopology = t, hmVcMgr = m, hmTimeOut = rcTimeout (lcCfg c) * 1000000\<rparr>"
  have "leaf_StartBare mk ord o1 o2 True (Inr (Some info, None)) reply c w =
      Some (Ret (c2, NewBareLeafBus (lcID c) ?cp ?hm w'))"
    using w'(1) by (simp add: leaf_StartBare_def 1 2 l leaf_cp_def api CreateHealthManager_def NewLeafHealthManager_def
        LeafCP_of_V1_def LeafCP_V1_Init_def NewBfrtLeafCP_V1_def)
  moreover have bus: "bus_ok ?cl vw (lcID c) ?sps (NewBareLeafBus (lcID c) ?cp ?hm w')"
    using 2(4) l ready w'(2) by (simp add: bus_ok_def NewBareLeafBus_def hm_ok_def leaf_ready_def)
  moreover have "routes_ok vw (lbClient b') (lbTopology b') (hmLeaf (lbHealth b'))"
    if "(leaf_step ser parse)\<^sup>*\<^sup>* (NewBareLeafBus (lcID c) ?cp ?hm w') b'" for b'
    using bi.reachable [OF that, of ?cl vw "lcID c" ?sps] bf bus by (simp add: bus_ok_def)
  ultimately show ?thesis using 2(2) by (auto simp: NewBareLeafBus_def)
qed

text \<open>A leaf with one server of two workers.\<close>

definition start_info :: TopoInfo where
  "start_info =
     (let pc = \<lparr>pciID = ''c'', pciSpeed = ''BF_SPEED_10G'', pciFec = ''BF_FEC_TYP_NONE'', pciAn = ''PM_AN_DEFAULT''\<rparr>;
          up = \<lparr>piID = ''1/0'', piCage = 1, piLane = 0, piDevPort = 0, piPortConfig = Some pc\<rparr>;
          dn = \<lparr>piID = ''1/1'', piCage = 1, piLane = 1, piDevPort = 0, piPortConfig = Some pc\<rparr>;
          a = \<lparr>aiID = ''a'', aiProgram = ''p'', aiDeviceID = 0, aiPipeID = 0, aiCtrlAddress = [],
               aiCtrlAPI = ''v1'', aiPortsInfo = [up, dn]\<rparr>;
          srv = \<lparr>siId = 7, siAddress = ''02:00:00:00:00:03'', siWorkersCount = 2, siLeafID = 4, siPort = Some dn\<rparr>
      in \<lparr>tiSpines = [\<lparr>spId = 0, spAddress = ''s'',
             spLeaves = [\<lparr>liId = 4, liIndex = 0, liAddress = ''l'', liMgmtAddress = ''m'', liServers = [srv],
               liSpineID = 0, liAsic = Some a, liDsPort = Some dn, liUsPort = Some up\<rparr>], spAsic = Some a\<rparr>],
          tiClients = [], tiAsics = [a], tiPortConfig = [pc]\<rparr>)"

lemma start_info_built:
  "\<exists>s. NewDCNFromTopoInfo start_info = Ret s \<and> gm_load (tLeaves s) 4 = Some 2 \<and> nChildren (node s 2) = [3] \<and>
     nID (node s 2) = 4 \<and> nIndex (node s 2) = 0 \<and> nPort (node s 3) \<noteq> None \<and> nAddress (node s 3) = ''02:00:00:00:00:03'' \<and>
     worker_count (node s 3) = 2"
  by (simp add: NewDCNFromTopoInfo_def NewAsicRegistryFromInfo_def start_info_def Let_def
      add_asic_info_def NewAsicFromInfo_def NewPortRegistryFromInfo_def add_port_config_def
      sample_info_config info_portConfig_def add_port_info_def add_port_def sample_spec_ids gm_eval)
    (simp add: empty_topology_def FindPort_def FindAsic_def asic_def
         build_root_def build_spine_def info_spine_def build_leaf_def info_leaf_def info_server_def
         build_server_def Let_def topo_eval gm_eval NewLeaf_def NewServer_def zero_Node_def worker_count_def)

definition start_ctrl :: leafController where
  "start_ctrl = fst (NewBareLeafController 4 0 \<lparr>rcDeviceID = 0, rcP4Name = ''p'', rcBfrtAddress = ''b'',
     rcRemoteSrvServer = ''r'', rcMgmtAddress = ''m'', rcSpines = [\<lparr>scID = 0, scPipeID = 0\<rparr>], rcLeaves = [], rcTimeout = 100,
     rcControlAPI = ''v1'', rcLogLevel = [], rcAsicIntf = ''i''\<rparr> [])"

theorem leaf_controller_starts_witness:
  "\<exists>c' b. leaf_StartBare (\<lambda>_. sw_client) stored_order stored_order stored_order True (Inr (Some start_info, None))
      (Inr (Some (VCsResponse []), None)) start_ctrl empty_sw = Some (Ret (c', b)) \<and> hmLeaf (lbHealth b) = 2"
proof -
  obtain t where t: "NewDCNFromTopoInfo start_info = Ret t" "gm_load (tLeaves t) 4 = Some 2" "nChildren (node t 2) = [3]"
    "nID (node t 2) = 4" "nIndex (node t 2) = 0" "nPort (node t 3) \<noteq> None" "nAddress (node t 3) = ''02:00:00:00:00:03''"
    "worker_count (node t 3) = 2" using start_info_built by blast
  have c: "lcID start_ctrl = 4" "rcControlAPI (lcCfg start_ctrl) = ''v1''" "rcSpines (lcCfg start_ctrl) \<noteq> []"
    by (simp_all add: start_ctrl_def NewBareLeafController_def make_chan_def)
  have few: "few_workers t 2" by (simp add: few_workers_def t)
  have up: "\<forall>s \<in> set (nChildren (node t 2)). reachable_server t s" using t(6) by (simp add: reachable_server_def t sample_macs)
  have apart: "upstream_apart t 2" by (auto simp: upstream_apart_def upstream_keys_def keys_of_def worker_keys_def t)
  have dist: "distinct (map (\<lambda>sp. ucast (spId sp) :: u16) (tiSpines start_info))"
    "distinct (map (\<lambda>li. ucast (liId li) :: u16) (info_leaves start_info))"
    "distinct (map (\<lambda>si. ucast (siId si) :: u16) (concat (map liServers (info_leaves start_info))))"
    by (simp_all add: start_info_def info_leaves_def Let_def)
  have "gm_load (tLeaves t) (lcID start_ctrl) = Some 2" "nChildren (node t 2) \<noteq> []" by (simp_all add: c t)
  from leaf_controller_starts [where mk = "\<lambda>_. sw_client" and vw = sw_view and ord = stored_order and ?o1.0 = stored_order
      and ?o2.0 = stored_order and reply = "Inr (Some (VCsResponse []), None)" and w = empty_sw and ser = "\<lambda>_. Inr []" and parse = "\<lambda>_. None",
      OF sw_ok t(1) dist this few up apart c(2,3)] show ?thesis by auto
qed

end
