(* ===== verification/Central_Bus_Correct.thy ===== *)
theory Central_Bus_Correct
  imports Central_Bus Ports_Correct
begin

text \<open>
  What the central controller does to the ports of the switches: after the start every port has the device
  number that its switch gives it, and every message about a port leads to one call for this port on the
  client of its own switch.
\<close>

section \<open>Folds that return\<close>

lemma go_fold_establish:
  assumes "I s" and "\<And>x s. x \<in> set xs \<Longrightarrow> I s \<Longrightarrow>
      \<exists>s'. f x s = Ret s' \<and> I s' \<and> Q x s' \<and> (\<forall>y \<in> Y. Q y s \<longrightarrow> Q y s')" and "set xs \<subseteq> Y"
  shows "\<exists>s'. go_fold f xs s = Ret s' \<and> I s' \<and> (\<forall>x \<in> set xs. Q x s') \<and> (\<forall>y \<in> Y. Q y s \<longrightarrow> Q y s')"
  using assms
proof (induction xs arbitrary: s)
  case (Cons x xs)
  from Cons.prems(2) [of x s] Cons.prems(1) obtain s1 where
    1: "f x s = Ret s1" "I s1" "Q x s1" "\<forall>y \<in> Y. Q y s \<longrightarrow> Q y s1" by auto
  have "\<exists>s'. go_fold f xs s1 = Ret s' \<and> I s' \<and> (\<forall>x \<in> set xs. Q x s') \<and> (\<forall>y \<in> Y. Q y s1 \<longrightarrow> Q y s')"
    by (rule Cons.IH [OF 1(2)]) (use Cons.prems(2,3) in auto)
  then obtain s' where 2: "go_fold f xs s1 = Ret s'" "I s'" "\<forall>x \<in> set xs. Q x s'" "\<forall>y \<in> Y. Q y s1 \<longrightarrow> Q y s'" by blast
  have "x \<in> Y" using Cons.prems(3) by simp
  with 1 2 show ?case by (intro exI [of _ s']) auto
qed simp

section \<open>What the client does\<close>

datatype port_call = Enable u32 string string string | Disable u32

text \<open>
  The client works: a switch gives every port a device number \<open>dev\<close>, and enabling and disabling succeed and
  are seen in the log \<open>ob\<close> of calls.
\<close>

definition api_ok ::
  "'w port_api \<Rightarrow> ('w \<Rightarrow> (bfrt_target \<times> port_call) list) \<Rightarrow> (bfrt_target \<Rightarrow> u64 \<Rightarrow> u64 \<Rightarrow> u32) \<Rightarrow> bool" where
  "api_ok api ob dev \<longleftrightarrow>
     (\<forall>cl cage lane w. paGetDevPort api cl cage lane w = Inr (dev cl cage lane)) \<and>
     (\<forall>cl p sp fec an w. \<exists>w'. paEnablePort api cl p sp fec an w = (w', None) \<and>
        ob w' = ob w @ [(cl, Enable p sp fec an)]) \<and>
     (\<forall>cl p w. \<exists>w'. paDisablePort api cl p w = (w', None) \<and> ob w' = ob w @ [(cl, Disable p)])"

section \<open>Device numbers\<close>

definition port_target :: "hw \<Rightarrow> pref \<Rightarrow> bfrt_target" where
  "port_target h p = asic_target (asic h (poAsic (port h p)))"

definition dev_of :: "(bfrt_target \<Rightarrow> u64 \<Rightarrow> u64 \<Rightarrow> u32) \<Rightarrow> hw \<Rightarrow> pref \<Rightarrow> u32" where
  "dev_of dev h p = dev (port_target h p) (psCage (poSpec (port h p))) (psLane (poSpec (port h p)))"

text \<open>Only device numbers have changed, to the right ones; ports that are not done yet may still be at zero.\<close>

definition numbered :: "(bfrt_target \<Rightarrow> u64 \<Rightarrow> u64 \<Rightarrow> u32) \<Rightarrow> hw \<Rightarrow> hw \<Rightarrow> bool" where
  "numbered dev h0 h \<longleftrightarrow> hAsics h = hAsics h0 \<and> length (hPorts h) = length (hPorts h0) \<and>
     (\<forall>r < length (hPorts h0). port h r = port h0 r \<or>
        port h r = (port h0 r)\<lparr>poDevPort := ucast (dev_of dev h0 r)\<rparr>)"

definition done_port :: "(bfrt_target \<Rightarrow> u64 \<Rightarrow> u64 \<Rightarrow> u32) \<Rightarrow> hw \<Rightarrow> hw \<Rightarrow> pref \<Rightarrow> bool" where
  "done_port dev h0 h r \<longleftrightarrow> port h r = (port h0 r)\<lparr>poDevPort := ucast (dev_of dev h0 r)\<rparr>"

definition fresh_ports :: "hw \<Rightarrow> bool" where
  "fresh_ports h \<longleftrightarrow> (\<forall>r < length (hPorts h). poDevPort (port h r) = 0)"

lemma numbered_refl: "numbered dev h0 h0"
  by (simp add: numbered_def)

lemma init_port_ok:
  assumes api: "api_ok api ob dev" and fr: "fresh_ports h0" and num: "numbered dev h0 h" and p: "p < length (hPorts h0)"
  shows "\<exists>h' w'. init_port api (port_target h0 p) p (h, w) = Ret (h', w') \<and> numbered dev h0 h' \<and> done_port dev h0 h' p \<and>
    (\<forall>r. done_port dev h0 h r \<longrightarrow> done_port dev h0 h' r)"
proof -
  let ?d = "dev_of dev h0 p"
  have same: "poSpec (port h p) = poSpec (port h0 p)" "poDevPort (port h p) = 0 \<or> poDevPort (port h p) = ucast ?d"
    using num p fr by (auto simp: numbered_def fresh_ports_def)
  have get: "paGetDevPort api (port_target h0 p) (psCage (poSpec (port h p))) (psLane (poSpec (port h p))) w = Inr ?d"
    using api by (simp add: api_ok_def dev_of_def same)
  define h' where "h' = upd_port p (SetDevPort (ucast ?d)) h"
  have len: "p < length (hPorts h)" using num p by (simp add: numbered_def)
  have at: "port h' r = (if r = p then (port h0 p)\<lparr>poDevPort := ucast ?d\<rparr> else port h r)" for r
  proof (cases "r = p")
    case True
    have "port h p = port h0 p \<or> port h p = (port h0 p)\<lparr>poDevPort := ucast ?d\<rparr>" using num p by (simp add: numbered_def)
    then have "SetDevPort (ucast ?d) (port h p) = (port h0 p)\<lparr>poDevPort := ucast ?d\<rparr>"
      using fr p by (auto simp: SetDevPort_def fresh_ports_def)
    with True len show ?thesis by (simp add: h'_def upd_port_def port_def)
  qed (simp add: h'_def upd_port_def port_def)
  obtain w' where "paEnablePort api (port_target h0 p) ?d (pcSpeed (poConfig (port h' p))) (pcFec (poConfig (port h' p)))
      (pcAn (poConfig (port h' p))) w = (w', None)" using api unfolding api_ok_def by blast
  then have "init_port api (port_target h0 p) p (h, w) = Ret (h', w')"
    by (simp add: init_port_def get Let_def flip: h'_def)
  moreover have "numbered dev h0 h'" using num at by (auto simp: numbered_def h'_def upd_port_def)
  ultimately show ?thesis using at by (intro exI [of _ h'] exI [of _ w']) (simp add: done_port_def)
qed

section \<open>One control plane\<close>

text \<open>The state of one \<open>InitPorts\<close>, and what it has done for an entry of the ASIC map.\<close>

definition asic_done ::
  "(bfrt_target \<Rightarrow> u64 \<Rightarrow> u64 \<Rightarrow> u32) \<Rightarrow> hw \<Rightarrow> string \<times> aref \<Rightarrow> (string, bfrt_target) gomap \<times> hw \<times> 'w \<Rightarrow> bool" where
  "asic_done dev h0 ka st \<longleftrightarrow> (case (ka, st) of ((k, a), (cm, h, _)) \<Rightarrow>
     clientMap_load cm k = Some (asic_target (asic h0 a)) \<and>
     (\<forall>pid r. gm_load (prPortMap (asPortRegistry (asic h0 a))) pid = Some r \<longrightarrow> done_port dev h0 h r))"

lemma registered_port:
  assumes "registry_ok ar h" and "gm_load ar k = Some a" and "gm_load (prPortMap (asPortRegistry (asic h a))) pid = Some r"
  shows "r < length (hPorts h) \<and> poAsic (port h r) = a \<and> asID (asic h a) = k"
  using assms by (simp add: registry_ok_def asic_ok_def port_entry_ok_def port_def)

lemma init_asic_ok:
  fixes w :: 'w
  assumes api: "api_ok api ob dev" and fr: "fresh_ports h0" and reg: "registry_ok ar h0"
    and ord: "\<And>k. is_order (oi k)" and a: "(k, a) \<in> set ar" and num: "numbered dev h0 h"
  shows "\<exists>st'. init_asic api oi a (cm, h, w) = Ret st' \<and> numbered dev h0 (fst (snd st')) \<and> asic_done dev h0 (k, a) st' \<and>
    (\<forall>y \<in> set ar. asic_done dev h0 y (cm, h, w) \<longrightarrow> asic_done dev h0 y st')"
proof -
  have wf: "gm_wf ar" using reg by (simp add: registry_ok_def)
  then have load: "gm_load ar k = Some a" using a by (simp add: gm_load_iff)
  then have ida: "asID (asic h0 a) = k" and ok: "asic_ok h0 a" using reg by (simp_all add: registry_ok_def)
  let ?ports = "prPortMap (asPortRegistry (asic h0 a))"
  have same: "asic h = asic h0" using num by (simp add: asic_def numbered_def fun_eq_iff)
  have wfp: "gm_wf ?ports" using ok by (simp add: asic_ok_def)
  let ?I = "\<lambda>st :: hw \<times> 'w. numbered dev h0 (fst st)" and ?Q = "\<lambda>(x :: string \<times> pref) (st :: hw \<times> 'w). done_port dev h0 (fst st) (snd x)"
  have "\<exists>st'. go_fold (\<lambda>(_, p). init_port api (asic_target (asic h0 a)) p) (go_range (oi k) ?ports) (h, w) = Ret st' \<and>
    ?I st' \<and> (\<forall>x \<in> set (go_range (oi k) ?ports). ?Q x st') \<and> (\<forall>y \<in> UNIV. ?Q y (h, w) \<longrightarrow> ?Q y st')"
  proof (rule go_fold_establish)
    fix x :: "string \<times> pref" and st :: "hw \<times> 'w"
    assume x: "x \<in> set (go_range (oi k) ?ports)" and I: "?I st"
    obtain pid r where xr: "x = (pid, r)" by (cases x)
    from x have "gm_load ?ports pid = Some r" by (simp add: xr ord gm_load_iff wfp)
    from registered_port [OF reg load this] have r: "r < length (hPorts h0)" "port_target h0 r = asic_target (asic h0 a)"
      by (simp_all add: port_target_def)
    from init_port_ok [OF api fr I r(1), where w = "snd st"] obtain h' w' where
      "init_port api (asic_target (asic h0 a)) r st = Ret (h', w')" "numbered dev h0 h'" "done_port dev h0 h' r"
      "\<forall>q. done_port dev h0 (fst st) q \<longrightarrow> done_port dev h0 h' q" by (auto simp: r(2))
    then show "\<exists>st'. (case x of (_, p) \<Rightarrow> init_port api (asic_target (asic h0 a)) p) st = Ret st' \<and> ?I st' \<and> ?Q x st' \<and>
      (\<forall>y \<in> UNIV. ?Q y st \<longrightarrow> ?Q y st')" by (auto simp: xr)
  qed (use num in simp_all)
  then obtain h' w' where run: "go_fold (\<lambda>(_, p). init_port api (asic_target (asic h0 a)) p) (go_range (oi k) ?ports) (h, w) = Ret (h', w')"
    and num': "numbered dev h0 h'" and all: "\<forall>x \<in> set ?ports. done_port dev h0 h' (snd x)"
    and old: "\<forall>r. done_port dev h0 h r \<longrightarrow> done_port dev h0 h' r" by (auto simp: ord)
  have "init_asic api oi a (cm, h, w) = Ret (clientMap_store k (asic_target (asic h0 a)) cm, h', w')"
    by (simp add: init_asic_def same ida run Let_def)
  moreover have "asic_done dev h0 (k, a) (clientMap_store k (asic_target (asic h0 a)) cm, h', w')"
    using all by (fastforce simp: asic_done_def clientMap_load_def clientMap_store_def gm_load_iff wfp)
  moreover have "asic_done dev h0 y (clientMap_store k (asic_target (asic h0 a)) cm, h', w')"
    if "y \<in> set ar" "asic_done dev h0 y (cm, h, w)" for y
  proof -
    have "fst y = k \<Longrightarrow> snd y = a" using that(1) load wf by (metis gm_load_iff option.inject prod.collapse)
    with that(2) old show ?thesis
      by (auto simp: asic_done_def clientMap_load_def clientMap_store_def split: prod.splits)
  qed
  ultimately show ?thesis using num' by (intro exI) (auto)
qed

text \<open>After \<open>InitPorts\<close> of a real switch.\<close>

definition cp_ready :: "AsicRegistry \<Rightarrow> hw \<Rightarrow> CentralizedCP \<Rightarrow> bool" where
  "cp_ready ar h0 cp \<longleftrightarrow> (\<exists>s cm. cp = BfrtCentralizedCP s cm \<and>
     (\<forall>k a. gm_load ar k = Some a \<longrightarrow> clientMap_load cm k = Some (asic_target (asic h0 a))))"

definition all_done :: "(bfrt_target \<Rightarrow> u64 \<Rightarrow> u64 \<Rightarrow> u32) \<Rightarrow> AsicRegistry \<Rightarrow> hw \<Rightarrow> hw \<Rightarrow> bool" where
  "all_done dev ar h0 h \<longleftrightarrow> (\<forall>k a pid r. gm_load ar k = Some a \<longrightarrow>
     gm_load (prPortMap (asPortRegistry (asic h0 a))) pid = Some r \<longrightarrow> done_port dev h0 h r)"

lemma InitPorts_ok:
  fixes w :: 'w
  assumes "api_ok api ob dev" and "fresh_ports h0" and reg: "registry_ok ar h0" and "\<And>k. is_order (oi k)"
    and ord: "is_order ord" and num: "numbered dev h0 h"
  shows "\<exists>cp' h' w'. InitPorts api ord oi ar (BfrtCentralizedCP s cm) (h, w) = Ret (cp', h', w') \<and> GetAsicStr cp' = s \<and>
    cp_ready ar h0 cp' \<and> numbered dev h0 h' \<and> all_done dev ar h0 h'"
proof -
  have wf: "gm_wf ar" using reg by (simp add: registry_ok_def)
  have "\<exists>st'. go_fold (\<lambda>(_, a). init_asic api oi a) (go_range ord ar) (cm, h, w) = Ret st' \<and>
    numbered dev h0 (fst (snd st')) \<and> (\<forall>x \<in> set (go_range ord ar). asic_done dev h0 x st') \<and>
    (\<forall>y \<in> set ar. asic_done dev h0 y (cm, h, w) \<longrightarrow> asic_done dev h0 y st')"
  proof (rule go_fold_establish [where I = "\<lambda>st. numbered dev h0 (fst (snd st))" and Q = "asic_done dev h0"])
    fix x and st :: "(string, bfrt_target) gomap \<times> hw \<times> 'w"
    assume x: "x \<in> set (go_range ord ar)" and I: "numbered dev h0 (fst (snd st))"
    obtain k a where xa: "x = (k, a)" by (cases x)
    with x ord have "(k, a) \<in> set ar" by simp
    from init_asic_ok [OF assms(1-4) this I, where cm = "fst st" and w = "snd (snd st)"]
    show "\<exists>st'. (case x of (_, a) \<Rightarrow> init_asic api oi a) st = Ret st' \<and> numbered dev h0 (fst (snd st')) \<and>
      asic_done dev h0 x st' \<and> (\<forall>y \<in> set ar. asic_done dev h0 y st \<longrightarrow> asic_done dev h0 y st')" by (simp add: xa)
  qed (use num ord in simp_all)
  then obtain cm' h' w' where run: "go_fold (\<lambda>(_, a). init_asic api oi a) (go_range ord ar) (cm, h, w) = Ret (cm', h', w')"
    and "numbered dev h0 h'" and all: "\<forall>x \<in> set ar. asic_done dev h0 x (cm', h', w')" by (auto simp: ord)
  moreover have "asic_done dev h0 (k, a) (cm', h', w')" if "gm_load ar k = Some a" for k a
    using all that by (simp add: gm_load_iff wf)
  then have "cp_ready ar h0 (BfrtCentralizedCP s cm')" "all_done dev ar h0 h'"
    by (simp_all add: cp_ready_def all_done_def asic_done_def)
  ultimately show ?thesis by simp
qed

section \<open>The controller\<close>

lemma central_Run_ok:
  fixes e :: "'w CentralBus"
  assumes api: "api_ok api ob dev" and fr: "fresh_ports (tHw (cbTopology e))"
    and reg: "registry_ok (tAsicRegistry (cbTopology e)) (tHw (cbTopology e))"
    and oi: "\<And>k. is_order (oi k)" and ord: "is_order ord"
    and cps: "\<forall>cp \<in> set (cbCps e). \<exists>s cm. cp = BfrtCentralizedCP s cm" "cbCps e \<noteq> []"
  shows "\<exists>cps h w. central_Run api ord oi e = Ret \<lparr>cbCps = cps, cbTopology = (cbTopology e)\<lparr>tHw := h\<rparr>, cbWorld = w\<rparr> \<and>
    map GetAsicStr cps = map GetAsicStr (cbCps e) \<and> (\<forall>cp \<in> set cps. cp_ready (tAsicRegistry (cbTopology e)) (tHw (cbTopology e)) cp) \<and>
    numbered dev (tHw (cbTopology e)) h \<and> all_done dev (tAsicRegistry (cbTopology e)) (tHw (cbTopology e)) h"
proof -
  let ?h0 = "tHw (cbTopology e)" and ?ar = "tAsicRegistry (cbTopology e)"
  have "\<exists>cps' h' w'. go_fold (init_cp api ord oi ?ar) cs (cps, h, w) = Ret (cps @ cps', h', w') \<and>
      map GetAsicStr cps' = map GetAsicStr cs \<and> (\<forall>cp \<in> set cps'. cp_ready ?ar ?h0 cp) \<and> numbered dev ?h0 h' \<and>
      (cs \<noteq> [] \<longrightarrow> all_done dev ?ar ?h0 h')"
    if "\<forall>cp \<in> set cs. \<exists>s cm. cp = BfrtCentralizedCP s cm" "numbered dev ?h0 h" for cs cps h and w :: 'w
    using that
  proof (induction cs arbitrary: cps h w)
    case (Cons c cs)
    from Cons.prems(1) obtain s cm where c: "c = BfrtCentralizedCP s cm" by auto
    from InitPorts_ok [where oi = oi, OF api fr reg oi ord Cons.prems(2), where s = s and cm = cm and w = w] obtain cp1 h1 w1 where
      1: "InitPorts api ord oi ?ar c (h, w) = Ret (cp1, h1, w1)" "GetAsicStr cp1 = GetAsicStr c" "cp_ready ?ar ?h0 cp1"
        "numbered dev ?h0 h1" "all_done dev ?ar ?h0 h1" by (auto simp: c simp del: InitPorts.simps)
    from Cons.IH [OF _ 1(4), of "cps @ [cp1]" w1] Cons.prems(1) obtain cps' h' w' where
      2: "go_fold (init_cp api ord oi ?ar) cs (cps @ [cp1], h1, w1) = Ret (cps @ cp1 # cps', h', w')"
        "map GetAsicStr cps' = map GetAsicStr cs" "\<forall>cp \<in> set cps'. cp_ready ?ar ?h0 cp" "numbered dev ?h0 h'"
        "cs \<noteq> [] \<longrightarrow> all_done dev ?ar ?h0 h'" by auto
    have "all_done dev ?ar ?h0 h'" using 2(1,5) 1(5) by (cases cs) auto
    moreover have "init_cp api ord oi ?ar c (cps, h, w) = Ret (cps @ [cp1], h1, w1)" by (simp add: init_cp_def 1(1))
    ultimately show ?case using 1 2
      by (intro exI [of _ "cp1 # cps'"] exI [of _ h'] exI [of _ w']) simp
  qed simp
  from this [OF cps(1) numbered_refl, of "[]" "cbWorld e"] cps(2) show ?thesis
    by (auto simp: central_Run_def)
qed

lemma new_cps_ok:
  assumes "new_cps asics = Ret cps" and "\<forall>a \<in> set asics. caCtrlAPI a = ''bfrt''"
  shows "cps = map (\<lambda>a. NewBfrtCentralizedCP (caID a)) asics"
proof -
  have "go_fold (\<lambda>asicCfg cps. go_bind (new_cp asicCfg) (\<lambda>cp. Ret (cps @ [cp]))) asics cps0 =
      Ret (cps0 @ map (\<lambda>a. NewBfrtCentralizedCP (caID a)) asics)" for cps0
    using assms(2) by (induction asics arbitrary: cps0) (auto simp: new_cp_def)
  with assms(1) show ?thesis by (simp add: new_cps_def)
qed

text \<open>What the configuration gives: the IDs of the ASICs, and ports without a device number.\<close>

lemma add_port_fresh:
  assumes "\<forall>q \<in> set (snd st). poDevPort q = 0"
  shows "\<forall>q \<in> set (snd (add_port a c 0 spec st)). poDevPort q = 0"
  using assms by (auto simp: add_port_def NewPort_def SetDevPort_def split: prod.splits option.splits)

lemma NewPortRegistry_fresh:
  assumes "\<forall>q \<in> set ports. poDevPort q = 0" and "NewPortRegistry a pcs pgs ports = (pr, ports')"
  shows "\<forall>q \<in> set ports'. poDevPort q = 0"
proof -
  have "\<forall>q \<in> set (snd (fold (add_port a c 0) specs st)). poDevPort q = 0" if "\<forall>q \<in> set (snd st). poDevPort q = 0" for c specs st
    by (rule fold_inv [where P = "\<lambda>st. \<forall>q \<in> set (snd st). poDevPort q = 0"]) (use that add_port_fresh in blast)+
  then have "\<forall>q \<in> set (snd (add_group a cm g st)). poDevPort q = 0" if "\<forall>q \<in> set (snd st). poDevPort q = 0" for cm g st
    using that by (auto simp: add_group_def split: option.split)
  then have "\<forall>q \<in> set (snd (fold (add_group a cm) pgs (gm_empty, ports))). poDevPort q = 0" for cm
    by (intro fold_inv [where P = "\<lambda>st. \<forall>q \<in> set (snd st). poDevPort q = 0"]) (use assms(1) in auto)
  moreover from assms(2) obtain pm where
    "fold (add_group a (fold add_port_config pcs gm_empty)) pgs (gm_empty, ports) = (pm, ports')"
    by (auto simp: NewPortRegistry_def Let_def split: prod.splits)
  ultimately show ?thesis by (metis snd_conv)
qed

lemma NewAsicRegistry_conf:
  assumes "NewAsicRegistry asics pcs pgs \<lparr>hPorts = [], hAsics = []\<rparr> = (ar, h)"
  shows "fresh_ports h" and "gm_load ar k = Some a \<Longrightarrow> k \<in> caID ` set asics"
proof -
  define P where "P = (\<lambda>st :: AsicRegistry \<times> hw. (\<forall>q \<in> set (hPorts (snd st)). poDevPort q = 0) \<and>
    (\<forall>k a. gm_load (fst st) k = Some a \<longrightarrow> k \<in> caID ` set asics))"
  have "P (add_asic pcs pgs cfg st)" if "cfg \<in> set asics" "P st" for cfg st
  proof -
    obtain ar h where st: "st = (ar, h)" by (cases st)
    obtain pr ports' where pr: "NewPortRegistry (length (hAsics h)) pcs (filterPortGroup cfg pgs) (hPorts h) = (pr, ports')"
      by fastforce
    have "\<forall>q \<in> set ports'. poDevPort q = 0" by (rule NewPortRegistry_fresh [OF _ pr]) (use that(2) st in \<open>simp add: P_def\<close>)
    with that st show ?thesis
      by (cases "gm_load ar (caID cfg)") (simp_all add: P_def add_asic_def NewAsic_def pr Let_def)
  qed
  note step = this
  have "P (gm_empty, \<lparr>hPorts = [], hAsics = []\<rparr>)" by (simp add: P_def)
  then have "P (fold (add_asic pcs pgs) asics (gm_empty, \<lparr>hPorts = [], hAsics = []\<rparr>))"
    by (rule fold_inv [where P = P]) (rule step)
  then have "P (ar, h)" using assms by (simp add: NewAsicRegistry_def)
  then show "fresh_ports h" "gm_load ar k = Some a \<Longrightarrow> k \<in> caID ` set asics"
    by (simp_all add: P_def fresh_ports_def port_def)
qed

section \<open>The property\<close>

text \<open>The bus has handled the event with one call, and nothing else of it has changed.\<close>

definition one_call ::
  "('w \<Rightarrow> (bfrt_target \<times> port_call) list) \<Rightarrow> 'w CentralBus \<Rightarrow> bfrt_target \<times> port_call \<Rightarrow> 'w CentralBus go \<Rightarrow> bool" where
  "one_call ob e call r \<longleftrightarrow> (\<exists>w'. r = Ret (e\<lparr>cbWorld := w'\<rparr>) \<and> ob w' = ob (cbWorld e) @ [call])"

lemma bus_call:
  assumes api: "api_ok api ob dev" and cp: "getCP e (port_asic_str (tHw (cbTopology e)) p) = Some (BfrtCentralizedCP s cm)"
    and cl: "clientMap_load cm (port_asic_str (tHw (cbTopology e)) p) = Some cl"
    and pt: "port (tHw (cbTopology e)) p = q" "GetDevPort q = ucast (d :: u32)"
  shows "one_call ob e (cl, Disable d) (centralBus_step api (CBDisabled (Some \<lparr>pdPort = Some p\<rparr>)) e)"
    and "one_call ob e (cl, Enable d (pcSpeed (poConfig q)) (pcFec (poConfig q)) (pcAn (poConfig q)))
      (centralBus_step api (CBEnabled (Some \<lparr>pePort = Some p\<rparr>)) e)"
proof -
  have d: "ucast (ucast d :: u64) = d" by (rule bit_word_eqI) (auto simp: bit_ucast_iff)
  from api obtain w1 where 1: "paDisablePort api cl d (cbWorld e) = (w1, None)" "ob w1 = ob (cbWorld e) @ [(cl, Disable d)]"
    unfolding api_ok_def by blast
  show "one_call ob e (cl, Disable d) (centralBus_step api (CBDisabled (Some \<lparr>pdPort = Some p\<rparr>)) e)"
    by (simp add: centralBus_step_def port_event_def cp cl pt d 1 one_call_def) (use 1 in auto)
  from api obtain w2 where 2: "paEnablePort api cl d (pcSpeed (poConfig q)) (pcFec (poConfig q)) (pcAn (poConfig q)) (cbWorld e) = (w2, None)"
    "ob w2 = ob (cbWorld e) @ [(cl, Enable d (pcSpeed (poConfig q)) (pcFec (poConfig q)) (pcAn (poConfig q)))]"
    unfolding api_ok_def by blast
  show "one_call ob e (cl, Enable d (pcSpeed (poConfig q)) (pcFec (poConfig q)) (pcAn (poConfig q)))
      (centralBus_step api (CBEnabled (Some \<lparr>pePort = Some p\<rparr>)) e)"
    by (simp add: centralBus_step_def port_event_def cp cl pt d 2 one_call_def) (use 2 in auto)
qed

text \<open>A registered port after the initialisation, and the control plane of its ASIC.\<close>

lemma found_port:
  assumes "registry_ok ar h0" and "tHw t = h0" and "tAsicRegistry t = ar" and "FindPort t asicStr portStr = Inr p"
  shows "\<exists>a. gm_load ar asicStr = Some a \<and> poAsic (port h0 p) = a \<and> asID (asic h0 a) = asicStr \<and>
    (all_done dev ar h0 h \<longrightarrow> port h p = (port h0 p)\<lparr>poDevPort := ucast (dev_of dev h0 p)\<rparr>)"
proof -
  from assms(2-4) obtain a where a: "gm_load ar asicStr = Some a"
    and p: "gm_load (prPortMap (asPortRegistry (asic h0 a))) portStr = Some p"
    by (auto simp: FindPort_def FindAsic_def split: option.splits)
  from registered_port [OF assms(1) a p] a p show ?thesis by (auto simp: all_done_def done_port_def)
qed

lemma getCP_ready:
  assumes "\<forall>cp \<in> set cps. cp_ready ar h0 cp" and "asicStr \<in> GetAsicStr ` set cps" and "gm_load ar asicStr = Some a"
  obtains s cm where "find (\<lambda>cp. GetAsicStr cp = asicStr) cps = Some (BfrtCentralizedCP s cm)"
    "clientMap_load cm asicStr = Some (asic_target (asic h0 a))"
proof -
  from assms(2) obtain cp where cp: "find (\<lambda>cp. GetAsicStr cp = asicStr) cps = Some cp"
    by (cases "find (\<lambda>cp. GetAsicStr cp = asicStr) cps") (auto simp: find_None_iff)
  then have "cp \<in> set cps" by (auto simp: find_Some_iff)
  with assms(1,3) obtain s cm where "cp = BfrtCentralizedCP s cm" "clientMap_load cm asicStr = Some (asic_target (asic h0 a))"
    by (auto simp: cp_ready_def)
  with cp that show ?thesis by blast
qed

text \<open>
  C24: The central controller of a configuration whose switches are all real ones starts, if the client works, and
  from then on every message about a registered port leads to exactly one call: the port is enabled with its
  configured speed, error correction and auto-negotiation, or disabled, under the device number that its
  switch has given to its cage and lane, on the client of this switch.
\<close>

theorem port_events_reach_switch:
  assumes "api_ok api ob dev" and "NewCentralController vord topoCfg vcs w = Ret cc"
    and "\<forall>a \<in> set (trAsics topoCfg). caCtrlAPI a = ''bfrt''" and "trAsics topoCfg \<noteq> []"
    and "is_order ord" and "\<forall>k. is_order (oi k)"
  shows "\<exists>e. central_Run api ord oi (ccBus cc) = Ret e \<and>
    (\<forall>v asicStr portStr p. FindPort (cbTopology (ccBus cc)) asicStr portStr = Inr p \<longrightarrow>
      (let h = tHw (cbTopology (ccBus cc)); q = port h p; d = dev_of dev h p
       in one_call ob (e\<lparr>cbWorld := v\<rparr>) (port_target h p, Disable d)
            (centralBus_step api (CBDisabled (Some \<lparr>pdPort = Some p\<rparr>)) (e\<lparr>cbWorld := v\<rparr>)) \<and>
          one_call ob (e\<lparr>cbWorld := v\<rparr>)
            (port_target h p, Enable d (pcSpeed (poConfig q)) (pcFec (poConfig q)) (pcAn (poConfig q)))
            (centralBus_step api (CBEnabled (Some \<lparr>pePort = Some p\<rparr>)) (e\<lparr>cbWorld := v\<rparr>))))"
proof -
  obtain ar h0 where reg: "NewAsicRegistry (trAsics topoCfg) (trPortConfig topoCfg) (trPortGroup topoCfg)
      \<lparr>hPorts = [], hAsics = []\<rparr> = (ar, h0)" by fastforce
  from assms(2) obtain t cps where t: "NewDCNFromConf topoCfg = Ret t" and cps: "new_cps (trAsics topoCfg) = Ret cps"
    and cc: "ccBus cc = NewCentralBus t cps w" by (auto simp: NewCentralController_def)
  from NewDCNFromConf_has_hw [OF reg t] have hw: "tHw t = h0" "tAsicRegistry t = ar" by (simp_all add: has_hw_def)
  note rok = NewAsicRegistry_ok [OF reg] and conf = NewAsicRegistry_conf [OF reg]
  note cps_eq = new_cps_ok [OF cps assms(3)]
  have "\<exists>cps' h w'. central_Run api ord oi (ccBus cc) =
      Ret \<lparr>cbCps = cps', cbTopology = t\<lparr>tHw := h\<rparr>, cbWorld = w'\<rparr> \<and>
    map GetAsicStr cps' = map GetAsicStr cps \<and> (\<forall>cp \<in> set cps'. cp_ready ar h0 cp) \<and> numbered dev h0 h \<and> all_done dev ar h0 h"
    using central_Run_ok [OF assms(1), of "ccBus cc" oi ord] assms(4-6) rok conf(1)
    by (simp add: cc NewCentralBus_def hw cps_eq NewBfrtCentralizedCP_def)
  then obtain cps' h w' where run: "central_Run api ord oi (ccBus cc) =
      Ret \<lparr>cbCps = cps', cbTopology = t\<lparr>tHw := h\<rparr>, cbWorld = w'\<rparr>"
    and strs: "map GetAsicStr cps' = map caID (trAsics topoCfg)" and ready: "\<forall>cp \<in> set cps'. cp_ready ar h0 cp"
    and num: "numbered dev h0 h" and numbers: "all_done dev ar h0 h"
    by (auto simp: cps_eq NewBfrtCentralizedCP_def comp_def)
  let ?e = "\<lparr>cbCps = cps', cbTopology = t\<lparr>tHw := h\<rparr>, cbWorld = w'\<rparr>"
  have same: "asic h = asic h0" using num by (simp add: asic_def numbered_def fun_eq_iff)
  show ?thesis
  proof (intro exI [of _ ?e] conjI allI impI)
    fix v asicStr portStr p
    assume find: "FindPort (cbTopology (ccBus cc)) asicStr portStr = Inr p"
    from find have "FindPort t asicStr portStr = Inr p" by (simp add: cc NewCentralBus_def)
    from found_port [OF rok hw this] numbers obtain a where a: "gm_load ar asicStr = Some a"
      and port0: "poAsic (port h0 p) = a" "asID (asic h0 a) = asicStr"
      and ph: "port h p = (port h0 p)\<lparr>poDevPort := ucast (dev_of dev h0 p)\<rparr>" by blast
    have str: "port_asic_str h p = asicStr" and tg: "port_target h0 p = asic_target (asic h0 a)"
      by (simp_all add: port_asic_str_def port_target_def ph same port0)
    have "asicStr \<in> GetAsicStr ` set cps'" using conf(2) [OF a] strs by (metis list.set_map)
    from getCP_ready [OF ready this a] obtain s cm where
      cp: "find (\<lambda>cp. GetAsicStr cp = asicStr) cps' = Some (BfrtCentralizedCP s cm)"
      and cm: "clientMap_load cm asicStr = Some (asic_target (asic h0 a))" .
    let ?v = "?e\<lparr>cbWorld := v\<rparr>"
    have hyps: "getCP ?v (port_asic_str (tHw (cbTopology ?v)) p) = Some (BfrtCentralizedCP s cm)"
      "clientMap_load cm (port_asic_str (tHw (cbTopology ?v)) p) = Some (port_target h0 p)"
      "port (tHw (cbTopology ?v)) p = port h p" "GetDevPort (port h p) = ucast (dev_of dev h0 p)"
      by (simp_all add: getCP_def str cp cm) (simp_all add: tg ph GetDevPort_def)
    show "let h = tHw (cbTopology (ccBus cc)); q = port h p; d = dev_of dev h p
       in one_call ob ?v (port_target h p, Disable d) (centralBus_step api (CBDisabled (Some \<lparr>pdPort = Some p\<rparr>)) ?v) \<and>
          one_call ob ?v (port_target h p, Enable d (pcSpeed (poConfig q)) (pcFec (poConfig q)) (pcAn (poConfig q)))
            (centralBus_step api (CBEnabled (Some \<lparr>pePort = Some p\<rparr>)) ?v)"
      using bus_call [OF assms(1) hyps] by (simp add: Let_def cc NewCentralBus_def hw ph)
  qed (rule run)
qed

text \<open>A client that keeps the log of the calls and numbers the ports by cage and lane.\<close>

definition log_api :: "(bfrt_target \<times> port_call) list port_api" where
  "log_api = \<lparr>paGetDevPort = \<lambda>cl cage lane w. Inr (ucast (4 * cage + lane)),
     paEnablePort = \<lambda>cl p sp fec an w. (w @ [(cl, Enable p sp fec an)], None),
     paDisablePort = \<lambda>cl p w. (w @ [(cl, Disable p)], None)\<rparr>"

lemma log_api_ok: "api_ok log_api (\<lambda>w. w) (\<lambda>cl cage lane. ucast (4 * cage + lane))"
  by (simp add: api_ok_def log_api_def)

theorem port_events_reach_switch_witness:
  "\<exists>cc e target. NewCentralController stored_order sample_conf [] [] = Ret (cc :: (unit, _) centralController) \<and>
     central_Run log_api stored_order (\<lambda>_. stored_order) (ccBus cc) = Ret e \<and>
     centralBus_step log_api (CBDisabled (Some \<lparr>pdPort = Some 2\<rparr>)) (e\<lparr>cbWorld := []\<rparr>) =
       Ret (e\<lparr>cbWorld := [(target, Disable 8)]\<rparr>)"
proof -
  obtain t where t: "NewDCNFromConf sample_conf = Ret t" using sample_conf_built by blast
  obtain h where reg: "NewAsicRegistry (trAsics sample_conf) (trPortConfig sample_conf)
      (trPortGroup sample_conf) \<lparr>hPorts = [], hAsics = []\<rparr> = ([(''a'', 0)], h)"
    and ports: "prPortMap (asPortRegistry (asic h 0)) = [(''1/0'', 0), (''1/1'', 1), (''2/0'', 2)]"
    and spec: "poSpec (port h 2) = NewPortSpec 2 0" using sample_registry by blast
  from NewDCNFromConf_has_hw [OF reg t] have hw: "tHw t = h" "tAsicRegistry t = [(''a'', 0)]" by (simp_all add: has_hw_def)
  have bfrt: "\<forall>a \<in> set (trAsics sample_conf). caCtrlAPI a = ''bfrt''" "trAsics sample_conf \<noteq> []"
    by (simp_all add: sample_conf_def)
  have asics: "trAsics sample_conf = [\<lparr>caID = ''a'', caProgram = ''p'', caDeviceID = 0, caPipeID = 0,
       caCtrlAddress = [], caCtrlAPI = ''bfrt''\<rparr>]" by (simp add: sample_conf_def)
  define cc :: "(unit, (bfrt_target \<times> port_call) list) centralController" where
    "cc = \<lparr>ccRpcEndPoint = NewCentralRpcEndpoint t, ccServer = NewCentralSrvServer t NewVCManager,
       ccBus = \<lparr>cbCps = [NewBfrtCentralizedCP ''a''], cbTopology = t, cbWorld = []\<rparr>\<rparr>"
  have cc: "NewCentralController stored_order sample_conf [] [] = Ret cc" "cbTopology (ccBus cc) = t"
    by (simp_all add: NewCentralController_def t load_vcs_def asics new_cps_def new_cp_def NewCentralBus_def cc_def)
  have find: "FindPort (cbTopology (ccBus cc)) ''a'' ''2/0'' = Inr 2"
    by (simp add: cc(2) FindPort_def FindAsic_def hw ports gm_eval)
  have dev: "ucast (4 * psCage (poSpec (port h 2)) + psLane (poSpec (port h 2))) = (8 :: u32)"
    by (simp add: spec NewPortSpec_def)
  let ?dev = "\<lambda>cl cage lane. ucast (4 * cage + lane) :: u32"
  have ords: "\<forall>k :: string. is_order stored_order" by simp
  from port_events_reach_switch [OF log_api_ok cc(1) bfrt is_order_stored ords] obtain e where
    e: "central_Run log_api stored_order (\<lambda>_. stored_order) (ccBus cc) = Ret e"
    and calls: "\<forall>v asicStr portStr p. FindPort t asicStr portStr = Inr p \<longrightarrow>
      one_call (\<lambda>w. w) (e\<lparr>cbWorld := v\<rparr>) (port_target h p, Disable (dev_of ?dev h p))
        (centralBus_step log_api (CBDisabled (Some \<lparr>pdPort = Some p\<rparr>)) (e\<lparr>cbWorld := v\<rparr>))"
    unfolding Let_def cc(2) hw(1) by blast
  have "dev_of ?dev h 2 = 8" by (simp add: dev_of_def dev)
  with calls [rule_format, of "''a''" "''2/0''" 2 "[]"] find have "one_call (\<lambda>w. w) (e\<lparr>cbWorld := []\<rparr>) (port_target h 2, Disable 8)
      (centralBus_step log_api (CBDisabled (Some \<lparr>pdPort = Some 2\<rparr>)) (e\<lparr>cbWorld := []\<rparr>))"
    by (simp add: cc(2))
  then show ?thesis using cc(1) e by (auto simp: one_call_def)
qed

end
