(* ===== verification/Switch_Manager.thy ===== *)
theory Switch_Manager
  imports Node_Controllers
begin

text \<open>
  The manager of a switch (ctrl\_mgr/manager.go) and its ASIC end point (ctrl\_mgr/asic.go) with the channel
  maps (core/model/byte\_chan\_map.go): packets from the switch are handed to the leaf controller that they are
  for, and leaf controllers come and go with the messages of the spine.

  The raw socket is the list of packets in and out. The removal of a leaf takes two steps, because the code
  sleeps between them while the end point goes on.
\<close>

section \<open>The ASIC end point\<close>

definition NewByteChanMap :: "(u16, cref) gomap" where
  "NewByteChanMap = gm_empty"

definition ByteChanMap_Load :: "(u16, cref) gomap \<Rightarrow> u16 \<Rightarrow> cref option" where
  [simp]: "ByteChanMap_Load rm key = gm_load rm key"

definition ByteChanMap_Delete :: "u16 \<Rightarrow> (u16, cref) gomap \<Rightarrow> (u16, cref) gomap" where
  [simp]: "ByteChanMap_Delete key rm = gm_delete key rm"

definition ByteChanMap_Store :: "u16 \<Rightarrow> cref \<Rightarrow> (u16, cref) gomap \<Rightarrow> (u16, cref) gomap" where
  [simp]: "ByteChanMap_Store key value rm = gm_store key value rm"

text \<open>\<open>aeForwarders\<close>: the channels that the goroutines of \<open>AddLeafCtrl\<close> read; \<open>aeOut\<close>: what went to the socket.\<close>

record asicEndPoint =
  aeLeafIngress :: "(u16, cref) gomap"
  aeLeafEgress :: "(u16, cref) gomap"
  aeSpineIngress :: "(u16, cref) gomap"
  aeSpineEgress :: "(u16, cref) gomap"
  aeForwarders :: "cref list"
  aeOut :: "bytes list"

definition AddLeafCtrl :: "leafController \<Rightarrow> asicEndPoint \<Rightarrow> asicEndPoint" where
  "AddLeafCtrl leaf a =
     a\<lparr>aeLeafIngress := ByteChanMap_Store (lcID leaf) (lcAsicIngress leaf) (aeLeafIngress a),
       aeLeafEgress := ByteChanMap_Store (lcID leaf) (lcAsicEgress leaf) (aeLeafEgress a),
       aeForwarders := aeForwarders a @ [lcAsicEgress leaf]\<rparr>"

definition RemoveLeafCtrl :: "leafController \<Rightarrow> asicEndPoint \<Rightarrow> asicEndPoint" where
  "RemoveLeafCtrl leaf a =
     a\<lparr>aeLeafIngress := ByteChanMap_Delete (lcID leaf) (aeLeafIngress a),
       aeLeafEgress := ByteChanMap_Delete (lcID leaf) (aeLeafEgress a)\<rparr>"

definition NewAsicEndPoint :: "leafController list \<Rightarrow> ('p, 'c) spineController list \<Rightarrow> asicEndPoint" where
  "NewAsicEndPoint leaves spines =
     fold (\<lambda>s a. a\<lparr>aeSpineIngress := ByteChanMap_Store (scoID s) (scoAsicIngress s) (aeSpineIngress a),
                   aeSpineEgress := ByteChanMap_Store (scoID s) (scoAsicEgress s) (aeSpineEgress a)\<rparr>) spines
       (fold AddLeafCtrl leaves
         \<lparr>aeLeafIngress = NewByteChanMap, aeLeafEgress = NewByteChanMap, aeSpineIngress = NewByteChanMap,
          aeSpineEgress = NewByteChanMap, aeForwarders = [], aeOut = []\<rparr>)"

text \<open>One packet from the switch. Its bytes are those that gopacket has parsed.\<close>

definition asic_read ::
  "(bytes \<Rightarrow> HorusPacket option) \<Rightarrow> bytes \<Rightarrow> asicEndPoint \<Rightarrow> chan list \<Rightarrow> chan list go" where
  "asic_read parse msg a chans =
     (case parse msg of
        None \<Rightarrow> Ret chans
      | Some horus \<Rightarrow>
          (case ByteChanMap_Load (aeLeafIngress a) (hpDstID horus) of
             Some ch \<Rightarrow> chan_send msg ch chans
           | None \<Rightarrow> Ret chans))"

text \<open>One packet of a controller on its way to the socket, by the goroutine of its channel.\<close>

definition asic_forward :: "cref \<Rightarrow> asicEndPoint \<Rightarrow> chan list \<Rightarrow> asicEndPoint \<times> chan list" where
  "asic_forward r a chans =
     (case chBuf (chans ! r) of
        [] \<Rightarrow> (a, chans)
      | msg # msgs \<Rightarrow> (a\<lparr>aeOut := aeOut a @ [msg]\<rparr>, chans[r := (chans ! r)\<lparr>chBuf := msgs\<rparr>]))"

section \<open>The manager\<close>

text \<open>A leaf controller has a bus once \<open>StartBare\<close> is done.\<close>

record ('p, 'c) switchManager =
  smCfg :: rootConfig
  smAsic :: asicEndPoint
  smLeaves :: "(leafController \<times> 'c LeafBus option) list"
  smSpines :: "('p, 'c) spineController list"
  smChans :: "chan list"
  smRemoving :: "nat option"

definition add_leaf_ctrl ::
  "rootConfig \<Rightarrow> LeafConfig \<Rightarrow> leafController list \<times> chan list \<Rightarrow> leafController list \<times> chan list" where
  "add_leaf_ctrl cfg leafCtrl = (\<lambda>(leaves, chans).
     let (newCtrl, chans') = NewBareLeafController (lgID leafCtrl) (lgPipeID leafCtrl) cfg chans
     in (leaves @ [newCtrl], chans'))"

definition new_leaves :: "rootConfig \<Rightarrow> chan list \<Rightarrow> leafController list \<times> chan list" where
  "new_leaves cfg chans = fold (add_leaf_ctrl cfg) (rcLeaves cfg) ([], chans)"

text \<open>The spine controllers fetch the topology one after the other; \<open>replies\<close> are the answers they get.\<close>

definition new_spines ::
  "(bfrt_target \<Rightarrow> 'c bfrt) \<Rightarrow> rootConfig \<Rightarrow> (SpineConfig \<Rightarrow> topo_reply) \<Rightarrow> 'c \<Rightarrow> chan list \<Rightarrow>
    (('p, 'c) spineController list \<times> chan list) go" where
  "new_spines mk cfg replies w chans =
     go_fold (\<lambda>spineCtrl (spines, chans).
        go_bind (NewSpineController mk (replies spineCtrl) (scID spineCtrl) (scPipeID spineCtrl) cfg w chans)
          (\<lambda>(newCtrl, chans'). Ret (spines @ [newCtrl], chans'))) (rcSpines cfg) ([], chans)"

text \<open>The manager's own control plane is made for the pipe of the first leaf, and initialised.\<close>

definition mgr_init :: "(bfrt_target \<Rightarrow> 'c bfrt) \<Rightarrow> rootConfig \<Rightarrow> 'c \<Rightarrow> 'c go" where
  "mgr_init mk cfg w =
     (case rcLeaves cfg of
        [] \<Rightarrow> Panic
      | l # _ \<Rightarrow> go_bind (manager_cp (rcControlAPI cfg) (mk (ctrl_target cfg 1000 (lgPipeID l)))) (\<lambda>cp. mcpInit cp w))"

definition NewSwitchManager ::
  "(bfrt_target \<Rightarrow> 'c bfrt) \<Rightarrow> rootConfig \<Rightarrow> (SpineConfig \<Rightarrow> topo_reply) \<Rightarrow> 'c \<Rightarrow> (('p, 'c) switchManager \<times> 'c) go" where
  "NewSwitchManager mk cfg replies w =
     (let (leaves, chans) = new_leaves cfg [] in
      go_bind (new_spines mk cfg replies w chans) (\<lambda>(spines, chans').
      go_bind (mgr_init mk cfg w) (\<lambda>w'.
        Ret (\<lparr>smCfg = cfg, smAsic = NewAsicEndPoint leaves spines, smLeaves = map (\<lambda>l. (l, None)) leaves,
              smSpines = spines, smChans = chans', smRemoving = None\<rparr>, w'))))"

text \<open>A new leaf. Its ASIC may be missing from the message; the controller then panics.\<close>

definition mgr_newLeaf ::
  "topo_reply \<Rightarrow> LeafAddedMessage \<Rightarrow> ('p, 'c) switchManager \<Rightarrow> ('p, 'c) switchManager go" where
  "mgr_newLeaf reply newLeaf sc =
     (let leafID = ucast (liId (laLeaf newLeaf)) in
      deref (liAsic (laLeaf newLeaf)) (\<lambda>asic.
        let (leafCtrl, chans) = NewBareLeafController leafID (aiPipeID asic) (smCfg sc) (smChans sc) in
        go_bind (leaf_FetchTopology reply leafCtrl) (\<lambda>leafCtrl.
        deref (lcTopology leafCtrl) (\<lambda>t.
        go_bind (GetNode t leafID NodeType_Leaf) (\<lambda>leaf.
          Ret (case leaf of
                 Some _ \<Rightarrow> sc\<lparr>smChans := chans, smLeaves := smLeaves sc @ [(leafCtrl, None)],
                              smAsic := AddLeafCtrl leafCtrl (smAsic sc)\<rparr>
               | None \<Rightarrow> sc\<lparr>smChans := chans\<rparr>))))))"

text \<open>The last leaf controller with the ID.\<close>

definition removed_leaf :: "u16 \<Rightarrow> (leafController \<times> 'c LeafBus option) list \<Rightarrow> nat option" where
  "removed_leaf leafID leaves =
     fold (\<lambda>(i, l, _) r. if lcID l = leafID then Some i else r) (enumerate 0 leaves) None"

text \<open>A failed leaf, up to the pause.\<close>

definition mgr_failedLeaf ::
  "(layer list \<Rightarrow> go_error + bytes) \<Rightarrow> LeafFailedMessage \<Rightarrow> ('p, 'c) switchManager \<Rightarrow> ('p, 'c) switchManager go" where
  "mgr_failedLeaf ser failedLeaf sc =
     (case removed_leaf (ucast (liId (lfLeaf failedLeaf))) (smLeaves sc) of
        None \<Rightarrow> Ret sc
      | Some i \<Rightarrow>
          (case smLeaves sc ! i of (l, bus) \<Rightarrow>
             deref bus (\<lambda>b.
             go_bind (leaf_Shutdown ser l b (smChans sc)) (\<lambda>(b', chans).
               Ret (sc\<lparr>smChans := chans, smLeaves := (smLeaves sc)[i := (l, Some b')], smRemoving := Some i\<rparr>)))))"

text \<open>The rest, after it.\<close>

definition mgr_remove :: "nat \<Rightarrow> ('p, 'c) switchManager \<Rightarrow> ('p, 'c) switchManager" where
  "mgr_remove i sc =
     sc\<lparr>smAsic := RemoveLeafCtrl (fst (smLeaves sc ! i)) (smAsic sc),
        smLeaves := take i (smLeaves sc) @ drop (Suc i) (smLeaves sc), smRemoving := None\<rparr>"

text \<open>A leaf controller that has been started gets its bus.\<close>

definition mgr_started ::
  "nat \<Rightarrow> leafController \<times> 'c LeafBus \<Rightarrow> ('p, 'c) switchManager \<Rightarrow> ('p, 'c) switchManager" where
  "mgr_started i lb sc = sc\<lparr>smLeaves := (smLeaves sc)[i := (fst lb, Some (snd lb))]\<rparr>"

definition mgr_packet ::
  "(bytes \<Rightarrow> HorusPacket option) \<Rightarrow> bytes \<Rightarrow> ('p, 'c) switchManager \<Rightarrow> ('p, 'c) switchManager go" where
  "mgr_packet parse msg sc =
     go_bind (asic_read parse msg (smAsic sc) (smChans sc)) (\<lambda>chans. Ret (sc\<lparr>smChans := chans\<rparr>))"

definition mgr_forward :: "cref \<Rightarrow> ('p, 'c) switchManager \<Rightarrow> ('p, 'c) switchManager" where
  "mgr_forward r sc =
     (case asic_forward r (smAsic sc) (smChans sc) of (a, chans) \<Rightarrow> sc\<lparr>smAsic := a, smChans := chans\<rparr>)"

text \<open>
  The steps that can be taken: the loop of \<open>Run\<close> handles one message at a time, packets and starting
  controllers go on all the time, and the bus of a running controller works by itself. Messages about new and about
  failed leaves come over different channels, so nothing keeps an ID from being added while it is still managed.
  What a bus sends stays in its \<open>lbEgress\<close>: that a send on a channel that has been closed panics is not part of
  these steps.
\<close>

inductive mgr_step ::
  "(bfrt_target \<Rightarrow> 'c bfrt) \<Rightarrow> (layer list \<Rightarrow> go_error + bytes) \<Rightarrow> (bytes \<Rightarrow> HorusPacket option) \<Rightarrow>
    ('p, 'c) switchManager \<Rightarrow> ('p, 'c) switchManager \<Rightarrow> bool"
  for mk ser parse where
  new_leaf: "mgr_step mk ser parse sc sc'"
  if "smRemoving sc = None" and "mgr_newLeaf reply newLeaf sc = Ret sc'"
| failed_leaf: "mgr_step mk ser parse sc sc'"
  if "smRemoving sc = None" and "mgr_failedLeaf ser failedLeaf sc = Ret sc'"
| remove: "mgr_step mk ser parse sc (mgr_remove i sc)"
  if "smRemoving sc = Some i"
| started: "mgr_step mk ser parse sc (mgr_started i (l, b) sc)"
  if "i < length (smLeaves sc)" and "smRemoving sc \<noteq> Some i"
    and "leaf_StartBare mk ord o1 o2 fetch tr vr (fst (smLeaves sc ! i)) w = Some (Ret (l, b))"
| bus: "mgr_step mk ser parse sc (sc\<lparr>smLeaves := (smLeaves sc)[i := (fst (smLeaves sc ! i), Some b)]\<rparr>)"
  if "i < length (smLeaves sc)" and "snd (smLeaves sc ! i) \<noteq> None"
| packet: "mgr_step mk ser parse sc sc'"
  if "mgr_packet parse msg sc = Ret sc'"
| forward: "mgr_step mk ser parse sc (mgr_forward r sc)"
  if "r \<in> set (aeForwarders (smAsic sc))"

end
