(* ===== verification/Switch_Manager_Correct.thy ===== *)
theory Switch_Manager_Correct
  imports Switch_Manager
begin

text \<open>
  Packets from the switch reach the leaf controller they are for. The invariant \<open>mgr_ok\<close> ties the
  channel map of the ASIC end point to the managed leaf controllers; it holds at the start and in every step that
  leaves no ID managed twice. When an ID is managed twice, the map keeps one of the two channels, and loses it
  with the first removal.
\<close>

section \<open>The invariant\<close>

definition ctrl_key :: "leafController \<Rightarrow> u16 \<times> cref \<times> cref" where
  "ctrl_key l = (lcID l, lcAsicIngress l, lcAsicEgress l)"

definition ctrl_keys :: "('p, 'c) switchManager \<Rightarrow> (u16 \<times> cref \<times> cref) list" where
  "ctrl_keys sc = map (\<lambda>(l, _). ctrl_key l) (smLeaves sc)"

abbreviation closed_chans :: "chan list \<Rightarrow> bool list" where
  "closed_chans chans \<equiv> map chClosed chans"

text \<open>
  It is about the IDs and channels of the controllers, about which channels are closed, and about the channel
  map: IDs and channels are not shared, and only a controller that is being removed has its channel closed.
\<close>

definition keys_ok :: "(u16 \<times> cref \<times> cref) list \<Rightarrow> bool list \<Rightarrow> (u16 \<Rightarrow> cref option) \<Rightarrow> nat option \<Rightarrow> bool" where
  "keys_ok ks closed ld removing \<longleftrightarrow>
     distinct (map fst ks) \<and> distinct (map (fst \<circ> snd) ks @ map (snd \<circ> snd) ks) \<and>
     (\<forall>(k, i, e) \<in> set ks. i < length closed \<and> e < length closed) \<and>
     (\<forall>k r. ld k = Some r \<longleftrightarrow> (\<exists>e. (k, r, e) \<in> set ks)) \<and>
     (\<forall>j < length ks. closed ! fst (snd (ks ! j)) \<longleftrightarrow> removing = Some j) \<and>
     (\<forall>j. removing = Some j \<longrightarrow> j < length ks)"

definition mgr_ok :: "('p, 'c) switchManager \<Rightarrow> bool" where
  "mgr_ok sc \<longleftrightarrow> keys_ok (ctrl_keys sc) (closed_chans (smChans sc)) (gm_load (aeLeafIngress (smAsic sc))) (smRemoving sc)"

lemma keys_okD:
  assumes "keys_ok ks closed ld removing"
  shows "distinct (map fst ks)" and "distinct (map (fst \<circ> snd) ks @ map (snd \<circ> snd) ks)"
    and "(k, i, e) \<in> set ks \<Longrightarrow> i < length closed \<and> e < length closed"
    and "ld k = Some r \<longleftrightarrow> (\<exists>e. (k, r, e) \<in> set ks)"
    and "j < length ks \<Longrightarrow> closed ! fst (snd (ks ! j)) \<longleftrightarrow> removing = Some j"
    and "removing = Some j \<Longrightarrow> j < length ks"
  using assms unfolding keys_ok_def by (blast, blast, blast, blast, blast, blast)

section \<open>The invariant under the three changes\<close>

lemma keys_ok_add:
  assumes ok: "keys_ok ks closed ld None" and new: "k \<notin> fst ` set ks" and n: "n = length closed"
  shows "keys_ok (ks @ [(k, Suc n, n)]) (closed @ [False, False]) (ld(k \<mapsto> Suc n)) None"
proof -
  note d = keys_okD [OF ok]
  have in_range: "a < length closed \<and> c < length closed" if "(b, a, c) \<in> set ks" for a b c using d(3) that .
  then have fresh: "m \<notin> (fst \<circ> snd) ` set ks \<union> (snd \<circ> snd) ` set ks" if "length closed \<le> m" for m
    using that by fastforce
  have "distinct (map (fst \<circ> snd) (ks @ [(k, Suc n, n)]) @ map (snd \<circ> snd) (ks @ [(k, Suc n, n)]))"
    using d(2) fresh [of n] fresh [of "Suc n"] n by auto
  moreover have "ld k = None" using d(4) [of k] new by (metis fst_conv image_eqI not_None_eq)
  then have "(ld(k \<mapsto> Suc n)) b = Some r \<longleftrightarrow> (\<exists>e. (b, r, e) \<in> set (ks @ [(k, Suc n, n)]))" for b r
    using d(4) [of b r] new by (cases "b = k") (auto simp: image_iff)
  moreover have "\<not> (closed @ [False, False]) ! fst (snd ((ks @ [(k, Suc n, n)]) ! j))"
    if "j < length (ks @ [(k, Suc n, n)])" for j
  proof (cases "j < length ks")
    case True
    then have "ks ! j \<in> set ks" by simp
    with in_range [of "fst (ks ! j)" "fst (snd (ks ! j))" "snd (snd (ks ! j))"] d(5) [OF True] True show ?thesis
      by (simp add: nth_append)
  next
    case False
    with that n show ?thesis by (simp add: nth_append less_Suc_eq)
  qed
  ultimately show ?thesis
    using d(1) new in_range n unfolding keys_ok_def by (auto dest: in_range)
qed

lemma keys_ok_close:
  assumes ok: "keys_ok ks closed ld None" and j: "j < length ks" and key: "ks ! j = (k, i, e)"
  shows "keys_ok ks (closed[e := True, i := True]) ld (Some j)"
proof -
  note d = keys_okD [OF ok]
  from j key have mem: "(k, i, e) \<in> set ks" by (metis nth_mem)
  have "closed[e := True, i := True] ! fst (snd (ks ! m)) \<longleftrightarrow> Some j = Some m" if m: "m < length ks" for m
  proof -
    let ?r = "fst (snd (ks ! m))"
    have r: "map (fst \<circ> snd) ks ! m = ?r" "map (fst \<circ> snd) ks ! j = i" using m j key by simp_all
    have "e \<in> set (map (snd \<circ> snd) ks)" using mem by force
    moreover have "?r \<in> set (map (fst \<circ> snd) ks)" using m by force
    ultimately have "?r \<noteq> e" using d(2) by auto
    moreover have "?r = i \<longleftrightarrow> m = j"
      using nth_eq_iff_index_eq [of "map (fst \<circ> snd) ks" m j] d(2) m j r by simp
    moreover have "i < length closed" "e < length closed" using d(3) [OF mem] by simp_all
    ultimately show ?thesis using d(5) [OF m] by (cases "m = j") (simp_all add: nth_list_update)
  qed
  moreover have "\<forall>(k, i, e) \<in> set ks. i < length closed \<and> e < length closed" using d(3) by blast
  ultimately show ?thesis using d(1,2,4) j unfolding keys_ok_def by simp
qed

lemma keys_ok_remove:
  assumes ok: "keys_ok ks closed ld (Some j)" and key: "ks ! j = (k, i, e)"
  shows "keys_ok (take j ks @ drop (Suc j) ks) closed (ld(k := None)) None"
proof -
  note d = keys_okD [OF ok]
  have j: "j < length ks" using d(6) by simp
  let ?ks = "take j ks @ drop (Suc j) ks"
  have ks: "ks = take j ks @ (k, i, e) # drop (Suc j) ks" using id_take_nth_drop [OF j] key by simp
  have sub: "set ?ks \<subseteq> set ks" by (auto dest: in_set_takeD in_set_dropD)
  have gone: "k \<notin> fst ` set ?ks" using d(1) by (subst (asm) ks) auto
  have "(ld(k := None)) b = Some r \<longleftrightarrow> (\<exists>e. (b, r, e) \<in> set ?ks)" for b r
  proof (cases "b = k")
    case True
    with gone show ?thesis by force
  next
    case False
    then have "(b, r, e') \<in> set ks \<longleftrightarrow> (b, r, e') \<in> set ?ks" for e' by (subst ks) auto
    with False d(4) [of b r] show ?thesis by simp
  qed
  moreover have "\<not> closed ! fst (snd (?ks ! m))" if "m < length ?ks" for m
  proof -
    have "?ks ! m = ks ! (if m < j then m else Suc m)" using that j by (auto simp: nth_append min_def)
    with d(5) [of "if m < j then m else Suc m"] that j show ?thesis by (auto split: if_splits)
  qed
  moreover have "distinct (map fst ?ks)" using d(1) by (subst (asm) ks) auto
  moreover have "distinct (map (fst \<circ> snd) ?ks @ map (snd \<circ> snd) ?ks)" using d(2) by (subst (asm) (1 2) ks) auto
  ultimately show ?thesis using d(3) sub unfolding keys_ok_def by blast
qed

section \<open>Steps that keep the controllers\<close>

lemma closed_update: "chClosed x = chClosed (chans ! r) \<Longrightarrow> closed_chans (chans[r := x]) = closed_chans chans"
  by (cases "r < length chans") (auto intro!: nth_equalityI simp: nth_list_update split: if_splits)

lemma chan_send_closed: "chan_send msg r chans = Ret chans' \<Longrightarrow> closed_chans chans' = closed_chans chans"
  by (auto simp: chan_send_def closed_update split: if_splits)

lemma same_controller:
  assumes "i < length (smLeaves sc)" and "ctrl_key l = ctrl_key (fst (smLeaves sc ! i))"
  shows "ctrl_keys (sc\<lparr>smLeaves := (smLeaves sc)[i := (l, b)]\<rparr>) = ctrl_keys sc"
  using assms by (intro nth_equalityI) (auto simp: ctrl_keys_def nth_list_update split: prod.splits)

lemma leaf_FetchTopology_key:
  assumes "leaf_FetchTopology reply c = Ret c'"
  shows "ctrl_key c' = ctrl_key c" and "\<exists>t l. lcTopology c' = Some t \<and> gm_load (tLeaves t) (lcID c) = Some l"
  using assms by (auto simp: leaf_FetchTopology_def ctrl_key_def split: option.splits)

lemma leaf_FetchVCs_key:
  assumes "leaf_FetchVCs ord reply c = Ret (c', err)"
  shows "ctrl_key c' = ctrl_key c"
  using assms by (auto simp: leaf_FetchVCs_def ctrl_key_def split: option.splits if_splits)

lemma opt_bind_eq_Some: "opt_bind m f = Some (Ret y) \<longleftrightarrow> (\<exists>x. m = Some (Ret x) \<and> f x = Some (Ret y))"
  by (auto simp: opt_bind_def split: option.splits go.splits)

lemma leaf_StartBare_key:
  assumes "leaf_StartBare mk ord o1 o2 fetch tr vr c w = Some (Ret (l, b))"
  shows "ctrl_key l = ctrl_key c"
proof -
  from assms obtain c1 err where 1: "(if fetch then leaf_FetchTopology tr c else Ret c) = Ret c1"
    and 2: "leaf_FetchVCs ord vr c1 = Ret (l, err)"
    unfolding leaf_StartBare_def opt_bind_eq_Some by (auto simp: opt_bind_eq_Some)
  have "ctrl_key c1 = ctrl_key c" using 1 by (cases fetch) (auto simp: leaf_FetchTopology_key)
  with leaf_FetchVCs_key [OF 2] show ?thesis by simp
qed

section \<open>Every step keeps the invariant\<close>

lemma mgr_ok_cong:
  assumes "mgr_ok sc" and "ctrl_keys sc' = ctrl_keys sc" and "closed_chans (smChans sc') = closed_chans (smChans sc)"
    and "aeLeafIngress (smAsic sc') = aeLeafIngress (smAsic sc)" and "smRemoving sc' = smRemoving sc"
  shows "mgr_ok sc'"
  using assms by (simp add: mgr_ok_def)

lemma AddLeafCtrl_load:
  "gm_load (aeLeafIngress (AddLeafCtrl l a)) = (gm_load (aeLeafIngress a))(lcID l \<mapsto> lcAsicIngress l)"
  by (simp add: AddLeafCtrl_def)

text \<open>No ID is managed twice.\<close>

definition one_each :: "('p, 'c) switchManager \<Rightarrow> bool" where
  "one_each sc \<longleftrightarrow> distinct (map (\<lambda>l. lcID (fst l)) (smLeaves sc))"

lemma new_leaf_ok:
  assumes ok: "mgr_ok sc" and idle: "smRemoving sc = None" and run: "mgr_newLeaf reply newLeaf sc = Ret sc'"
    and new: "one_each sc'"
  shows "mgr_ok sc'"
proof -
  let ?k = "ucast (liId (laLeaf newLeaf)) :: u16" and ?n = "length (smChans sc)"
  define chans where "chans = smChans sc @ [\<lparr>chBuf = [], chClosed = False\<rparr>, \<lparr>chBuf = [], chClosed = False\<rparr>]"
  define lc0 where "lc0 pipe = fst (NewBareLeafController ?k pipe (smCfg sc) (smChans sc))" for pipe
  have bare: "NewBareLeafController ?k pipe (smCfg sc) (smChans sc) = (lc0 pipe, chans)"
    and lc0: "ctrl_key (lc0 pipe) = (?k, Suc ?n, ?n)" "lcID (lc0 pipe) = ?k" for pipe
    by (simp_all add: lc0_def NewBareLeafController_def make_chan_def Let_def chans_def ctrl_key_def)
  have "\<exists>asic. liAsic (laLeaf newLeaf) = Some asic \<and>
      (\<exists>c. leaf_FetchTopology reply (lc0 (aiPipeID asic)) = Ret c \<and> (\<exists>t. lcTopology c = Some t \<and>
      (case gm_load (tLeaves t) ?k of
        None \<Rightarrow> sc\<lparr>smChans := chans\<rparr>
      | Some _ \<Rightarrow> sc\<lparr>smChans := chans, smLeaves := smLeaves sc @ [(c, None)], smAsic := AddLeafCtrl c (smAsic sc)\<rparr>) = sc'))"
    using run unfolding mgr_newLeaf_def Let_def bare by simp
  then obtain asic :: AsicInfo and c t where c: "leaf_FetchTopology reply (lc0 (aiPipeID asic)) = Ret c" and t: "lcTopology c = Some t"
    and sc': "(case gm_load (tLeaves t) ?k of
        None \<Rightarrow> sc\<lparr>smChans := chans\<rparr>
      | Some _ \<Rightarrow> sc\<lparr>smChans := chans, smLeaves := smLeaves sc @ [(c, None)], smAsic := AddLeafCtrl c (smAsic sc)\<rparr>) = sc'"
    by (elim exE conjE) (rule that; assumption)
  have key: "ctrl_key c = (?k, Suc ?n, ?n)" using leaf_FetchTopology_key(1) [OF c] lc0(1) by simp
  obtain l where "gm_load (tLeaves t) ?k = Some l"
    using leaf_FetchTopology_key(2) [OF c] t lc0(2) by auto
  then have sc': "sc' = sc\<lparr>smChans := chans, smLeaves := smLeaves sc @ [(c, None)], smAsic := AddLeafCtrl c (smAsic sc)\<rparr>"
    using sc' by simp
  have "lcID c = ?k" using key by (simp add: ctrl_key_def)
  moreover have "fst ` set (ctrl_keys sc) = (\<lambda>l. lcID (fst l)) ` set (smLeaves sc)"
    by (simp add: ctrl_keys_def ctrl_key_def image_image case_prod_unfold)
  ultimately have "?k \<notin> fst ` set (ctrl_keys sc)" using new by (simp add: one_each_def sc')
  from keys_ok_add [OF ok [unfolded mgr_ok_def idle] this, of ?n] key show ?thesis
    by (simp add: mgr_ok_def sc' idle ctrl_keys_def AddLeafCtrl_load chans_def) (simp add: ctrl_key_def)
qed

lemma removed_leaf_Some:
  assumes "removed_leaf k leaves = Some i"
  shows "i < length leaves \<and> lcID (fst (leaves ! i)) = k"
proof -
  have "fold (\<lambda>(i, l, _) r. if lcID l = k then Some i else r) xs r = Some i \<Longrightarrow>
      r = Some i \<or> (\<exists>l b. (i, l, b) \<in> set xs \<and> lcID l = k)" for xs r
    by (induction xs arbitrary: r) (fastforce split: if_splits)+
  from this [OF assms [unfolded removed_leaf_def]] show ?thesis
    by (auto simp: in_set_enumerate_eq)
qed

lemma failed_leaf_ok:
  assumes ok: "mgr_ok sc" and idle: "smRemoving sc = None" and run: "mgr_failedLeaf ser failedLeaf sc = Ret sc'"
  shows "mgr_ok sc'"
proof (cases "removed_leaf (ucast (liId (lfLeaf failedLeaf))) (smLeaves sc)")
  case None
  with run ok show ?thesis by (simp add: mgr_failedLeaf_def)
next
  case (Some i)
  obtain l bus where l: "smLeaves sc ! i = (l, bus)" by fastforce
  have i: "i < length (smLeaves sc)" using removed_leaf_Some [OF Some] by simp
  from run Some l obtain b b' chans where shut: "leaf_Shutdown ser l b (smChans sc) = Ret (b', chans)"
    and sc': "sc' = sc\<lparr>smChans := chans, smLeaves := (smLeaves sc)[i := (l, Some b')], smRemoving := Some i\<rparr>"
    by (auto simp: mgr_failedLeaf_def)
  have closed: "closed_chans chans = (closed_chans (smChans sc))[lcAsicEgress l := True, lcAsicIngress l := True]"
    using shut by (auto simp: leaf_Shutdown_def chan_close_def map_update split: if_splits)
  have "ctrl_keys (sc\<lparr>smLeaves := (smLeaves sc)[i := (l, Some b')]\<rparr>) = ctrl_keys sc"
    by (rule same_controller [OF i]) (simp add: l)
  then have keys: "ctrl_keys sc' = ctrl_keys sc" by (simp add: sc' ctrl_keys_def)
  have "ctrl_keys sc ! i = (lcID l, lcAsicIngress l, lcAsicEgress l)" using i l by (simp add: ctrl_keys_def ctrl_key_def)
  from keys_ok_close [OF ok [unfolded mgr_ok_def idle] _ this] i show ?thesis
    by (simp add: mgr_ok_def keys) (simp add: sc' closed ctrl_keys_def)
qed

lemma remove_ok:
  assumes ok: "mgr_ok sc" and i: "smRemoving sc = Some i"
  shows "mgr_ok (mgr_remove i sc)"
proof -
  let ?l = "fst (smLeaves sc ! i)"
  from keys_okD(6) [OF ok [unfolded mgr_ok_def] i] have "i < length (smLeaves sc)" by (simp add: ctrl_keys_def)
  then have key: "ctrl_keys sc ! i = (lcID ?l, lcAsicIngress ?l, lcAsicEgress ?l)"
    by (simp add: ctrl_keys_def ctrl_key_def case_prod_unfold)
  have "ctrl_keys (mgr_remove i sc) = take i (ctrl_keys sc) @ drop (Suc i) (ctrl_keys sc)"
    by (simp add: ctrl_keys_def mgr_remove_def take_map drop_map)
  with keys_ok_remove [OF ok [unfolded mgr_ok_def i] key] show ?thesis
    by (simp add: mgr_ok_def) (simp add: mgr_remove_def RemoveLeafCtrl_def)
qed

lemma mgr_step_ok:
  assumes "mgr_step mk ser parse sc sc'" and "mgr_ok sc" and "one_each sc'"
  shows "mgr_ok sc'"
  using assms
proof (cases rule: mgr_step.cases)
  case (started i ord o1 o2 fetch tr vr w l b)
  have "ctrl_keys (sc\<lparr>smLeaves := (smLeaves sc)[i := (l, Some b)]\<rparr>) = ctrl_keys sc"
    by (rule same_controller [OF started(2) leaf_StartBare_key [OF started(4)]])
  with assms(2) show ?thesis unfolding started(1)
    by (elim mgr_ok_cong) (simp_all add: mgr_started_def)
next
  case (bus i b)
  have "ctrl_keys (sc\<lparr>smLeaves := (smLeaves sc)[i := (fst (smLeaves sc ! i), Some b)]\<rparr>) = ctrl_keys sc"
    by (rule same_controller [OF bus(2)]) simp
  with assms(2) show ?thesis unfolding bus(1) by (elim mgr_ok_cong) simp_all
next
  case (packet msg)
  then obtain chans where "asic_read parse msg (smAsic sc) (smChans sc) = Ret chans" and sc': "sc' = sc\<lparr>smChans := chans\<rparr>"
    by (auto simp: mgr_packet_def)
  then have "closed_chans chans = closed_chans (smChans sc)"
    by (auto simp: asic_read_def chan_send_closed split: option.splits)
  with assms(2) show ?thesis by (elim mgr_ok_cong) (simp_all add: sc' ctrl_keys_def)
next
  case (forward r)
  from assms(2) show ?thesis unfolding forward(1)
    by (elim mgr_ok_cong)
      (simp_all add: mgr_forward_def asic_forward_def ctrl_keys_def closed_update split: list.split)
qed (auto intro: new_leaf_ok failed_leaf_ok remove_ok)

interpretation mi: invariant mgr_ok "\<lambda>sc sc'. mgr_step mk ser parse sc sc' \<and> one_each sc'"
  for mk :: "bfrt_target \<Rightarrow> 'c bfrt" and ser parse
  by unfold_locales (use mgr_step_ok in blast)

section \<open>The start\<close>

lemma keys_ok_extend:
  assumes "keys_ok ks closed ld removing"
  shows "keys_ok ks (closed @ ext) ld removing"
proof -
  note d = keys_okD [OF assms]
  have r: "fst (snd (ks ! j)) < length closed" if "j < length ks" for j
    using d(3) [of "fst (ks ! j)" "fst (snd (ks ! j))" "snd (snd (ks ! j))"] that by simp
  have "(closed @ ext) ! fst (snd (ks ! j)) \<longleftrightarrow> removing = Some j" if "j < length ks" for j
    using d(5) [OF that] r [OF that] by (simp add: nth_append)
  moreover have "\<forall>(k, i, e) \<in> set ks. i < length (closed @ ext) \<and> e < length (closed @ ext)"
    using d(3) by fastforce
  ultimately show ?thesis using d(1,2,4,6) unfolding keys_ok_def by blast
qed

lemma new_leaves_ok:
  assumes "distinct (map lgID ls)" and "fold (add_leaf_ctrl cfg) ls ([], []) = (leaves, chans)" and "aeLeafIngress a = gm_empty"
  shows "keys_ok (map ctrl_key leaves) (closed_chans chans) (gm_load (aeLeafIngress (fold AddLeafCtrl leaves a))) None \<and>
    map lcID leaves = map lgID ls"
  using assms(1,2)
proof (induction ls arbitrary: leaves chans rule: rev_induct)
  case Nil
  then show ?case by (simp add: keys_ok_def assms(3))
next
  case (snoc c ls)
  obtain ls1 chans1 where 1: "fold (add_leaf_ctrl cfg) ls ([], []) = (ls1, chans1)" by fastforce
  with snoc have IH: "keys_ok (map ctrl_key ls1) (closed_chans chans1) (gm_load (aeLeafIngress (fold AddLeafCtrl ls1 a))) None"
    "map lcID ls1 = map lgID ls" by auto
  define l where "l = fst (NewBareLeafController (lgID c) (lgPipeID c) cfg chans1)"
  have key: "ctrl_key l = (lgID c, Suc (length chans1), length chans1)"
    by (simp add: l_def NewBareLeafController_def make_chan_def Let_def ctrl_key_def)
  have "add_leaf_ctrl cfg c (ls1, chans1) = (leaves, chans)" using snoc.prems(2) 1 by simp
  then have new: "leaves = ls1 @ [l]" "closed_chans chans = closed_chans chans1 @ [False, False]"
    by (auto simp: add_leaf_ctrl_def l_def NewBareLeafController_def make_chan_def Let_def)
  have "lcID ` set ls1 = lgID ` set ls" using IH(2) by (metis set_map)
  then have "lgID c \<notin> fst ` set (map ctrl_key ls1)"
    using snoc.prems(1) by (auto simp: ctrl_key_def image_comp comp_def)
  from keys_ok_add [OF IH(1) this, of "length chans1"]
  have "keys_ok (map ctrl_key (ls1 @ [l])) (closed_chans chans)
    ((gm_load (aeLeafIngress (fold AddLeafCtrl ls1 a)))(lgID c \<mapsto> Suc (length chans1))) None"
    by (simp add: new(2) key)
  moreover have "lcID l = lgID c" "lcAsicIngress l = Suc (length chans1)" using key by (simp_all add: ctrl_key_def)
  ultimately show ?case using IH(2) by (simp add: new(1) AddLeafCtrl_load del: fun_upd_apply)
qed

lemma new_spines_chans:
  assumes "new_spines mk cfg replies w chans = Ret (spines, chans')"
  shows "\<exists>ext. chans' = chans @ ext"
proof -
  have "\<exists>ext. snd st' = snd st @ ext"
    if "go_fold (\<lambda>spineCtrl (spines, chans).
        go_bind (NewSpineController mk (replies spineCtrl) (scID spineCtrl) (scPipeID spineCtrl) cfg w chans)
          (\<lambda>(newCtrl, chans'). Ret (spines @ [newCtrl], chans'))) xs st = Ret st'" for xs st st'
    using that
  proof (induction xs arbitrary: st)
    case (Cons x xs)
    obtain spines1 chans1 where st: "st = (spines1, chans1)" by (cases st)
    from Cons.prems st obtain ctrl chans2 where
      c: "NewSpineController mk (replies x) (scID x) (scPipeID x) cfg w chans1 = Ret (ctrl, chans2)"
      and rest: "go_fold (\<lambda>spineCtrl (spines, chans).
        go_bind (NewSpineController mk (replies spineCtrl) (scID spineCtrl) (scPipeID spineCtrl) cfg w chans)
          (\<lambda>(newCtrl, chans'). Ret (spines @ [newCtrl], chans'))) xs (spines1 @ [ctrl], chans2) = Ret st'"
      by auto
    from c have "\<exists>ext. chans2 = chans1 @ ext"
      by (auto simp: NewSpineController_def make_chan_def Let_def split: option.splits prod.splits)
    with Cons.IH [OF rest] st show ?case by auto
  qed simp
  from this [OF assms [unfolded new_spines_def]] show ?thesis by simp
qed

lemma spine_fold_leaves:
  "aeLeafIngress (fold (\<lambda>s a. a\<lparr>aeSpineIngress := ByteChanMap_Store (scoID s) (scoAsicIngress s) (aeSpineIngress a),
                   aeSpineEgress := ByteChanMap_Store (scoID s) (scoAsicEgress s) (aeSpineEgress a)\<rparr>) spines a) = aeLeafIngress a"
  by (induction spines arbitrary: a) simp_all

lemma NewSwitchManager_ok:
  assumes "NewSwitchManager mk cfg replies w = Ret (sc, w')" and "distinct (map lgID (rcLeaves cfg))"
  shows "mgr_ok sc"
proof -
  obtain leaves chans where leaves: "new_leaves cfg [] = (leaves, chans)" by fastforce
  from assms(1) obtain spines chans' where spines: "new_spines mk cfg replies w chans = Ret (spines, chans')"
    and sc: "sc = \<lparr>smCfg = cfg, smAsic = NewAsicEndPoint leaves spines, smLeaves = map (\<lambda>l. (l, None)) leaves,
              smSpines = spines, smChans = chans', smRemoving = None\<rparr>"
    by (auto simp: NewSwitchManager_def leaves)
  from new_spines_chans [OF spines] obtain ext where ext: "chans' = chans @ ext" by blast
  have "fold (add_leaf_ctrl cfg) (rcLeaves cfg) ([], []) = (leaves, chans)"
    using leaves by (simp add: new_leaves_def)
  from new_leaves_ok [OF assms(2) this, THEN conjunct1, THEN keys_ok_extend, of _ "closed_chans ext"]
  have "keys_ok (map ctrl_key leaves) (closed_chans chans') (gm_load (aeLeafIngress (NewAsicEndPoint leaves spines))) None"
    unfolding NewAsicEndPoint_def spine_fold_leaves ext by (simp add: NewByteChanMap_def)
  then show ?thesis by (simp add: mgr_ok_def sc ctrl_keys_def comp_def)
qed

section \<open>Who gets a packet\<close>

text \<open>
  C19: The leaf IDs are distinct in the configuration, and leaves come and go in such a way that no ID is ever
  managed twice: no leaf is added while a controller with its ID is still there. Then at any time after the start
  of the manager a packet for a managed leaf controller is appended to the channel of that controller and no other
  one, a packet for any other leaf is dropped, and a packet for a leaf that is being removed ends the manager: its
  channel is closed a second before the leaf is taken out of the map.
\<close>

theorem packets_reach_their_leaf:
  assumes "NewSwitchManager mk cfg replies w = Ret (sc0, w')" and "distinct (map lgID (rcLeaves cfg))"
    and "(\<lambda>sc sc'. mgr_step mk ser parse sc sc' \<and> one_each sc')\<^sup>*\<^sup>* sc0 sc" and "parse msg = Some h"
  shows "(\<forall>j < length (smLeaves sc). lcID (fst (smLeaves sc ! j)) = hpDstID h \<longrightarrow>
      mgr_packet parse msg sc =
        (if smRemoving sc = Some j then Panic
         else let r = lcAsicIngress (fst (smLeaves sc ! j)); ch = smChans sc ! r
              in Ret (sc\<lparr>smChans := (smChans sc)[r := ch\<lparr>chBuf := chBuf ch @ [msg]\<rparr>]\<rparr>))) \<and>
    ((\<forall>l \<in> set (smLeaves sc). lcID (fst l) \<noteq> hpDstID h) \<longrightarrow> mgr_packet parse msg sc = Ret sc)"
proof -
  have ok: "mgr_ok sc" by (rule mi.reachable [OF assms(3) NewSwitchManager_ok [OF assms(1,2)]])
  note d = keys_okD [OF ok [unfolded mgr_ok_def]]
  have key: "ctrl_keys sc ! j = ctrl_key (fst (smLeaves sc ! j))" if "j < length (smLeaves sc)" for j
    using that by (simp add: ctrl_keys_def case_prod_unfold)
  have "gm_load (aeLeafIngress (smAsic sc)) (hpDstID h) = Some (lcAsicIngress (fst (smLeaves sc ! j))) \<and>
      (chClosed (smChans sc ! lcAsicIngress (fst (smLeaves sc ! j))) \<longleftrightarrow> smRemoving sc = Some j)"
    if j: "j < length (smLeaves sc)" and id: "lcID (fst (smLeaves sc ! j)) = hpDstID h" for j
  proof -
    let ?l = "fst (smLeaves sc ! j)"
    have len: "j < length (ctrl_keys sc)" using j by (simp add: ctrl_keys_def)
    then have mem: "(hpDstID h, lcAsicIngress ?l, lcAsicEgress ?l) \<in> set (ctrl_keys sc)"
      using key [OF j] id by (metis ctrl_key_def nth_mem)
    with d(3) [OF mem] d(5) [OF len] key [OF j] show ?thesis using d(4) by (auto simp: ctrl_key_def)
  qed
  moreover have "gm_load (aeLeafIngress (smAsic sc)) (hpDstID h) = None"
    if "\<forall>l \<in> set (smLeaves sc). lcID (fst l) \<noteq> hpDstID h"
  proof (rule ccontr)
    assume "gm_load (aeLeafIngress (smAsic sc)) (hpDstID h) \<noteq> None"
    with d(4) obtain r e where "(hpDstID h, r, e) \<in> set (ctrl_keys sc)" by blast
    with that show False by (auto simp: ctrl_keys_def ctrl_key_def)
  qed
  ultimately show ?thesis
    by (auto simp: mgr_packet_def asic_read_def assms(4) chan_send_def Let_def)
qed

text \<open>
  Without that condition the map forgets a controller that still runs: when an ID is managed twice and one of the
  two controllers is removed, a packet for the ID is dropped, although the other controller is there.
\<close>

theorem shared_ID_is_lost:
  assumes "smRemoving sc = Some i" and "i < length (smLeaves sc)" and "j < length (smLeaves sc)" and "j \<noteq> i"
    and "lcID (fst (smLeaves sc ! i)) = hpDstID h" and "lcID (fst (smLeaves sc ! j)) = hpDstID h" and "parse msg = Some h"
  shows "smLeaves sc ! j \<in> set (smLeaves (mgr_remove i sc)) \<and>
    mgr_packet parse msg (mgr_remove i sc) = Ret (mgr_remove i sc)"
proof
  have "smLeaves sc = take i (smLeaves sc) @ smLeaves sc ! i # drop (Suc i) (smLeaves sc)"
    using id_take_nth_drop [OF assms(2)] .
  moreover have "smLeaves sc ! j \<in> set (take i (smLeaves sc)) \<union> set (drop (Suc i) (smLeaves sc))"
  proof (cases "j < i")
    case True
    with assms(2) have "take i (smLeaves sc) ! j = smLeaves sc ! j" "j < length (take i (smLeaves sc))" by simp_all
    then show ?thesis by (metis UnCI nth_mem)
  next
    case False
    with assms(3,4) have "drop (Suc i) (smLeaves sc) ! (j - Suc i) = smLeaves sc ! j"
      "j - Suc i < length (drop (Suc i) (smLeaves sc))" by simp_all
    then show ?thesis by (metis UnCI nth_mem)
  qed
  then show "smLeaves sc ! j \<in> set (smLeaves (mgr_remove i sc))" by (simp add: mgr_remove_def)
  show "mgr_packet parse msg (mgr_remove i sc) = Ret (mgr_remove i sc)"
    by (simp add: mgr_packet_def asic_read_def assms(5,7) mgr_remove_def RemoveLeafCtrl_def)
qed

text \<open>A manager of one leaf, with a fake control plane.\<close>

definition quiet_client :: "unit bfrt" where
  "quiet_client = \<lparr>bfInsert = \<lambda>_ c. (c, None), bfModify = \<lambda>_ c. (c, None), bfRead = \<lambda>_ _ _. None,
     bfReadReg = \<lambda>_ _ _. (0, None)\<rparr>"

definition one_leaf :: rootConfig where
  "one_leaf = \<lparr>rcDeviceID = 0, rcP4Name = [], rcBfrtAddress = [], rcRemoteSrvServer = [], rcMgmtAddress = [],
     rcSpines = [], rcLeaves = [\<lparr>lgID = 1, lgPipeID = 0\<rparr>], rcTimeout = 0, rcControlAPI = ''fake'',
     rcLogLevel = [], rcAsicIntf = ''i''\<rparr>"

definition one_leaf_mgr :: "(unit, unit) switchManager" where
  "one_leaf_mgr =
     (let l = fst (NewBareLeafController 1 0 one_leaf []) in
      \<lparr>smCfg = one_leaf, smAsic = NewAsicEndPoint [l] ([] :: (unit, unit) spineController list), smLeaves = [(l, None)],
       smSpines = [], smChans = [\<lparr>chBuf = [], chClosed = False\<rparr>, \<lparr>chBuf = [], chClosed = False\<rparr>], smRemoving = None\<rparr>)"

lemma one_leaf_started: "NewSwitchManager (\<lambda>_. quiet_client) one_leaf (\<lambda>_. Inr (None, None)) () = Ret (one_leaf_mgr, ())"
  by (simp add: NewSwitchManager_def new_leaves_def add_leaf_ctrl_def new_spines_def mgr_init_def one_leaf_def
      one_leaf_mgr_def manager_cp_def NewFakeManagerCP_def NewBareLeafController_def make_chan_def Let_def)

theorem packets_reach_their_leaf_witness:
  "mgr_packet (\<lambda>_. Some (zero_HorusPacket\<lparr>hpDstID := 1\<rparr>)) [7] one_leaf_mgr =
     Ret (one_leaf_mgr\<lparr>smChans := [\<lparr>chBuf = [], chClosed = False\<rparr>, \<lparr>chBuf = [[7]], chClosed = False\<rparr>]\<rparr>)"
proof -
  have dist: "distinct (map lgID (rcLeaves one_leaf))" by (simp add: one_leaf_def)
  have leaf: "length (smLeaves one_leaf_mgr) = 1" "lcID (fst (smLeaves one_leaf_mgr ! 0)) = 1"
    "lcAsicIngress (fst (smLeaves one_leaf_mgr ! 0)) = 1" "smRemoving one_leaf_mgr = None"
    "smChans one_leaf_mgr = [\<lparr>chBuf = [], chClosed = False\<rparr>, \<lparr>chBuf = [], chClosed = False\<rparr>]"
    by (simp_all add: one_leaf_mgr_def NewBareLeafController_def make_chan_def Let_def)
  from packets_reach_their_leaf [OF one_leaf_started dist rtranclp.rtrancl_refl,
      where msg = "[7]" and parse = "\<lambda>_. Some (zero_HorusPacket\<lparr>hpDstID := 1\<rparr>)", OF refl,
      THEN conjunct1, rule_format, of 0]
  show ?thesis by (simp add: leaf)
qed

end
