(* ===== verification/Node_Requests_Correct.thy ===== *)
theory Node_Requests_Correct
  imports Replica_Correct Central_Start_Correct
begin

text \<open>
  The requests to the spine and the leaf controllers. All controllers change their topology and clusters in the same
  few ways, \<open>shared_step\<close>; each of them keeps the joint invariant, so every controller does.
\<close>

section \<open>The changes that all controllers share\<close>

inductive shared_step :: "Topology \<times> VCManager \<Rightarrow> Topology \<times> VCManager \<Rightarrow> bool" where
  add_leaf: "AddLeafToSpine li t = Ret (t', res) \<Longrightarrow> shared_step (t, m) (t', m)"
| remove_leaf: "gm_load (tLeaves t) k = Some l \<Longrightarrow> DetachLeaf ord t k m = Ret (m', b) \<Longrightarrow>
    RemoveLeaf k t = Some (Ret (t', i, us)) \<Longrightarrow> is_order ord \<Longrightarrow> shared_step (t, m) (t', m')"
| add_server: "AddServerToLeaf si k t = Ret (t', res) \<Longrightarrow> shared_step (t, m) (t', m)"
| remove_server: "gm_load (tServers t) k = Some r \<Longrightarrow> DetachServer ord t k m = Ret (m', b) \<Longrightarrow>
    RemoveServer k t = Ret (t', b', us) \<Longrightarrow> is_order ord \<Longrightarrow> shared_step (t, m) (t', m')"
| add_vc: "register_vc ord vi t m = Ret (m', res) \<Longrightarrow> is_order ord \<Longrightarrow> shared_step (t, m) (t, m')"
| remove_vc: "GetVC c m = Some v \<Longrightarrow> is_order ord \<Longrightarrow> shared_step (t, m) (t, fst (RemoveVC ord t v m))"
| reindex: "gm_load (tLeaves t) k = Some l \<Longrightarrow> shared_step (t, m) (upd_node l (\<lambda>n. n\<lparr>nIndex := i\<rparr>) t, m)"

lemma sys_ok_reindex:
  assumes ok: "sys_ok t m" and l: "gm_load (tLeaves t) k = Some l"
  shows "sys_ok (upd_node l (\<lambda>n. n\<lparr>nIndex := i\<rparr>) t) m"
proof (rule sys_ok_same_tree [OF ok])
  have "valid_node t l" using wf_leaf [OF sys_okD(1) [OF ok] l] by (simp add: leaf_ok_def)
  then show "tree (node (upd_node l (\<lambda>n. n\<lparr>nIndex := i\<rparr>) t) q) = tree (node t q)" for q
    by (simp add: ns.get_upd tree_eq_iff)
qed simp_all

lemma shared_step_ok:
  assumes "shared_step s s'" and "sys_ok (fst s) (snd s)"
  shows "sys_ok (fst s') (snd s')"
  using assms
proof cases
  case (add_leaf li t t' res m)
  with sys_ok_AddLeaf [OF _ add_leaf(3)] assms(2) show ?thesis by auto
next
  case (remove_leaf t k l ord m m' b t' i us)
  with sys_ok_fail_leaf [OF _ remove_leaf(6,3-5)] assms(2) show ?thesis by auto
next
  case (add_server si k t t' res m)
  with sys_ok_AddServer [OF _ add_server(3)] assms(2) show ?thesis by auto
next
  case (remove_server t k r ord m m' b t' b' us)
  with sys_ok_fail_server [OF _ remove_server(6,3-5)] assms(2) show ?thesis by auto
next
  case (add_vc ord vi t m m' res)
  with register_vc_inv [OF _ add_vc(4,3)] assms(2) show ?thesis by auto
next
  case (remove_vc c m v ord t)
  with remove_vc_inv [OF _ remove_vc(4,3)] assms(2) show ?thesis by auto
next
  case (reindex t k l m i)
  with sys_ok_reindex [OF _ reindex(3)] assms(2) show ?thesis by auto
qed

interpretation sh: invariant "\<lambda>s. sys_ok (fst s) (snd s)" shared_step
  by unfold_locales (use shared_step_ok in blast)

section \<open>The requests of a spine and of a leaf controller\<close>

inductive spine_step :: "spineSrvServer \<Rightarrow> spineSrvServer \<Rightarrow> bool" where
  AddLeaf: "spine_AddLeaf li s = Ret (s', a) \<Longrightarrow> spine_step s s'"
| FailLeaf: "spine_FailLeaf ord li s = Some (Ret (s', a)) \<Longrightarrow> is_order ord \<Longrightarrow> spine_step s s'"
| AddServer: "spine_AddServer si s = Ret (s', a) \<Longrightarrow> spine_step s s'"
| FailServer: "spine_FailServer ord si s = Ret (s', a) \<Longrightarrow> is_order ord \<Longrightarrow> spine_step s s'"
| AddVC: "spine_AddVC ord vi s = Ret (s', a) \<Longrightarrow> is_order ord \<Longrightarrow> spine_step s s'"
| RemoveVC: "spine_RemoveVC ord vi s = (s', a) \<Longrightarrow> is_order ord \<Longrightarrow> spine_step s s'"

inductive leaf_srv_step :: "leafSrvServer \<Rightarrow> leafSrvServer \<Rightarrow> bool" where
  FailLeaf: "leaf_FailLeaf li s = Ret (s', a) \<Longrightarrow> leaf_srv_step s s'"
| AddServer: "leaf_AddServer si s = Ret (s', a) \<Longrightarrow> leaf_srv_step s s'"
| FailServer: "leaf_FailServer ord si s = Ret (s', a) \<Longrightarrow> is_order ord \<Longrightarrow> leaf_srv_step s s'"
| AddVC: "leaf_AddVC ord vi s = Ret (s', a) \<Longrightarrow> is_order ord \<Longrightarrow> leaf_srv_step s s'"
| RemoveVC: "leaf_RemoveVC ord vi s = (s', a) \<Longrightarrow> is_order ord \<Longrightarrow> leaf_srv_step s s'"

lemma spine_step_shared:
  assumes "spine_step s s'" and "sys_ok (spTopology s) (spVcm s)"
  shows "shared_step\<^sup>=\<^sup>= (spTopology s, spVcm s) (spTopology s', spVcm s')"
  using assms(1)
proof cases
  case (AddLeaf li a)
  then obtain t res where "AddLeafToSpine li (spTopology s) = Ret (t, res)" "spTopology s' = t" "spVcm s' = spVcm s"
    by (auto simp: spine_AddLeaf_def Let_def returned)
  then show ?thesis by (auto intro: shared_step.add_leaf)
next
  case (FailLeaf ord li a)
  then consider "s' = s" | l m' b t' i us where "gm_load (tLeaves (spTopology s)) (ucast (liId li)) = Some l"
      "DetachLeaf ord (spTopology s) (ucast (liId li)) (spVcm s) = Ret (m', b)"
      "RemoveLeaf (ucast (liId li)) (spTopology s) = Some (Ret (t', i, us))" "spTopology s' = t'" "spVcm s' = m'"
    by (auto simp: spine_FailLeaf_def Let_def returned split: option.splits go.splits if_splits)
  then show ?thesis by cases (auto intro: shared_step.remove_leaf [OF _ _ _ FailLeaf(2)])
next
  case (AddServer si a)
  then obtain t res where "AddServerToLeaf si (ucast (siLeafID si)) (spTopology s) = Ret (t, res)"
    "spTopology s' = t" "spVcm s' = spVcm s"
    by (auto simp: spine_AddServer_def Let_def returned)
  then show ?thesis by (auto intro: shared_step.add_server)
next
  case (FailServer ord si a)
  then consider "s' = s" | r m' b t' b' us where "gm_load (tServers (spTopology s)) (ucast (siId si)) = Some r"
      "DetachServer ord (spTopology s) (ucast (siId si)) (spVcm s) = Ret (m', b)"
      "RemoveServer (ucast (siId si)) (spTopology s) = Ret (t', b', us)" "spTopology s' = t'" "spVcm s' = m'"
    by (auto simp: spine_FailServer_def Let_def returned)
  then show ?thesis by cases (auto intro: shared_step.remove_server [OF _ _ _ FailServer(2)])
next
  case (AddVC ord vi a)
  then obtain m res where "register_vc ord vi (spTopology s) (spVcm s) = Ret (m, res)"
    "spTopology s' = spTopology s" "spVcm s' = m" by (auto simp: spine_AddVC_def Let_def returned)
  then show ?thesis using AddVC(2) by (auto intro: shared_step.add_vc)
next
  case (RemoveVC ord vi a)
  then consider "s' = s" | v where "GetVC (ucast (viId vi)) (spVcm s) = Some v" "spTopology s' = spTopology s"
      "spVcm s' = fst (RemoveVC ord (spTopology s) v (spVcm s))"
    by (auto simp: spine_RemoveVC_def Let_def split: option.splits)
  then show ?thesis using RemoveVC(2) by cases (auto intro: shared_step.remove_vc)
qed

lemma leaf_srv_step_shared:
  assumes "leaf_srv_step s s'" and "sys_ok (leTopology s) (leVcm s)"
  shows "shared_step\<^sup>=\<^sup>= (leTopology s, leVcm s) (leTopology s', leVcm s')"
  using assms(1)
proof cases
  case (FailLeaf li a)
  then show ?thesis by (auto simp: leaf_FailLeaf_def returned split: option.splits intro: shared_step.reindex)
next
  case (AddServer si a)
  then obtain t res where "AddServerToLeaf si (ucast (siLeafID si)) (leTopology s) = Ret (t, res)"
    "leTopology s' = t" "leVcm s' = leVcm s"
    by (auto simp: leaf_AddServer_def Let_def returned)
  then show ?thesis by (auto intro: shared_step.add_server)
next
  case (FailServer ord si a)
  then consider "s' = s" | r m' b t' b' us where "gm_load (tServers (leTopology s)) (ucast (siId si)) = Some r"
      "DetachServer ord (leTopology s) (nID (node (leTopology s) r)) (leVcm s) = Ret (m', b)"
      "RemoveServer (nID (node (leTopology s) r)) (leTopology s) = Ret (t', b', us)" "leTopology s' = t'" "leVcm s' = m'"
    by (auto simp: leaf_FailServer_def Let_def returned split: if_splits)
  then show ?thesis
  proof cases
    case a: 2
    have "nID (node (leTopology s) r) = ucast (siId si)" by (rule wf_server_id [OF sys_okD(1) [OF assms(2)] a(1)])
    with a show ?thesis by (auto intro: shared_step.remove_server [OF _ _ _ FailServer(2)])
  qed simp
next
  case (AddVC ord vi a)
  then obtain m res where "register_vc ord vi (leTopology s) (leVcm s) = Ret (m, res)"
    "leTopology s' = leTopology s" "leVcm s' = m" by (auto simp: leaf_AddVC_def Let_def returned)
  then show ?thesis using AddVC(2) by (auto intro: shared_step.add_vc)
next
  case (RemoveVC ord vi a)
  then consider "s' = s" | v where "GetVC (ucast (viId vi)) (leVcm s) = Some v" "leTopology s' = leTopology s"
      "leVcm s' = fst (RemoveVC ord (leTopology s) v (leVcm s))"
    by (auto simp: leaf_RemoveVC_def Let_def split: option.splits)
  then show ?thesis using RemoveVC(2) by cases (auto intro: shared_step.remove_vc)
qed

interpretation spi: invariant "\<lambda>s. sys_ok (spTopology s) (spVcm s)" spine_step
  by unfold_locales (use spine_step_shared shared_step_ok in fastforce)

interpretation lfi: invariant "\<lambda>s. sys_ok (leTopology s) (leVcm s)" leaf_srv_step
  by unfold_locales (use leaf_srv_step_shared shared_step_ok in fastforce)

section \<open>No request is stuck\<close>

lemma spine_FailLeaf_total:
  assumes ok: "sys_ok (spTopology s) (spVcm s)" and ord: "is_order ord"
  shows "\<exists>r. spine_FailLeaf ord li s = Some (Ret r)"
proof (cases "gm_load (tLeaves (spTopology s)) (ucast (liId li))")
  case (Some l)
  from FailLeaf_run [OF ok ord Some] obtain m' t' i us where
    "DetachLeaf ord (spTopology s) (ucast (liId li)) (spVcm s) = Ret (m', True)"
    "RemoveLeaf (ucast (liId li)) (spTopology s) = Some (Ret (t', i, us))" by blast
  with Some show ?thesis by (simp add: spine_FailLeaf_def Let_def)
qed (simp add: spine_FailLeaf_def Let_def)

lemma spine_AddVC_total: "\<exists>r. spine_AddVC ord vi s = Ret r"
proof -
  obtain m res where "register_vc ord vi (spTopology s) (spVcm s) = Ret (m, res)"
    using register_vc_total [of ord vi "spTopology s" "spVcm s"] by auto
  then show ?thesis by (cases res) (simp_all add: spine_AddVC_def Let_def)
qed

lemma leaf_AddVC_total: "\<exists>r. leaf_AddVC ord vi s = Ret r"
proof -
  obtain m res where "register_vc ord vi (leTopology s) (leVcm s) = Ret (m, res)"
    using register_vc_total [of ord vi "leTopology s" "leVcm s"] by auto
  then show ?thesis by (cases res) (simp_all add: leaf_AddVC_def Let_def)
qed

text \<open>
  C13: No sequence of requests to a spine or a leaf controller, whatever IDs they name, makes its topology, its clusters
  and their indices inconsistent, and after any sequence the next failure of a leaf or of a server and the next new
  cluster are handled without a crash or an endless loop.
\<close>

theorem node_requests_keep_invariant:
  assumes "spine_step\<^sup>*\<^sup>* s s'" and "sys_ok (spTopology s) (spVcm s)"
    and "leaf_srv_step\<^sup>*\<^sup>* l l'" and "sys_ok (leTopology l) (leVcm l)" and "is_order ord"
  shows "sys_ok (spTopology s') (spVcm s') \<and> (\<exists>r. spine_FailLeaf ord li s' = Some (Ret r)) \<and>
    (\<exists>r. spine_FailServer ord si s' = Ret r) \<and> (\<exists>r. spine_AddVC ord vi s' = Ret r) \<and>
    sys_ok (leTopology l') (leVcm l') \<and> (\<exists>r. leaf_FailLeaf li l' = Ret r) \<and>
    (\<exists>r. leaf_FailServer ord si l' = Ret r) \<and> (\<exists>r. leaf_AddVC ord vi l' = Ret r)"
proof -
  have sp: "sys_ok (spTopology s') (spVcm s')" by (rule spi.reachable [OF assms(1,2)])
  have lf: "sys_ok (leTopology l') (leVcm l')" by (rule lfi.reachable [OF assms(3,4)])
  have "\<exists>r. leaf_FailLeaf li l' = Ret r" by (simp add: leaf_FailLeaf_def split: option.split)
  with sp lf spine_FailLeaf_total [OF sp assms(5)] spine_FailServer_topo [OF sp assms(5)] spine_AddVC_total
    leaf_AddVC_total leaf_FailServer_topo [OF lf assms(5)] show ?thesis by blast
qed

theorem node_requests_keep_invariant_witness:
  "\<exists>s'. spine_step\<^sup>*\<^sup>* sample_spine s' \<and> gm_load (tServers (spTopology s')) 0 = None \<and> sys_ok (spTopology s') (spVcm s') \<and>
     (\<exists>r. spine_FailLeaf stored_order (fail_leaf_info 0) s' = Some (Ret r))"
proof -
  have ok: "sys_ok (spTopology sample_spine) (spVcm sample_spine)" by (simp add: sample_sys_ok)
  from spine_FailServer_topo [OF ok is_order_stored, of "fail_info 0"] obtain s' a b us where
    s': "spine_FailServer stored_order (fail_info 0) sample_spine = Ret (s', a)"
    "RemoveServer (ucast (siId (fail_info 0))) sample = Ret (spTopology s', b, us)" by auto
  then have step: "spine_step\<^sup>*\<^sup>* sample_spine s'" using is_order_stored by (blast intro: r_into_rtranclp spine_step.FailServer)
  have "gm_load (tServers (spTopology s')) 0 = None"
    using RemoveServer_removed [OF sample_wf sample_nodes(1), of 2 "[]" "[4]"] s'(2)
    by (auto simp: fail_info_fields server_removed_def sample_nodes)
  moreover have leaf: "sys_ok (leTopology (NewLeafSrvServer sample sample_vcm)) (leVcm (NewLeafSrvServer sample sample_vcm))"
    by (simp add: NewLeafSrvServer_def sample_sys_ok)
  ultimately show ?thesis
    using node_requests_keep_invariant [OF step ok rtranclp.rtrancl_refl leaf is_order_stored, of "fail_leaf_info 0"
        "fail_info 0" sample_vcinfo] step by blast
qed

end
