(* ===== verification/Spine_System.thy ===== *)
theory Spine_System
  imports Spine_Maps_Correct Node_Requests_Correct Rpc_Correct
begin

text \<open>
  A running spine controller: its gRPC server, the end point that passes the messages of the server on, and its event
  bus with the version 1 control plane, with the channels between them. Requests arrive and messages are taken in any
  order; the handling of one message is one step. The topology is shared, so the bus finds it as it is when it handles
  a message and not as it was when the message was sent.
\<close>

section \<open>What the requests change\<close>

lemma server_added_leaves:
  assumes wf: "wf_topo s" and eff: "server_added s s' si lid l q w r" and p: "gm_load (tSpines s) k = Some p"
  shows "spine_leaves s' p = spine_leaves s p"
proof -
  note e = eff [unfolded server_added_def]
  have l: "nType (node s l) = NodeType_Leaf" using e wf_leaf [OF wf] by (auto simp: leaf_ok_def)
  have sp: "nType (node s p) = NodeType_Spine" "valid_node s p" using wf_spine [OF wf p] by (simp_all add: spine_ok_def)
  with l e have "node s' p = node s p" by (metis NodeType.distinct)
  moreover have "nID (node s' c) = nID (node s c) \<and> nIndex (node s' c) = nIndex (node s c)"
    if "c \<in> set (nChildren (node s p))" for c
    using e wf_leaf_child(3) [OF wf p that] by (cases "c = l") auto
  ultimately show ?thesis by (simp add: spine_leaves_def)
qed

lemma server_removed_leaves:
  assumes wf: "wf_topo s" and eff: "server_removed s s' j r l ys zs" and p: "gm_load (tSpines s) k = Some p"
  shows "spine_leaves s' p = spine_leaves s p"
proof -
  note e = eff [unfolded server_removed_def]
  from e have "gm_load (tLeaves s) (nID (node s l)) = Some l" using wf_parent [OF wf] by (metis option.inject)
  then have l: "nType (node s l) = NodeType_Leaf" using wf_leaf [OF wf] by (auto simp: leaf_ok_def)
  have sp: "nType (node s p) = NodeType_Spine" using wf_spine [OF wf p] by (simp add: spine_ok_def)
  have fields: "nID (node s' q) = nID (node s q) \<and> nIndex (node s' q) = nIndex (node s q) \<and>
      (q \<noteq> l \<longrightarrow> nChildren (node s' q) = nChildren (node s q))" for q
  proof (cases "q \<in> set (ys @ zs) \<and> q \<noteq> l")
    case True
    with e obtain a b where "node s' q = (node s q)\<lparr>nFirstWorkerID := a, nLastWorkerID := b\<rparr>" by blast
    then show ?thesis by simp
  next
    case False
    with e show ?thesis by (cases "q = l") auto
  qed
  moreover have "p \<noteq> l" using l sp by auto
  ultimately show ?thesis by (simp add: spine_leaves_def)
qed

definition queued :: "spineSrvServer \<Rightarrow> bool" where
  "queued s \<longleftrightarrow> spFailedLeavesToRPC s \<noteq> [] \<or> spNewLeavesToRPC s \<noteq> []"

text \<open>A request that moves a leaf leaves a message behind.\<close>

definition request_effect :: "spineSrvServer \<Rightarrow> spineSrvServer \<Rightarrow> bool" where
  "request_effect s s' \<longleftrightarrow> indices_ok (spTopology s') \<and> tSpines (spTopology s') = tSpines (spTopology s) \<and>
     (queued s' \<or> \<not> queued s \<and>
       (\<forall>k p. gm_load (tSpines (spTopology s)) k = Some p \<longrightarrow> spine_leaves (spTopology s') p = spine_leaves (spTopology s) p))"

lemma request_effect_same:
  "indices_ok (spTopology s) \<Longrightarrow> spTopology s' = spTopology s \<Longrightarrow> queued s' = queued s \<Longrightarrow> request_effect s s'"
  by (simp add: request_effect_def)

lemma AddLeaf_effect:
  assumes run: "spine_AddLeaf li s = Ret (s', a)" and wf: "wf_topo (spTopology s)" and ix: "indices_ok (spTopology s)"
  shows "request_effect s s'"
proof -
  from run obtain t' res where t': "AddLeafToSpine li (spTopology s) = Ret (t', res)" "spTopology s' = t'"
    by (auto simp: spine_AddLeaf_def Let_def returned)
  show ?thesis
  proof (cases res)
    case (Inl e)
    with t' AddLeafToSpine_error have "s' = s\<lparr>spTopology := t'\<rparr>" "t' = spTopology s"
      using run by (auto simp: spine_AddLeaf_def Let_def)
    with ix show ?thesis by (intro request_effect_same) simp_all
  next
    case (Inr l)
    with t' AddLeafToSpine_effect [OF wf] obtain sp ds us where eff: "leaf_added (spTopology s) t' li sp ds us l" by blast
    then have par: "nParent (node t' l) = Some sp" by (simp add: leaf_added_def)
    have "s' = s\<lparr>spTopology := t', spNewLeavesToRPC := spNewLeavesToRPC s @
        [NewLeafAddedMessage (li\<lparr>liIndex := ucast (nIndex (node t' l))\<rparr>) (Some l)]\<rparr>"
      using run t'(1) Inr par by (simp add: spine_AddLeaf_def Let_def)
    then have "queued s'" by (simp add: queued_def)
    moreover have "indices_ok t'" by (rule leaf_added_indices [OF wf ix eff])
    moreover have "tSpines t' = tSpines (spTopology s)" using leaf_added_maps [OF eff] by simp
    ultimately show ?thesis by (simp add: request_effect_def t'(2))
  qed
qed

lemma FailLeaf_effect:
  assumes run: "spine_FailLeaf ord li s = Some (Ret (s', a))" and ord: "is_order ord"
    and ok: "sys_ok (spTopology s) (spVcm s)" and ix: "indices_ok (spTopology s)"
  shows "request_effect s s'"
proof (cases "gm_load (tLeaves (spTopology s)) (ucast (liId li))")
  case None
  with run have "s' = s" by (simp add: spine_FailLeaf_def Let_def)
  with ix show ?thesis by (intro request_effect_same) simp_all
next
  case (Some l)
  note wf = sys_okD(1) [OF ok]
  from wf_leaf_parent [OF wf Some] obtain p where p: "nParent (node (spTopology s) l) = Some p"
    "l \<in> set (nChildren (node (spTopology s) p))" .
  then obtain ys zs where "nChildren (node (spTopology s) p) = ys @ l # zs" by (meson split_list)
  from spine_FailLeaf_run [OF ok ord Some p(1) this] run have "queued s'" by (auto simp: queued_def)
  moreover from run Some obtain t' i us where t': "RemoveLeaf (ucast (liId li)) (spTopology s) = Some (Ret (t', i, us))"
    "spTopology s' = t'" by (auto simp: spine_FailLeaf_def Let_def returned split: option.splits go.splits if_splits)
  moreover have "indices_ok t'" using topo_step_inv [OF topo_step.remove_leaf [OF t'(1)] wf ix] by simp
  moreover have "tSpines t' = tSpines (spTopology s)"
    using wf
  proof (cases rule: RemoveLeaf_cases [where k = "ucast (liId li)"])
    case (removed l' p' ys' zs' u)
    with leaf_removed_maps [OF removed(1)] t'(1) show ?thesis by simp
  qed (use t'(1) in simp)
  ultimately show ?thesis by (simp add: request_effect_def)
qed

lemma AddServer_effect:
  assumes run: "spine_AddServer si s = Ret (s', a)" and wf: "wf_topo (spTopology s)" and ix: "indices_ok (spTopology s)"
  shows "request_effect s s'"
proof -
  from run obtain t' res where t': "AddServerToLeaf si (ucast (siLeafID si)) (spTopology s) = Ret (t', res)"
    "spTopology s' = t'" and q: "queued s' = queued s"
    by (auto simp: spine_AddServer_def Let_def returned queued_def)
  show ?thesis
  proof (cases res)
    case (Inl e)
    with t' AddServerToLeaf_error have "t' = spTopology s" by blast
    with ix q t'(2) show ?thesis by (intro request_effect_same) simp_all
  next
    case (Inr r)
    with t' AddServerToLeaf_effect [OF wf] obtain l p w
      where eff: "server_added (spTopology s) t' si (ucast (siLeafID si)) l p w r" by blast
    have "indices_ok t'" by (rule server_added_indices [OF wf ix eff])
    moreover have "tSpines t' = tSpines (spTopology s)" using server_added_maps [OF eff] by simp
    ultimately show ?thesis using server_added_leaves [OF wf eff] q by (auto simp: request_effect_def t'(2))
  qed
qed

lemma FailServer_effect:
  assumes run: "spine_FailServer ord si s = Ret (s', a)" and wf: "wf_topo (spTopology s)" and ix: "indices_ok (spTopology s)"
  shows "request_effect s s'"
proof -
  from run consider "s' = s" | t' b us where "RemoveServer (ucast (siId si)) (spTopology s) = Ret (t', b, us)"
      "spTopology s' = t'" "queued s' = queued s"
    by (auto simp: spine_FailServer_def Let_def returned queued_def split: if_splits)
  then show ?thesis
  proof cases
    case 1
    with ix show ?thesis by (intro request_effect_same) simp_all
  next
    case 2
    show ?thesis
      using wf
    proof (cases rule: RemoveServer_cases [where k = "ucast (siId si)"])
      case unknown
      with 2 ix show ?thesis by (intro request_effect_same) simp_all
    next
      case (removed r l ys zs u)
      with 2 have u: "spTopology s' = u" by simp
      have "indices_ok u" by (rule server_removed_indices [OF wf ix removed(1)])
      moreover have "tSpines u = tSpines (spTopology s)" using server_removed_maps [OF removed(1)] by simp
      ultimately show ?thesis using server_removed_leaves [OF wf removed(1)] 2(3) by (auto simp: request_effect_def u)
    qed
  qed
qed

lemma spine_step_effect:
  assumes step: "spine_step s s'" and ok: "sys_ok (spTopology s) (spVcm s)" and ix: "indices_ok (spTopology s)"
  shows "request_effect s s'"
  using step
proof cases
  case (AddLeaf li a)
  then show ?thesis by (rule AddLeaf_effect [OF _ sys_okD(1) [OF ok] ix])
next
  case (FailLeaf ord li a)
  then show ?thesis by (rule FailLeaf_effect [OF _ _ ok ix])
next
  case (AddServer si a)
  then show ?thesis by (rule AddServer_effect [OF _ sys_okD(1) [OF ok] ix])
next
  case (FailServer ord si a)
  from FailServer(1) show ?thesis by (rule FailServer_effect [OF _ sys_okD(1) [OF ok] ix])
next
  case (AddVC ord vi a)
  then have "spTopology s' = spTopology s" "queued s' = queued s"
    by (auto simp: spine_AddVC_def Let_def returned queued_def split: sum.splits)
  with ix show ?thesis by (rule request_effect_same)
next
  case (RemoveVC ord vi a)
  then have "spTopology s' = spTopology s" "queued s' = queued s"
    by (auto simp: spine_RemoveVC_def Let_def queued_def split: option.splits)
  with ix show ?thesis by (rule request_effect_same)
qed

section \<open>The end point and the bus\<close>

text \<open>What the end point takes from the channels of the server.\<close>

inductive takes :: "spineSrvServer \<Rightarrow> spine_event \<Rightarrow> spineSrvServer \<Rightarrow> bool" where
  "spUpdatedLeavesToRPC s = m # ms \<Longrightarrow> takes s (SEvUpdatedLeaves m) (s\<lparr>spUpdatedLeavesToRPC := ms\<rparr>)"
| "spFailedLeavesToRPC s = m # ms \<Longrightarrow> takes s (SEvFailedLeaf m) (s\<lparr>spFailedLeavesToRPC := ms\<rparr>)"
| "spFailedServersToRPC s = m # ms \<Longrightarrow> takes s (SEvFailedServer m) (s\<lparr>spFailedServersToRPC := ms\<rparr>)"
| "spNewLeavesToRPC s = m # ms \<Longrightarrow> takes s (SEvNewLeaf m) (s\<lparr>spNewLeavesToRPC := ms\<rparr>)"
| "spNewServers s = m # ms \<Longrightarrow> takes s (SEvNewServer m) (s\<lparr>spNewServers := ms\<rparr>)"
| "spNewVCs s = m # ms \<Longrightarrow> takes s (SEvNewVC m) (s\<lparr>spNewVCs := ms\<rparr>)"

text \<open>
  What the bus handles from the channels that the end point feeds. Every message gets a goroutine of its own, so any
  of the messages may be the one that is handled now.
\<close>

inductive handles :: "'p SpineRpcEndpoint \<Rightarrow> spine_bus_event \<Rightarrow> 'p SpineRpcEndpoint \<Rightarrow> bool" where
  "srFailedLeavesEgExt e = ms @ m # ms' \<Longrightarrow> handles e (SBFailedLeaf m) (e\<lparr>srFailedLeavesEgExt := ms @ ms'\<rparr>)"
| "srFailedServersEgExt e = ms @ m # ms' \<Longrightarrow> handles e (SBFailedServer m) (e\<lparr>srFailedServersEgExt := ms @ ms'\<rparr>)"
| "srNewLeavesEgExt e = ms @ m # ms' \<Longrightarrow> handles e (SBNewLeaf m) (e\<lparr>srNewLeavesEgExt := ms @ ms'\<rparr>)"
| "srNewServersEgExt e = ms @ m # ms' \<Longrightarrow> handles e (SBNewServer m) (e\<lparr>srNewServersEgExt := ms @ ms'\<rparr>)"
| "srNewVCsEgExt e = ms @ m # ms' \<Longrightarrow> handles e (SBNewVC m) (e\<lparr>srNewVCsEgExt := ms @ ms'\<rparr>)"
| "handles e (SBIdle due) e"

record ('p, 'c) spine_system =
  syServer :: spineSrvServer
  syEndPoint :: "'p SpineRpcEndpoint"
  syBus :: "'c SpineBus"

inductive system_step :: "'p grpc \<Rightarrow> ('p, 'c) spine_system \<Rightarrow> ('p, 'c) spine_system \<Rightarrow> bool" for g where
  request: "spine_step (syServer y) s \<Longrightarrow>
    system_step g y (y\<lparr>syServer := s, syEndPoint := (syEndPoint y)\<lparr>srTopology := spTopology s\<rparr>\<rparr>)"
| end_point: "takes (syServer y) ev s \<Longrightarrow> spine_processEvent g ord ev (syEndPoint y) = Ret e \<Longrightarrow>
    system_step g y (y\<lparr>syServer := s, syEndPoint := e\<rparr>)"
| bus: "handles (syEndPoint y) ev e \<Longrightarrow> spineBus_step (Some (spTopology (syServer y))) ev (syBus y) = Ret b \<Longrightarrow>
    system_step g y (y\<lparr>syEndPoint := e, syBus := b\<rparr>)"

text \<open>No change of the leaves is under way.\<close>

definition quiet :: "('p, 'c) spine_system \<Rightarrow> bool" where
  "quiet y \<longleftrightarrow> \<not> queued (syServer y) \<and> srFailedLeavesEgExt (syEndPoint y) = [] \<and> srNewLeavesEgExt (syEndPoint y) = [] \<and>
     (\<forall>k. pending (syBus y) k = 0)"

text \<open>The end point passes every message about a leaf on, and keeps those that it has.\<close>

definition passed_failed :: "spine_event \<Rightarrow> LeafFailedMessage list" where
  "passed_failed ev = (case ev of SEvFailedLeaf m \<Rightarrow> [NewLeafFailedMessage (lfLeaf m) None] | _ \<Rightarrow> [])"

definition passed_new :: "spine_event \<Rightarrow> LeafAddedMessage list" where
  "passed_new ev = (case ev of SEvNewLeaf m \<Rightarrow> [NewLeafAddedMessage (laLeaf m) (laDst m)] | _ \<Rightarrow> [])"

definition leaf_chans :: "'p SpineRpcEndpoint \<Rightarrow> LeafFailedMessage list \<times> LeafAddedMessage list" where
  "leaf_chans e = (srFailedLeavesEgExt e, srNewLeavesEgExt e)"

lemma call_chans [simp]:
  "leaf_chans (fst (call_leaf g a err c e)) = leaf_chans e" "leaf_chans (fst (call_mgr g a c e)) = leaf_chans e"
  by (simp_all add: leaf_chans_def call_leaf_def call_mgr_def split: option.split prod.split)

lemma call_chansD:
  "call_leaf g a err c e = (e', r) \<Longrightarrow> leaf_chans e' = leaf_chans e" "call_mgr g a c e = (e', r) \<Longrightarrow> leaf_chans e' = leaf_chans e"
  using call_chans(1) [of g a err c e] call_chans(2) [of g a c e] by simp_all

lemma sends_chans [simp]:
  "leaf_chans (fst (sendLeafUpdate g ul e)) = leaf_chans e" "leaf_chans (fst (sendLeafAdded g nl e)) = leaf_chans e"
  "leaf_chans (fst (sendServerAdded g ns e)) = leaf_chans e" "leaf_chans (fst (sendAddVCToLeaf g vi ty l e)) = leaf_chans e"
  by (simp_all add: leaf_chans_def [of "fst (x, y)" for x y] sendLeafUpdate_def sendLeafAdded_def sendServerAdded_def
      sendAddVCToLeaf_def Let_def split: option.split)

lemma sendLeafFailed_chans: "sendLeafFailed g m e = Ret (e', err) \<Longrightarrow> leaf_chans e' = leaf_chans e"
  by (auto simp: sendLeafFailed_def first_dst_def dest: call_chansD split: option.splits list.splits)

lemma sendServerFailed_chans: "sendServerFailed g m e = Ret (e', err) \<Longrightarrow> leaf_chans e' = leaf_chans e"
  by (auto simp: sendServerFailed_def first_dst_def dest: call_chansD split: option.splits list.splits)

lemma createLeafConnPool_chans [simp]: "leaf_chans (createLeafConnPool g ord e) = leaf_chans e"
proof -
  let ?f = "\<lambda>(_ :: u16, leaf) s. let addr = nAddress (node (srTopology s) leaf) in
       if gm_load (srLeafConnPool s) addr = None
       then s\<lparr>srLeafConnPool := gm_store addr (grNew g addr) (srLeafConnPool s)\<rparr> else s"
  have "leaf_chans (fold ?f xs e) = leaf_chans e" for xs
    by (induction xs arbitrary: e) (auto simp: Let_def leaf_chans_def)
  then show ?thesis by (simp add: createLeafConnPool_def)
qed

lemma until_error_chans: "(\<And>x e. leaf_chans (fst (f x e)) = leaf_chans e) \<Longrightarrow> leaf_chans (fst (until_error f xs e)) = leaf_chans e"
proof (induction xs arbitrary: e)
  case (Cons x xs)
  show ?case
  proof (cases "f x e")
    case (Pair e1 err)
    with Cons.prems [of x e] have "leaf_chans e1 = leaf_chans e" by simp
    with Pair Cons show ?thesis by (cases err) simp_all
  qed
qed simp

lemma broadcast_chans [simp]: "leaf_chans (fst (broadcastAddVCToLeaves g m e)) = leaf_chans e"
  by (simp add: broadcastAddVCToLeaves_def until_error_chans)

lemma processEvent_chans:
  assumes "spine_processEvent g ord ev e = Ret e'"
  shows "leaf_chans e' = (srFailedLeavesEgExt e @ passed_failed ev, srNewLeavesEgExt e @ passed_new ev)"
proof (cases ev)
  case (SEvUpdatedLeaves m)
  have "leaf_chans (fold (\<lambda>ul s. fst (sendLeafUpdate g (Some ul) s)) ds e) = leaf_chans e" for ds
    by (induction ds arbitrary: e) simp_all
  with assms SEvUpdatedLeaves show ?thesis
    by (auto simp: spine_processEvent_def passed_failed_def passed_new_def leaf_chans_def)
next
  case (SEvFailedLeaf m)
  with assms obtain e1 err where 1: "sendLeafFailed g m e = Ret (e1, err)"
    "e' = e1\<lparr>srFailedLeavesEgExt := srFailedLeavesEgExt e1 @ [NewLeafFailedMessage (lfLeaf m) None]\<rparr>"
    by (auto simp: spine_processEvent_def)
  with sendLeafFailed_chans [OF 1(1)] show ?thesis by (simp add: SEvFailedLeaf passed_failed_def passed_new_def leaf_chans_def)
next
  case (SEvFailedServer m)
  with assms obtain e1 err where 1: "sendServerFailed g m e = Ret (e1, err)"
    "e' = e1\<lparr>srFailedServersEgExt := srFailedServersEgExt e1 @ [NewServerFailedMessage (sfServer m) None]\<rparr>"
    by (auto simp: spine_processEvent_def)
  with sendServerFailed_chans [OF 1(1)] show ?thesis by (simp add: SEvFailedServer passed_failed_def passed_new_def leaf_chans_def)
next
  case (SEvNewLeaf m)
  have "leaf_chans (fst (sendLeafAdded g m (createLeafConnPool g ord e))) = leaf_chans e" by simp
  with assms SEvNewLeaf show ?thesis
    by (auto simp: spine_processEvent_def passed_failed_def passed_new_def leaf_chans_def Let_def)
next
  case (SEvNewServer m)
  have "leaf_chans (fst (sendServerAdded g m e)) = leaf_chans e" by simp
  with assms SEvNewServer show ?thesis
    by (auto simp: spine_processEvent_def passed_failed_def passed_new_def leaf_chans_def Let_def)
next
  case (SEvNewVC m)
  have "leaf_chans (fst (broadcastAddVCToLeaves g m e)) = leaf_chans e" by simp
  with assms SEvNewVC show ?thesis
    by (auto simp: spine_processEvent_def passed_failed_def passed_new_def leaf_chans_def Let_def)
qed

section \<open>The switch catches up\<close>

definition system_ok :: "'c bfrt \<Rightarrow> 'c switch_view \<Rightarrow> nref \<Rightarrow> ('p, 'c) spine_system \<Rightarrow> bool" where
  "system_ok cl vw p y \<longleftrightarrow>
     sys_ok (spTopology (syServer y)) (spVcm (syServer y)) \<and> indices_ok (spTopology (syServer y)) \<and>
     (\<exists>k. gm_load (tSpines (spTopology (syServer y))) k = Some p) \<and>
     sbCp (syBus y) = SpineCP_of_V1 cl (NewBfrtSpineCP_V1 (Some p)) \<and>
     (quiet y \<longrightarrow> spine_maps vw (sbClient (syBus y)) (spine_leaves (spTopology (syServer y)) p))"

lemma system_ok_request:
  assumes ok: "system_ok cl vw p y" and step: "spine_step (syServer y) s"
  shows "system_ok cl vw p (y\<lparr>syServer := s, syEndPoint := (syEndPoint y)\<lparr>srTopology := spTopology s\<rparr>\<rparr>)"
proof -
  let ?t = "spTopology (syServer y)"
  note o = ok [unfolded system_ok_def]
  from o obtain k where k: "gm_load (tSpines ?t) k = Some p" by blast
  have "sys_ok (spTopology s) (spVcm s)" using spi.inv_step [OF _ step] o by blast
  moreover have eff: "request_effect (syServer y) s" using spine_step_effect [OF step] o by blast
  moreover have "gm_load (tSpines (spTopology s)) k = Some p" using eff k by (simp add: request_effect_def)
  moreover have "spine_maps vw (sbClient (syBus y)) (spine_leaves (spTopology s) p)"
    if "quiet (y\<lparr>syServer := s, syEndPoint := (syEndPoint y)\<lparr>srTopology := spTopology s\<rparr>\<rparr>)"
  proof -
    from that have "\<not> queued s" by (simp add: quiet_def)
    with eff have "\<not> queued (syServer y)" "spine_leaves (spTopology s) p = spine_leaves ?t p"
      using k by (auto simp: request_effect_def)
    with that o show ?thesis by (simp add: quiet_def)
  qed
  ultimately show ?thesis using o by (auto simp: system_ok_def request_effect_def)
qed

lemma takes_effect:
  assumes "takes s ev s'"
  shows "spTopology s' = spTopology s" "spVcm s' = spVcm s"
    "queued s \<Longrightarrow> \<not> queued s' \<Longrightarrow> passed_failed ev \<noteq> [] \<or> passed_new ev \<noteq> []"
  using assms by (induction) (auto simp: queued_def passed_failed_def passed_new_def)

lemma system_ok_end_point:
  assumes ok: "system_ok cl vw p y" and take: "takes (syServer y) ev s"
    and run: "spine_processEvent g ord ev (syEndPoint y) = Ret e"
  shows "system_ok cl vw p (y\<lparr>syServer := s, syEndPoint := e\<rparr>)"
proof -
  have "quiet y" if "quiet (y\<lparr>syServer := s, syEndPoint := e\<rparr>)"
    using that takes_effect(3) [OF take] processEvent_chans [OF run] by (auto simp: quiet_def leaf_chans_def)
  with ok takes_effect(1,2) [OF take] show ?thesis by (simp add: system_ok_def)
qed

text \<open>The four outcomes of a message at the bus.\<close>

lemma bus_step_outcome:
  assumes cp: "sbCp b = SpineCP_of_V1 cl (NewBfrtSpineCP_V1 (Some p))" and bf: "bfrt_ok cl vw"
    and wf: "wf_topo t" and p: "gm_load (tSpines t) k = Some p" and ix: "indices_ok t"
    and run: "spineBus_step (Some t) ev b = Ret b'"
  shows "sbCp b' = sbCp b" and "spine_maps vw (sbClient b') (spine_leaves t p) \<or>
    (\<exists>k. pending b' k \<noteq> 0) \<or> b' = b \<and> (\<forall>m. ev \<noteq> SBFailedLeaf m) \<and> (\<forall>m. ev \<noteq> SBNewLeaf m)"
    and "svTable vw (sbClient b) tb ks \<noteq> None \<Longrightarrow> svTable vw (sbClient b') tb ks \<noteq> None"
proof -
  let ?kept = "\<lambda>b1. \<forall>tb ks. svTable vw (sbClient b) tb ks \<noteq> None \<longrightarrow> svTable vw (sbClient b1) tb ks \<noteq> None"
  have change: "sbCp b1 = sbCp b \<and> spine_maps vw (sbClient b1) (spine_leaves t p) \<and> ?kept b1"
    if "leaf_change t leafID i added b = Ret b1" for leafID i added b1
  proof -
    have sel: "scpSpine (NewBfrtSpineCP_V1 (Some p)) = Some p" by (simp add: NewBfrtSpineCP_V1_def)
    from that obtain c' where c': "SpineCP_V1_OnLeafChange cl t (NewBfrtSpineCP_V1 (Some p)) leafID i added (sbClient b) = Ret c'"
      "b1 = b\<lparr>sbClient := c'\<rparr>"
      by (auto simp: leaf_change_def cp SpineCP_of_V1_def)
    with leaf_change_effect [OF bf wf p ix sel c'(1)] show ?thesis by simp
  qed
  have goal: "sbCp b' = sbCp b \<and> ?kept b' \<and> (spine_maps vw (sbClient b') (spine_leaves t p) \<or>
    (\<exists>k. pending b' k \<noteq> 0) \<or> b' = b \<and> (\<forall>m. ev \<noteq> SBFailedLeaf m) \<and> (\<forall>m. ev \<noteq> SBNewLeaf m))"
  proof (cases ev)
    case (SBFailedLeaf m)
    with run have "leaf_change t (ucast (liId (lfLeaf m))) (ucast (liIndex (lfLeaf m))) False b = Ret b'"
      by (simp add: spineBus_step_def spineBus_failedLeaf_def)
    from change [OF this] show ?thesis by simp
  next
    case (SBNewLeaf m)
    let ?id = "ucast (liId (laLeaf m)) :: u16"
    from run SBNewLeaf obtain l where l: "gm_load (tLeaves t) ?id = Some l"
      by (auto simp: spineBus_step_def spineBus_newLeaf_def returned)
    show ?thesis
    proof (cases "length (nChildren (node t l)) > 0")
      case True
      with run SBNewLeaf l have "leaf_change t (ucast (liId (laLeaf m))) (ucast (liIndex (laLeaf m))) True b = Ret b'"
        by (simp add: spineBus_step_def spineBus_newLeaf_def)
      from change [OF this] show ?thesis by simp
    next
      case False
      with run SBNewLeaf l have b': "b' = b\<lparr>sbPending := (sbPending b)(?id \<mapsto> 1)\<rparr>"
        by (simp add: spineBus_step_def spineBus_newLeaf_def)
      then have "pending b' ?id \<noteq> 0" by (simp add: pending_def)
      with b' show ?thesis by auto
    qed
  next
    case (SBNewServer m)
    with run obtain s leaf where s: "gm_load (tServers t) (ucast (siId (saServer m))) = Some s" "nParent (node t s) = Some leaf"
      by (auto simp: spineBus_step_def spineBus_newServer_def returned)
    show ?thesis
    proof (cases "pending b (nID (node t leaf)) \<noteq> 0")
      case True
      with run SBNewServer s obtain b1 where b1: "leaf_change t (ucast (nID (node t leaf))) (ucast (nIndex (node t leaf))) True b = Ret b1"
        "b' = b1\<lparr>sbPending := (sbPending b1)(nID (node t leaf) := None)\<rparr>"
        by (auto simp: spineBus_step_def spineBus_newServer_def returned)
      with change [OF b1(1)] show ?thesis by simp
    next
      case False
      with run SBNewServer s have "b' = b" by (simp add: spineBus_step_def spineBus_newServer_def)
      with SBNewServer show ?thesis by simp
    qed
  next
    case (SBIdle due)
    have "spcpMonitorStats (sbCp b) = Ret" by (simp add: cp SpineCP_of_V1_def)
    with run SBIdle have "b' = b" by (auto simp: spineBus_step_def split: if_splits)
    with SBIdle show ?thesis by simp
  qed (use run in \<open>simp_all add: spineBus_step_def\<close>)
  from goal show "sbCp b' = sbCp b" by (rule conjunct1)
  from goal show "spine_maps vw (sbClient b') (spine_leaves t p) \<or>
    (\<exists>k. pending b' k \<noteq> 0) \<or> b' = b \<and> (\<forall>m. ev \<noteq> SBFailedLeaf m) \<and> (\<forall>m. ev \<noteq> SBNewLeaf m)" by blast
  from goal show "svTable vw (sbClient b) tb ks \<noteq> None \<Longrightarrow> svTable vw (sbClient b') tb ks \<noteq> None" by blast
qed

lemma handles_effect:
  "handles e ev e' \<Longrightarrow> \<forall>m. ev \<noteq> SBFailedLeaf m \<Longrightarrow> \<forall>m. ev \<noteq> SBNewLeaf m \<Longrightarrow> leaf_chans e' = leaf_chans e"
  by (induction rule: handles.induct) (simp_all add: leaf_chans_def)

lemma system_ok_bus:
  assumes ok: "system_ok cl vw p y" and bf: "bfrt_ok cl vw" and take: "handles (syEndPoint y) ev e"
    and run: "spineBus_step (Some (spTopology (syServer y))) ev (syBus y) = Ret b"
  shows "system_ok cl vw p (y\<lparr>syEndPoint := e, syBus := b\<rparr>)"
    and "svTable vw (sbClient (syBus y)) tb ks \<noteq> None \<Longrightarrow> svTable vw (sbClient b) tb ks \<noteq> None"
proof -
  let ?t = "spTopology (syServer y)" and ?y = "y\<lparr>syEndPoint := e, syBus := b\<rparr>"
  note o = ok [unfolded system_ok_def]
  then obtain k where k: "gm_load (tSpines ?t) k = Some p" by blast
  have facts: "sbCp (syBus y) = SpineCP_of_V1 cl (NewBfrtSpineCP_V1 (Some p))" "wf_topo ?t" "indices_ok ?t"
    using o by (simp_all add: sys_ok_def)
  note out = bus_step_outcome [OF facts(1) bf facts(2) k facts(3) run]
  have "spine_maps vw (sbClient b) (spine_leaves ?t p)" if q: "quiet ?y"
  proof -
    from q have "\<not> (\<exists>k. pending b k \<noteq> 0)" by (simp add: quiet_def)
    with out(2) consider "spine_maps vw (sbClient b) (spine_leaves ?t p)" |
      "b = syBus y" "\<forall>m. ev \<noteq> SBFailedLeaf m" "\<forall>m. ev \<noteq> SBNewLeaf m" by blast
    then show ?thesis
    proof cases
      case 2
      from handles_effect [OF take 2(2,3)] q 2(1) have "quiet y" by (simp add: quiet_def leaf_chans_def)
      with o 2(1) show ?thesis by simp
    qed
  qed
  with o out(1) show "system_ok cl vw p ?y" by (simp add: system_ok_def)
  show "svTable vw (sbClient (syBus y)) tb ks \<noteq> None \<Longrightarrow> svTable vw (sbClient b) tb ks \<noteq> None" by (rule out(3))
qed

text \<open>The invariant, together with the entries \<open>T\<close> that were there before.\<close>

definition system_inv :: "'c bfrt \<Rightarrow> 'c switch_view \<Rightarrow> nref \<Rightarrow> (string \<times> key_field list) set \<Rightarrow> ('p, 'c) spine_system \<Rightarrow> bool" where
  "system_inv cl vw p T y \<longleftrightarrow> bfrt_ok cl vw \<and> system_ok cl vw p y \<and>
     (\<forall>tb ks. (tb, ks) \<in> T \<longrightarrow> svTable vw (sbClient (syBus y)) tb ks \<noteq> None)"

lemma system_inv_step:
  assumes inv: "system_inv cl vw p T y" and step: "system_step g y y'"
  shows "system_inv cl vw p T y'"
  using step
proof cases
  case (request s)
  with inv system_ok_request show ?thesis by (auto simp: system_inv_def)
next
  case (end_point ev s ord e)
  with inv system_ok_end_point show ?thesis by (fastforce simp: system_inv_def)
next
  case (bus ev e b)
  from inv have bf: "bfrt_ok cl vw" and ok: "system_ok cl vw p y"
    and old: "\<forall>tb ks. (tb, ks) \<in> T \<longrightarrow> svTable vw (sbClient (syBus y)) tb ks \<noteq> None" unfolding system_inv_def by blast+
  have "svTable vw (sbClient b) tb ks \<noteq> None" if "(tb, ks) \<in> T" for tb ks
    by (rule system_ok_bus(2) [OF ok bf bus(2,3)]) (use old that in blast)
  with system_ok_bus(1) [OF ok bf bus(2,3)] bf show ?thesis unfolding bus(1) system_inv_def by simp
qed

interpretation sy: invariant "system_inv cl vw p T" "system_step g"
  for cl :: "'c bfrt" and vw p T and g :: "'p grpc"
  by unfold_locales (rule system_inv_step)

text \<open>
  C12: The switch of a spine with the version 1 control plane catches up with the controller: whatever requests add and
  fail leaves and servers and whatever clusters come and go, in whatever order the end point and the bus take the
  messages, the state stays consistent. Whenever no change of a leaf is under way, the switch has the number of the
  current leaves, maps the ID of each of them to its index, and each index below the number to the leaf at this index.
  This says nothing of the entries of leaves that have failed: no entry is ever removed, so the index of a failed leaf
  stays in the table. While the spine has a leaf left, a failure that waits at the bus can be handled at once,
  which brings the switch up to date.
\<close>

theorem spine_switch_catches_up:
  assumes "bfrt_ok cl vw" and "system_ok cl vw p y" and "(system_step g)\<^sup>*\<^sup>* y y'"
  shows "sys_ok (spTopology (syServer y')) (spVcm (syServer y')) \<and> indices_ok (spTopology (syServer y')) \<and>
    (quiet y' \<longrightarrow> spine_maps vw (sbClient (syBus y')) (spine_leaves (spTopology (syServer y')) p)) \<and>
    (\<forall>table ks. svTable vw (sbClient (syBus y)) table ks \<noteq> None \<longrightarrow> svTable vw (sbClient (syBus y')) table ks \<noteq> None) \<and>
    (nChildren (node (spTopology (syServer y')) p) \<noteq> [] \<longrightarrow> (\<forall>m \<in> set (srFailedLeavesEgExt (syEndPoint y')).
      \<exists>b. spineBus_step (Some (spTopology (syServer y'))) (SBFailedLeaf m) (syBus y') = Ret b \<and>
        spine_maps vw (sbClient b) (spine_leaves (spTopology (syServer y')) p)))"
proof -
  let ?t = "spTopology (syServer y')" and ?cp = "NewBfrtSpineCP_V1 (Some p)"
  let ?T = "{(tb, ks). svTable vw (sbClient (syBus y)) tb ks \<noteq> None}"
  have "system_inv cl vw p ?T y" using assms(1,2) by (auto simp: system_inv_def)
  from sy.reachable [OF assms(3) this] have ok: "system_ok cl vw p y'"
    and kept: "\<forall>tb ks. svTable vw (sbClient (syBus y)) tb ks \<noteq> None \<longrightarrow> svTable vw (sbClient (syBus y')) tb ks \<noteq> None"
    unfolding system_inv_def by blast+
  then obtain k where k: "gm_load (tSpines ?t) k = Some p" "wf_topo ?t" "indices_ok ?t"
    and cp: "sbCp (syBus y') = SpineCP_of_V1 cl ?cp" by (auto simp: system_ok_def sys_ok_def)
  have sel: "scpSpine ?cp = Some p" by (simp add: NewBfrtSpineCP_V1_def)
  have "\<exists>b. spineBus_step (Some ?t) (SBFailedLeaf m) (syBus y') = Ret b \<and> spine_maps vw (sbClient b) (spine_leaves ?t p)"
    if ch: "nChildren (node ?t p) \<noteq> []" for m
  proof -
    obtain c' where "SpineCP_V1_OnLeafChange cl ?t ?cp (ucast (liId (lfLeaf m))) (ucast (liIndex (lfLeaf m))) False
        (sbClient (syBus y')) = Ret c'" "spine_maps vw c' (spine_leaves ?t p)"
      by (rule leaf_change_maps [OF assms(1) k(2,1,3) sel FalseE notE [OF ch]])
    then show ?thesis
      by (simp add: spineBus_step_def spineBus_failedLeaf_def leaf_change_def cp SpineCP_of_V1_def)
  qed
  with ok kept show ?thesis by (simp add: system_ok_def del: not_None_eq)
qed

text \<open>The first leaf of the sample fails.\<close>

lemma sample_failure_run:
  fixes y :: "(string, sw) spine_system"
  assumes y: "syServer y = sample_spine" "syEndPoint y = NewSpineRpcEndpoint sample" "\<forall>k. pending (syBus y) k = 0"
    and bus: "sbCp (syBus y) = SpineCP_of_V1 sw_client (NewBfrtSpineCP_V1 (Some 1))"
  obtains y' where "(system_step good_net)\<^sup>*\<^sup>* y y'" "quiet y'" "gm_load (tLeaves (spTopology (syServer y'))) 0 = None"
proof -
  have ok: "sys_ok (spTopology sample_spine) (spVcm sample_spine)" by (simp add: sample_sys_ok)
  have hyps: "gm_load (tLeaves (spTopology sample_spine)) (ucast (liId (fail_leaf_info 0))) = Some 2"
    "nParent (node (spTopology sample_spine) 2) = Some 1"
    "nChildren (node (spTopology sample_spine) 1) = [] @ 2 # [5]"
    "spFailedLeavesToRPC sample_spine = []" "spNewLeavesToRPC sample_spine = []"
    by (simp_all add: sample_eval) (simp add: sample_spine_def NewSpineSrvServer_def)
  obtain s m where s: "spine_FailLeaf stored_order (fail_leaf_info 0) sample_spine = Some (Ret (s, status ''OK''))"
    "spFailedLeavesToRPC s = [m]" "lfDsts m = Some [2]" "gm_load (tLeaves (spTopology s)) 0 = None" "wf_topo (spTopology s)"
    using spine_FailLeaf_run [OF ok is_order_stored hyps(1-3)] hyps(4) by (auto simp: NewLeafFailedMessage_def sys_ok_def)
  then have new: "spNewLeavesToRPC s = []"
    using hyps(5) by (auto simp: spine_FailLeaf_def Let_def returned split: option.splits go.splits if_splits)
  have st: "spine_step sample_spine s" by (rule spine_step.FailLeaf [OF s(1) is_order_stored])
  define e where "e = (NewSpineRpcEndpoint sample :: string SpineRpcEndpoint)\<lparr>srTopology := spTopology s\<rparr>"
  define y1 where "y1 = y\<lparr>syServer := s, syEndPoint := e\<rparr>"
  have 1: "system_step good_net y y1" using system_step.request [of y s good_net] st y by (simp add: y1_def e_def)
  obtain e1 where e1: "spine_processEvent good_net stored_order (SEvFailedLeaf m) e = Ret e1"
    using s(3) that
    by (cases "call_mgr good_net (nMgmtAddress (node (srTopology e) 2)) (Call_FailLeaf (lfLeaf m)) e")
      (simp add: spine_processEvent_def sendLeafFailed_def first_dst_def)
  have ch: "srFailedLeavesEgExt e1 = [NewLeafFailedMessage (lfLeaf m) None]" "srNewLeavesEgExt e1 = []"
    using processEvent_chans [OF e1] by (simp_all add: leaf_chans_def passed_failed_def passed_new_def e_def NewSpineRpcEndpoint_def)
  define y2 where "y2 = y1\<lparr>syServer := s\<lparr>spFailedLeavesToRPC := []\<rparr>, syEndPoint := e1\<rparr>"
  have 2: "system_step good_net y1 y2"
    unfolding y2_def by (rule system_step.end_point [where ev = "SEvFailedLeaf m" and ord = stored_order])
      (simp_all add: y1_def takes.intros(2) s(2) e1)
  let ?cp = "NewBfrtSpineCP_V1 (Some 1)" and ?m = "NewLeafFailedMessage (lfLeaf m) None"
  have t: "gm_load (tSpines (spTopology s)) 0 = Some 1" "indices_ok (spTopology s)"
    using spine_step_effect [OF st ok] by (simp_all add: request_effect_def sample_spine_fields sample_nodes(7) sample_indices)
  have sel: "scpSpine ?cp = Some 1" by (simp add: NewBfrtSpineCP_V1_def)
  have all: "\<forall>reg c. snd (bfInsert sw_client (RegisterEntry reg (- 1) 0) c) = None" by (simp add: sw_client_def)
  obtain c' where c': "SpineCP_V1_OnLeafChange sw_client (spTopology s) ?cp (ucast (liId (lfLeaf ?m))) (ucast (liIndex (lfLeaf ?m)))
      False (sbClient (syBus y)) = Ret c'"
    by (rule leaf_change_maps [OF sw_ok s(5) t sel FalseE all])
  define y3 where "y3 = y2\<lparr>syEndPoint := e1\<lparr>srFailedLeavesEgExt := []\<rparr>, syBus := (syBus y)\<lparr>sbClient := c'\<rparr>\<rparr>"
  have 3: "system_step good_net y2 y3"
    unfolding y3_def
  proof (rule system_step.bus [where ev = "SBFailedLeaf ?m"])
    show "handles (syEndPoint y2) (SBFailedLeaf ?m) (e1\<lparr>srFailedLeavesEgExt := []\<rparr>)"
      using handles.intros(1) [of e1 "[]" ?m "[]"] ch(1) by (simp add: y2_def)
    show "spineBus_step (Some (spTopology (syServer y2))) (SBFailedLeaf ?m) (syBus y2) = Ret ((syBus y)\<lparr>sbClient := c'\<rparr>)"
      using c' by (simp add: y2_def y1_def spineBus_step_def spineBus_failedLeaf_def leaf_change_def bus SpineCP_of_V1_def)
  qed
  have "(system_step good_net)\<^sup>*\<^sup>* y y3" using 1 2 3 by (meson converse_rtranclp_into_rtranclp rtranclp.rtrancl_refl)
  moreover have "quiet y3"
    using new ch(2) y(3) by (simp add: quiet_def queued_def y3_def y2_def pending_def)
  moreover have "gm_load (tLeaves (spTopology (syServer y3))) 0 = None" using s(4) by (simp add: y3_def y2_def)
  ultimately show ?thesis by (rule that)
qed

theorem spine_switch_catches_up_witness:
  "\<exists>y y' :: (string, sw) spine_system. (system_step good_net)\<^sup>*\<^sup>* y y' \<and> syServer y = sample_spine \<and> quiet y' \<and>
     gm_load (tLeaves (spTopology (syServer y'))) 0 = None \<and>
     spine_maps sw_view (sbClient (syBus y')) (spine_leaves (spTopology (syServer y')) 1) \<and>
     fst (sbClient (syBus y')) ''pipe_spine.SpineIngress.get_switch_index'' (switch_index_keys 0) \<noteq> None"
proof -
  let ?cp = "NewBfrtSpineCP_V1 (Some 1)"
  have sel: "scpSpine ?cp = Some 1" by (simp add: NewBfrtSpineCP_V1_def)
  obtain c where c: "spine_maps sw_view c (spine_leaves sample 1)"
    by (rule leaf_change_maps [OF sw_ok sample_wf sample_nodes(7) sample_indices sel FalseE]) (simp_all add: sw_client_def)
  define y :: "(string, sw) spine_system" where "y = \<lparr>syServer = sample_spine, syEndPoint = NewSpineRpcEndpoint sample,
    syBus = NewSpineBus 0 (SpineCP_of_V1 sw_client ?cp) c\<rparr>"
  have parts: "syServer y = sample_spine" "syEndPoint y = NewSpineRpcEndpoint sample" "\<forall>k. pending (syBus y) k = 0"
    "sbCp (syBus y) = SpineCP_of_V1 sw_client ?cp" "sbClient (syBus y) = c"
    by (simp_all add: y_def NewSpineBus_def pending_def)
  have "system_ok sw_client sw_view 1 y"
    using c sample_sys_ok sample_indices sample_nodes(7) by (auto simp: system_ok_def parts sample_spine_fields)
  moreover obtain y' where y': "(system_step good_net)\<^sup>*\<^sup>* y y'" "quiet y'" "gm_load (tLeaves (spTopology (syServer y'))) 0 = None"
    by (rule sample_failure_run [OF parts(1-4)])
  moreover have "svTable sw_view (sbClient (syBus y)) ''pipe_spine.SpineIngress.get_switch_index'' (switch_index_keys 0) \<noteq> None"
  proof -
    have "(0, 0) \<in> set (spine_leaves sample 1)" unfolding spine_leaves_def sample_nodes by (simp add: sample_eval)
    with c show ?thesis unfolding spine_maps_def parts(5) by fastforce
  qed
  ultimately have "spine_maps sw_view (sbClient (syBus y')) (spine_leaves (spTopology (syServer y')) 1)"
    "svTable sw_view (sbClient (syBus y')) ''pipe_spine.SpineIngress.get_switch_index'' (switch_index_keys 0) \<noteq> None"
    using spine_switch_catches_up [OF sw_ok] by blast+
  with y' parts(1) show ?thesis unfolding sw_view_def switch_view.simps by blast
qed

end
