(* ===== verification/Spine_Start_Correct.thy ===== *)
theory Spine_Start_Correct
  imports Spine_System Leaf_Start_Correct
begin

text \<open>
  The start of a spine controller: what its version 1 control plane inserts into the tables of an empty switch, and
  that no insertion meets an entry that is there already, which would end the process.
\<close>

section \<open>Insertions\<close>

text \<open>The step inserts the entries in turn, where none of them is there.\<close>

definition adds :: "'c switch_view \<Rightarrow> ('c \<Rightarrow> 'c go) \<Rightarrow> entry_write list \<Rightarrow> bool" where
  "adds vw f ws \<longleftrightarrow> (\<forall>c. (\<forall>w \<in> set ws. svTable vw c (fst (fst w)) (snd (fst w)) = None) \<longrightarrow>
     (\<exists>c'. f c = Ret c' \<and> svTable vw c' = fold written ws (svTable vw c)))"

lemma addsD:
  assumes "adds vw f ws" and "\<forall>w \<in> set ws. svTable vw c (fst (fst w)) (snd (fst w)) = None"
  obtains c' where "f c = Ret c'" "svTable vw c' = fold written ws (svTable vw c)"
  using assms unfolding adds_def by blast

lemma adds_table: "bfrt_ok cl vw \<Longrightarrow> adds vw (add_table cl table ks a ds) [((table, ks), a, ds)]"
  unfolding adds_def by (metis add_table_ok fold_simps(1,2) fst_conv list.set_intros(1) snd_conv written.simps)

lemma adds_reg: "bfrt_ok cl vw \<Longrightarrow> i < 2 ^ 16 \<Longrightarrow> adds vw (put_reg cl reg i v) []"
  unfolding adds_def by (metis put_reg_ok fold_simps(1))

lemma adds_bind:
  assumes "adds vw f ws" and "adds vw g ws'" and dis: "distinct (map fst (ws @ ws'))"
  shows "adds vw (\<lambda>c. go_bind (f c) g) (ws @ ws')"
  unfolding adds_def
proof (intro allI impI)
  fix c assume none: "\<forall>w \<in> set (ws @ ws'). svTable vw c (fst (fst w)) (snd (fst w)) = None"
  then have "\<forall>w \<in> set ws. svTable vw c (fst (fst w)) (snd (fst w)) = None" by simp
  from addsD [OF assms(1) this] obtain c1 where 1: "f c = Ret c1" "svTable vw c1 = fold written ws (svTable vw c)" .
  have "svTable vw c1 (fst (fst w)) (snd (fst w)) = None" if "w \<in> set ws'" for w
  proof -
    have "fst w \<notin> fst ` set ws" using dis that by auto
    then have "svTable vw c1 (fst (fst w)) (snd (fst w)) = svTable vw c (fst (fst w)) (snd (fst w))"
      unfolding 1(2) by (intro written_other) simp
    with none that show ?thesis by simp
  qed
  then have "\<forall>w \<in> set ws'. svTable vw c1 (fst (fst w)) (snd (fst w)) = None" by blast
  from addsD [OF assms(2) this] obtain c2 where "g c1 = Ret c2" "svTable vw c2 = fold written ws' (svTable vw c1)" .
  with 1 show "\<exists>c'. go_bind (f c) g = Ret c' \<and> svTable vw c' = fold written (ws @ ws') (svTable vw c)" by simp
qed

lemma adds_bind_reg:
  "adds vw f [] \<Longrightarrow> adds vw g ws \<Longrightarrow> distinct (map fst ws) \<Longrightarrow> adds vw (\<lambda>c. go_bind (f c) g) ws"
  using adds_bind [of vw f "[]" g ws] by simp

lemma adds_fold:
  assumes "\<And>x. x \<in> set xs \<Longrightarrow> adds vw (f x) (ws x)" and "distinct (map fst (concat (map ws xs)))"
  shows "adds vw (go_fold f xs) (concat (map ws xs))"
  using assms
proof (induction xs)
  case (Cons x xs)
  then have "adds vw (go_fold f xs) (concat (map ws xs))" by (intro Cons.IH) auto
  from adds_bind [OF Cons.prems(1) this, of x] Cons.prems(2) show ?case by (simp add: go_fold_fun)
qed (simp add: adds_def)

text \<open>Entries of different tables do not meet.\<close>

lemma distinct_tables:
  assumes "distinct (map fst ws)" "distinct (map fst ws')"
    and "(fst \<circ> fst) ` set ws \<subseteq> A" "(fst \<circ> fst) ` set ws' \<subseteq> B" "A \<inter> B = {}"
  shows "distinct (map fst (ws @ ws'))"
  using assms by fastforce

lemma of_nat_u64_inj:
  assumes "i < 2 ^ 64" and "j < 2 ^ 64"
  shows "(of_nat i :: u64) = of_nat j \<longleftrightarrow> i = j"
proof -
  have "unat (of_nat n :: u64) = n" if "n < 2 ^ 64" for n
    using that by (simp add: unsigned_of_nat take_bit_nat_eq_self_iff)
  from this [OF assms(1)] this [OF assms(2)] show ?thesis by metis
qed

text \<open>Lists with positions, and loops with one entry per turn.\<close>

lemma map_enumerate_snd: "map (\<lambda>x. f (snd x)) (enumerate n xs) = map f xs"
  by (induction xs arbitrary: n) auto

lemma enumerate_snd_mem: "x \<in> set (enumerate n xs) \<Longrightarrow> snd x \<in> set xs"
  by (metis image_eqI map_snd_enumerate set_map)

lemma concat_single: "concat (map (\<lambda>x. [f x]) xs) = map f xs"
  by (induction xs) simp_all

section \<open>What the initialisation inserts\<close>

definition fwd_write :: "Topology \<Rightarrow> nref \<Rightarrow> pref option \<Rightarrow> entry_write" where
  "fwd_write t n q =
     ((''pipe_spine.SpineIngress.forward_horus_switch_dst'', [ExactKey ''hdr.horus.dst_id'' (ucast (nID (node t n)))]),
      ''SpineIngress.act_forward_horus'', [BytesData ''port'' (GetDevPort (port (tHw t) (the q)))])"

definition leaf_fwd :: "Topology \<Rightarrow> nref \<Rightarrow> entry_write" where
  "leaf_fwd t l = fwd_write t l (nDsPort (node t l))"

definition client_fwd :: "Topology \<Rightarrow> nref \<Rightarrow> entry_write" where
  "client_fwd t cn = fwd_write t cn (nPort (node t cn))"

lemma fwd_distinct:
  assumes "distinct (map (\<lambda>n. nID (node t n)) (ls @ cs))"
  shows "distinct (map fst (map (leaf_fwd t) ls @ map (client_fwd t) cs))"
proof -
  define key :: "u16 \<Rightarrow> string \<times> key_field list" where
    "key i = (''pipe_spine.SpineIngress.forward_horus_switch_dst'', [ExactKey ''hdr.horus.dst_id'' (ucast i)])" for i
  have "map fst (map (leaf_fwd t) ls @ map (client_fwd t) cs) = map key (map (\<lambda>n. nID (node t n)) (ls @ cs))"
    by (simp add: leaf_fwd_def client_fwd_def fwd_write_def key_def)
  moreover have "inj_on key A" for A by (rule inj_onI) (simp add: key_def ucast_64_inj)
  ultimately show ?thesis using assms by (simp only: distinct_map [of key])
qed

lemma init_leaf_adds:
  assumes bf: "bfrt_ok cl vw" and q: "nDsPort (node t l) \<noteq> None" and i: "i < 2 ^ 16"
  shows "adds vw (spine_init_leaf cl t (i, l)) [leaf_fwd t l]"
proof -
  from q obtain r where r: "nDsPort (node t l) = Some r" by blast
  have "spine_init_leaf cl t (i, l) = (\<lambda>c.
      go_bind (put_reg cl ''pipe_spine.SpineIngress.idle_list'' (of_nat i) (ucast (nID (node t l))) c) (\<lambda>c.
      go_bind (put_reg cl ''pipe_spine.SpineIngress.idle_list_idx_mapping'' (ucast (nID (node t l))) (of_nat i) c)
        (spine_fwd cl (nID (node t l)) (GetDevPort (port (tHw t) r)))))"
    by (simp add: fun_eq_iff spine_init_leaf_def Let_def r)
  moreover have "adds vw (spine_fwd cl (nID (node t l)) (GetDevPort (port (tHw t) r))) [leaf_fwd t l]"
    using adds_table [OF bf] by (simp add: spine_fwd_def leaf_fwd_def fwd_write_def r)
  ultimately show ?thesis by (auto intro!: adds_bind_reg adds_reg [OF bf small_index(1)] adds_reg [OF bf small_position [OF i]])
qed

lemma init_all_adds:
  assumes bf: "bfrt_ok cl vw" and ports: "\<forall>l \<in> set (nChildren (node t p)). nDsPort (node t l) \<noteq> None"
    "\<forall>(k, cn) \<in> set (tClients t). nPort (node t cn) \<noteq> None" and ord: "is_order ord"
    and ids: "distinct (map (\<lambda>n. nID (node t n)) (nChildren (node t p) @ map snd (go_range ord (tClients t))))"
  shows "adds vw (SpineCPInitAllVer cl ord p t)
    (map (leaf_fwd t) (nChildren (node t p)) @ map (client_fwd t) (map snd (go_range ord (tClients t))))"
proof -
  let ?ls = "nChildren (node t p)" and ?cs = "go_range ord (tClients t)"
  let ?client = "\<lambda>(k, cn) c. deref (nPort (node t cn)) (\<lambda>q. spine_fwd cl (nID (node t cn)) (GetDevPort (port (tHw t) q)) c)"
  note dis = fwd_distinct [OF ids]
  have "adds vw (go_fold (spine_init_leaf cl t) (enumerate 0 ?ls)) (concat (map (\<lambda>x. [leaf_fwd t (snd x)]) (enumerate 0 ?ls)))"
  proof (rule adds_fold)
    fix x assume "x \<in> set (enumerate 0 ?ls)"
    then have "snd x \<in> set ?ls" "fst x < length ?ls" by (rule enumerate_snd_mem) (use \<open>x \<in> set (enumerate 0 ?ls)\<close> in \<open>auto simp: in_set_enumerate_eq\<close>)
    moreover have "length ?ls \<le> 2 ^ 16" using distinct_ids_few [of "\<lambda>n. nID (node t n)" ?ls] ids by simp
    moreover obtain i l where "x = (i, l)" by (cases x)
    ultimately have "x = (i, l)" "l \<in> set ?ls" "i < 2 ^ 16" by simp_all
    then show "adds vw (spine_init_leaf cl t x) [leaf_fwd t (snd x)]" using ports(1) init_leaf_adds [OF bf, of t l i] by simp
  qed (use dis in \<open>simp add: concat_single map_enumerate_snd\<close>)
  then have leaves: "adds vw (go_fold (spine_init_leaf cl t) (enumerate 0 ?ls)) (map (leaf_fwd t) ?ls)" by (simp add: concat_single map_enumerate_snd)
  have "adds vw (go_fold ?client ?cs) (concat (map (\<lambda>x. [client_fwd t (snd x)]) ?cs))"
  proof (rule adds_fold)
    fix x assume "x \<in> set ?cs"
    with ord ports(2) obtain k cn q where x: "x = (k, cn)" "nPort (node t cn) = Some q" by (cases x) auto
    then show "adds vw (?client x) [client_fwd t (snd x)]"
      using adds_table [OF bf] by (simp add: client_fwd_def fwd_write_def spine_fwd_def)
  qed (use dis in \<open>simp add: concat_single comp_def\<close>)
  then have clients: "adds vw (go_fold ?client ?cs) (map (client_fwd t) (map snd ?cs))" by (simp add: concat_single comp_def)
  have "adds vw (\<lambda>c. go_bind (put_reg cl ''pipe_spine.SpineIngress.idle_count'' 0 (of_nat (length ?ls)) c) (go_fold ?client ?cs))
      (map (client_fwd t) (map snd ?cs))"
    by (rule adds_bind_reg [OF adds_reg [OF bf small_index(2)] clients]) (use dis in simp)
  moreover have "SpineCPInitAllVer cl ord p t = (\<lambda>c. go_bind (go_fold (spine_init_leaf cl t) (enumerate 0 ?ls) c)
      (\<lambda>c. go_bind (put_reg cl ''pipe_spine.SpineIngress.idle_count'' 0 (of_nat (length ?ls)) c) (go_fold ?client ?cs)))"
    by (rule ext) (simp only: SpineCPInitAllVer_def Let_def)
  ultimately show ?thesis using adds_bind [OF leaves _ dis] by simp
qed

text \<open>The entries of the leaf at a position, and of the whole version 1.\<close>

definition init_leaf_writes :: "Topology \<Rightarrow> nat \<times> nref \<Rightarrow> entry_write list" where
  "init_leaf_writes t ileaf =
     (let i = of_nat (fst ileaf); leafID = ucast (nID (node t (snd ileaf)));
          unit = [BytesData ''cluster_unit'' (ucast (WorkerQlenUnitMap (leaf_worker_count t (snd ileaf))))] in
      [((''pipe_spine.SpineIngress.set_queue_len_unit_1'', [ExactKey ''horus_md.random_id_1'' leafID, pool_key]),
        ''SpineIngress.act_set_queue_len_unit_1'', unit),
       ((''pipe_spine.SpineIngress.set_queue_len_unit_2'', [ExactKey ''horus_md.random_id_2'' leafID, pool_key]),
        ''SpineIngress.act_set_queue_len_unit_2'', unit),
       ((''pipe_spine.SpineIngress.set_queue_len_unit_resub'', [ExactKey ''horus_md.selected_ds_index'' leafID, pool_key]),
        ''SpineIngress.act_set_queue_len_unit_resub'', unit),
       ((''pipe_spine.SpineIngress.get_rand_leaf_id_1'', rand_leaf_keys ''horus_md.random_ds_index_1'' i),
        ''SpineIngress.act_get_rand_leaf_id_1'', [BytesData ''leaf_id'' leafID]),
       ((''pipe_spine.SpineIngress.get_rand_leaf_id_2'', rand_leaf_keys ''horus_md.random_ds_index_2'' i),
        ''SpineIngress.act_get_rand_leaf_id_2'', [BytesData ''leaf_id'' leafID]),
       ((''pipe_spine.SpineIngress.get_switch_index'', switch_index_keys leafID),
        ''SpineIngress.act_get_switch_index'', [BytesData ''switch_index'' i])])"

definition leaf_tables :: "string set" where
  "leaf_tables = {''pipe_spine.SpineIngress.set_queue_len_unit_1'', ''pipe_spine.SpineIngress.set_queue_len_unit_2'',
     ''pipe_spine.SpineIngress.set_queue_len_unit_resub'', ''pipe_spine.SpineIngress.get_rand_leaf_id_1'',
     ''pipe_spine.SpineIngress.get_rand_leaf_id_2'', ''pipe_spine.SpineIngress.get_switch_index''}"

lemma init_leaf_writes_tables: "w \<in> set (init_leaf_writes t x) \<Longrightarrow> fst (fst w) \<in> leaf_tables"
  by (auto simp: init_leaf_writes_def leaf_tables_def Let_def)

lemma init_leaf_writes_once: "distinct (map fst (init_leaf_writes t x))"
  by (simp add: init_leaf_writes_def Let_def)

lemma init_leaf_writes_apart:
  assumes "(of_nat (fst x) :: u64) \<noteq> of_nat (fst y)" and "nID (node t (snd x)) \<noteq> nID (node t (snd y))"
  shows "fst ` set (init_leaf_writes t x) \<inter> fst ` set (init_leaf_writes t y) = {}"
  using assms by (simp add: init_leaf_writes_def Let_def switch_index_keys_def rand_leaf_keys_def ucast_64_inj)

lemma init_leaves_distinct:
  assumes "distinct (map (\<lambda>x. of_nat (fst x) :: u64) xs)" and "distinct (map (\<lambda>x. nID (node t (snd x))) xs)"
  shows "distinct (map fst (concat (map (init_leaf_writes t) xs)))"
  using assms
proof (induction xs)
  case (Cons x xs)
  have "fst ` set (init_leaf_writes t x) \<inter> fst ` set (init_leaf_writes t y) = {}" if "y \<in> set xs" for y
    using Cons.prems that by (intro init_leaf_writes_apart) auto
  then have "fst ` set (init_leaf_writes t x) \<inter> fst ` set (concat (map (init_leaf_writes t) xs)) = {}" by auto
  with Cons init_leaf_writes_once [of t x] show ?case by simp
qed simp

lemma enumerate_leaves_distinct:
  assumes ids: "distinct (map (\<lambda>l. nID (node t l)) ls)"
  shows "distinct (map fst (concat (map (init_leaf_writes t) (enumerate 0 ls))))"
proof (rule init_leaves_distinct)
  have few: "length ls \<le> 2 ^ 16" by (rule distinct_ids_few [OF ids])
  have "inj_on (of_nat :: nat \<Rightarrow> u64) {0..<length ls}"
    using few by (intro inj_onI) (simp add: of_nat_u64_inj)
  then have "distinct (map (of_nat :: nat \<Rightarrow> u64) (map fst (enumerate 0 ls)))"
    by (simp only: map_fst_enumerate distinct_map) simp
  then show "distinct (map (\<lambda>x. of_nat (fst x) :: u64) (enumerate 0 ls))" by (simp only: map_map comp_def)
  show "distinct (map (\<lambda>x. nID (node t (snd x))) (enumerate 0 ls))" using ids by (simp only: map_enumerate_snd [of "\<lambda>l. nID (node t l)"])
qed

lemma V1_leaf_adds:
  assumes bf: "bfrt_ok cl vw"
  shows "adds vw (spine_V1_init_leaf cl t x) (init_leaf_writes t x)"
proof -
  obtain i l where x: "x = (i, l)" by (cases x)
  note bind = adds_bind [where ws = "[w]" for w, simplified]
  show ?thesis
    unfolding x spine_V1_init_leaf_def init_leaf_writes_def Let_def rand_leaf_keys_def switch_index_keys_def prod.case fst_conv snd_conv
    by (intro bind adds_table [OF bf]) simp_all
qed

definition num_leaves_write :: "nref list \<Rightarrow> entry_write" where
  "num_leaves_write ls = ((''pipe_spine.SpineIngress.get_cluster_num_valid_leafs'', [pool_key]),
     ''SpineIngress.act_get_cluster_num_valid_leafs'', [BytesData ''num_leafs'' (of_nat (length ls))])"

definition adjust_write :: "nat \<Rightarrow> entry_write" where
  "adjust_write i = ((''pipe_spine.SpineIngress.adjust_random_range_sq_leafs'',
       [ExactKey ''horus_md.cluster_num_valid_queue_signals'' (of_nat i)]),
     ''SpineIngress.adjust_random_leaf_index_'' @ fmt_d (ceil_log2 i), [])"

lemma adjust_distinct: "distinct (map fst (map adjust_write [2..<33]))"
proof -
  have "inj_on (\<lambda>i. fst (adjust_write i)) {2..<33}"
    by (rule inj_onI) (simp add: adjust_write_def of_nat_u64_inj)
  then show ?thesis by (simp only: map_map comp_def distinct_map distinct_upt set_upt simp_thms)
qed

lemma V1_adjust_adds:
  assumes bf: "bfrt_ok cl vw"
  shows "adds vw (SpineCP_V1_InitRandomAdjustTables cl) (map adjust_write [2..<33])"
proof -
  have "adds vw (SpineCP_V1_InitRandomAdjustTables cl) (concat (map (\<lambda>i. [adjust_write i]) [2..<33]))"
    unfolding SpineCP_V1_InitRandomAdjustTables_def
  proof (rule adds_fold)
    show "distinct (map fst (concat (map (\<lambda>i. [adjust_write i]) [2..<33])))" unfolding concat_single by (rule adjust_distinct)
  qed (unfold adjust_write_def, rule adds_table [OF bf])
  then show ?thesis unfolding concat_single .
qed

definition V1_writes :: "order \<Rightarrow> Topology \<Rightarrow> nref \<Rightarrow> entry_write list" where
  "V1_writes ord t p =
     (let ls = nChildren (node t p) in
      (map (leaf_fwd t) ls @ map (client_fwd t) (map snd (go_range ord (tClients t)))) @
      concat (map (init_leaf_writes t) (enumerate 0 ls)) @ [num_leaves_write ls] @ map adjust_write [2..<33])"

definition count_tables :: "string set" where
  "count_tables = {''pipe_spine.SpineIngress.get_cluster_num_valid_leafs'', ''pipe_spine.SpineIngress.adjust_random_range_sq_leafs''}"

lemma V1_tables:
  "(fst \<circ> fst) ` set (map (leaf_fwd t) ls @ map (client_fwd t) cs) \<subseteq> {''pipe_spine.SpineIngress.forward_horus_switch_dst''}"
  "(fst \<circ> fst) ` set (concat (map (init_leaf_writes t) xs)) \<subseteq> leaf_tables"
  "(fst \<circ> fst) ` set [num_leaves_write ls] \<subseteq> {''pipe_spine.SpineIngress.get_cluster_num_valid_leafs''}"
  "(fst \<circ> fst) ` set (map adjust_write is) \<subseteq> {''pipe_spine.SpineIngress.adjust_random_range_sq_leafs''}"
  by (auto simp: leaf_fwd_def client_fwd_def fwd_write_def num_leaves_write_def adjust_write_def dest: init_leaf_writes_tables)

lemma V1_writes_distinct:
  assumes "distinct (map (\<lambda>n. nID (node t n)) (ls @ cs))"
  shows "distinct (map fst ([num_leaves_write ls] @ map adjust_write [2..<33]))"
    "distinct (map fst (concat (map (init_leaf_writes t) (enumerate 0 ls)) @ [num_leaves_write ls] @ map adjust_write [2..<33]))"
    "distinct (map fst ((map (leaf_fwd t) ls @ map (client_fwd t) cs) @
       concat (map (init_leaf_writes t) (enumerate 0 ls)) @ [num_leaves_write ls] @ map adjust_write [2..<33]))"
proof -
  let ?L = "concat (map (init_leaf_writes t) (enumerate 0 ls))" and ?A = "map adjust_write [2..<33]"
  have L: "distinct (map fst ?L)" by (rule enumerate_leaves_distinct) (use assms in simp)
  show NA: "distinct (map fst ([num_leaves_write ls] @ ?A))"
    by (rule distinct_tables [OF _ adjust_distinct V1_tables(3,4)]) simp_all
  have tNA: "(fst \<circ> fst) ` set ([num_leaves_write ls] @ ?A) \<subseteq> count_tables"
    using V1_tables(3) [of ls] V1_tables(4) [of "[2..<33]"] unfolding count_tables_def set_append image_Un by blast
  have "leaf_tables \<inter> count_tables = {}" by (simp add: leaf_tables_def count_tables_def)
  from distinct_tables [OF L NA V1_tables(2) tNA this] show LNA: "distinct (map fst (?L @ [num_leaves_write ls] @ ?A))" .
  have tLNA: "(fst \<circ> fst) ` set (?L @ [num_leaves_write ls] @ ?A) \<subseteq> leaf_tables \<union> count_tables"
    using V1_tables(2) [of t "enumerate 0 ls"] tNA unfolding set_append [of ?L] image_Un by blast
  have "{''pipe_spine.SpineIngress.forward_horus_switch_dst''} \<inter> (leaf_tables \<union> count_tables) = {}"
    by (simp add: leaf_tables_def count_tables_def)
  from distinct_tables [OF fwd_distinct [OF assms] LNA V1_tables(1) tLNA this]
  show "distinct (map fst ((map (leaf_fwd t) ls @ map (client_fwd t) cs) @ ?L @ [num_leaves_write ls] @ ?A))" .
qed

lemma V1_init_adds:
  assumes bf: "bfrt_ok cl vw" and ports: "\<forall>l \<in> set (nChildren (node t p)). nDsPort (node t l) \<noteq> None"
    "\<forall>(k, cn) \<in> set (tClients t). nPort (node t cn) \<noteq> None" and ord: "is_order ord" and "scpSpine cp = Some p"
    and ids: "distinct (map (\<lambda>n. nID (node t n)) (nChildren (node t p) @ map snd (go_range ord (tClients t))))"
  shows "adds vw (SpineCP_V1_Init cl ord t cp) (V1_writes ord t p)"
proof -
  let ?ls = "nChildren (node t p)"
  note dis = V1_writes_distinct [OF ids]
  have num: "adds vw (add_table cl ''pipe_spine.SpineIngress.get_cluster_num_valid_leafs'' [pool_key]
      ''SpineIngress.act_get_cluster_num_valid_leafs'' [BytesData ''num_leafs'' (of_nat (length ?ls))]) [num_leaves_write ?ls]"
    unfolding num_leaves_write_def by (rule adds_table [OF bf])
  have "distinct (map fst (concat (map (init_leaf_writes t) (enumerate 0 ?ls))))"
    by (rule enumerate_leaves_distinct) (use ids in simp)
  then have leaves: "adds vw (go_fold (spine_V1_init_leaf cl t) (enumerate 0 ?ls)) (concat (map (init_leaf_writes t) (enumerate 0 ?ls)))"
    by (intro adds_fold V1_leaf_adds [OF bf])
  have run: "SpineCP_V1_Init cl ord t cp = (\<lambda>c. go_bind (SpineCPInitAllVer cl ord p t c) (\<lambda>c.
      go_bind (go_fold (spine_V1_init_leaf cl t) (enumerate 0 ?ls) c) (\<lambda>c.
      go_bind (add_table cl ''pipe_spine.SpineIngress.get_cluster_num_valid_leafs'' [pool_key]
        ''SpineIngress.act_get_cluster_num_valid_leafs'' [BytesData ''num_leafs'' (of_nat (length ?ls))] c)
        (SpineCP_V1_InitRandomAdjustTables cl))))"
    by (rule ext) (simp only: SpineCP_V1_Init_def assms(5) option.case)
  show ?thesis
    unfolding run V1_writes_def Let_def
    by (rule adds_bind [OF init_all_adds [OF bf ports ord ids] adds_bind [OF leaves adds_bind [OF num V1_adjust_adds [OF bf] dis(1)] dis(2)] dis(3)])
qed

section \<open>The start\<close>

text \<open>
  What a spine with this topology needs in its tables: a packet to a leaf or a client leaves on its port and one to
  anybody else has no entry, the number of leaves is known, and each leaf has its position, in both directions, and
  its queue unit.
\<close>

definition spine_tables :: "'c switch_view \<Rightarrow> 'c \<Rightarrow> Topology \<Rightarrow> nref \<Rightarrow> bool" where
  "spine_tables vw c t p \<longleftrightarrow>
     (let ls = nChildren (node t p); cs = map snd (tClients t); T = svTable vw c;
          fwd = (\<lambda>dst. T ''pipe_spine.SpineIngress.forward_horus_switch_dst'' [ExactKey ''hdr.horus.dst_id'' (ucast (dst :: u16))]);
          to = (\<lambda>q. Some (''SpineIngress.act_forward_horus'', [BytesData ''port'' (GetDevPort (port (tHw t) (the q)))]))
      in (\<forall>l \<in> set ls. fwd (nID (node t l)) = to (nDsPort (node t l))) \<and>
         (\<forall>cn \<in> set cs. fwd (nID (node t cn)) = to (nPort (node t cn))) \<and>
         (\<forall>dst. dst \<notin> (nID \<circ> node t) ` set (ls @ cs) \<longrightarrow> fwd dst = None) \<and>
         T ''pipe_spine.SpineIngress.get_cluster_num_valid_leafs'' [pool_key] =
           Some (''SpineIngress.act_get_cluster_num_valid_leafs'', [BytesData ''num_leafs'' (of_nat (length ls))]) \<and>
         (\<forall>i < length ls. let leafID = ucast (nID (node t (ls ! i)));
              unit = [BytesData ''cluster_unit'' (ucast (WorkerQlenUnitMap (leaf_worker_count t (ls ! i))))] in
            T ''pipe_spine.SpineIngress.get_switch_index'' (switch_index_keys leafID) =
              Some (''SpineIngress.act_get_switch_index'', [BytesData ''switch_index'' (of_nat i)]) \<and>
            T ''pipe_spine.SpineIngress.get_rand_leaf_id_1'' (rand_leaf_keys ''horus_md.random_ds_index_1'' (of_nat i)) =
              Some (''SpineIngress.act_get_rand_leaf_id_1'', [BytesData ''leaf_id'' leafID]) \<and>
            T ''pipe_spine.SpineIngress.get_rand_leaf_id_2'' (rand_leaf_keys ''horus_md.random_ds_index_2'' (of_nat i)) =
              Some (''SpineIngress.act_get_rand_leaf_id_2'', [BytesData ''leaf_id'' leafID]) \<and>
            T ''pipe_spine.SpineIngress.set_queue_len_unit_1'' [ExactKey ''horus_md.random_id_1'' leafID, pool_key] =
              Some (''SpineIngress.act_set_queue_len_unit_1'', unit) \<and>
            T ''pipe_spine.SpineIngress.set_queue_len_unit_2'' [ExactKey ''horus_md.random_id_2'' leafID, pool_key] =
              Some (''SpineIngress.act_set_queue_len_unit_2'', unit)))"

lemma spine_tables_maps:
  assumes tables: "spine_tables vw c t p" and wf: "wf_topo t" and p: "gm_load (tSpines t) k = Some p" and ix: "indices_ok t"
  shows "spine_maps vw c (spine_leaves t p)"
proof -
  let ?ls = "nChildren (node t p)"
  have few: "length ?ls \<le> 2 ^ 16" by (rule distinct_ids_few [OF spine_leaves_distinct(1) [OF wf p ix]])
  have "(ucast (nIndex (node t (?ls ! i))) :: u64) = of_nat i" if "i < length ?ls" for i
  proof -
    have "nIndex (node t (?ls ! i)) = of_nat i" using ix p that by (simp add: indices_ok_def)
    moreover have "i < 2 ^ 16" using that few by simp
    then have "take_bit 16 i = i" by (simp add: take_bit_nat_eq_self_iff)
    ultimately show ?thesis by (simp add: unsigned_of_nat)
  qed
  with tables show ?thesis
    unfolding spine_tables_def spine_maps_def spine_leaves_def Let_def by (simp add: all_set_conv_all_nth)
qed

lemma range_ids_distinct:
  assumes "is_order ord" and "distinct (map f (xs @ map snd m))"
  shows "distinct (map f (xs @ map snd (go_range ord m)))"
proof -
  have "mset (map f (xs @ map snd (go_range ord m))) = mset (map f (xs @ map snd m))"
    by (simp add: mset_go_range [OF assms(1)])
  with assms(2) show ?thesis using mset_eq_imp_distinct_iff by blast
qed

lemma V1_init_ok:
  assumes bf: "bfrt_ok cl vw" and empty: "\<forall>table ks. svTable vw c table ks = None"
    and ports: "\<forall>l \<in> set (nChildren (node t p)). nDsPort (node t l) \<noteq> None" "\<forall>(k, cn) \<in> set (tClients t). nPort (node t cn) \<noteq> None"
    and ord: "is_order ord" and "scpSpine cp = Some p"
    and ids: "distinct (map (\<lambda>n. nID (node t n)) (nChildren (node t p) @ map snd (tClients t)))"
  obtains c' where "SpineCP_V1_Init cl ord t cp c = Ret c'" "spine_tables vw c' t p"
proof -
  let ?ls = "nChildren (node t p)" and ?ws = "V1_writes ord t p"
  note ids' = range_ids_distinct [OF ord ids]
  note dis = V1_writes_distinct(3) [OF ids', folded V1_writes_def [unfolded Let_def]]
  obtain c' where c': "SpineCP_V1_Init cl ord t cp c = Ret c'" "svTable vw c' = fold written ?ws (svTable vw c)"
    using addsD [OF V1_init_adds [OF bf ports ord assms(6) ids'], of c] empty by blast
  have there: "svTable vw c' tb ks = Some e" if "((tb, ks), e) \<in> set ?ws" for tb ks e
    unfolding c'(2) by (rule written_all [OF dis that])
  have parts: "set ?ws = leaf_fwd t ` set ?ls \<union> client_fwd t ` set (map snd (tClients t)) \<union>
      (\<Union>x \<in> set (enumerate 0 ?ls). set (init_leaf_writes t x)) \<union> {num_leaves_write ?ls} \<union> adjust_write ` {2..<33}"
    unfolding V1_writes_def Let_def set_append set_concat list.set_map set_go_range [OF ord] set_upt list.set by blast
  have fwd: "\<forall>l \<in> set ?ls. leaf_fwd t l \<in> set ?ws" "\<forall>cn \<in> set (map snd (tClients t)). client_fwd t cn \<in> set ?ws"
    "num_leaves_write ?ls \<in> set ?ws" unfolding parts by blast+
  have leaf: "set (init_leaf_writes t (i, ?ls ! i)) \<subseteq> set ?ws" if "i < length ?ls" for i
  proof -
    have "(i, ?ls ! i) \<in> set (enumerate 0 ?ls)" using that by (simp add: in_set_enumerate_eq)
    then show ?thesis unfolding parts by blast
  qed
  have other: "svTable vw c' ''pipe_spine.SpineIngress.forward_horus_switch_dst'' [ExactKey ''hdr.horus.dst_id'' (ucast dst)] = None"
    if "dst \<notin> (nID \<circ> node t) ` set (?ls @ map snd (tClients t))" for dst
  proof -
    have dst: "\<forall>l \<in> set ?ls. dst \<noteq> nID (node t l)" "\<forall>(k, cn) \<in> set (tClients t). dst \<noteq> nID (node t cn)"
      using that by force+
    have "(''pipe_spine.SpineIngress.forward_horus_switch_dst'', [ExactKey ''hdr.horus.dst_id'' (ucast dst)]) \<notin> fst ` set ?ws"
      using dst unfolding parts
      by (auto simp: leaf_fwd_def client_fwd_def fwd_write_def num_leaves_write_def adjust_write_def ucast_64_inj
          leaf_tables_def dest!: init_leaf_writes_tables)
    then show ?thesis unfolding c'(2) using empty by (simp add: written_other)
  qed
  have "spine_tables vw c' t p"
    unfolding spine_tables_def Let_def
  proof (intro conjI allI impI ballI)
    show "svTable vw c' ''pipe_spine.SpineIngress.get_cluster_num_valid_leafs'' [pool_key] =
        Some (''SpineIngress.act_get_cluster_num_valid_leafs'', [BytesData ''num_leafs'' (of_nat (length ?ls))])"
      using fwd(3) by (intro there) (simp add: num_leaves_write_def)
  qed (use fwd(1,2) leaf other in \<open>auto intro!: there simp: leaf_fwd_def client_fwd_def fwd_write_def init_leaf_writes_def Let_def\<close>)
  with c'(1) show ?thesis by (rule that)
qed

lemma start_vcs_ok:
  assumes "\<forall>err. reply \<noteq> Inr (None, err)" and "is_order ord" and "sys_ok t m"
  obtains vcs err m' where "spine_GetVCs_fetch reply = Ret (vcs, err)"
    "(case err of Some _ \<Rightarrow> Ret m | None \<Rightarrow> load_vcs ord t vcs m) = Ret m'" "sys_ok t m'"
proof -
  obtain vcs err where fetch: "spine_GetVCs_fetch reply = Ret (vcs, err)"
  proof (cases reply)
    case (Inr r)
    with assms(1) that show ?thesis by (cases r; cases "fst r") (auto simp: spine_GetVCs_fetch_def)
  qed (use that in \<open>simp add: spine_GetVCs_fetch_def\<close>)
  obtain m' where "load_vcs ord t vcs m = Ret m'" "sys_ok t m'" using load_vcs_ok [OF assms(2,3)] by blast
  with fetch assms(3) that show ?thesis by (cases err) simp_all
qed

text \<open>
  C11: A spine controller that is started on an empty switch comes up: if the central controller sends a topology with
  distinct IDs that has the spine, with clients that have ports and IDs other than the leaves', then whatever clusters
  it sends, or an error, the controller is made and its start returns without meeting an entry that is there already;
  the switch then sends the packets for the leaves and clients, and for nobody else, to their ports and knows the
  number of leaves, their positions and their queue units. From then on, whatever requests come, the state stays
  consistent, and the switch has the leaves of the current topology whenever no change of a leaf is under way.
\<close>

theorem spine_controller_starts:
  fixes mk :: "bfrt_target \<Rightarrow> 'c bfrt"
  assumes bf: "bfrt_ok (mk (ctrl_target cfg (ucast ctrlID) pipeID)) vw" and empty: "\<forall>table ks. svTable vw w table ks = None"
    and built: "NewDCNFromTopoInfo info = Ret t"
    and dist: "distinct (map (\<lambda>sp. ucast (spId sp) :: u16) (tiSpines info))"
      "distinct (map (\<lambda>li. ucast (liId li) :: u16) (info_leaves info))"
      "distinct (map (\<lambda>si. ucast (siId si) :: u16) (concat (map liServers (info_leaves info))))"
    and p: "gm_load (tSpines t) ctrlID = Some p" and ix: "indices_ok t"
    and ids: "distinct (map (\<lambda>n. nID (node t n)) (nChildren (node t p) @ map snd (tClients t)))"
    and ports: "\<forall>(k, cn) \<in> set (tClients t). nPort (node t cn) \<noteq> None"
    and api: "rcControlAPI cfg = ''v1''" and vcs: "\<forall>err. reply \<noteq> Inr (None, err)" and ord: "is_order ord" "is_order oi"
  shows "\<exists>(c :: ('p, 'c) spineController) c' chans'. NewSpineController mk (Inr (Some info, None)) ctrlID pipeID cfg w chans = Ret (c, chans') \<and>
    spine_ctrl_Start ord oi reply c = Ret c' \<and> scoTopology c' = t \<and> spine_tables vw (sbClient (scoBus c')) t p \<and>
    (\<forall>y. (system_step g)\<^sup>*\<^sup>* \<lparr>syServer = NewSpineSrvServer t (scoVcm c'), syEndPoint = spine_Start g o1 o2 (scoEndPoint c'),
          syBus = scoBus c'\<rparr> y \<longrightarrow>
       sys_ok (spTopology (syServer y)) (spVcm (syServer y)) \<and>
       (quiet y \<longrightarrow> spine_maps vw (sbClient (syBus y)) (spine_leaves (spTopology (syServer y)) p)))"
proof -
  let ?cl = "mk (ctrl_target cfg (ucast ctrlID) pipeID)" and ?cp = "NewBfrtSpineCP_V1 (Some p)"
  have ok: "tree_ok t" by (rule NewDCNFromTopoInfo_tree [OF built dist])
  then have wf: "wf_topo t" and sys: "sys_ok t NewVCManager" by (simp_all add: sys_ok_def tree_ok_def NewVCManager_wf)
  have "\<forall>l \<in> set (nChildren (node t p)). nDsPort (node t l) \<noteq> None"
    using wf_spine [OF wf p] wf_leaf [OF wf] by (fastforce simp: spine_ok_def leaf_ok_def)
  from V1_init_ok [OF bf empty this ports ord(2), of ?cp] ids obtain w' where
    w': "SpineCP_V1_Init ?cl oi t ?cp w = Ret w'" "spine_tables vw w' t p" by (auto simp: NewBfrtSpineCP_V1_def)
  obtain vi err m where m: "spine_GetVCs_fetch reply = Ret (vi, err)"
    "(case err of Some _ \<Rightarrow> Ret NewVCManager | None \<Rightarrow> load_vcs ord t vi NewVCManager) = Ret m" "sys_ok t m"
    by (rule start_vcs_ok [OF vcs ord(1) sys])
  define c :: "('p, 'c) spineController" where "c = \<lparr>scoID = ctrlID, scoTopology = t, scoVcm = NewVCManager, scoEndPoint = NewSpineRpcEndpoint t,
    scoBus = NewSpineBus ctrlID (SpineCP_of_V1 ?cl ?cp) w, scoAsicIngress = Suc (length chans), scoAsicEgress = length chans\<rparr>"
  define c' where "c' = c\<lparr>scoVcm := m, scoBus := (scoBus c)\<lparr>sbClient := w'\<rparr>\<rparr>"
  have parts: "scoTopology c = t" "scoVcm c = NewVCManager" "sbClient (scoBus c) = w"
    "spcpInit (sbCp (scoBus c)) oi t w = Ret w'" using w'(1) by (simp_all add: c_def NewSpineBus_def SpineCP_of_V1_def)
  have "\<exists>chans'. NewSpineController mk (Inr (Some info, None)) ctrlID pipeID cfg w chans = Ret (c, chans')"
    by (simp add: NewSpineController_def spine_GetTopology_fetch_def built p spine_cp_def api make_chan_def c_def)
  moreover have "spine_ctrl_Start ord oi reply c = Ret c'"
    unfolding spine_ctrl_Start_def m(1) go_bind.simps prod.case parts m(2) c'_def ..
  moreover have c': "scoTopology c' = t" "scoVcm c' = m" "sbClient (scoBus c') = w'" "sbCp (scoBus c') = SpineCP_of_V1 ?cl ?cp"
    by (simp_all add: c_def c'_def NewSpineBus_def)
  let ?y = "\<lparr>syServer = NewSpineSrvServer t (scoVcm c'), syEndPoint = spine_Start g o1 o2 (scoEndPoint c'), syBus = scoBus c'\<rparr>"
  have "system_ok ?cl vw p ?y"
    using m(3) ix p spine_tables_maps [OF w'(2) wf p ix] by (auto simp: system_ok_def NewSpineSrvServer_def c'(2-4))
  with bf have "system_inv ?cl vw p {} ?y" by (simp add: system_inv_def)
  then have "system_ok ?cl vw p y" if "(system_step g)\<^sup>*\<^sup>* ?y y" for y
    using sy.reachable [OF that, of ?cl vw p "{}"] by (simp add: system_inv_def)
  then have "\<forall>y. (system_step g)\<^sup>*\<^sup>* ?y y \<longrightarrow> sys_ok (spTopology (syServer y)) (spVcm (syServer y)) \<and>
      (quiet y \<longrightarrow> spine_maps vw (sbClient (syBus y)) (spine_leaves (spTopology (syServer y)) p))"
    unfolding system_ok_def by blast
  moreover have "spine_tables vw (sbClient (scoBus c')) t p" unfolding c'(3) by (rule w'(2))
  ultimately show ?thesis using c'(1) by blast
qed

lemma start_info_spine:
  "\<exists>s. NewDCNFromTopoInfo start_info = Ret s \<and> gm_load (tSpines s) 0 = Some 1 \<and> nChildren (node s 1) = [2] \<and>
     tClients s = [] \<and> indices_ok s"
  by (simp add: NewDCNFromTopoInfo_def NewAsicRegistryFromInfo_def start_info_def Let_def
      add_asic_info_def NewAsicFromInfo_def NewPortRegistryFromInfo_def add_port_config_def
      sample_info_config info_portConfig_def add_port_info_def add_port_def sample_spec_ids gm_eval)
    (simp add: empty_topology_def FindPort_def FindAsic_def asic_def
         build_root_def build_spine_def info_spine_def build_leaf_def info_leaf_def info_server_def
         build_server_def Let_def topo_eval gm_eval NewLeaf_def NewServer_def NewSpine_def zero_Node_def indices_ok_def)

theorem spine_controller_starts_witness:
  "\<exists>(c :: (string, sw) spineController) c' chans'. NewSpineController (\<lambda>_. sw_client) (Inr (Some start_info, None)) 0 0 (lcCfg start_ctrl) empty_sw [] = Ret (c, chans') \<and>
     spine_ctrl_Start stored_order stored_order (Inl (ErrMsg ''unreachable'')) c = Ret c' \<and> 
     fst (sbClient (scoBus c')) ''pipe_spine.SpineIngress.get_cluster_num_valid_leafs'' [pool_key] =
       Some (''SpineIngress.act_get_cluster_num_valid_leafs'', [BytesData ''num_leafs'' 1])"
proof -
  obtain t where t: "NewDCNFromTopoInfo start_info = Ret t" "gm_load (tSpines t) 0 = Some 1" "nChildren (node t 1) = [2]"
    "tClients t = []" "indices_ok t" using start_info_spine by blast
  have dist: "distinct (map (\<lambda>sp. ucast (spId sp) :: u16) (tiSpines start_info))"
    "distinct (map (\<lambda>li. ucast (liId li) :: u16) (info_leaves start_info))"
    "distinct (map (\<lambda>si. ucast (siId si) :: u16) (concat (map liServers (info_leaves start_info))))"
    by (simp_all add: start_info_def info_leaves_def Let_def)
  have empty: "\<forall>table ks. svTable sw_view empty_sw table ks = None" by (simp add: sw_view_def empty_sw_def)
  have ids: "distinct (map (\<lambda>n. nID (node t n)) (nChildren (node t 1) @ map snd (tClients t)))"
    "\<forall>(k, cn) \<in> set (tClients t). nPort (node t cn) \<noteq> None" "rcControlAPI (lcCfg start_ctrl) = ''v1''"
    unfolding t by (simp_all add: start_ctrl_def NewBareLeafController_def make_chan_def)
  from spine_controller_starts [where mk = "\<lambda>_. sw_client" and vw = sw_view and ord = stored_order and oi = stored_order
      and reply = "Inl (ErrMsg ''unreachable'')" and pipeID = 0 and chans = "[]" and g = good_net
      and ?o1.0 = stored_order and ?o2.0 = stored_order, OF sw_ok empty t(1) dist t(2,5) ids]
  obtain c :: "(string, sw) spineController" and c' chans' where run: "NewSpineController (\<lambda>_. sw_client) (Inr (Some start_info, None)) 0 0 (lcCfg start_ctrl) empty_sw [] = Ret (c, chans')"
    "spine_ctrl_Start stored_order stored_order (Inl (ErrMsg ''unreachable'')) c = Ret c'" "spine_tables sw_view (sbClient (scoBus c')) t 1" by auto
  have "fst (sbClient (scoBus c')) ''pipe_spine.SpineIngress.get_cluster_num_valid_leafs'' [pool_key] =
      Some (''SpineIngress.act_get_cluster_num_valid_leafs'', [BytesData ''num_leafs'' 1])"
    using run(3) unfolding spine_tables_def Let_def t(3) by (simp add: sw_view_def)
  with run(1,2) show ?thesis by blast
qed

end
