(* ===== verification/Topo_Debug.thy ===== *)
theory Topo_Debug
  imports Topology_Correct
begin

text \<open>
  \<open>Topology.Debug\<close> (core/model/topology.go), which the handlers of the event buses call: what matters of it is that
  it reads through pointers and walks the tree with a stack. The other definitions leave the call out; this theory
  shows that it returns on every well-formed topology.
\<close>

section \<open>The walk\<close>

text \<open>The pointers that the log line of a node needs. A node of another type has no line.\<close>

definition Debug_node :: "Topology \<Rightarrow> nref \<Rightarrow> unit go" where
  "Debug_node t r =
     (let n = node t r in
      if nType n = NodeType_Spine then deref (nAsic n) (\<lambda>_. Ret ())
      else if nType n = NodeType_Leaf then
        deref (nAsic n) (\<lambda>_. deref (nDsPort n) (\<lambda>_. deref (nUsPort n) (\<lambda>_. Ret ())))
      else if nType n = NodeType_Server then deref (nPort n) (\<lambda>_. Ret ())
      else Ret ())"

text \<open>
  The top of the stack is the last element; the children are pushed from the last to the first. The result lists the
  nodes in the order in which they are visited.
\<close>

partial_function (option) Debug_walk :: "Topology \<Rightarrow> nref list \<Rightarrow> nref list \<Rightarrow> nref list go option" where
  "Debug_walk t stack visited =
     (if stack = [] then Some (Ret visited)
      else (case Debug_node t (List.last stack) of
              Ret _ \<Rightarrow> Debug_walk t (butlast stack @ rev (nChildren (node t (List.last stack)))) (visited @ [List.last stack])
            | Panic \<Rightarrow> Some Panic
            | Fatal \<Rightarrow> Some Fatal))"

definition Debug :: "order \<Rightarrow> Topology \<Rightarrow> nref list go option" where
  "Debug ord t =
     (case go_fold (\<lambda>(_, client) _. deref (nPort (node t client)) (\<lambda>_. Ret ())) (go_range ord (tClients t)) () of
        Ret _ \<Rightarrow> (case tRoot t of None \<Rightarrow> Some Panic | Some root \<Rightarrow> Debug_walk t [root] [])
      | Panic \<Rightarrow> Some Panic
      | Fatal \<Rightarrow> Some Fatal)"

section \<open>It returns\<close>

lemma Debug_walk_step:
  "Debug_node t r = Ret () \<Longrightarrow> Debug_walk t (stack @ [r]) vs = Debug_walk t (stack @ rev (nChildren (node t r))) (vs @ [r])"
  by (subst Debug_walk.simps) simp

lemma Debug_walk_done: "Debug_walk t [] vs = Some (Ret vs)"
  by (subst Debug_walk.simps) simp

text \<open>Subtrees whose walk is known, one after the other.\<close>

lemma Debug_walk_list:
  assumes "\<And>r stack vs. r \<in> set rs \<Longrightarrow> Debug_walk t (stack @ [r]) vs = Debug_walk t stack (vs @ f r)"
  shows "Debug_walk t (stack @ rev rs) vs = Debug_walk t stack (vs @ concat (map f rs))"
  using assms
proof (induction rs arbitrary: vs)
  case (Cons r rs)
  have "Debug_walk t (stack @ rev (r # rs)) vs = Debug_walk t (stack @ rev rs) (vs @ f r)"
    using Cons.prems [of r "stack @ rev rs" vs] by simp
  also have "\<dots> = Debug_walk t stack ((vs @ f r) @ concat (map f rs))" using Cons by simp
  finally show ?case by simp
qed simp

definition no_grandchildren :: "Topology \<Rightarrow> bool" where
  "no_grandchildren t \<longleftrightarrow> (\<forall>k r. gm_load (tServers t) k = Some r \<longrightarrow> nChildren (node t r) = [])"

lemma walk_leaf:
  assumes wf: "wf_topo t" and leafless: "no_grandchildren t" and l: "gm_load (tLeaves t) k = Some l"
  shows "Debug_walk t (stack @ [l]) vs = Debug_walk t stack (vs @ l # nChildren (node t l))"
proof -
  have "Debug_node t l = Ret ()" using wf_leaf [OF wf l] by (auto simp: Debug_node_def Let_def leaf_ok_def)
  moreover have "Debug_walk t (stack' @ [c]) us = Debug_walk t stack' (us @ [c])" if "c \<in> set (nChildren (node t l))" for c stack' us
  proof -
    have c: "gm_load (tServers t) (nID (node t c)) = Some c" using wf_child [OF wf l that] by simp
    have "Debug_node t c = Ret ()" using wf_server [OF wf c] by (auto simp: Debug_node_def Let_def server_ok_def)
    moreover have "nChildren (node t c) = []" using leafless c by (simp add: no_grandchildren_def)
    ultimately show ?thesis by (simp add: Debug_walk_step)
  qed
  ultimately show ?thesis
    using Debug_walk_list [of "nChildren (node t l)" t "\<lambda>c. [c]" stack "vs @ [l]"] by (simp add: Debug_walk_step)
qed

lemma walk_spine:
  assumes wf: "wf_topo t" and leafless: "no_grandchildren t" and p: "gm_load (tSpines t) k = Some p"
    and asic: "nAsic (node t p) \<noteq> None"
  shows "Debug_walk t (stack @ [p]) vs =
    Debug_walk t stack (vs @ p # concat (map (\<lambda>l. l # nChildren (node t l)) (nChildren (node t p))))"
proof -
  have "Debug_node t p = Ret ()" using wf_spine [OF wf p] asic by (auto simp: Debug_node_def Let_def spine_ok_def)
  then show ?thesis
    using Debug_walk_list [of "nChildren (node t p)" t "\<lambda>l. l # nChildren (node t l)" stack "vs @ [p]"]
      walk_leaf [OF wf leafless wf_leaf_child(1) [OF wf p]] by (simp add: Debug_walk_step)
qed

text \<open>
  The debug output of a well-formed topology ends: it visits the root and then every spine, every leaf of it and
  every server of the leaf, once each and in the order of the tree, and reads no nil pointer, if the clients have
  ports, the spines under the root have ASICs and nothing hangs below a server.
\<close>

theorem Debug_visits_tree:
  assumes wf: "wf_topo t" and root: "tRoot t = Some root" "nType (node t root) = NodeType_Core"
    and spines: "\<forall>p \<in> set (nChildren (node t root)). gm_load (tSpines t) (nID (node t p)) = Some p \<and> nAsic (node t p) \<noteq> None"
    and leafless: "no_grandchildren t" and clients: "\<forall>(k, c) \<in> set (tClients t). nPort (node t c) \<noteq> None" and ord: "is_order ord"
  shows "Debug ord t = Some (Ret (root # concat (map (\<lambda>p. p # concat (map (\<lambda>l. l # nChildren (node t l)) (nChildren (node t p))))
    (nChildren (node t root)))))"
proof -
  let ?client = "\<lambda>(_ :: u16, client) (_ :: unit). deref (nPort (node t client)) (\<lambda>_. Ret ())"
  have "go_fold ?client cs () = Ret ()" if "\<forall>(k, c) \<in> set cs. nPort (node t c) \<noteq> None" for cs
    using that by (induction cs) auto
  from this [of "go_range ord (tClients t)"] have "go_fold ?client (go_range ord (tClients t)) () = Ret ()"
    using clients ord by simp
  moreover have "Debug_node t root = Ret ()" using root(2) by (simp add: Debug_node_def Let_def)
  then have "Debug_walk t [root] [] = Debug_walk t (rev (nChildren (node t root))) [root]"
    using Debug_walk_step [of t root "[]" "[]"] by simp
  moreover have "Debug_walk t (stack @ [p]) vs =
      Debug_walk t stack (vs @ p # concat (map (\<lambda>l. l # nChildren (node t l)) (nChildren (node t p))))"
    if "p \<in> set (nChildren (node t root))" for p stack vs
    using walk_spine [OF wf leafless] spines that by blast
  from Debug_walk_list [OF this, of "nChildren (node t root)" "[]" "[root]"]
  have "Debug_walk t (rev (nChildren (node t root))) [root] = Some (Ret (root # concat (map (\<lambda>p. p # concat (map
      (\<lambda>l. l # nChildren (node t l)) (nChildren (node t p)))) (nChildren (node t root)))))"
    by (simp add: Debug_walk_done)
  ultimately show ?thesis using root(1) by (simp add: Debug_def)
qed

text \<open>\<open>sample\<close> with its spine below the root.\<close>

definition rooted :: Topology where
  "rooted = upd_node 0 (\<lambda>n. n\<lparr>nChildren := [1]\<rparr>) sample"

lemma rooted_wf: "wf_topo rooted"
  by (simp add: rooted_def wf_topo_code server_ok_def leaf_ok_def spine_ok_def sample_eval)

theorem Debug_visits_tree_witness: "Debug stored_order rooted = Some (Ret [0, 1, 2, 3, 4, 5, 6])"
proof -
  have "tRoot rooted = Some 0" "nType (node rooted 0) = NodeType_Core" "nChildren (node rooted 0) = [1]"
    "\<forall>p \<in> set (nChildren (node rooted 0)). gm_load (tSpines rooted) (nID (node rooted p)) = Some p \<and> nAsic (node rooted p) \<noteq> None"
    "\<forall>(k, c) \<in> set (tClients rooted). nPort (node rooted c) \<noteq> None" "nChildren (node rooted 1) = [2, 5]"
    "nChildren (node rooted 2) = [3, 4]" "nChildren (node rooted 5) = [6]" by (simp_all add: rooted_def sample_eval)
  moreover have "no_grandchildren rooted"
    by (auto simp: no_grandchildren_def rooted_def sample_eval split: if_splits)
  ultimately show ?thesis using Debug_visits_tree [OF rooted_wf, of 0 stored_order] by simp
qed

end
