(* ===== verification/Sockets.thy ===== *)
theory Sockets
  imports Horus_Prelude
begin

text \<open>
  The socket clients (core/net/raw\_sock\_client.go, core/net/unix\_sock\_client.go): connecting with a bounded
  number of trials, and the three loops of a client, reading into a channel, writing from one, and connecting
  again. One turn of a loop is one step.

  The operating system is an argument: the interface that a name has, what the n-th trial to connect, a
  \<open>ReadFrom\<close> or \<open>Read\<close> and a \<open>WriteTo\<close> or \<open>Write\<close> come to. Pauses are left out.
\<close>

section \<open>Connecting\<close>

type_synonym bytes8 = "8 word list"

definition MaximumConnectionTrialCount :: nat where
  "MaximumConnectionTrialCount = 10"

text \<open>The trials that are left, the number of the next one, and the error so far.\<close>

fun connect_trials ::
  "(nat \<Rightarrow> go_error + 'k) \<Rightarrow> nat \<Rightarrow> nat \<Rightarrow> go_error option \<Rightarrow> 'k option \<times> go_error option" where
  "connect_trials dial 0 trialCount err = (None, err)"
| "connect_trials dial (Suc n) trialCount err =
     (case dial trialCount of
        Inl e \<Rightarrow> connect_trials dial n (Suc trialCount) (Some e)
      | Inr conn \<Rightarrow> (Some conn, None))"

text \<open>A client of either kind. \<open>skWritten\<close> is what has gone out; a writer may have ended.\<close>

record 'k sock_client =
  skName :: string
  skIfi :: "nat option"
  skConn :: "'k option"
  skSend :: "bytes8 list"
  skRecv :: "bytes8 list"
  skFirstConnect :: bool
  skConnected :: bool
  skWriting :: bool
  skWritten :: "bytes8 list"

definition new_sock_client :: "string \<Rightarrow> 'k sock_client" where
  "new_sock_client name =
     \<lparr>skName = name, skIfi = None, skConn = None, skSend = [], skRecv = [], skFirstConnect = False,
      skConnected = False, skWriting = True, skWritten = []\<rparr>"

definition sock_connect :: "(nat \<Rightarrow> go_error + 'k) \<Rightarrow> 'k sock_client \<Rightarrow> 'k sock_client \<times> go_error option" where
  "sock_connect dial s =
     (case connect_trials dial MaximumConnectionTrialCount 0 None of
        (Some conn, err) \<Rightarrow> (s\<lparr>skConn := Some conn, skFirstConnect := True, skConnected := True\<rparr>, err)
      | (None, err) \<Rightarrow> (s\<lparr>skConn := None\<rparr>, err))"

section \<open>Raw sockets\<close>

definition NewRawSockClient :: "string \<Rightarrow> 'k sock_client" where
  "NewRawSockClient ifName = new_sock_client ifName"

text \<open>\<open>ifc\<close>: the MTU of the interface.\<close>

definition raw_Connect ::
  "(string \<Rightarrow> go_error + nat) \<Rightarrow> (nat \<Rightarrow> go_error + 'k) \<Rightarrow> 'k sock_client \<Rightarrow> 'k sock_client \<times> go_error option" where
  "raw_Connect ifc dial rsc =
     (case ifc (skName rsc) of
        Inl err \<Rightarrow> (rsc\<lparr>skIfi := None\<rparr>, Some err)
      | Inr mtu \<Rightarrow> sock_connect dial (rsc\<lparr>skIfi := Some mtu\<rparr>))"

text \<open>Any error of a read ends the process, so the code that closes the connection is never reached.\<close>

definition raw_reader :: "go_error + bytes8 \<Rightarrow> 'k sock_client \<Rightarrow> 'k sock_client go" where
  "raw_reader res rsc =
     (if skConnected rsc
      then (case res of
              Inl _ \<Rightarrow> Fatal
            | Inr msg \<Rightarrow> Ret (rsc\<lparr>skRecv := skRecv rsc @ [take (case skIfi rsc of Some mtu \<Rightarrow> mtu | None \<Rightarrow> 1500) msg]\<rparr>))
      else Ret rsc)"

text \<open>An error of a write ends the loop; a message that is taken while there is no connection is lost.\<close>

definition raw_writer :: "go_error option \<Rightarrow> 'k sock_client \<Rightarrow> 'k sock_client" where
  "raw_writer res rsc =
     (case skSend rsc of
        [] \<Rightarrow> rsc
      | b # bs \<Rightarrow>
          if \<not> skWriting rsc then rsc
          else if skConnected rsc
          then (case res of
                  Some _ \<Rightarrow> rsc\<lparr>skSend := bs, skWriting := False\<rparr>
                | None \<Rightarrow> rsc\<lparr>skSend := bs, skWritten := skWritten rsc @ [b]\<rparr>)
          else rsc\<lparr>skSend := bs\<rparr>)"

definition raw_reconnect :: "(string \<Rightarrow> go_error + nat) \<Rightarrow> (nat \<Rightarrow> go_error + 'k) \<Rightarrow> 'k sock_client \<Rightarrow> 'k sock_client" where
  "raw_reconnect ifc dial rsc = (if skConnected rsc then rsc else fst (raw_Connect ifc dial rsc))"

section \<open>Unix sockets\<close>

definition NewUnixSockClient :: "string \<Rightarrow> 'k sock_client" where
  "NewUnixSockClient sockName = new_sock_client sockName"

definition unix_Connect :: "(nat \<Rightarrow> go_error + 'k) \<Rightarrow> 'k sock_client \<Rightarrow> 'k sock_client \<times> go_error option" where
  "unix_Connect dial usc = sock_connect dial usc"

definition io_EOF :: go_error where
  "io_EOF = ErrMsg ''EOF''"

definition unix_reader :: "go_error + bytes8 \<Rightarrow> 'k sock_client \<Rightarrow> 'k sock_client" where
  "unix_reader res usc =
     (if skConnected usc
      then (case res of
              Inl err \<Rightarrow> if err = io_EOF then usc\<lparr>skConnected := False\<rparr> else usc
            | Inr msg \<Rightarrow> usc\<lparr>skRecv := skRecv usc @ [take 1024 msg]\<rparr>)
      else usc)"

text \<open>An error of a write is dropped with the message.\<close>

definition unix_writer :: "go_error option \<Rightarrow> 'k sock_client \<Rightarrow> 'k sock_client" where
  "unix_writer res usc =
     (case skSend usc of
        [] \<Rightarrow> usc
      | b # bs \<Rightarrow>
          if skConnected usc \<and> res = None then usc\<lparr>skSend := bs, skWritten := skWritten usc @ [b]\<rparr>
          else usc\<lparr>skSend := bs\<rparr>)"

definition unix_reconnect :: "(nat \<Rightarrow> go_error + 'k) \<Rightarrow> 'k sock_client \<Rightarrow> 'k sock_client" where
  "unix_reconnect dial usc = (if skConnected usc then usc else fst (unix_Connect dial usc))"

section \<open>What connecting comes to\<close>

text \<open>The first trial that works counts; without one the last error is returned.\<close>

lemma connect_trials_success:
  assumes "i < n" and "dial (k + i) = Inr c" and "\<forall>j < i. \<forall>d. dial (k + j) \<noteq> Inr d"
  shows "connect_trials dial n k err = (Some c, None)"
  using assms
proof (induction n arbitrary: k i err)
  case (Suc n)
  show ?case
  proof (cases i)
    case (Suc i')
    obtain e where "dial k = Inl e" using Suc.prems(3) Suc by (cases "dial k") auto
    moreover have "connect_trials dial n (Suc k) (Some e) = (Some c, None)" for e
      by (rule Suc.IH [of i']) (use Suc.prems Suc in auto)
    ultimately show ?thesis by simp
  qed (use Suc.prems in simp)
qed simp

lemma connect_trials_failure:
  assumes "\<forall>i < n. \<forall>c. dial (k + i) \<noteq> Inr c"
  shows "\<exists>e. connect_trials dial n k (Some err) = (None, Some e)"
  using assms
proof (induction n arbitrary: k err)
  case (Suc n)
  obtain e where "dial k = Inl e" using Suc.prems by (cases "dial k") auto
  moreover have "\<exists>e'. connect_trials dial n (Suc k) (Some e) = (None, Some e')" by (rule Suc.IH) (use Suc.prems in auto)
  ultimately show ?case by simp
qed simp

text \<open>
  A client connects if and only if one of the ten trials works, and then it has the connection of the first one
  that does; it reports an error exactly if it is not connected.
\<close>

theorem connect_first_success:
  assumes "\<not> skConnected s"
  shows "(skConnected (fst (unix_Connect dial s)) \<longleftrightarrow> (\<exists>i < 10. \<exists>c. dial i = Inr c)) \<and>
    (snd (unix_Connect dial s) = None \<longleftrightarrow> skConnected (fst (unix_Connect dial s))) \<and>
    (\<forall>c i. i < 10 \<longrightarrow> dial i = Inr c \<longrightarrow> (\<forall>j < i. \<forall>d. dial j \<noteq> Inr d) \<longrightarrow> skConn (fst (unix_Connect dial s)) = Some c)"
proof (cases "\<exists>i < 10. \<exists>c. dial i = Inr c")
  case True
  then have "\<exists>i. i < 10 \<and> (\<exists>c. dial i = Inr c)" by blast
  then obtain i where least: "i < 10 \<and> (\<exists>c. dial i = Inr c)" "\<forall>j < i. \<not> (j < 10 \<and> (\<exists>c. dial j = Inr c))"
    using exists_least_iff [of "\<lambda>i. i < 10 \<and> (\<exists>c. dial i = Inr c)"] by blast
  then obtain c where i: "i < 10" "dial i = Inr c" "\<forall>j < i. \<forall>d. dial j \<noteq> Inr d"
    by (meson order.strict_trans)
  have run: "unix_Connect dial s = (s\<lparr>skConn := Some c, skFirstConnect := True, skConnected := True\<rparr>, None)"
    using connect_trials_success [of i 10 dial 0 c None] i
    by (simp add: unix_Connect_def sock_connect_def MaximumConnectionTrialCount_def)
  have "d = c" if "dial j = Inr d" "\<forall>j' < j. \<forall>d. dial j' \<noteq> Inr d" for j d
  proof -
    have "j = i" using that i by (metis linorder_neqE_nat)
    with that(1) i(2) show ?thesis by simp
  qed
  with True show ?thesis by (auto simp: run)
next
  case False
  obtain e where 0: "dial 0 = Inl e" using False by (cases "dial 0") auto
  have "\<exists>e'. connect_trials dial 9 (Suc 0) (Some e) = (None, Some e')"
    by (rule connect_trials_failure) (use False in auto)
  then obtain e' where "connect_trials dial 10 0 None = (None, Some e')"
    using 0 by (auto simp: numeral_eq_Suc)
  then have run: "unix_Connect dial s = (s\<lparr>skConn := None\<rparr>, Some e')"
    by (simp add: unix_Connect_def sock_connect_def MaximumConnectionTrialCount_def)
  from False assms show ?thesis by (auto simp: run)
qed

section \<open>The loops\<close>

text \<open>The turns of the loops of a raw client in any order, and the controller that fills the channel.\<close>

datatype 'k raw_event =
    RawRead "go_error + bytes8"
  | RawWrite "go_error option"
  | RawReconnect "string \<Rightarrow> go_error + nat" "nat \<Rightarrow> go_error + 'k"
  | RawPut bytes8

fun raw_turn :: "'k raw_event \<Rightarrow> 'k sock_client \<Rightarrow> 'k sock_client go" where
  "raw_turn (RawRead res) s = raw_reader res s"
| "raw_turn (RawWrite res) s = Ret (raw_writer res s)"
| "raw_turn (RawReconnect ifc dial) s = Ret (raw_reconnect ifc dial s)"
| "raw_turn (RawPut msg) s = Ret (s\<lparr>skSend := skSend s @ [msg]\<rparr>)"

lemma sock_connect_frame [simp]:
  "skSend (fst (sock_connect dial s)) = skSend s" "skRecv (fst (sock_connect dial s)) = skRecv s"
  "skWriting (fst (sock_connect dial s)) = skWriting s" "skWritten (fst (sock_connect dial s)) = skWritten s"
  by (simp_all add: sock_connect_def split: prod.split option.split)

lemma raw_reconnect_frame [simp]:
  "skSend (raw_reconnect ifc dial s) = skSend s" "skRecv (raw_reconnect ifc dial s) = skRecv s"
  "skWriting (raw_reconnect ifc dial s) = skWriting s" "skWritten (raw_reconnect ifc dial s) = skWritten s"
  by (simp_all add: raw_reconnect_def raw_Connect_def split: sum.split)

text \<open>
  Once a write has failed, the client never writes again, whatever happens: every packet that a controller sends
  stays in the channel.
\<close>

theorem failed_writer_is_silent:
  assumes "\<not> skWriting s" and "go_fold raw_turn turns s = Ret s'"
  shows "skWritten s' = skWritten s \<and> skSend s' = skSend s @ concat (map (\<lambda>tn. case tn of RawPut msg \<Rightarrow> [msg] | _ \<Rightarrow> []) turns)"
  using assms
proof (induction turns arbitrary: s)
  case (Cons tn turns)
  from Cons.prems(2) obtain s1 where 1: "raw_turn tn s = Ret s1" "go_fold raw_turn turns s1 = Ret s'" by auto
  have "skWritten s1 = skWritten s" "skWriting s1 = skWriting s"
    "skSend s1 = skSend s @ (case tn of RawPut msg \<Rightarrow> [msg] | _ \<Rightarrow> [])"
    using 1(1) Cons.prems(1) by (cases tn; auto simp: raw_reader_def raw_writer_def split: if_splits sum.splits list.splits)+
  with Cons.IH [of s1] 1(2) Cons.prems(1) show ?case by simp
qed simp

end
