(* ===== verification/Config_Files.thy ===== *)
theory Config_Files
  imports Node_Controllers
begin

text \<open>
  Reading the configuration files: core/model/config.go for the central controller, ctrl\_mgr/config.go for the
  manager of a switch, and the start of the central controller from its three files.

  viper, which finds and decodes a file, is an argument: for the name and the paths to search, or for a given
  file, an error or the content. A section that cannot be decoded still has what viper has stored of it.
\<close>

section \<open>viper\<close>

datatype config_source =
    ConfigName string "string list"
  | ConfigFile string

record config_content =
  cnString :: "string \<Rightarrow> string"
  cnUint32 :: "string \<Rightarrow> u32"
  cnInt64 :: "string \<Rightarrow> u64"
  cnTopology :: "topoConfig \<times> go_error option"
  cnPorts :: "(portConfig list \<times> portGroup list) \<times> go_error option"
  cnAsics :: "asicConfig list \<times> go_error option"
  cnVCs :: "VCInfo list \<times> go_error option"
  cnSpines :: "SpineConfig list \<times> go_error option"
  cnLeaves :: "LeafConfig list \<times> go_error option"

type_synonym viper = "config_source \<Rightarrow> go_error + config_content"

definition ReadInConfig :: "viper \<Rightarrow> config_source \<Rightarrow> config_content go" where
  "ReadInConfig vip src = (case vip src of Inl _ \<Rightarrow> Fatal | Inr c \<Rightarrow> Ret c)"

text \<open>\<open>UnmarshalKey\<close>: the error is logged and dropped.\<close>

definition UnmarshalKey :: "'a \<times> go_error option \<Rightarrow> 'a" where
  "UnmarshalKey d = fst d"

section \<open>The files of the central controller\<close>

record BinRootConfig =
  bcSrvServer :: string
  bcLogLevel :: string

definition setCommonPaths :: "string \<Rightarrow> string list \<Rightarrow> config_source" where
  "setCommonPaths configName configPaths =
     ConfigName configName ([''/etc/horus/'', ''$HOME/.horus'', ''.'', ''./conf''] @ configPaths)"

text \<open>The name that is passed is not used; it is an argument here as well.\<close>

definition ReadConfigFile :: "viper \<Rightarrow> string \<Rightarrow> string list \<Rightarrow> BinRootConfig go" where
  "ReadConfigFile vip configName configPaths =
     go_bind (ReadInConfig vip (setCommonPaths ''horus-ctrl-central'' configPaths)) (\<lambda>c.
       Ret \<lparr>bcSrvServer = cnString c ''server.srvAddress'', bcLogLevel = cnString c ''log.level''\<rparr>)"

definition ReadTopologyFile :: "viper \<Rightarrow> string \<Rightarrow> string list \<Rightarrow> topoRootConfig go" where
  "ReadTopologyFile vip configName configPaths =
     go_bind (ReadInConfig vip (setCommonPaths ''horus-topology'' configPaths)) (\<lambda>c.
       let topCfg = UnmarshalKey (cnTopology c); portCfg = UnmarshalKey (cnPorts c); asicsCfg = UnmarshalKey (cnAsics c)
       in Ret \<lparr>trTopo = topCfg, trAsics = asicsCfg, trPortConfig = fst portCfg, trPortGroup = snd portCfg\<rparr>)"

definition ReadVCsFile :: "viper \<Rightarrow> string \<Rightarrow> string list \<Rightarrow> (VCInfo list) go" where
  "ReadVCsFile vip configName configPaths =
     go_bind (ReadInConfig vip (setCommonPaths ''horus-vcs'' configPaths)) (\<lambda>c. Ret (UnmarshalKey (cnVCs c)))"

text \<open>The beginning of \<open>NewCentralController\<close>, and the program in cmd/centralized/main.go up to its endless wait.\<close>

definition central_configured ::
  "viper \<Rightarrow> order \<Rightarrow> 'w \<Rightarrow> (BinRootConfig \<times> ('p, 'w) centralController) go" where
  "central_configured vip ord w =
     go_bind (ReadConfigFile vip [] []) (\<lambda>binCfg.
     go_bind (ReadTopologyFile vip [] []) (\<lambda>topoCfg.
     go_bind (ReadVCsFile vip [] []) (\<lambda>vcsConf.
     go_bind (NewCentralController ord topoCfg vcsConf w) (\<lambda>cc. Ret (binCfg, cc)))))"

definition central_main :: "'w port_api \<Rightarrow> viper \<Rightarrow> order \<Rightarrow> order \<Rightarrow> (string \<Rightarrow> order) \<Rightarrow> 'w \<Rightarrow> ('w CentralBus) go" where
  "central_main api vip vord ord oi w =
     go_bind (central_configured vip vord w) (\<lambda>(_, cc :: (unit, 'w) centralController). central_Run api ord oi (ccBus cc))"

section \<open>The file of the manager\<close>

definition mgr_source :: "string \<Rightarrow> string list \<Rightarrow> config_source" where
  "mgr_source configName configPaths =
     (if configName \<noteq> [] then ConfigFile configName
      else ConfigName ''horus-ctrl-sw'' ([''/etc/horus/'', ''$HOME/.horus'', ''.'', ''./conf''] @ configPaths))"

definition mgr_ReadConfigFile :: "viper \<Rightarrow> string \<Rightarrow> string list \<Rightarrow> rootConfig go" where
  "mgr_ReadConfigFile vip configName configPaths =
     go_bind (ReadInConfig vip (mgr_source configName configPaths)) (\<lambda>c.
       Ret \<lparr>rcDeviceID = cnUint32 c ''asic.device_id'', rcP4Name = cnString c ''asic.program'',
            rcBfrtAddress = cnString c ''bfrt.address'', rcRemoteSrvServer = cnString c ''centralized.srvAddress'',
            rcMgmtAddress = cnString c ''controllers.mgmtAddress'', rcSpines = UnmarshalKey (cnSpines c),
            rcLeaves = UnmarshalKey (cnLeaves c), rcTimeout = cnInt64 c ''controllers.timeout'',
            rcControlAPI = cnString c ''controllers.controlAPI'', rcLogLevel = cnString c ''log.level'',
            rcAsicIntf = cnString c ''asic.intf''\<rparr>)"

section \<open>What a bad section does\<close>

text \<open>
  The controllers start from whatever a file has: an error in a section is only logged, so a section that cannot be
  decoded at all starts a central controller without any spine, leaf or server.
\<close>

theorem bad_topology_starts_empty:
  assumes "vip (setCommonPaths ''horus-ctrl-central'' []) = Inr b" and "vip (setCommonPaths ''horus-topology'' []) = Inr c"
    and "vip (setCommonPaths ''horus-vcs'' []) = Inr v"
    and "cnTopology c = (\<lparr>tcClients = [], tcSpines = [], tcLeaves = [], tcServers = []\<rparr>, Some e1)"
    and "cnPorts c = (([], []), Some e2)" and "cnAsics c = ([], Some e3)" and "cnVCs v = ([], Some e4)"
  shows "\<exists>t. central_main api vip vord ord oi w = Ret \<lparr>cbCps = [], cbTopology = t, cbWorld = w\<rparr> \<and>
    tSpines t = [] \<and> tLeaves t = [] \<and> tServers t = []"
  by (simp add: assms central_main_def central_configured_def ReadConfigFile_def ReadTopologyFile_def ReadVCsFile_def
      ReadInConfig_def UnmarshalKey_def NewCentralController_def load_vcs_def new_cps_def central_Run_def
      NewCentralBus_def NewDCNFromConf_def NewAsicRegistry_def build_root_def empty_topology_def Let_def new_node_def gm_empty_def)

end
