(* ===== verification/Spec2Isabelle.thy ===== *)
theory Spec2Isabelle
  imports Codec_Correct VC_Correct Ports_Correct Topology_Correct Health_Correct Central_Correct Replica_Correct Worker_Ranges
    Horus_Packet Rpc_Broadcast Leaf_CP_Correct Leaf_CP_Idle Leaf_Bus_Correct Spine_Bus_Correct Leaf_Start_Correct
    Central_Bus_Correct Switch_Manager_Correct
    Node_Requests_Correct Spine_Start_Correct Topo_Debug Sockets Config_Files
begin

text \<open>
  A model of the Horus controllers (horus\_controller, Go), with the theorems that make it correct.

  \<^bold>\<open>The program.\<close> Horus schedules tasks on the workers of a data centre inside its switches. The controllers keep the
  switches informed. One central controller (ctrl\_central) has the topology, a tree of spines, leaves and servers,
  and the virtual clusters on it; operators and servers add and remove leaves, servers and clusters by gRPC requests.
  On every switch a manager (ctrl\_mgr) runs one controller per spine or leaf that the switch plays; each has a copy of
  the topology and of its clusters, takes the same requests from the controller above, and writes the tables and
  registers of the data plane through a BfRt client. A leaf controller also watches the pings of its servers and takes
  the silent ones out. A server has a block of consecutive worker IDs within its leaf and a leaf has an index within
  its spine; removals renumber both, and the copies and the switches have to follow.

  \<^bold>\<open>Theories and code.\<close>
  \<^item> \<open>Horus_Prelude\<close>, \<open>Go_Maps\<close>, \<open>Go_Strings\<close>: Go itself. A call ends in \<open>Ret\<close>, \<open>Panic\<close> or \<open>Fatal\<close> (\<open>go\<close>), a nil pointer is
    \<open>None\<close> and \<open>deref\<close> panics on it, errors are values of \<open>go_error\<close>, integers have their width (\<open>u16\<close> to \<open>u64\<close>). The locale
    \<open>go_map\<close> states what the callers rely on of the locked maps, the order of \<open>range\<close> is an argument; the locale
    \<open>invariant\<close> is what every property over sequences of steps rests on.
  \<^item> \<open>Config_Messages\<close>, \<open>Messages\<close>, \<open>Config_Files\<close>: protobuf/message.proto, core/net/messages.go, core/model/config.go and
    ctrl\_mgr/config.go.
  \<^item> \<open>Ports\<close>, \<open>Asics\<close>: core/model/port.go and asic.go. \<open>Nodes\<close>, \<open>Topology_Ops\<close>, \<open>Topo_Codec\<close>: core/model/node.go and
    topology.go. \<open>Virtual_Cluster\<close>, \<open>VC_Manager\<close>: core/model/vc.go and core/vcManager.go. Shared objects live in stores
    (locale \<open>ref_store\<close>) and pointers are positions, so that an update through one pointer is seen through all.
  \<^item> \<open>Health\<close>: core/leafHealthManager.go and spineHealthManager.go.
  \<^item> \<open>Central_Server\<close>, \<open>Node_Servers\<close>: the four gRPC servers, core/net/topologyServer\_*.go; \<open>Rpc_Endpoints\<close>: the loops
    that call the other controllers, core/net/rpc\_endpoint\_*.go; \<open>Horus_Packet\<close>: core/net/horus\_pkt.go; \<open>Sockets\<close>:
    raw\_sock\_client.go and unix\_sock\_client.go.
  \<^item> \<open>Bfrt_Client\<close>, \<open>Leaf_CP\<close>, \<open>Spine_CP\<close>, \<open>Control_Planes\<close>: ctrl\_mgr/cp.go, all versions. \<open>Event_Buses\<close>: leafBus.go and
    spineBus.go. \<open>Node_Controllers\<close>: controller.go. \<open>Switch_Manager\<close>: manager.go and asic.go, with
    core/model/byte\_chan\_map.go.
  \<^item> \<open>Central_Bus\<close>: ctrl\_central/cp.go, bus.go and controller.go.

  A channel is the list of the messages in it or sent to it; a goroutine's loop is one function per message, and the
  interleavings are sequences of steps: \<open>topo_step\<close>, \<open>central_step\<close>, \<open>health_step\<close>, \<open>leaf_step\<close>, \<open>mgr_step\<close>,
  \<open>spine_step\<close>, \<open>leaf_srv_step\<close>, \<open>system_step\<close>, \<open>fitting_step\<close>.

  \<^bold>\<open>What is proved.\<close>
  \<^item> The topology (\<open>Topology_Inv\<close>, \<open>Topology_Props\<close>, \<open>Topology_Correct\<close>): \<open>wf_topo\<close>, a tree with consistent maps, is kept by
    every operation, the worker IDs stay laid out without gaps, and each operation does what it should and no more.
    \<open>Topo_Build\<close>, \<open>Ports_Correct\<close> and \<open>Codec_Correct\<close>: so does the construction from a configuration or a message, and the
    encoding is faithful. \<open>Topo_Debug\<close>: the walk that the event loops make for their log returns, so it is left out of them.
  \<^item> The clusters (\<open>VC_Correct\<close>, locale \<open>server_failure\<close> in \<open>Fail_Over\<close>): the two indices are exact, and failures empty them.
  \<^item> The abstract data centre (\<open>Topo_Spec\<close>, \<open>Replicas\<close>, \<open>Replica_Correct\<close>; locale \<open>simulation\<close>, which extends \<open>invariant\<close>): spines
    with their leaves and the numbers of workers, no IDs of workers and no indices. The operations refine it, and
    replaying the requests of a run with their answers on it (\<open>central_event\<close>, \<open>spec_request\<close>, \<open>replay\<close>) ends in the abstraction
    of the final state. The controllers have copies of different parts: where two copies have the same servers of a leaf,
    they have the same worker IDs. A failure of a server in use brings the copies of central, spine and leaf controller
    together again, one of an unused server does not. \<open>Worker_Ranges\<close>: over a run of requests the servers of a leaf
    never share a worker ID, but for the two cases that the code gets wrong.
  \<^item> The central controller starts in its invariant (\<open>Central_Start_Correct\<close>) and its requests keep it (\<open>Server_Correct\<close>), as
    those of the spine and leaf controllers do (\<open>Node_Requests_Correct\<close>); what the requests do and send
    (\<open>Central_Correct\<close>, \<open>Rpc_Correct\<close>, \<open>Rpc_Broadcast\<close>).
  \<^item> The leaf controller, end to end: \<open>Leaf_Start_Correct\<close> establishes \<open>bus_ok\<close>, that its state is consistent and the switch
    forwards every worker's tasks to its server; \<open>Leaf_Bus_Correct\<close> keeps it through pings, failures and their messages. It
    says nothing of the entries of workers that are gone, which the code never deletes. On
    \<open>Health_Correct\<close>, \<open>Leaf_CP_Correct\<close> and \<open>Leaf_CP_Idle\<close>.
  \<^item> The spine controller, end to end: \<open>Spine_Start_Correct\<close> gives what its start puts into an empty switch and establishes
    \<open>system_ok\<close>; \<open>Spine_System\<close> composes its server, end point and bus and keeps \<open>system_ok\<close> in every interleaving, so that
    the switch has the leaves of the topology whenever the channels are quiet (entries of failed leaves stay, and with no
    leaf left the handler's return depends on the client); both on \<open>Spine_Maps_Correct\<close>, for version 1. Version 2 is in
    \<open>Spine_CP_Correct\<close>; leaves that wait for their first server are in \<open>Spine_Bus_Correct\<close>, for both versions.
  \<^item> The ports (\<open>Central_Bus_Correct\<close>), and the way of a packet to its controller while leaves come and go
    (\<open>Switch_Manager_Correct\<close>, invariant \<open>mgr_ok\<close>), on runs in which no leaf ID is managed twice at a time (\<open>one_each\<close>);
    the manager does not check that, and \<open>shared_ID_is_lost\<close> shows what happens otherwise.

  \<^bold>\<open>Termination.\<close> The loop of \<open>RemoveLeaf\<close> and the loop over the worker IDs of a server may not end: they are
  \<open>partial_function (option)\<close>, \<open>None\<close> is not returning, and there are theorems on when they do and when they do not.
  There is no fuel. The only bounded search is the code's own: ten trials to connect a socket.

  \<^bold>\<open>What is outside.\<close> Code that is not in the repository is an argument of the definitions: the BfRt client (a \<open>bfrt\<close> record;
  \<open>bfrt_ok\<close> says that it reads what was written, with tables large enough and 16 bits of register indices, \<open>port_api\<close>
  and \<open>api_ok\<close> the same for ports), gRPC and its pools
  (\<open>grpc\<close>; \<open>network_up\<close>), gopacket (\<open>buffer_ok\<close>, the serialiser and parser of the buses), \<open>net.Listen\<close>, viper, the operating
  system's sockets, and the order in which a map is visited (\<open>is_order\<close>). Each hypothesis is shown to hold for a concrete
  function in the witnesses.

  \<^bold>\<open>Not modelled.\<close> Log output, pauses, timers and signals; data races, because a handler is one step (the findings in
  the manifest name those that can be seen in the code); the capacity of channels; a leaf bus that
  sends on the closed egress channel of its controller; the start of a spine's control plane beside its running bus (it is
  finished before the bus takes an event); cmd/dummy, a manual client, main.go, an
  experiment, the flags of cmd/manager, and core/ctrl\_status.go, whose values nothing reads; the dump of the statistics
  to a file.
\<close>

end
